(* ===== verification/Prelude.thy ===== *)
theory Prelude
  imports Complex_Main
begin

text \<open>
  Shared vocabulary of the development: the results of Go calls that may fail or panic,
  Go's 64-bit integers, float64 comparisons, instants and durations, the interface of the
  decimal package the control plane imports, and the facts about them that several
  components use.
\<close>

section \<open>Collections of facts\<close>

named_theorems go_simps \<open>evaluation of the Go vocabulary: wrap-around, durations, results\<close>
named_theorems inv_intros \<open>operations that keep the invariant of their component\<close>

section \<open>Results of Go calls\<close>

text \<open>
  A Go call of type \<open>(T, error)\<close> returns a value, returns an error, panics, or does not
  return. The panics that matter here are divisions by a zero decimal.
\<close>

datatype ('e, 'a) outcome = Ok 'a | Err 'e | Panic | Diverge

definition bind_outcome :: "('e, 'a) outcome \<Rightarrow> ('a \<Rightarrow> ('e, 'b) outcome) \<Rightarrow> ('e, 'b) outcome" where
  "bind_outcome r k = (case r of Ok a \<Rightarrow> k a | Err e \<Rightarrow> Err e
      | Panic \<Rightarrow> Panic | Diverge \<Rightarrow> Diverge)"

lemma bind_outcome_simps [simp, go_simps]:
  "bind_outcome (Ok a) k = k a"
  "bind_outcome (Err e) k = Err e"
  "bind_outcome Panic k = Panic"
  "bind_outcome Diverge k = Diverge"
  by (simp_all add: bind_outcome_def)

lemma bind_outcome_eq_Ok:
  "bind_outcome r k = Ok b \<longleftrightarrow> (\<exists>a. r = Ok a \<and> k a = Ok b)"
  by (cases r) auto

lemma bind_outcome_eq_Panic:
  "bind_outcome r k = Panic \<longleftrightarrow> r = Panic \<or> (\<exists>a. r = Ok a \<and> k a = Panic)"
  by (cases r) auto

text \<open>A call returns a value that meets \<open>P\<close>: it neither panics, nor diverges, nor ends in an error.\<close>

definition returns :: "('e, 'a) outcome \<Rightarrow> ('a \<Rightarrow> bool) \<Rightarrow> bool" where
  "returns r P \<longleftrightarrow> (case r of Ok a \<Rightarrow> P a | _ \<Rightarrow> False)"

lemma returns_simps [simp, go_simps]:
  "returns (Ok a) P = P a" "returns (Err e) P = False" "returns Panic P = False"
  "returns Diverge P = False"
  by (simp_all add: returns_def)

lemma returns_iff: "returns r P \<longleftrightarrow> (\<exists>a. r = Ok a \<and> P a)"
  by (cases r) auto

lemma returns_bind:
  "returns r Q \<Longrightarrow> (\<And>a. Q a \<Longrightarrow> returns (k a) P) \<Longrightarrow> returns (bind_outcome r k) P"
  by (cases r) auto

lemma returns_mono: "returns r Q \<Longrightarrow> (\<And>a. Q a \<Longrightarrow> P a) \<Longrightarrow> returns r P"
  by (cases r) auto

text \<open>A loop whose body may fail: it stops at the first result that is not a value.\<close>

fun fold_ok :: "('a \<Rightarrow> 'x \<Rightarrow> ('e, 'a) outcome) \<Rightarrow> 'x list \<Rightarrow> 'a \<Rightarrow> ('e, 'a) outcome" where
  "fold_ok f [] a = Ok a"
| "fold_ok f (x # xs) a = bind_outcome (f a x) (fold_ok f xs)"

lemma fold_ok_inv:
  assumes step: "\<And>a x b. P a \<Longrightarrow> x \<in> set xs \<Longrightarrow> f a x = Ok b \<Longrightarrow> P b"
    and P: "P a" and run: "fold_ok f xs a = Ok b"
  shows "P b"
  using P run step
proof (induction xs arbitrary: a)
  case Nil
  then show ?case by simp
next
  case (Cons x xs)
  show ?case
  proof (cases "f a x")
    case (Ok c)
    have "P c" by (rule Cons.prems(3) [OF Cons.prems(1) _ Ok]) simp
    moreover have "fold_ok f xs c = Ok b" using Cons.prems(2) Ok by simp
    moreover have "P b'" if "P a'" "y \<in> set xs" "f a' y = Ok b'" for a' y b'
      by (rule Cons.prems(3) [OF that(1) _ that(3)]) (simp add: that(2))
    ultimately show ?thesis by (rule Cons.IH)
  qed (use Cons.prems(2) in simp_all)
qed

lemma fold_ok_append:
  "fold_ok f (xs @ ys) a = bind_outcome (fold_ok f xs a) (fold_ok f ys)"
proof (induction xs arbitrary: a)
  case (Cons x xs)
  then show ?case by (cases "f a x") simp_all
qed simp

section \<open>Go integers\<close>

text \<open>Go's \<open>int\<close> and \<open>int64\<close>: two's complement, 64 bits, silent wrap-around.\<close>

definition wrap64 :: "int \<Rightarrow> int" where
  "wrap64 x = (x + 2 ^ 63) mod 2 ^ 64 - 2 ^ 63"

definition is_i64 :: "int \<Rightarrow> bool" where
  "is_i64 x \<longleftrightarrow> - (2 ^ 63) \<le> x \<and> x < 2 ^ 63"

lemma wrap64_id [simp]: "is_i64 x \<Longrightarrow> wrap64 x = x"
  by (simp add: wrap64_def is_i64_def)

lemma is_i64_wrap64: "is_i64 (wrap64 x)"
proof -
  have "0 \<le> (x + 2 ^ 63) mod 2 ^ 64" and "(x + 2 ^ 63) mod 2 ^ 64 < (2::int) ^ 64"
    by simp_all
  then show ?thesis by (simp add: wrap64_def is_i64_def)
qed

section \<open>Instants and durations\<close>

text \<open>
  An instant (\<open>time.Time\<close>) is its distance from the Unix epoch in nanoseconds; a
  \<open>time.Duration\<close> is an int64 count of nanoseconds. \<open>Time.Sub\<close> saturates.
\<close>

type_synonym instant = int
type_synonym duration = int

definition second :: duration where "second = 1000000000"

definition max_duration :: duration where "max_duration = 2 ^ 63 - 1"
definition min_duration :: duration where "min_duration = - (2 ^ 63)"

definition time_sub :: "instant \<Rightarrow> instant \<Rightarrow> duration" where
  "time_sub t u = max min_duration (min max_duration (t - u))"

lemma time_sub_exact: "is_i64 (t - u) \<Longrightarrow> time_sub t u = t - u"
  by (auto simp: time_sub_def is_i64_def max_duration_def min_duration_def)

lemma time_sub_gt_iff:
  "min_duration \<le> d \<Longrightarrow> d < max_duration \<Longrightarrow> d < time_sub t u \<longleftrightarrow> d < t - u"
  by (auto simp: time_sub_def max_duration_def min_duration_def)

lemma time_sub_ge_iff:
  "min_duration < d \<Longrightarrow> d \<le> max_duration \<Longrightarrow> d \<le> time_sub t u \<longleftrightarrow> d \<le> t - u"
  by (auto simp: time_sub_def max_duration_def min_duration_def)

section \<open>float64\<close>

text \<open>
  The program only compares float64 values. A finite float64 is the rational it stands for;
  every comparison with NaN is false.
\<close>

datatype float64 = NaN | NegInf | Fin rat | PosInf

fun flt :: "float64 \<Rightarrow> float64 \<Rightarrow> bool" where
  "flt NaN y = False"
| "flt x NaN = False"
| "flt NegInf y = (y \<noteq> NegInf)"
| "flt x NegInf = False"
| "flt (Fin a) (Fin b) = (a < b)"
| "flt (Fin a) PosInf = True"
| "flt PosInf y = False"

section \<open>The decimal package\<close>

text \<open>
  Money, prices and quantities are values of the third-party package shopspring/decimal,
  which is not part of the repository. Its values are a parameter of the model: a type
  \<open>'d\<close> of class \<^theory_text>\<open>linordered_field\<close>, whose addition, subtraction,
  multiplication, negation and comparisons stand for the exact operations the package
  documents for \<open>Add\<close>, \<open>Sub\<close>, \<open>Mul\<close>, \<open>Neg\<close>, \<open>Abs\<close>, \<open>Sign\<close>, \<open>Cmp\<close>. The operations that are
  not exact, and the conversions, are the fields of a record that every definition using
  them takes as an argument.
\<close>

record 'd dlib =
  dDiv :: "'d \<Rightarrow> 'd \<Rightarrow> 'd"          \<comment> \<open>\<open>Div\<close>, 16 digits after the point\<close>
  dRound :: "'d \<Rightarrow> nat \<Rightarrow> 'd"        \<comment> \<open>\<open>Round(places)\<close>\<close>
  dFloor :: "'d \<Rightarrow> 'd"              \<comment> \<open>\<open>Floor\<close>\<close>
  dCeil :: "'d \<Rightarrow> 'd"               \<comment> \<open>\<open>Ceil\<close>\<close>
  dString :: "'d \<Rightarrow> string"         \<comment> \<open>\<open>String\<close>\<close>
  dFromString :: "string \<Rightarrow> 'd option"  \<comment> \<open>\<open>NewFromString\<close>, None for its error\<close>
  dInexactFloat :: "'d \<Rightarrow> float64"  \<comment> \<open>\<open>InexactFloat64\<close>\<close>

text \<open>\<open>Div\<close> panics on a zero divisor, as the package documents.\<close>

definition ddiv :: "'d::linordered_field dlib \<Rightarrow> 'd \<Rightarrow> 'd \<Rightarrow> ('e, 'd) outcome" where
  "ddiv L a b = (if b = 0 then Panic else Ok (dDiv L a b))"

lemma ddiv_simps [simp, go_simps]:
  "b \<noteq> 0 \<Longrightarrow> ddiv L a b = Ok (dDiv L a b)"
  "ddiv L a 0 = Panic"
  by (simp_all add: ddiv_def)

text \<open>
  What the program relies on of the package, one predicate per operation; theorems that need
  one of them carry it as a named hypothesis. \<open>Div\<close> is within half a unit of the 16th digit
  and never changes the sign of a quotient; \<open>Round\<close> is within half a unit of the last digit
  kept, keeps multiples of it and is monotone.
\<close>

definition unit_of :: "nat \<Rightarrow> 'd::linordered_field" where
  "unit_of n = 1 / 10 ^ n"

definition div_documented :: "'d::linordered_field dlib \<Rightarrow> bool" where
  "div_documented L \<longleftrightarrow>
     (\<forall>a b. b \<noteq> 0 \<longrightarrow> \<bar>dDiv L a b - a / b\<bar> \<le> unit_of 16 / 2
        \<and> (0 \<le> a / b \<longrightarrow> 0 \<le> dDiv L a b) \<and> (a / b \<le> 0 \<longrightarrow> dDiv L a b \<le> 0))"

definition round_documented :: "'d::linordered_field dlib \<Rightarrow> bool" where
  "round_documented L \<longleftrightarrow>
     (\<forall>a n. \<bar>dRound L a n - a\<bar> \<le> unit_of n / 2 \<and> (\<exists>k::int. dRound L a n = of_int k * unit_of n))
     \<and> (\<forall>a b n. a \<le> b \<longrightarrow> dRound L a n \<le> dRound L b n)
     \<and> (\<forall>n k. dRound L (of_int k * unit_of n) n = of_int k * unit_of n)"

definition floor_documented :: "'d::linordered_field dlib \<Rightarrow> bool" where
  "floor_documented L \<longleftrightarrow>
     (\<forall>a. \<exists>k::int. dFloor L a = of_int k \<and> of_int k \<le> a \<and> a < of_int k + 1)
     \<and> (\<forall>a. \<exists>k::int. dCeil L a = of_int k \<and> of_int k - 1 < a \<and> a \<le> of_int k)"

lemma unit_of_pos [simp]: "0 < (unit_of n :: 'd::linordered_field)"
  by (simp add: unit_of_def)

lemma div_documented_nonneg:
  "div_documented L \<Longrightarrow> 0 \<le> a \<Longrightarrow> 0 < b \<Longrightarrow> 0 \<le> dDiv L a b"
  by (simp add: div_documented_def)

lemma div_documented_close:
  "div_documented L \<Longrightarrow> b \<noteq> 0 \<Longrightarrow> \<bar>dDiv L a b - a / b\<bar> \<le> unit_of 16 / 2"
  by (simp add: div_documented_def)

lemma round_zero: "round_documented L \<Longrightarrow> dRound L 0 n = 0"
  unfolding round_documented_def by (metis mult_zero_left of_int_0)

lemma round_mono: "round_documented L \<Longrightarrow> a \<le> b \<Longrightarrow> dRound L a n \<le> dRound L b n"
  by (simp add: round_documented_def)

lemma round_nonneg: "round_documented L \<Longrightarrow> 0 \<le> a \<Longrightarrow> 0 \<le> dRound L a n"
  using round_mono [of L 0 a n] by (simp add: round_zero)

lemma round_close: "round_documented L \<Longrightarrow> \<bar>dRound L a n - a\<bar> \<le> unit_of n / 2"
  by (simp add: round_documented_def)

lemma round_grid: "round_documented L \<Longrightarrow> \<exists>k::int. dRound L a n = of_int k * unit_of n"
  by (simp add: round_documented_def)

text \<open>
  A concrete package over the rationals, for the witnesses: half away from zero at the last
  digit kept. It meets every documented law above, so the hypotheses can hold.
\<close>

definition half_away :: "rat \<Rightarrow> rat" where
  "half_away x = (if 0 \<le> x then of_int \<lfloor>x + 1/2\<rfloor> else - of_int \<lfloor>- x + 1/2\<rfloor>)"

definition rat_round :: "rat \<Rightarrow> nat \<Rightarrow> rat" where
  "rat_round a n = half_away (a * 10 ^ n) * unit_of n"

definition rat_lib :: "rat dlib" where
  "rat_lib = \<lparr>dDiv = (\<lambda>a b. rat_round (a / b) 16), dRound = rat_round,
     dFloor = (\<lambda>a. of_int \<lfloor>a\<rfloor>), dCeil = (\<lambda>a. of_int \<lceil>a\<rceil>),
     dString = (\<lambda>_. []), dFromString = (\<lambda>_. None), dInexactFloat = Fin\<rparr>"

lemma floor_half:
  fixes x :: rat
  shows "x - 1/2 < of_int \<lfloor>x + 1/2\<rfloor>" "of_int \<lfloor>x + 1/2\<rfloor> \<le> x + 1/2"
  by linarith+

lemma half_away_close: "\<bar>half_away x - x\<bar> \<le> 1 / 2"
proof (cases "0 \<le> x")
  case True
  then show ?thesis
    using floor_half [of x] unfolding half_away_def by (simp only: if_True abs_le_iff) linarith
next
  case False
  then show ?thesis
    using floor_half [of "- x"] unfolding half_away_def
    by (simp only: if_False abs_le_iff) linarith
qed

lemma half_away_int [simp]: "half_away (of_int k) = of_int k"
proof -
  have a: "\<lfloor>of_int k + 1 / 2 :: rat\<rfloor> = k" and b: "\<lfloor>- of_int k + 1 / 2 :: rat\<rfloor> = - k"
    by (linarith, linarith)
  show ?thesis unfolding half_away_def a b by simp
qed

lemma half_away_mono:
  assumes "x \<le> y" shows "half_away x \<le> half_away y"
proof -
  consider "0 \<le> x" | "x < 0" "0 \<le> y" | "y < 0" using assms by linarith
  then show ?thesis
  proof cases
    case 1
    then show ?thesis using assms by (simp add: half_away_def floor_mono)
  next
    case 2
    then have "0 \<le> \<lfloor>y + 1/2\<rfloor>" and "0 \<le> \<lfloor>- x + 1/2\<rfloor>" by auto
    then have "(0::rat) \<le> of_int \<lfloor>y + 1/2\<rfloor>" and "(0::rat) \<le> of_int \<lfloor>- x + 1/2\<rfloor>"
      by (simp_all only: of_int_0_le_iff)
    then have "- of_int \<lfloor>- x + 1/2\<rfloor> \<le> (of_int \<lfloor>y + 1/2\<rfloor> :: rat)" by linarith
    with 2 show ?thesis unfolding half_away_def by simp
  next
    case 3
    then have "\<lfloor>- y + 1/2\<rfloor> \<le> \<lfloor>- x + 1/2\<rfloor>" using assms by (simp add: floor_mono)
    with 3 assms show ?thesis by (simp add: half_away_def)
  qed
qed

lemma half_away_sign:
  "0 \<le> x \<Longrightarrow> 0 \<le> half_away x" "x \<le> 0 \<Longrightarrow> half_away x \<le> 0"
  using half_away_mono [of 0 x] half_away_mono [of x 0] half_away_int [of 0] by simp_all

lemma rat_round_close: "\<bar>rat_round a n - a\<bar> \<le> unit_of n / 2"
proof -
  have "rat_round a n - a = (half_away (a * 10 ^ n) - a * 10 ^ n) * unit_of n"
    by (simp add: rat_round_def unit_of_def field_simps)
  then have "\<bar>rat_round a n - a\<bar> = \<bar>half_away (a * 10 ^ n) - a * 10 ^ n\<bar> * unit_of n"
    by (simp only: abs_mult abs_of_pos [OF unit_of_pos])
  also have "\<dots> \<le> 1 / 2 * unit_of n"
    by (rule mult_right_mono [OF half_away_close]) (simp add: less_imp_le)
  finally show ?thesis by simp
qed

lemma rat_round_sign:
  "0 \<le> a \<Longrightarrow> 0 \<le> rat_round a n" "a \<le> 0 \<Longrightarrow> rat_round a n \<le> 0"
  by (auto simp: rat_round_def unit_of_def half_away_sign mult_le_0_iff divide_le_0_iff)

lemma rat_lib_round: "round_documented rat_lib"
proof -
  have int: "\<exists>k::int. half_away x = of_int k" for x
    by (cases "0 \<le> x") (auto simp: half_away_def simp flip: of_int_minus)
  have grid: "\<exists>k::int. rat_round a n = of_int k * unit_of n" for a n
    using int [of "a * 10 ^ n"] by (auto simp: rat_round_def)
  have mono: "rat_round a n \<le> rat_round b n" if "a \<le> b" for a b n
    using that unfolding rat_round_def
    by (intro mult_right_mono half_away_mono) (simp_all add: less_imp_le)
  have fix_grid: "rat_round (of_int k * unit_of n) n = of_int k * unit_of n" for n k
    by (simp add: rat_round_def unit_of_def)
  have close: "\<bar>rat_round a n - a\<bar> * 2 \<le> unit_of n" for a n
    using rat_round_close [of a n] by simp
  show ?thesis
    by (simp add: round_documented_def rat_lib_def grid mono fix_grid close)
qed

lemma rat_lib_div: "div_documented rat_lib"
  using rat_round_close [of _ 16] rat_round_sign [of _ 16]
  by (simp add: div_documented_def rat_lib_def)

lemma rat_lib_floor: "floor_documented rat_lib"
proof -
  have "of_int \<lfloor>a\<rfloor> \<le> a \<and> a < of_int \<lfloor>a\<rfloor> + 1" for a :: rat by linarith
  moreover have "of_int \<lceil>a\<rceil> - 1 < a \<and> a \<le> of_int \<lceil>a\<rceil>" for a :: rat by linarith
  ultimately show ?thesis unfolding floor_documented_def rat_lib_def by fastforce
qed

end
