(* ===== verification/Contract.thy ===== *)
theory Contract
  imports Prelude
begin

text \<open>
  The TradeProposal / RiskVerdict contract (package \<open>internal/contract\<close>): the decimal and
  timestamp string forms, the proposal and verdict records, and the validation rules that are
  decidable from a proposal alone. Strings are byte lists, as Go's are. Error and violation
  texts are not modelled, only which error or violation code is produced.
\<close>

section \<open>Character classes and patterns\<close>

definition byte_of :: "char \<Rightarrow> nat" where
  "byte_of c = of_char c"

definition is_digit :: "char \<Rightarrow> bool" where
  "is_digit c \<longleftrightarrow> 48 \<le> byte_of c \<and> byte_of c \<le> 57"

definition is_hex :: "char \<Rightarrow> bool" where
  "is_hex c \<longleftrightarrow> is_digit c \<or> (97 \<le> byte_of c \<and> byte_of c \<le> 102)"

definition is_upper_alnum :: "char \<Rightarrow> bool" where
  "is_upper_alnum c \<longleftrightarrow> is_digit c \<or> (65 \<le> byte_of c \<and> byte_of c \<le> 90)"

text \<open>A fixed-width pattern is the list of its character classes.\<close>

fun matches_template :: "(char \<Rightarrow> bool) list \<Rightarrow> string \<Rightarrow> bool" where
  "matches_template [] s = (s = [])"
| "matches_template (q # qs) [] = False"
| "matches_template (q # qs) (c # s) = (q c \<and> matches_template qs s)"

definition chr :: "char \<Rightarrow> char \<Rightarrow> bool" where
  "chr d c \<longleftrightarrow> c = d"

definition uuidPattern :: "string \<Rightarrow> bool" where
  "uuidPattern = matches_template
     (replicate 8 is_hex @ [chr (CHR ''-'')] @ replicate 4 is_hex @ [chr (CHR ''-'')]
      @ replicate 4 is_hex @ [chr (CHR ''-'')] @ replicate 4 is_hex @ [chr (CHR ''-'')]
      @ replicate 12 is_hex)"

definition symbolPattern :: "string \<Rightarrow> bool" where
  "symbolPattern s =
     (let b = takeWhile is_upper_alnum s; r = dropWhile is_upper_alnum s
      in 2 \<le> length b \<and> length b \<le> 15
         \<and> (case r of [] \<Rightarrow> False
             | c # q \<Rightarrow> c = CHR ''/'' \<and> list_all is_upper_alnum q \<and> 2 \<le> length q \<and> length q \<le> 10))"

text \<open>The integer part \<open>(0|[1-9][0-9]*)\<close> is consumed first, then an optional fraction.\<close>

fun drop_int_part :: "string \<Rightarrow> string option" where
  "drop_int_part [] = None"
| "drop_int_part (c # s) =
     (if c = CHR ''0'' then Some s
      else if is_digit c then Some (dropWhile is_digit s) else None)"

fun frac_part :: "string \<Rightarrow> bool" where
  "frac_part [] = True"
| "frac_part (c # ds) = (c = CHR ''.'' \<and> ds \<noteq> [] \<and> list_all is_digit ds)"

definition decimalPattern :: "string \<Rightarrow> bool" where
  "decimalPattern s = (case drop_int_part s of None \<Rightarrow> False | Some r \<Rightarrow> frac_part r)"

fun signedDecimalPattern :: "string \<Rightarrow> bool" where
  "signedDecimalPattern [] = False"
| "signedDecimalPattern (c # s) =
     (if c = CHR ''-'' then decimalPattern s else decimalPattern (c # s))"

definition timestamp_template :: "(char \<Rightarrow> bool) list" where
  "timestamp_template =
     replicate 4 is_digit @ [chr (CHR ''-'')] @ replicate 2 is_digit @ [chr (CHR ''-'')]
     @ replicate 2 is_digit @ [chr (CHR ''T'')] @ replicate 2 is_digit @ [chr (CHR '':'')]
     @ replicate 2 is_digit @ [chr (CHR '':'')] @ replicate 2 is_digit"

text \<open>What follows the seconds: \<open>(\.[0-9]+)?Z\<close>; the result is the fraction's digits.\<close>

fun frac_zulu :: "string \<Rightarrow> string option" where
  "frac_zulu [] = None"
| "frac_zulu (c # s) =
     (if c = CHR ''Z'' \<and> s = [] then Some []
      else if c = CHR ''.'' \<and> takeWhile is_digit s \<noteq> [] \<and> dropWhile is_digit s = ''Z''
      then Some (takeWhile is_digit s) else None)"

definition timestampPattern :: "string \<Rightarrow> bool" where
  "timestampPattern s =
     (matches_template timestamp_template (take 19 s) \<and> frac_zulu (drop 19 s) \<noteq> None)"

section \<open>Decimals as strings\<close>

datatype contract_error = InvalidDecimal | InvalidSignedDecimal | InvalidTimestamp | DecimalError

record 'd cdecimal =
  cd_dec :: 'd
  cd_raw :: string

definition NewDecimal :: "'d dlib \<Rightarrow> 'd \<Rightarrow> 'd cdecimal" where
  "NewDecimal L d = \<lparr>cd_dec = d, cd_raw = dString L d\<rparr>"

definition ParseDecimal :: "'d dlib \<Rightarrow> string \<Rightarrow> (contract_error, 'd cdecimal) outcome" where
  "ParseDecimal L s =
     (if length s > 34 \<or> \<not> decimalPattern s then Err InvalidDecimal
      else case dFromString L s of None \<Rightarrow> Err DecimalError
           | Some d \<Rightarrow> Ok \<lparr>cd_dec = d, cd_raw = s\<rparr>)"

definition ParseSignedDecimal :: "'d dlib \<Rightarrow> string \<Rightarrow> (contract_error, 'd cdecimal) outcome" where
  "ParseSignedDecimal L s =
     (if length s > 35 \<or> \<not> signedDecimalPattern s then Err InvalidSignedDecimal
      else case dFromString L s of None \<Rightarrow> Err DecimalError
           | Some d \<Rightarrow> Ok \<lparr>cd_dec = d, cd_raw = s\<rparr>)"

section \<open>Timestamps\<close>

text \<open>
  Civil dates of the proleptic Gregorian calendar, as Go's \<open>time\<close> computes them: days before
  a year, days before a month, and the day of the Unix epoch.
\<close>

definition leap_year :: "int \<Rightarrow> bool" where
  "leap_year y \<longleftrightarrow> y mod 4 = 0 \<and> (y mod 100 \<noteq> 0 \<or> y mod 400 = 0)"

definition days_before_year :: "int \<Rightarrow> int" where
  "days_before_year y = 365 * y + (y + 3) div 4 - (y + 99) div 100 + (y + 399) div 400"

fun month_lengths :: "bool \<Rightarrow> int list" where
  "month_lengths leap = [31, if leap then 29 else 28, 31, 30, 31, 30, 31, 31, 30, 31, 30, 31]"

definition days_in_month :: "int \<Rightarrow> int \<Rightarrow> int" where
  "days_in_month y m = month_lengths (leap_year y) ! nat (m - 1)"

definition days_before_month :: "int \<Rightarrow> int \<Rightarrow> int" where
  "days_before_month y m = sum_list (take (nat (m - 1)) (month_lengths (leap_year y)))"

definition unix_days :: "int \<Rightarrow> int \<Rightarrow> int \<Rightarrow> int" where
  "unix_days y m d = days_before_year y + days_before_month y m + (d - 1) - days_before_year 1970"

fun digits_value :: "int \<Rightarrow> string \<Rightarrow> int" where
  "digits_value acc [] = acc"
| "digits_value acc (c # cs) = digits_value (10 * acc + (int (byte_of c) - 48)) cs"

definition num_field :: "nat \<Rightarrow> nat \<Rightarrow> string \<Rightarrow> int" where
  "num_field i n s = digits_value 0 (take n (drop i s))"

text \<open>Nanoseconds of a fraction: the first nine digits, scaled.\<close>

definition frac_nanos :: "string \<Rightarrow> int" where
  "frac_nanos ds = digits_value 0 (take 9 ds) * 10 ^ (9 - length (take 9 ds))"

text \<open>\<open>time.Parse(time.RFC3339Nano, s)\<close> on strings of the pattern above.\<close>

definition parse_rfc3339 :: "string \<Rightarrow> instant option" where
  "parse_rfc3339 s =
     (let y = num_field 0 4 s; mo = num_field 5 2 s; d = num_field 8 2 s;
          h = num_field 11 2 s; mi = num_field 14 2 s; sec = num_field 17 2 s
      in case frac_zulu (drop 19 s) of None \<Rightarrow> None
         | Some ds \<Rightarrow>
             if 1 \<le> mo \<and> mo \<le> 12 \<and> 1 \<le> d \<and> d \<le> days_in_month y mo \<and> h \<le> 23 \<and> mi \<le> 59 \<and> sec \<le> 59
             then Some ((((unix_days y mo d * 24 + h) * 60 + mi) * 60 + sec) * second + frac_nanos ds)
             else None)"

record utctime =
  ut_t :: instant
  ut_raw :: string

definition ParseUTCTime :: "string \<Rightarrow> (contract_error, utctime) outcome" where
  "ParseUTCTime s =
     (if length s > 35 \<or> \<not> timestampPattern s then Err InvalidTimestamp
      else case parse_rfc3339 s of None \<Rightarrow> Err InvalidTimestamp
           | Some t \<Rightarrow> Ok \<lparr>ut_t = t, ut_raw = s\<rparr>)"

section \<open>Counting code points\<close>

text \<open>
  \<open>utf8.RuneCountInString\<close>: an invalid byte counts as one rune of width one. The table gives
  the width and the range of the second byte for each leading byte.
\<close>

definition utf8_lead :: "nat \<Rightarrow> (nat \<times> nat \<times> nat) option" where
  "utf8_lead c =
     (if 194 \<le> c \<and> c \<le> 223 then Some (2, 128, 191)
      else if c = 224 then Some (3, 160, 191)
      else if c = 237 then Some (3, 128, 159)
      else if 225 \<le> c \<and> c \<le> 239 then Some (3, 128, 191)
      else if c = 240 then Some (4, 144, 191)
      else if 241 \<le> c \<and> c \<le> 243 then Some (4, 128, 191)
      else if c = 244 then Some (4, 128, 143)
      else None)"

definition utf8_cont :: "nat \<Rightarrow> bool" where
  "utf8_cont c \<longleftrightarrow> 128 \<le> c \<and> c \<le> 191"

fun rune_width :: "nat list \<Rightarrow> nat" where
  "rune_width [] = 0"
| "rune_width (c # r) =
     (if c < 128 then 1
      else case utf8_lead c of None \<Rightarrow> 1
           | Some (sz, lo, hi) \<Rightarrow>
               if Suc (length r) < sz \<or> r ! 0 < lo \<or> hi < r ! 0 then 1
               else if sz = 2 then 2
               else if \<not> utf8_cont (r ! 1) then 1
               else if sz = 3 then 3
               else if \<not> utf8_cont (r ! 2) then 1
               else 4)"

lemma rune_width_pos: "xs \<noteq> [] \<Longrightarrow> 0 < rune_width xs"
  by (cases xs) (auto split: option.splits)

function rune_count_bytes :: "nat list \<Rightarrow> nat" where
  "rune_count_bytes [] = 0"
| "rune_count_bytes (c # r) = Suc (rune_count_bytes (drop (rune_width (c # r)) (c # r)))"
  by pat_completeness auto
termination
proof (relation "measure length")
  fix c :: nat and r :: "nat list"
  have "0 < rune_width (c # r)" by (rule rune_width_pos) simp
  then show "(drop (rune_width (c # r)) (c # r), c # r) \<in> measure length"
    by (simp del: rune_width.simps)
qed simp

declare rune_count_bytes.simps(2) [simp del]

definition RuneCountInString :: "string \<Rightarrow> nat" where
  "RuneCountInString s = rune_count_bytes (map byte_of s)"

text \<open>
  The encoding of a Unicode scalar value, and the count of an encoded text: the caps of the
  contract count code points.
\<close>

definition scalar_value :: "nat \<Rightarrow> bool" where
  "scalar_value u \<longleftrightarrow> u < 55296 \<or> (57344 \<le> u \<and> u < 1114112)"

definition utf8_encode :: "nat \<Rightarrow> nat list" where
  "utf8_encode u =
     (if u < 128 then [u]
      else if u < 2048 then [192 + u div 64, 128 + u mod 64]
      else if u < 65536 then [224 + u div 4096, 128 + u div 64 mod 64, 128 + u mod 64]
      else [240 + u div 262144, 128 + u div 4096 mod 64, 128 + u div 64 mod 64, 128 + u mod 64])"

lemma rune_width_encode:
  assumes "scalar_value u"
  shows "rune_width (utf8_encode u @ rest) = length (utf8_encode u)"
proof -
  consider "u < 128" | "128 \<le> u" "u < 2048" | "2048 \<le> u" "u < 65536" | "65536 \<le> u"
    by (meson not_less)
  then show ?thesis
  proof cases
    case 1 then show ?thesis by (simp add: utf8_encode_def)
  next
    case 2
    then have "2 \<le> u div 64" "u div 64 < 32" "u mod 64 < 64" by auto
    with 2 show ?thesis by (simp add: utf8_encode_def utf8_lead_def)
  next
    case 3
    define a b c where "a = u div 4096" "b = u div 64 mod 64" "c = u mod 64"
    have "u div 4096 = u div 64 div 64" by (simp flip: div_mult2_eq)
    then have "u = 4096 * a + 64 * b + c"
      using mult_div_mod_eq [of 64 u] mult_div_mod_eq [of 64 "u div 64"]
      unfolding a_b_c_def by linarith
    moreover have "a < 16" "b < 64" "c < 64"
      using 3 unfolding a_b_c_def by auto
    moreover have "a = 0 \<longrightarrow> 32 \<le> b" "a = 13 \<longrightarrow> b < 32"
      using calculation 3 assms unfolding scalar_value_def by linarith+
    moreover have e: "utf8_encode u = [224 + a, 128 + b, 128 + c]"
      using 3 by (simp add: utf8_encode_def a_b_c_def)
    ultimately show ?thesis unfolding e by (auto simp: utf8_lead_def utf8_cont_def)
  next
    case 4
    define a b c d where "a = u div 262144" "b = u div 4096 mod 64" "c = u div 64 mod 64" "d = u mod 64"
    have lt: "u < 1114112" using assms 4 by (auto simp: scalar_value_def)
    have "u div 4096 = u div 64 div 64" "u div 262144 = u div 4096 div 64"
      by (simp_all flip: div_mult2_eq)
    then have "u = 262144 * a + 4096 * b + 64 * c + d"
      using mult_div_mod_eq [of 64 u] mult_div_mod_eq [of 64 "u div 64"]
        mult_div_mod_eq [of 64 "u div 4096"] unfolding a_b_c_d_def by linarith
    moreover have "a < 5" "b < 64" "c < 64" "d < 64"
      using lt unfolding a_b_c_d_def by auto
    moreover have "a = 0 \<longrightarrow> 16 \<le> b" "a = 4 \<longrightarrow> b < 16"
      using calculation 4 lt by linarith+
    moreover have e: "utf8_encode u = [240 + a, 128 + b, 128 + c, 128 + d]"
      using 4 by (simp add: utf8_encode_def a_b_c_d_def)
    ultimately show ?thesis unfolding e by (auto simp: utf8_lead_def utf8_cont_def)
  qed
qed

lemma rune_count_encode:
  "list_all scalar_value us \<Longrightarrow> rune_count_bytes (concat (map utf8_encode us)) = length us"
proof (induction us)
  case Nil show ?case by simp
next
  case (Cons u us)
  obtain c r where cr: "utf8_encode u = c # r"
    by (cases "utf8_encode u") (auto simp: utf8_encode_def split: if_splits)
  let ?t = "concat (map utf8_encode us)"
  have w: "rune_width (c # r @ ?t) = length (c # r)"
    using rune_width_encode [of u ?t] Cons.prems cr by simp
  have "rune_count_bytes (c # r @ ?t) = Suc (rune_count_bytes (drop (rune_width (c # r @ ?t)) (c # r @ ?t)))"
    by (rule rune_count_bytes.simps(2))
  also have "\<dots> = Suc (rune_count_bytes ?t)" unfolding w by simp
  finally show ?case using Cons cr by simp
qed



section \<open>Proposals and verdicts\<close>

datatype code =
    CodeSchemaInvalid | CodeUnsupportedSchemaVersion | CodeIdempotencyConflict
  | CodeKillSwitchActive | CodeProposalStale | CodeMarkPriceUnavailable
  | CodeDailyLossLimitBreached | CodeMaxDrawdownBreached | CodeSymbolNotWhitelisted
  | CodeMissingStopLoss | CodeInvalidStopPlacement | CodeInvalidTakeProfit | CodeInvalidSize
  | CodeLowConfidence | CodeRiskPerTradeExceeded | CodeOrderRateExceeded
  | CodeMaxPositionsReached | CodeNotionalCapZero | CodeNotionalCapClipped
  | CodeEscalatedAboveEnvelope

text \<open>Actions, entry types and signals are Go strings: any other string can occur too.\<close>

type_synonym action = string

definition SchemaVersion :: string where "SchemaVersion = ''1.0''"

abbreviation ActionOpenLong :: action where "ActionOpenLong \<equiv> ''open_long''"
abbreviation ActionOpenShort :: action where "ActionOpenShort \<equiv> ''open_short''"
abbreviation ActionClose :: action where "ActionClose \<equiv> ''close''"
abbreviation ActionHold :: action where "ActionHold \<equiv> ''hold''"

definition IsOpen :: "action \<Rightarrow> bool" where
  "IsOpen a \<longleftrightarrow> a = ActionOpenLong \<or> a = ActionOpenShort"

record 'd entry =
  en_Type :: string
  en_LimitPrice :: "'d cdecimal option"

record analyst_summary =
  as_Signal :: string
  as_Confidence :: float64
  as_Summary :: string

record analyst_summaries =
  as_Market :: analyst_summary
  as_News :: analyst_summary
  as_Fundamental :: analyst_summary

record 'd model_cost =
  mc_Node :: string
  mc_Model :: string
  mc_InputTokens :: int
  mc_OutputTokens :: int
  mc_CostUSD :: "'d cdecimal"

record 'd proposal =
  p_SchemaVersion :: string
  p_ProposalID :: string
  p_StrategyID :: string
  p_AgentTraceID :: string
  p_CreatedAt :: utctime
  p_Symbol :: string
  p_Action :: action
  p_SizeQuote :: "'d cdecimal"
  p_Entry :: "'d entry"
  p_StopLoss :: "'d cdecimal option"
  p_TakeProfit :: "'d cdecimal option"
  p_TimeInForce :: string
  p_Confidence :: float64
  p_Reasoning :: string
  p_AnalystSummaries :: analyst_summaries
  p_DebateSummary :: string
  p_ModelCosts :: "'d model_cost list"

datatype decision = DecisionApprove | DecisionReject | DecisionClip | DecisionEscalate

record 'd limits_snapshot =
  sn_SymbolWhitelist :: "string list"
  sn_MaxOpenPositions :: int
  sn_PerPositionNotionalCapQuote :: "'d cdecimal"
  sn_DailyLossLimitQuote :: "'d cdecimal"
  sn_MaxDrawdownPct :: float64
  sn_MaxOrdersPerMinute :: int
  sn_RequireStopLoss :: bool
  sn_L2MaxSizeQuote :: "'d cdecimal option"
  sn_L2AllowedSymbols :: "string list"
  sn_EquityQuote :: "'d cdecimal"
  sn_PeakEquityQuote :: "'d cdecimal"
  sn_DailyRealizedPnlQuote :: "'d cdecimal"
  sn_OpenPositionsCount :: int
  sn_PendingEntryOrdersCount :: int
  sn_MarkPrice :: "'d cdecimal"

record 'd verdict =
  v_SchemaVersion :: string
  v_VerdictID :: string
  v_ProposalID :: string
  v_Decision :: decision
  v_ClippedSizeQuote :: "'d cdecimal option"
  v_Reasons :: "code list"
  v_LimitsSnapshot :: "'d limits_snapshot"
  v_EvaluatedAt :: instant

section \<open>Validation\<close>

text \<open>
  \<open>vs = append(vs, violation(code, ...))\<close> under a condition; a violation is its code.
\<close>

definition violate :: "bool \<Rightarrow> code \<Rightarrow> code list" where
  "violate b c = (if b then [c] else [])"

lemma violate_Nil [simp]: "violate b c = [] \<longleftrightarrow> \<not> b"
  by (simp add: violate_def)

lemma set_violate [simp]: "set (violate b c) = (if b then {c} else {})"
  by (simp add: violate_def)

definition CheckStopAndTarget ::
  "action \<Rightarrow> 'd::linordered_field \<Rightarrow> 'd \<Rightarrow> 'd cdecimal option \<Rightarrow> code list" where
  "CheckStopAndTarget action entry stop takeProfit =
     (if entry \<le> 0 then [CodeInvalidStopPlacement]
      else if action = ActionOpenLong then
        violate (\<not> stop < entry) CodeInvalidStopPlacement
        @ (case takeProfit of None \<Rightarrow> []
           | Some tp \<Rightarrow> violate (\<not> entry < cd_dec tp) CodeInvalidTakeProfit)
      else if action = ActionOpenShort then
        violate (\<not> entry < stop) CodeInvalidStopPlacement
        @ (case takeProfit of None \<Rightarrow> []
           | Some tp \<Rightarrow> violate (\<not> cd_dec tp < entry) CodeInvalidTakeProfit)
      else [])"

definition outside_unit :: "float64 \<Rightarrow> bool" where
  "outside_unit c \<longleftrightarrow> flt c (Fin 0) \<or> flt (Fin 1) c"

definition validate_summary :: "analyst_summary \<Rightarrow> code list" where
  "validate_summary s =
     violate (as_Signal s \<notin> {''bullish'', ''bearish'', ''neutral''}) CodeSchemaInvalid
     @ violate (outside_unit (as_Confidence s)) CodeSchemaInvalid
     @ violate (RuneCountInString (as_Summary s) > 2000) CodeSchemaInvalid"

definition validateSummaries :: "analyst_summaries \<Rightarrow> code list" where
  "validateSummaries s =
     concat (map validate_summary [as_Market s, as_News s, as_Fundamental s])"

definition validateModelCosts :: "'d model_cost list \<Rightarrow> code list" where
  "validateModelCosts costs =
     violate (length costs > 32) CodeSchemaInvalid
     @ concat (map (\<lambda>c.
         violate (RuneCountInString (mc_Node c) > 64 \<or> RuneCountInString (mc_Model c) > 64)
           CodeSchemaInvalid
         @ violate (mc_InputTokens c < 0 \<or> mc_OutputTokens c < 0) CodeSchemaInvalid) costs)"

definition validateEntry :: "'d entry \<Rightarrow> code list" where
  "validateEntry e =
     (if en_Type e = ''limit'' then violate (en_LimitPrice e = None) CodeSchemaInvalid
      else if en_Type e = ''market'' then violate (en_LimitPrice e \<noteq> None) CodeSchemaInvalid
      else [CodeSchemaInvalid])"

definition validateOrderFields :: "'d::linordered_field proposal \<Rightarrow> code list" where
  "validateOrderFields p =
     validateEntry (p_Entry p)
     @ (if IsOpen (p_Action p)
        then violate (p_StopLoss p = None) CodeMissingStopLoss
             @ violate (cd_dec (p_SizeQuote p) \<le> 0) CodeInvalidSize
        else violate (p_StopLoss p \<noteq> None) CodeSchemaInvalid
             @ violate (p_TakeProfit p \<noteq> None) CodeSchemaInvalid
             @ violate (p_Action p = ActionHold \<and> cd_dec (p_SizeQuote p) \<noteq> 0) CodeInvalidSize)
     @ (case (en_LimitPrice (p_Entry p), p_StopLoss p) of
          (Some lp, Some sl) \<Rightarrow>
            (if en_Type (p_Entry p) = ''limit''
             then CheckStopAndTarget (p_Action p) (cd_dec lp) (cd_dec sl) (p_TakeProfit p)
             else [])
        | _ \<Rightarrow> [])"

definition Validate :: "'d::linordered_field proposal \<Rightarrow> code list" where
  "Validate p =
     violate (p_SchemaVersion p \<noteq> SchemaVersion) CodeUnsupportedSchemaVersion
     @ concat (map (\<lambda>v. violate (\<not> uuidPattern v) CodeSchemaInvalid)
                 [p_ProposalID p, p_StrategyID p, p_AgentTraceID p])
     @ violate (ut_raw (p_CreatedAt p) = []) CodeSchemaInvalid
     @ violate (\<not> symbolPattern (p_Symbol p)) CodeSchemaInvalid
     @ violate (p_Action p \<notin> {ActionOpenLong, ActionOpenShort, ActionClose, ActionHold})
         CodeSchemaInvalid
     @ violate (p_TimeInForce p \<noteq> ''gtc'' \<and> p_TimeInForce p \<noteq> ''ioc'') CodeSchemaInvalid
     @ violate (outside_unit (p_Confidence p)) CodeSchemaInvalid
     @ violate (RuneCountInString (p_Reasoning p) > 8000) CodeSchemaInvalid
     @ violate (RuneCountInString (p_DebateSummary p) > 4000) CodeSchemaInvalid
     @ validateSummaries (p_AnalystSummaries p)
     @ validateModelCosts (p_ModelCosts p)
     @ validateOrderFields p"

section \<open>The language of decimal strings\<close>

definition canonical_int :: "string \<Rightarrow> bool" where
  "canonical_int s \<longleftrightarrow> s \<noteq> [] \<and> list_all is_digit s \<and> (1 < length s \<longrightarrow> hd s \<noteq> CHR ''0'')"

definition plain_decimal :: "string \<Rightarrow> string \<Rightarrow> string \<Rightarrow> bool" where
  "plain_decimal i ds s \<longleftrightarrow>
     canonical_int i \<and> list_all is_digit ds \<and> (s = i \<and> ds = [] \<or> ds \<noteq> [] \<and> s = i @ CHR ''.'' # ds)"

lemma is_digit_0 [simp]: "is_digit (CHR ''0'')" and not_digit_dot [simp]: "\<not> is_digit (CHR ''.'')"
  by (simp_all add: is_digit_def byte_of_def)

lemma frac_part_iff: "frac_part r \<longleftrightarrow> r = [] \<or> (\<exists>ds. r = CHR ''.'' # ds \<and> ds \<noteq> [] \<and> list_all is_digit ds)"
  by (cases r) auto

lemma dropWhile_digits_append [simp]:
  "list_all is_digit i \<Longrightarrow> dropWhile is_digit (i @ CHR ''.'' # ds) = CHR ''.'' # ds"
  "list_all is_digit i \<Longrightarrow> takeWhile is_digit (i @ CHR ''.'' # ds) = i"
  "list_all is_digit i \<Longrightarrow> dropWhile is_digit i = []"
  "list_all is_digit i \<Longrightarrow> takeWhile is_digit i = i"
  by (induction i) auto

lemma drop_int_part_canonical:
  "canonical_int i \<Longrightarrow> f = [] \<or> hd f = CHR ''.'' \<Longrightarrow> drop_int_part (i @ f) = Some f"
  by (cases i; cases f) (auto simp: canonical_int_def)

lemma drop_int_part_Some:
  assumes "drop_int_part s = Some r"
  shows "\<exists>i. canonical_int i \<and> s = i @ r"
proof (cases s)
  case Nil
  with assms show ?thesis by simp
next
  case (Cons c t)
  show ?thesis
  proof (cases "c = CHR ''0''")
    case True
    with assms Cons show ?thesis by (intro exI [of _ "[c]"]) (simp add: canonical_int_def)
  next
    case False
    with assms Cons have d: "is_digit c" and r: "r = dropWhile is_digit t"
      by (auto split: if_splits)
    have "canonical_int (c # takeWhile is_digit t)"
      using d False set_takeWhileD by (fastforce simp: canonical_int_def list_all_iff)
    with Cons r show ?thesis by (intro exI [of _ "c # takeWhile is_digit t"]) simp
  qed
qed

lemma decimalPattern_iff: "decimalPattern s \<longleftrightarrow> (\<exists>i ds. plain_decimal i ds s)"
proof
  assume "decimalPattern s"
  then obtain r where r: "drop_int_part s = Some r" "frac_part r"
    by (auto simp: decimalPattern_def split: option.splits)
  from drop_int_part_Some [OF r(1)] obtain i where "canonical_int i" "s = i @ r" by blast
  with r(2) show "\<exists>i ds. plain_decimal i ds s"
    unfolding frac_part_iff plain_decimal_def by fastforce
next
  assume "\<exists>i ds. plain_decimal i ds s"
  then obtain i ds where "plain_decimal i ds s" by blast
  then show "decimalPattern s"
    using drop_int_part_canonical [of i "[]"] drop_int_part_canonical [of i "CHR ''.'' # ds"]
    by (auto simp: plain_decimal_def decimalPattern_def)
qed

lemma digits_value_nonneg: "list_all is_digit s \<Longrightarrow> 0 \<le> acc \<Longrightarrow> 0 \<le> digits_value acc s"
  by (induction s arbitrary: acc) (auto simp: is_digit_def)

text \<open>The value of a plain decimal, and the documented behaviour of \<open>NewFromString\<close> on one.\<close>

definition plain_value :: "string \<Rightarrow> 'd::linordered_field" where
  "plain_value s =
     (let ds = tl (dropWhile is_digit s)
      in of_int (digits_value 0 (takeWhile is_digit s)) + of_int (digits_value 0 ds) / 10 ^ length ds)"

definition fromstring_documented :: "'d::linordered_field dlib \<Rightarrow> bool" where
  "fromstring_documented L \<longleftrightarrow> (\<forall>s. decimalPattern s \<longrightarrow> dFromString L s = Some (plain_value s))"

lemma plain_value_eq:
  "plain_decimal i ds s \<Longrightarrow>
     plain_value s = of_int (digits_value 0 i) + of_int (digits_value 0 ds) / 10 ^ length ds"
  by (auto simp: plain_decimal_def plain_value_def canonical_int_def)

text \<open>\<open>ParseDecimal\<close> accepts exactly the canonical unsigned decimal strings of at most 34
  bytes (no sign, no exponent, no leading zeros, no bare point); the decimal it returns keeps the
  string and has the positional value of its digits, which is never negative. It never
  panics.\<close>

theorem ParseDecimal_spec:
  assumes "fromstring_documented L"
  shows "case ParseDecimal L s of
      Ok d \<Rightarrow> length s \<le> 34 \<and> cd_raw d = s \<and> 0 \<le> cd_dec d
        \<and> (\<exists>i ds. plain_decimal i ds s
             \<and> cd_dec d = of_int (digits_value 0 i) + of_int (digits_value 0 ds) / 10 ^ length ds)
    | Err e \<Rightarrow> e = InvalidDecimal \<and> (34 < length s \<or> (\<nexists>i ds. plain_decimal i ds s))
    | Panic \<Rightarrow> False | Diverge \<Rightarrow> False"
proof (cases "length s \<le> 34 \<and> decimalPattern s")
  case False
  then show ?thesis by (auto simp: ParseDecimal_def decimalPattern_iff)
next
  case True
  then obtain i ds where p: "plain_decimal i ds s" by (auto simp: decimalPattern_iff)
  have "0 \<le> digits_value 0 i" "0 \<le> digits_value 0 ds"
    using p by (auto simp: plain_decimal_def canonical_int_def intro: digits_value_nonneg)
  then have "(0::'a) \<le> of_int (digits_value 0 i) + of_int (digits_value 0 ds) / 10 ^ length ds"
    by simp
  with True assms p show ?thesis
    by (auto simp: ParseDecimal_def fromstring_documented_def plain_value_eq [OF p])
qed


definition rat_plain_lib :: "rat dlib" where
  "rat_plain_lib = rat_lib\<lparr>dFromString := (\<lambda>s. if decimalPattern s then Some (plain_value s) else None)\<rparr>"

theorem ParseDecimal_spec_witness:
  "fromstring_documented rat_plain_lib
   \<and> (\<exists>d. ParseDecimal rat_plain_lib ''12.50'' = Ok d \<and> cd_dec d = 25 / 2)"
proof -
  have doc: "fromstring_documented rat_plain_lib"
    by (simp add: fromstring_documented_def rat_plain_lib_def)
  have "ParseDecimal rat_plain_lib ''12.50'' = Ok \<lparr>cd_dec = 25 / 2, cd_raw = ''12.50''\<rparr>"
    by code_simp
  with doc ParseDecimal_spec [OF doc, of "''12.50''"] show ?thesis by simp
qed

section \<open>What a valid proposal is\<close>

text \<open>
  The rules of the contract, stated on the record: field forms, length caps, and the
  conditionals between action, entry, stop and target. A confidence that is not a number
  passes both comparisons of the code (a JSON document cannot carry one).
\<close>

definition in_unit :: "float64 \<Rightarrow> bool" where
  "in_unit c \<longleftrightarrow> c = NaN \<or> (\<exists>q. c = Fin q \<and> 0 \<le> q \<and> q \<le> 1)"

definition placement_rules :: "action \<Rightarrow> 'd::linordered_field \<Rightarrow> 'd \<Rightarrow> 'd cdecimal option \<Rightarrow> bool" where
  "placement_rules a e s tp \<longleftrightarrow>
     0 < e
     \<and> (a = ActionOpenLong \<longrightarrow> s < e \<and> (\<forall>t. tp = Some t \<longrightarrow> e < cd_dec t))
     \<and> (a = ActionOpenShort \<longrightarrow> e < s \<and> (\<forall>t. tp = Some t \<longrightarrow> cd_dec t < e))"

definition summary_rules :: "analyst_summary \<Rightarrow> bool" where
  "summary_rules s \<longleftrightarrow> as_Signal s \<in> {''bullish'', ''bearish'', ''neutral''}
     \<and> in_unit (as_Confidence s) \<and> RuneCountInString (as_Summary s) \<le> 2000"

definition cost_rules :: "'d model_cost \<Rightarrow> bool" where
  "cost_rules c \<longleftrightarrow> RuneCountInString (mc_Node c) \<le> 64 \<and> RuneCountInString (mc_Model c) \<le> 64
     \<and> 0 \<le> mc_InputTokens c \<and> 0 \<le> mc_OutputTokens c"

definition entry_rules :: "'d entry \<Rightarrow> bool" where
  "entry_rules e \<longleftrightarrow> en_Type e = ''limit'' \<and> en_LimitPrice e \<noteq> None
     \<or> en_Type e = ''market'' \<and> en_LimitPrice e = None"

definition order_rules :: "'d::linordered_field proposal \<Rightarrow> bool" where
  "order_rules p \<longleftrightarrow> entry_rules (p_Entry p)
     \<and> (if IsOpen (p_Action p)
        then (\<exists>sl. p_StopLoss p = Some sl \<and> 0 < cd_dec (p_SizeQuote p)
                \<and> (\<forall>lp. en_LimitPrice (p_Entry p) = Some lp
                     \<longrightarrow> placement_rules (p_Action p) (cd_dec lp) (cd_dec sl) (p_TakeProfit p)))
        else p_StopLoss p = None \<and> p_TakeProfit p = None
             \<and> (p_Action p = ActionHold \<longrightarrow> cd_dec (p_SizeQuote p) = 0))"

definition proposal_rules :: "'d::linordered_field proposal \<Rightarrow> bool" where
  "proposal_rules p \<longleftrightarrow>
     p_SchemaVersion p = ''1.0''
     \<and> list_all uuidPattern [p_ProposalID p, p_StrategyID p, p_AgentTraceID p]
     \<and> ut_raw (p_CreatedAt p) \<noteq> [] \<and> symbolPattern (p_Symbol p)
     \<and> p_Action p \<in> {ActionOpenLong, ActionOpenShort, ActionClose, ActionHold}
     \<and> p_TimeInForce p \<in> {''gtc'', ''ioc''} \<and> in_unit (p_Confidence p)
     \<and> RuneCountInString (p_Reasoning p) \<le> 8000 \<and> RuneCountInString (p_DebateSummary p) \<le> 4000
     \<and> list_all summary_rules [as_Market (p_AnalystSummaries p), as_News (p_AnalystSummaries p),
                               as_Fundamental (p_AnalystSummaries p)]
     \<and> length (p_ModelCosts p) \<le> 32 \<and> list_all cost_rules (p_ModelCosts p)
     \<and> order_rules p"

lemma outside_unit_iff: "outside_unit c \<longleftrightarrow> \<not> in_unit c"
  by (cases c) (auto simp: outside_unit_def in_unit_def not_less)

lemma CheckStopAndTarget_Nil:
  "CheckStopAndTarget a e s tp = [] \<longleftrightarrow> placement_rules a e s tp"
  by (auto simp: CheckStopAndTarget_def placement_rules_def split: option.splits)

lemma validate_summary_Nil: "validate_summary s = [] \<longleftrightarrow> summary_rules s"
  by (simp add: validate_summary_def summary_rules_def outside_unit_iff not_less)

lemma validateSummaries_Nil:
  "validateSummaries s = [] \<longleftrightarrow> list_all summary_rules [as_Market s, as_News s, as_Fundamental s]"
  by (simp add: validateSummaries_def validate_summary_Nil)

lemma validateModelCosts_Nil:
  "validateModelCosts cs = [] \<longleftrightarrow> length cs \<le> 32 \<and> list_all cost_rules cs"
  by (auto simp: validateModelCosts_def cost_rules_def list_all_iff not_less)

lemma validateEntry_Nil: "validateEntry e = [] \<longleftrightarrow> entry_rules e"
  by (auto simp: validateEntry_def entry_rules_def)

lemma validateOrderFields_Nil: "validateOrderFields p = [] \<longleftrightarrow> order_rules p"
  unfolding validateOrderFields_def order_rules_def
  by (cases "IsOpen (p_Action p)"; cases "p_StopLoss p"; cases "en_LimitPrice (p_Entry p)")
    (auto simp: validateEntry_Nil CheckStopAndTarget_Nil entry_rules_def not_le)

lemma Validate_Nil: "Validate p = [] \<longleftrightarrow> proposal_rules p"
proof -
  have "Validate p = [] \<longleftrightarrow>
     p_SchemaVersion p = SchemaVersion
     \<and> list_all uuidPattern [p_ProposalID p, p_StrategyID p, p_AgentTraceID p]
     \<and> ut_raw (p_CreatedAt p) \<noteq> [] \<and> symbolPattern (p_Symbol p)
     \<and> p_Action p \<in> {ActionOpenLong, ActionOpenShort, ActionClose, ActionHold}
     \<and> p_TimeInForce p \<in> {''gtc'', ''ioc''} \<and> in_unit (p_Confidence p)
     \<and> RuneCountInString (p_Reasoning p) \<le> 8000 \<and> RuneCountInString (p_DebateSummary p) \<le> 4000
     \<and> validateSummaries (p_AnalystSummaries p) = [] \<and> validateModelCosts (p_ModelCosts p) = []
     \<and> validateOrderFields p = []"
    unfolding Validate_def by (simp add: outside_unit_iff not_less)
  then show ?thesis
    by (simp only: validateSummaries_Nil validateModelCosts_Nil validateOrderFields_Nil
        proposal_rules_def SchemaVersion_def conj_assoc)
qed

text \<open>C39: \<open>Validate\<close> returns no violation exactly for the proposals that meet the contract's
  rules, so nothing it accepts breaks a rule and nothing that meets them is refused.\<close>

theorem Validate_iff_rules: "Validate p = [] \<longleftrightarrow> proposal_rules p"
  by (rule Validate_Nil)

end
