(* ===== verification/RiskGate.thy ===== *)
theory RiskGate
  imports Contract
begin

text \<open>
  The deterministic Risk Gate (package \<open>internal/riskgate\<close>: gate.go, checks.go, evaluate.go):
  a pure function of the proposal, the limits, the runtime state and the clock. The verdict id
  (a fresh UUID of a third-party package) is an argument. A decimal division by zero would be
  a panic; the results are outcomes, so that its absence is a theorem.
\<close>

section \<open>Limits and runtime state\<close>

datatype autonomy = AutonomyL0 | AutonomyL1 | AutonomyL2 | AutonomyL3

record 'd l2_envelope =
  l2_MaxSizeQuote :: 'd
  l2_AllowedSymbols :: "string list"

record 'd risk_limits =
  lim_SymbolWhitelist :: "string list"
  lim_MaxOpenPositions :: int
  lim_PerPositionNotionalCapQuote :: 'd
  lim_DailyLossLimitQuote :: 'd
  lim_MaxDrawdownPct :: 'd
  lim_MaxLossAtStopQuote :: 'd
  lim_MinStopDistancePct :: 'd
  lim_MaxStopDistancePct :: 'd
  lim_MaxOrdersPerMinute :: int
  lim_RequireStopLoss :: bool
  lim_AllocatedCapitalQuote :: 'd
  lim_AccountingQuote :: string
  lim_StalenessThresholdSeconds :: int
  lim_L1ApprovalTimeoutSeconds :: int
  lim_L2Envelope :: "'d l2_envelope option"

record 'd runtime_state =
  st_KillActive :: bool
  st_KillEpoch :: int
  st_BreakerActive :: bool
  st_Autonomy :: autonomy
  st_EquityQuote :: 'd
  st_PeakEquityQuote :: 'd
  st_DailyRealizedPnLQuote :: 'd
  st_ReservedWorstCaseQuote :: 'd
  st_OpenPositionsCount :: int
  st_PendingEntryOrdersCount :: int
  st_EntryOrdersInLastMinute :: int
  st_MarkPrice :: 'd
  st_EstTakerFeeRate :: 'd

definition DefaultStalenessThresholdSeconds :: int where "DefaultStalenessThresholdSeconds = 60"
definition FutureSkewToleranceSeconds :: int where "FutureSkewToleranceSeconds = 5"

text \<open>The float64 nearest to 0.3.\<close>

definition LowConfidenceThreshold :: float64 where
  "LowConfidenceThreshold = Fin (5404319552844595 / 18014398509481984)"

section \<open>Prices and losses\<close>

definition entryPrice :: "'d proposal \<Rightarrow> 'd runtime_state \<Rightarrow> 'd" where
  "entryPrice p st =
     (if en_Type (p_Entry p) = ''limit''
      then (case en_LimitPrice (p_Entry p) of Some lp \<Rightarrow> cd_dec lp | None \<Rightarrow> st_MarkPrice st)
      else st_MarkPrice st)"

definition worstCase ::
  "'d::linordered_field dlib \<Rightarrow> 'd \<Rightarrow> 'd \<Rightarrow> 'd \<Rightarrow> 'd \<Rightarrow> (unit, 'd) outcome" where
  "worstCase L sizeQuote entry stop feeRate =
     bind_outcome (ddiv L (sizeQuote * \<bar>entry - stop\<bar>) entry)
       (\<lambda>loss. Ok (loss + sizeQuote * feeRate))"

section \<open>Verdicts\<close>

definition snapshot :: "'d dlib \<Rightarrow> 'd risk_limits \<Rightarrow> 'd runtime_state \<Rightarrow> 'd limits_snapshot" where
  "snapshot L lims st =
     \<lparr>sn_SymbolWhitelist = lim_SymbolWhitelist lims,
      sn_MaxOpenPositions = lim_MaxOpenPositions lims,
      sn_PerPositionNotionalCapQuote = NewDecimal L (lim_PerPositionNotionalCapQuote lims),
      sn_DailyLossLimitQuote = NewDecimal L (lim_DailyLossLimitQuote lims),
      sn_MaxDrawdownPct = dInexactFloat L (lim_MaxDrawdownPct lims),
      sn_MaxOrdersPerMinute = lim_MaxOrdersPerMinute lims,
      sn_RequireStopLoss = lim_RequireStopLoss lims,
      sn_L2MaxSizeQuote = map_option (NewDecimal L \<circ> l2_MaxSizeQuote) (lim_L2Envelope lims),
      sn_L2AllowedSymbols = (case lim_L2Envelope lims of None \<Rightarrow> [] | Some e \<Rightarrow> l2_AllowedSymbols e),
      sn_EquityQuote = NewDecimal L (st_EquityQuote st),
      sn_PeakEquityQuote = NewDecimal L (st_PeakEquityQuote st),
      sn_DailyRealizedPnlQuote = NewDecimal L (st_DailyRealizedPnLQuote st),
      sn_OpenPositionsCount = st_OpenPositionsCount st,
      sn_PendingEntryOrdersCount = st_PendingEntryOrdersCount st,
      sn_MarkPrice = NewDecimal L (st_MarkPrice st)\<rparr>"

definition build ::
  "'d dlib \<Rightarrow> string \<Rightarrow> 'd proposal \<Rightarrow> decision \<Rightarrow> 'd cdecimal option \<Rightarrow> code list \<Rightarrow>
     'd risk_limits \<Rightarrow> 'd runtime_state \<Rightarrow> instant \<Rightarrow> 'd verdict" where
  "build L vid p d clipped reasons lims st now =
     \<lparr>v_SchemaVersion = SchemaVersion, v_VerdictID = vid, v_ProposalID = p_ProposalID p,
      v_Decision = d, v_ClippedSizeQuote = clipped, v_Reasons = reasons,
      v_LimitsSnapshot = snapshot L lims st, v_EvaluatedAt = now\<rparr>"

definition approve ::
  "'d dlib \<Rightarrow> string \<Rightarrow> 'd proposal \<Rightarrow> 'd risk_limits \<Rightarrow> 'd runtime_state \<Rightarrow> instant \<Rightarrow> 'd verdict" where
  "approve L vid p lims st now = build L vid p DecisionApprove None [] lims st now"

definition reject ::
  "'d dlib \<Rightarrow> string \<Rightarrow> 'd proposal \<Rightarrow> 'd risk_limits \<Rightarrow> 'd runtime_state \<Rightarrow> instant \<Rightarrow>
     code list \<Rightarrow> 'd verdict" where
  "reject L vid p lims st now reasons = build L vid p DecisionReject None reasons lims st now"

section \<open>The open-only checks, steps 4 to 7\<close>

definition dailyLossOf :: "'d::linordered_field runtime_state \<Rightarrow> 'd" where
  "dailyLossOf st =
     (if st_DailyRealizedPnLQuote st < 0 then - st_DailyRealizedPnLQuote st else 0)
     + st_ReservedWorstCaseQuote st"

definition drawdownBreached :: "'d::linordered_field risk_limits \<Rightarrow> 'd runtime_state \<Rightarrow> bool" where
  "drawdownBreached lims st =
     (let peak = st_PeakEquityQuote st
      in peak > 0 \<and> (peak - st_EquityQuote st) * 100 > lim_MaxDrawdownPct lims * peak)"

definition checkStop ::
  "'d::linordered_field dlib \<Rightarrow> 'd proposal \<Rightarrow> 'd risk_limits \<Rightarrow> 'd \<Rightarrow> 'd \<Rightarrow>
     (unit, code option) outcome" where
  "checkStop L p lims entry worst =
     (case p_StopLoss p of
        None \<Rightarrow> Ok (if lim_RequireStopLoss lims then Some CodeMissingStopLoss else None)
      | Some sl \<Rightarrow>
          (case CheckStopAndTarget (p_Action p) entry (cd_dec sl) (p_TakeProfit p) of
             v # _ \<Rightarrow> Ok (Some v)
           | [] \<Rightarrow>
             bind_outcome (ddiv L (\<bar>entry - cd_dec sl\<bar> * 100) entry) (\<lambda>distPct.
               if distPct < lim_MinStopDistancePct lims \<or> distPct > lim_MaxStopDistancePct lims
               then Ok (Some CodeInvalidStopPlacement)
               else if worst > lim_MaxLossAtStopQuote lims then Ok (Some CodeRiskPerTradeExceeded)
               else Ok None)))"

definition checkOpen ::
  "'d::linordered_field dlib \<Rightarrow> 'd proposal \<Rightarrow> 'd risk_limits \<Rightarrow> 'd runtime_state \<Rightarrow> 'd \<Rightarrow> 'd \<Rightarrow>
     (unit, code option) outcome" where
  "checkOpen L p lims st entry worst =
     (if flt (p_Confidence p) LowConfidenceThreshold then Ok (Some CodeLowConfidence)
      else if st_BreakerActive st then Ok (Some CodeDailyLossLimitBreached)
      else if dailyLossOf st + worst \<ge> lim_DailyLossLimitQuote lims
      then Ok (Some CodeDailyLossLimitBreached)
      else if drawdownBreached lims st then Ok (Some CodeMaxDrawdownBreached)
      else if p_Symbol p \<notin> set (lim_SymbolWhitelist lims) then Ok (Some CodeSymbolNotWhitelisted)
      else checkStop L p lims entry worst)"

definition checkEnvelope ::
  "'d::linordered_field proposal \<Rightarrow> 'd risk_limits \<Rightarrow> 'd runtime_state \<Rightarrow> 'd \<Rightarrow> code option" where
  "checkEnvelope p lims st effectiveSize =
     (case (st_Autonomy st, lim_L2Envelope lims) of
        (AutonomyL2, Some env) \<Rightarrow>
          (if effectiveSize > l2_MaxSizeQuote env then Some CodeEscalatedAboveEnvelope
           else if p_Symbol p \<notin> set (l2_AllowedSymbols env) then Some CodeEscalatedAboveEnvelope
           else None)
      | _ \<Rightarrow> None)"

section \<open>The gate\<close>

definition stalenessThreshold :: "'d risk_limits \<Rightarrow> duration" where
  "stalenessThreshold lims =
     (let t = lim_StalenessThresholdSeconds lims
      in wrap64 ((if t \<le> 0 then DefaultStalenessThresholdSeconds else t) * second))"

definition isStale :: "'d proposal \<Rightarrow> 'd risk_limits \<Rightarrow> instant \<Rightarrow> bool" where
  "isStale p lims now \<longleftrightarrow>
     time_sub now (ut_t (p_CreatedAt p)) > stalenessThreshold lims
     \<or> time_sub (ut_t (p_CreatedAt p)) now > FutureSkewToleranceSeconds * second"

text \<open>The clip of step 10 and the envelope of step 11, for opens every check let through.\<close>

definition gradeOpen ::
  "'d::linordered_field dlib \<Rightarrow> string \<Rightarrow> 'd proposal \<Rightarrow> 'd risk_limits \<Rightarrow> 'd runtime_state \<Rightarrow>
     instant \<Rightarrow> 'd verdict" where
  "gradeOpen L vid p lims st now =
     (let notionalCap = lim_PerPositionNotionalCapQuote lims;
          sizeQuote = cd_dec (p_SizeQuote p);
          clip = sizeQuote > notionalCap;
          effectiveSize = (if clip then notionalCap else sizeQuote);
          clipReason = (if clip then [CodeNotionalCapClipped] else [])
      in case checkEnvelope p lims st effectiveSize of
           Some r \<Rightarrow> build L vid p DecisionEscalate None (clipReason @ [r]) lims st now
         | None \<Rightarrow>
             if clip
             then build L vid p DecisionClip (Some (NewDecimal L effectiveSize)) clipReason lims st now
             else approve L vid p lims st now)"

text \<open>Steps 9 to 11.\<close>

definition sizeOpen ::
  "'d::linordered_field dlib \<Rightarrow> string \<Rightarrow> 'd proposal \<Rightarrow> 'd risk_limits \<Rightarrow> 'd runtime_state \<Rightarrow>
     instant \<Rightarrow> 'd verdict" where
  "sizeOpen L vid p lims st now =
     (if wrap64 (st_OpenPositionsCount st + st_PendingEntryOrdersCount st) \<ge> lim_MaxOpenPositions lims
      then reject L vid p lims st now [CodeMaxPositionsReached]
      else if lim_PerPositionNotionalCapQuote lims = 0
      then reject L vid p lims st now [CodeNotionalCapZero]
      else gradeOpen L vid p lims st now)"

definition Evaluate ::
  "'d::linordered_field dlib \<Rightarrow> string \<Rightarrow> 'd proposal \<Rightarrow> 'd risk_limits \<Rightarrow> 'd runtime_state \<Rightarrow>
     instant \<Rightarrow> (unit, 'd verdict) outcome" where
  "Evaluate L vid p lims st now =
     (if p_SchemaVersion p \<noteq> SchemaVersion
      then Ok (reject L vid p lims st now [CodeUnsupportedSchemaVersion])
      else if Validate p \<noteq> [] then Ok (reject L vid p lims st now (Validate p))
      else if st_KillActive st then Ok (reject L vid p lims st now [CodeKillSwitchActive])
      else if isStale p lims now then Ok (reject L vid p lims st now [CodeProposalStale])
      else if p_Action p = ActionHold then Ok (approve L vid p lims st now)
      else let isClose = (p_Action p = ActionClose);
               entry = entryPrice p st
      in if IsOpen (p_Action p) \<and> entry \<le> 0
         then Ok (reject L vid p lims st now [CodeMarkPriceUnavailable])
      else bind_outcome
         (case (IsOpen (p_Action p), p_StopLoss p) of
            (True, Some sl) \<Rightarrow>
              worstCase L (cd_dec (p_SizeQuote p)) entry (cd_dec sl) (st_EstTakerFeeRate st)
          | _ \<Rightarrow> Ok 0)
         (\<lambda>worst. bind_outcome (if isClose then Ok None else checkOpen L p lims st entry worst)
            (\<lambda>r. case r of
               Some c \<Rightarrow> Ok (reject L vid p lims st now [c])
             | None \<Rightarrow>
                 if st_EntryOrdersInLastMinute st \<ge> lim_MaxOrdersPerMinute lims
                 then Ok (reject L vid p lims st now [CodeOrderRateExceeded])
                 else if isClose then Ok (approve L vid p lims st now)
                 else Ok (sizeOpen L vid p lims st now))))"

section \<open>Facts about valid proposals\<close>

lemma Validate_open:
  assumes "Validate p = []" "IsOpen (p_Action p)"
  obtains sl where "p_StopLoss p = Some sl" "0 < cd_dec (p_SizeQuote p)"
  using assms unfolding Validate_Nil proposal_rules_def order_rules_def by auto

lemma Validate_action:
  "Validate p = [] \<Longrightarrow> IsOpen (p_Action p) \<or> p_Action p = ActionClose \<or> p_Action p = ActionHold"
  unfolding Validate_Nil proposal_rules_def by (auto simp: IsOpen_def)

lemma Validate_schema: "Validate p = [] \<Longrightarrow> p_SchemaVersion p = SchemaVersion"
  by (simp add: Validate_def)

lemma IsOpen_simps [simp]:
  "\<not> IsOpen ActionClose" "\<not> IsOpen ActionHold"
  by (simp_all add: IsOpen_def)

lemma verdict_simps [simp]:
  "v_Decision (build L vid p d c rs lims st now) = d"
  "v_Reasons (build L vid p d c rs lims st now) = rs"
  "v_ClippedSizeQuote (build L vid p d c rs lims st now) = c"
  "v_ProposalID (build L vid p d c rs lims st now) = p_ProposalID p"
  "v_LimitsSnapshot (build L vid p d c rs lims st now) = snapshot L lims st"
  by (simp_all add: build_def)

lemma worstCase_Ok: "entry \<noteq> 0 \<Longrightarrow> worstCase L sz entry stop fee
     = Ok (dDiv L (sz * \<bar>entry - stop\<bar>) entry + sz * fee)"
  by (simp add: worstCase_def)

section \<open>The gate as an ordered list of checks\<close>

text \<open>
  The reference reading of the gate for opens: the conditions in their normative order, each
  with the code it rejects with; the first condition that holds decides.
\<close>

definition first_failing :: "(bool \<times> code) list \<Rightarrow> code option" where
  "first_failing cs = map_option snd (find fst cs)"

lemma first_failing_simps [simp]:
  "first_failing [] = None"
  "first_failing ((b, c) # cs) = (if b then Some c else first_failing cs)"
  by (simp_all add: first_failing_def)

definition worst_of :: "'d::linordered_field dlib \<Rightarrow> 'd proposal \<Rightarrow> 'd runtime_state \<Rightarrow> 'd \<Rightarrow> 'd" where
  "worst_of L p st stop =
     dDiv L (cd_dec (p_SizeQuote p) * \<bar>entryPrice p st - stop\<bar>) (entryPrice p st)
     + cd_dec (p_SizeQuote p) * st_EstTakerFeeRate st"

definition stop_wrong_side :: "'d::linordered_field proposal \<Rightarrow> 'd \<Rightarrow> 'd \<Rightarrow> bool" where
  "stop_wrong_side p entry stop \<longleftrightarrow> (if p_Action p = ActionOpenLong then entry \<le> stop else stop \<le> entry)"

definition target_wrong_side :: "'d::linordered_field proposal \<Rightarrow> 'd \<Rightarrow> bool" where
  "target_wrong_side p entry \<longleftrightarrow>
     (case p_TakeProfit p of None \<Rightarrow> False
      | Some t \<Rightarrow> if p_Action p = ActionOpenLong then cd_dec t \<le> entry else entry \<le> cd_dec t)"

definition open_checks ::
  "'d::linordered_field dlib \<Rightarrow> 'd proposal \<Rightarrow> 'd risk_limits \<Rightarrow> 'd runtime_state \<Rightarrow> instant \<Rightarrow> 'd \<Rightarrow>
     (bool \<times> code) list" where
  "open_checks L p lims st now stop =
     (let entry = entryPrice p st; dist = dDiv L (\<bar>entry - stop\<bar> * 100) entry
      in [(st_KillActive st, CodeKillSwitchActive),
          (isStale p lims now, CodeProposalStale),
          (entry \<le> 0, CodeMarkPriceUnavailable),
          (flt (p_Confidence p) LowConfidenceThreshold, CodeLowConfidence),
          (st_BreakerActive st, CodeDailyLossLimitBreached),
          (dailyLossOf st + worst_of L p st stop \<ge> lim_DailyLossLimitQuote lims,
             CodeDailyLossLimitBreached),
          (drawdownBreached lims st, CodeMaxDrawdownBreached),
          (p_Symbol p \<notin> set (lim_SymbolWhitelist lims), CodeSymbolNotWhitelisted),
          (stop_wrong_side p entry stop, CodeInvalidStopPlacement),
          (target_wrong_side p entry, CodeInvalidTakeProfit),
          (dist < lim_MinStopDistancePct lims, CodeInvalidStopPlacement),
          (dist > lim_MaxStopDistancePct lims, CodeInvalidStopPlacement),
          (worst_of L p st stop > lim_MaxLossAtStopQuote lims, CodeRiskPerTradeExceeded),
          (st_EntryOrdersInLastMinute st \<ge> lim_MaxOrdersPerMinute lims, CodeOrderRateExceeded),
          (wrap64 (st_OpenPositionsCount st + st_PendingEntryOrdersCount st)
             \<ge> lim_MaxOpenPositions lims, CodeMaxPositionsReached),
          (lim_PerPositionNotionalCapQuote lims = 0, CodeNotionalCapZero)])"

lemma CheckStopAndTarget_open:
  assumes "IsOpen (p_Action p)" "0 < entry"
  shows "CheckStopAndTarget (p_Action p) entry stop (p_TakeProfit p)
     = violate (stop_wrong_side p entry stop) CodeInvalidStopPlacement
       @ violate (target_wrong_side p entry) CodeInvalidTakeProfit"
  using assms
  by (auto simp: CheckStopAndTarget_def stop_wrong_side_def target_wrong_side_def IsOpen_def
      not_less violate_def split: option.splits)

lemma checkStop_open:
  assumes "IsOpen (p_Action p)" "0 < entry" "p_StopLoss p = Some sl"
  shows "checkStop L p lims entry worst =
    (let dist = dDiv L (\<bar>entry - cd_dec sl\<bar> * 100) entry
     in Ok (first_failing [(stop_wrong_side p entry (cd_dec sl), CodeInvalidStopPlacement),
          (target_wrong_side p entry, CodeInvalidTakeProfit),
          (dist < lim_MinStopDistancePct lims, CodeInvalidStopPlacement),
          (dist > lim_MaxStopDistancePct lims, CodeInvalidStopPlacement),
          (worst > lim_MaxLossAtStopQuote lims, CodeRiskPerTradeExceeded)]))"
  using assms(2,3)
  by (simp add: checkStop_def CheckStopAndTarget_open [OF assms(1,2)] violate_def Let_def)

lemma open_checks_decide:
  assumes "Validate p = []" and "IsOpen (p_Action p)" and "p_StopLoss p = Some sl"
  shows "Evaluate L vid p lims st now =
     Ok (case first_failing (open_checks L p lims st now (cd_dec sl)) of
           Some c \<Rightarrow> reject L vid p lims st now [c]
         | None \<Rightarrow> gradeOpen L vid p lims st now)"
proof -
  have act: "p_Action p \<noteq> ActionHold" "p_Action p \<noteq> ActionClose"
    using assms(2) by (auto simp: IsOpen_def)
  show ?thesis
  proof (cases "0 < entryPrice p st")
    case True
    then show ?thesis
      using assms act
      by (simp add: Evaluate_def Validate_schema open_checks_def Let_def worstCase_Ok checkOpen_def
          checkStop_open worst_of_def sizeOpen_def cong: if_cong)
  next
    case False
    then show ?thesis
      using assms act by (simp add: Evaluate_def Validate_schema open_checks_def Let_def)
  qed
qed

text \<open>C35: for a valid open the gate is its ordered list of checks: it rejects with the code of
  the first condition that holds, in the normative order (kill-switch, staleness, mark price,
  confidence, breaker, daily loss, drawdown, whitelist, stop and target placement, stop
  distance, loss at the stop, order rate, open positions, zero cap), and otherwise grades the
  size.\<close>

theorem Evaluate_open_first_failing:
  assumes "Validate p = []" and "IsOpen (p_Action p)" and "p_StopLoss p = Some sl"
  shows "Evaluate L vid p lims st now =
     Ok (case first_failing (open_checks L p lims st now (cd_dec sl)) of
           Some c \<Rightarrow> reject L vid p lims st now [c]
         | None \<Rightarrow> gradeOpen L vid p lims st now)"
  by (rule open_checks_decide [OF assms])

section \<open>Every proposal gets one well-formed verdict\<close>

definition verdict_shape :: "'d proposal \<Rightarrow> 'd verdict \<Rightarrow> bool" where
  "verdict_shape p v \<longleftrightarrow>
     v_ProposalID v = p_ProposalID p
     \<and> (v_ClippedSizeQuote v \<noteq> None \<longleftrightarrow> v_Decision v = DecisionClip)
     \<and> (v_Reasons v = [] \<longleftrightarrow> v_Decision v = DecisionApprove)"

lemma verdict_shape_simps [simp]:
  "verdict_shape p (approve L vid p lims st now)"
  "rs \<noteq> [] \<Longrightarrow> verdict_shape p (reject L vid p lims st now rs)"
  "rs \<noteq> [] \<Longrightarrow> verdict_shape p (build L vid p DecisionEscalate None rs lims st now)"
  "rs \<noteq> [] \<Longrightarrow> verdict_shape p (build L vid p DecisionClip (Some c) rs lims st now)"
  by (simp_all add: verdict_shape_def approve_def reject_def)

lemma gradeOpen_shape [simp]: "verdict_shape p (gradeOpen L vid p lims st now)"
  by (simp add: gradeOpen_def Let_def split: option.splits)

text \<open>A proposal that is not a valid open never reaches a division.\<close>

lemma Evaluate_not_open:
  assumes "\<not> (Validate p = [] \<and> IsOpen (p_Action p))"
  shows "Evaluate L vid p lims st now = Ok
    (if p_SchemaVersion p \<noteq> SchemaVersion
     then reject L vid p lims st now [CodeUnsupportedSchemaVersion]
     else if Validate p \<noteq> [] then reject L vid p lims st now (Validate p)
     else if st_KillActive st then reject L vid p lims st now [CodeKillSwitchActive]
     else if isStale p lims now then reject L vid p lims st now [CodeProposalStale]
     else if p_Action p = ActionClose \<and> st_EntryOrdersInLastMinute st \<ge> lim_MaxOrdersPerMinute lims
     then reject L vid p lims st now [CodeOrderRateExceeded]
     else approve L vid p lims st now)"
  using assms Validate_action [of p] by (auto simp: Evaluate_def Let_def)

lemma Evaluate_returns: "\<exists>v. Evaluate L vid p lims st now = Ok v \<and> verdict_shape p v"
proof (cases "Validate p = [] \<and> IsOpen (p_Action p)")
  case True
  then obtain sl where "p_StopLoss p = Some sl" by (auto elim: Validate_open)
  with True show ?thesis
    by (simp add: open_checks_decide split: option.splits)
next
  case False
  then show ?thesis by (simp add: Evaluate_not_open)
qed

text \<open>the gate is total: whatever the proposal, the limits and the state (an absent mark
  price included), it returns a verdict and never divides by zero. The verdict belongs to the
  proposal, carries a clipped size exactly when it clips, and has no reason exactly when it
  approves.\<close>

theorem Evaluate_total: "\<exists>v. Evaluate L vid p lims st now = Ok v \<and> verdict_shape p v"
  by (rule Evaluate_returns)

text \<open>An active kill-switch rejects every proposal, closes and holds included.\<close>

lemma Evaluate_kill_rejects:
  assumes "st_KillActive st"
  shows "\<exists>v. Evaluate L vid p lims st now = Ok v \<and> v_Decision v = DecisionReject"
proof (cases "Validate p = [] \<and> IsOpen (p_Action p)")
  case True
  then obtain sl where "p_StopLoss p = Some sl" by (auto elim: Validate_open)
  with True assms show ?thesis
    by (simp add: open_checks_decide open_checks_def Let_def reject_def)
next
  case False
  with assms show ?thesis by (simp add: Evaluate_not_open reject_def)
qed

section \<open>What an accepted open satisfies\<close>

definition effective_size :: "'d proposal \<Rightarrow> 'd verdict \<Rightarrow> 'd" where
  "effective_size p v = (case v_ClippedSizeQuote v of Some c \<Rightarrow> cd_dec c | None \<Rightarrow> cd_dec (p_SizeQuote p))"

definition passes :: "'d verdict \<Rightarrow> bool" where
  "passes v \<longleftrightarrow> v_Decision v = DecisionApprove \<or> v_Decision v = DecisionClip"

definition within_envelope :: "'d::linordered_field proposal \<Rightarrow> 'd risk_limits \<Rightarrow> 'd runtime_state \<Rightarrow> 'd \<Rightarrow> bool" where
  "within_envelope p lims st sz \<longleftrightarrow>
     (\<forall>env. st_Autonomy st = AutonomyL2 \<and> lim_L2Envelope lims = Some env
        \<longrightarrow> sz \<le> l2_MaxSizeQuote env \<and> p_Symbol p \<in> set (l2_AllowedSymbols env))"

text \<open>The conditions under which an open may reach the order manager.\<close>

definition open_permitted ::
  "'d::linordered_field dlib \<Rightarrow> 'd proposal \<Rightarrow> 'd risk_limits \<Rightarrow> 'd runtime_state \<Rightarrow> instant \<Rightarrow> 'd \<Rightarrow> bool" where
  "open_permitted L p lims st now stop \<longleftrightarrow>
     \<not> st_KillActive st \<and> \<not> st_BreakerActive st \<and> \<not> isStale p lims now
     \<and> 0 < entryPrice p st
     \<and> (if p_Action p = ActionOpenLong then stop < entryPrice p st else entryPrice p st < stop)
     \<and> dailyLossOf st + worst_of L p st stop < lim_DailyLossLimitQuote lims
     \<and> worst_of L p st stop \<le> lim_MaxLossAtStopQuote lims
     \<and> \<not> drawdownBreached lims st
     \<and> p_Symbol p \<in> set (lim_SymbolWhitelist lims)
     \<and> st_EntryOrdersInLastMinute st < lim_MaxOrdersPerMinute lims
     \<and> wrap64 (st_OpenPositionsCount st + st_PendingEntryOrdersCount st) < lim_MaxOpenPositions lims"

lemma open_checks_None:
  "first_failing (open_checks L p lims st now stop) = None \<Longrightarrow> open_permitted L p lims st now stop"
  by (simp add: open_checks_def open_permitted_def Let_def stop_wrong_side_def not_le not_less
      split: if_splits)

lemma passes_simps [simp]:
  "passes (approve L vid p lims st now)"
  "\<not> passes (reject L vid p lims st now rs)"
  "passes (build L vid p d c rs lims st now) \<longleftrightarrow> d = DecisionApprove \<or> d = DecisionClip"
  by (simp_all add: passes_def approve_def reject_def)

lemma checkEnvelope_None: "checkEnvelope p lims st sz = None \<Longrightarrow> within_envelope p lims st sz"
  by (auto simp: checkEnvelope_def within_envelope_def split: option.splits autonomy.splits if_splits)

lemma gradeOpen_passes:
  assumes "passes (gradeOpen L vid p lims st now)"
  shows "effective_size p (gradeOpen L vid p lims st now)
           = min (cd_dec (p_SizeQuote p)) (lim_PerPositionNotionalCapQuote lims)"
    and "within_envelope p lims st (effective_size p (gradeOpen L vid p lims st now))"
  using assms
  by (auto simp: gradeOpen_def effective_size_def Let_def NewDecimal_def approve_def
      split: option.splits if_splits dest!: checkEnvelope_None)

lemma Evaluate_passes_open:
  assumes "Evaluate L vid p lims st now = Ok v" and "passes v" and "IsOpen (p_Action p)"
  obtains sl where "p_StopLoss p = Some sl" and "open_permitted L p lims st now (cd_dec sl)"
    and "v = gradeOpen L vid p lims st now" and "lim_PerPositionNotionalCapQuote lims \<noteq> 0"
proof -
  have valid: "Validate p = []"
  proof (rule ccontr)
    assume "Validate p \<noteq> []"
    with assms(1,2) show False by (auto simp: Evaluate_def split: if_splits)
  qed
  with assms(3) obtain sl where sl: "p_StopLoss p = Some sl" by (auto elim: Validate_open)
  with assms valid
  have none: "first_failing (open_checks L p lims st now (cd_dec sl)) = None"
    and v: "v = gradeOpen L vid p lims st now"
    by (auto simp: open_checks_decide split: option.splits)
  from none have "lim_PerPositionNotionalCapQuote lims \<noteq> 0"
    by (simp add: open_checks_def Let_def split: if_splits)
  with that sl open_checks_None [OF none] v show ?thesis by blast
qed

text \<open>C1: an open that the gate passes on (approved or clipped) has a stop on the losing side of a
  positive entry price, a loss at the stop within the per-trade bound and within what the day's
  losses and reservations leave of the daily limit, no breached drawdown, a whitelisted symbol,
  a free position slot and a free rate token; it is not killed, not stale, not under an active
  breaker; the size that reaches the order manager is the requested size cut at the notional
  cap, and at L2 it is within the envelope.\<close>

theorem Evaluate_open_sound:
  assumes "Evaluate L vid p lims st now = Ok v" and "passes v" and "IsOpen (p_Action p)"
  shows "\<exists>sl. p_StopLoss p = Some sl \<and> open_permitted L p lims st now (cd_dec sl)
     \<and> effective_size p v = min (cd_dec (p_SizeQuote p)) (lim_PerPositionNotionalCapQuote lims)
     \<and> within_envelope p lims st (effective_size p v)"
proof -
  obtain sl where "p_StopLoss p = Some sl" "open_permitted L p lims st now (cd_dec sl)"
    and v: "v = gradeOpen L vid p lims st now"
    using assms by (rule Evaluate_passes_open)
  with gradeOpen_passes [of L vid p lims st now] assms(2) show ?thesis by blast
qed

text \<open>with the package's documented division, the exact loss at the stop of a passed open (size
  times relative stop distance, plus the estimated fee) exceeds the per-trade bound by no more
  than half a unit of the sixteenth decimal.\<close>

theorem Evaluate_loss_bound:
  assumes "Evaluate L vid p lims st now = Ok v" and "passes v" and "IsOpen (p_Action p)"
    and "p_StopLoss p = Some sl" and "div_documented L"
  shows "cd_dec (p_SizeQuote p) * \<bar>entryPrice p st - cd_dec sl\<bar> / entryPrice p st
           + cd_dec (p_SizeQuote p) * st_EstTakerFeeRate st
         \<le> lim_MaxLossAtStopQuote lims + unit_of 16 / 2"
proof -
  have ok: "open_permitted L p lims st now (cd_dec sl)"
    using Evaluate_passes_open [OF assms(1-3)] assms(4) by (metis option.inject)
  then have "entryPrice p st \<noteq> 0" and "worst_of L p st (cd_dec sl) \<le> lim_MaxLossAtStopQuote lims"
    by (auto simp: open_permitted_def)
  then show ?thesis
    using div_documented_close [OF assms(5), of "entryPrice p st"
        "cd_dec (p_SizeQuote p) * \<bar>entryPrice p st - cd_dec sl\<bar>"]
    unfolding worst_of_def by linarith
qed

text \<open>when the notional cap is not negative, a clip hands on a positive size strictly below the
  requested one, namely the cap.\<close>

theorem Evaluate_clip_bounds:
  assumes "Evaluate L vid p lims st now = Ok v" and "v_Decision v = DecisionClip"
    and "0 \<le> lim_PerPositionNotionalCapQuote lims"
  shows "v_ClippedSizeQuote v = Some (NewDecimal L (lim_PerPositionNotionalCapQuote lims))
     \<and> 0 < lim_PerPositionNotionalCapQuote lims
     \<and> lim_PerPositionNotionalCapQuote lims < cd_dec (p_SizeQuote p)"
proof -
  have op: "IsOpen (p_Action p)"
  proof (rule ccontr)
    assume "\<not> IsOpen (p_Action p)"
    with assms(1,2) show False
      by (auto simp: Evaluate_not_open approve_def reject_def split: if_splits)
  qed
  have "passes v" using assms(2) by (simp add: passes_def)
  with assms(1) op have "v = gradeOpen L vid p lims st now"
    and "lim_PerPositionNotionalCapQuote lims \<noteq> 0"
    by (auto elim!: Evaluate_passes_open)
  with assms(2,3) show ?thesis
    by (auto simp: gradeOpen_def Let_def approve_def split: option.splits if_splits)
qed

text \<open>exits are exempt from the risk checks: a valid close is approved exactly when no kill is
  active, it is fresh, and a rate token is free; losses, drawdown, breaker, whitelist, open
  positions and caps never block it.\<close>

theorem Evaluate_close_iff:
  assumes "Validate p = []" and "p_Action p = ActionClose"
  shows "Evaluate L vid p lims st now = Ok (approve L vid p lims st now)
     \<longleftrightarrow> \<not> st_KillActive st \<and> \<not> isStale p lims now
         \<and> st_EntryOrdersInLastMinute st < lim_MaxOrdersPerMinute lims"
proof -
  have "\<not> IsOpen (p_Action p)" using assms(2) by simp
  then show ?thesis using assms
    by (auto simp: Evaluate_not_open Validate_schema approve_def reject_def build_def)
qed

section \<open>A concrete run\<close>

text \<open>An open long of 1000 at limit 100 with stop 95, clipped at the notional cap of 500.\<close>

definition sample_summary :: analyst_summary where
  "sample_summary = \<lparr>as_Signal = ''neutral'', as_Confidence = Fin (1/2), as_Summary = []\<rparr>"

definition sample_uuid :: string where
  "sample_uuid = ''0a1b2c3d-0000-4000-8000-0123456789ab''"

definition dec_of :: "'d \<Rightarrow> 'd cdecimal" where
  "dec_of d = \<lparr>cd_dec = d, cd_raw = []\<rparr>"

definition sample_proposal :: "rat proposal" where
  "sample_proposal = \<lparr>p_SchemaVersion = ''1.0'', p_ProposalID = sample_uuid, p_StrategyID = sample_uuid,
     p_AgentTraceID = sample_uuid, p_CreatedAt = \<lparr>ut_t = 0, ut_raw = ''1970-01-01T00:00:00Z''\<rparr>,
     p_Symbol = ''BTC/USDT'', p_Action = ActionOpenLong, p_SizeQuote = dec_of 1000,
     p_Entry = \<lparr>en_Type = ''limit'', en_LimitPrice = Some (dec_of 100)\<rparr>,
     p_StopLoss = Some (dec_of 95), p_TakeProfit = Some (dec_of 110), p_TimeInForce = ''gtc'',
     p_Confidence = Fin (4/5), p_Reasoning = [],
     p_AnalystSummaries = \<lparr>as_Market = sample_summary, as_News = sample_summary,
       as_Fundamental = sample_summary\<rparr>,
     p_DebateSummary = [], p_ModelCosts = []\<rparr>"

definition sample_limits :: "rat risk_limits" where
  "sample_limits = \<lparr>lim_SymbolWhitelist = [''BTC/USDT''], lim_MaxOpenPositions = 3,
     lim_PerPositionNotionalCapQuote = 500, lim_DailyLossLimitQuote = 200, lim_MaxDrawdownPct = 10,
     lim_MaxLossAtStopQuote = 100, lim_MinStopDistancePct = 1/10, lim_MaxStopDistancePct = 25,
     lim_MaxOrdersPerMinute = 6, lim_RequireStopLoss = True, lim_AllocatedCapitalQuote = 10000,
     lim_AccountingQuote = ''USDT'', lim_StalenessThresholdSeconds = 60,
     lim_L1ApprovalTimeoutSeconds = 600, lim_L2Envelope = None\<rparr>"

definition sample_state :: "rat runtime_state" where
  "sample_state = \<lparr>st_KillActive = False, st_KillEpoch = 0, st_BreakerActive = False,
     st_Autonomy = AutonomyL3, st_EquityQuote = 10000, st_PeakEquityQuote = 10000,
     st_DailyRealizedPnLQuote = 0, st_ReservedWorstCaseQuote = 0, st_OpenPositionsCount = 0,
     st_PendingEntryOrdersCount = 0, st_EntryOrdersInLastMinute = 0, st_MarkPrice = 100,
     st_EstTakerFeeRate = 1/1000\<rparr>"

lemma sample_valid: "Validate sample_proposal = []"
  by code_simp

definition sample_verdict :: "rat verdict" where
  "sample_verdict = gradeOpen rat_lib ''v'' sample_proposal sample_limits sample_state second"

lemma sample_run:
  "Evaluate rat_lib ''v'' sample_proposal sample_limits sample_state second = Ok sample_verdict"
  by code_simp

lemma sample_clip: "v_Decision sample_verdict = DecisionClip" and sample_passes: "passes sample_verdict"
  by code_simp+

lemma sample_open:
  "IsOpen (p_Action sample_proposal)" "p_StopLoss sample_proposal = Some (dec_of 95)"
  by (simp_all add: sample_proposal_def IsOpen_def)

definition sample_close :: "rat proposal" where
  "sample_close = sample_proposal\<lparr>p_Action := ActionClose, p_StopLoss := None, p_TakeProfit := None\<rparr>"

lemma sample_close_valid: "Validate sample_close = []"
  by code_simp

theorem Evaluate_open_first_failing_witness:
  "Validate sample_proposal = [] \<and> IsOpen (p_Action sample_proposal)
   \<and> first_failing (open_checks rat_lib sample_proposal sample_limits sample_state second 95) = None
   \<and> Evaluate rat_lib ''v'' sample_proposal sample_limits sample_state second = Ok sample_verdict"
proof -
  have "first_failing (open_checks rat_lib sample_proposal sample_limits sample_state second 95) = None"
    by code_simp
  then show ?thesis
    using Evaluate_open_first_failing [OF sample_valid sample_open(1,2), of rat_lib "''v''"
        sample_limits sample_state second] sample_valid sample_open
    by (simp add: sample_verdict_def dec_of_def)
qed

theorem Evaluate_open_sound_witness:
  "passes sample_verdict \<and> (\<exists>sl. p_StopLoss sample_proposal = Some sl
     \<and> open_permitted rat_lib sample_proposal sample_limits sample_state second (cd_dec sl)
     \<and> effective_size sample_proposal sample_verdict = min 1000 500)"
  using Evaluate_open_sound [OF sample_run sample_passes sample_open(1)] sample_passes
  by (auto simp: sample_limits_def sample_proposal_def dec_of_def)

theorem Evaluate_loss_bound_witness:
  "(1000 * \<bar>100 - 95\<bar> / 100 + 1000 * (1/1000) :: rat) \<le> 100 + unit_of 16 / 2"
  using Evaluate_loss_bound [OF sample_run sample_passes sample_open(1,2) rat_lib_div]
  by (simp add: sample_limits_def sample_proposal_def sample_state_def entryPrice_def dec_of_def)

theorem Evaluate_clip_bounds_witness:
  "v_ClippedSizeQuote sample_verdict = Some (NewDecimal rat_lib 500)"
  using Evaluate_clip_bounds [OF sample_run sample_clip] by (simp add: sample_limits_def)

theorem Evaluate_close_iff_witness:
  "Evaluate rat_lib ''v'' sample_close (sample_limits\<lparr>lim_SymbolWhitelist := []\<rparr>)
       (sample_state\<lparr>st_BreakerActive := True\<rparr>) second
     = Ok (approve rat_lib ''v'' sample_close (sample_limits\<lparr>lim_SymbolWhitelist := []\<rparr>)
         (sample_state\<lparr>st_BreakerActive := True\<rparr>) second)"
proof -
  have "\<not> isStale sample_close (sample_limits\<lparr>lim_SymbolWhitelist := []\<rparr>) second" by code_simp
  moreover have "p_Action sample_close = ActionClose" by (simp add: sample_close_def)
  ultimately show ?thesis
    using Evaluate_close_iff [OF sample_close_valid]
    by (simp add: sample_state_def sample_limits_def)
qed

end
