(* ===== verification/Machine.thy ===== *)
theory Machine
  imports Prelude
begin

text \<open>
  Runs of the control plane's state machines. A machine is a step function that either moves
  to a new state or refuses; a run applies a list of inputs and stops at the first refusal.
  The interface \<open>machine\<close> is what a component promises about one step, and what follows for
  its runs.
\<close>

fun run :: "('s \<Rightarrow> 'a \<Rightarrow> 's option) \<Rightarrow> 's \<Rightarrow> 'a list \<Rightarrow> 's option" where
  "run step s [] = Some s"
| "run step s (a # as) = (case step s a of None \<Rightarrow> None | Some t \<Rightarrow> run step t as)"

lemma run_append:
  "run step s (as @ bs) = (case run step s as of None \<Rightarrow> None | Some t \<Rightarrow> run step t bs)"
  by (induction as arbitrary: s) (auto split: option.splits)

lemma run_snoc_Some:
  "run step s (as @ [a]) = Some u \<longleftrightarrow> (\<exists>t. run step s as = Some t \<and> step t a = Some u)"
  by (auto simp: run_append split: option.splits)

text \<open>Inputs that a machine does not refuse, skipping refused ones, as a server loop does.\<close>

fun serve :: "('s \<Rightarrow> 'a \<Rightarrow> 's option) \<Rightarrow> 's \<Rightarrow> 'a list \<Rightarrow> 's" where
  "serve step s [] = s"
| "serve step s (a # as) = serve step (case step s a of None \<Rightarrow> s | Some t \<Rightarrow> t) as"

locale machine =
  fixes step :: "'s \<Rightarrow> 'a \<Rightarrow> 's option" and inv :: "'s \<Rightarrow> bool"
  assumes step_inv: "inv s \<Longrightarrow> step s a = Some t \<Longrightarrow> inv t"
begin

lemma run_inv: "inv s \<Longrightarrow> run step s as = Some t \<Longrightarrow> inv t"
  by (induction as arbitrary: s) (auto split: option.splits intro: step_inv)

lemma serve_inv: "inv s \<Longrightarrow> inv (serve step s as)"
  by (induction as arbitrary: s) (auto split: option.splits intro: step_inv)

end

text \<open>
  A machine with a phase that can only be entered through a gate: leaving the phase, or
  starting outside it, one has to pass the gate again to be in it.
\<close>

locale gated_machine =
  fixes step :: "'s \<Rightarrow> 'a \<Rightarrow> 's option"
    and inside :: "'s \<Rightarrow> bool"
    and gate :: "'s \<Rightarrow> 'a \<Rightarrow> bool"
    and resets :: "'a \<Rightarrow> bool"
  assumes enter: "step s a = Some t \<Longrightarrow> inside t \<Longrightarrow> \<not> inside s \<Longrightarrow> gate s a"
    and reset: "step s a = Some t \<Longrightarrow> resets a \<Longrightarrow> \<not> inside t"
begin

text \<open>A run that ends inside passed the gate at some point and was never reset after it.\<close>

lemma run_inside:
  assumes "\<not> inside s" and "run step s as = Some t" and "inside t"
  shows "\<exists>pre a post u. as = pre @ a # post \<and> run step s pre = Some u \<and> gate u a
           \<and> list_all (\<lambda>b. \<not> resets b) (a # post)"
  using assms(2,3)
proof (induction as arbitrary: t rule: rev_induct)
  case Nil
  with assms(1) show ?case by simp
next
  case (snoc a as)
  then obtain u where u: "run step s as = Some u" "step u a = Some t"
    by (auto simp: run_snoc_Some)
  have nr: "\<not> resets a" using reset u(2) snoc.prems(2) by blast
  show ?case
  proof (cases "inside u")
    case True
    with snoc.IH u(1) obtain pre b post v where
      "as = pre @ b # post" "run step s pre = Some v" "gate v b"
      "list_all (\<lambda>b. \<not> resets b) (b # post)" by blast
    with nr show ?thesis
      by (intro exI [of _ pre] exI [of _ b] exI [of _ "post @ [a]"] exI [of _ v]) simp
  next
    case False
    with enter u snoc.prems(2) have "gate u a" by blast
    with u(1) nr show ?thesis
      by (intro exI [of _ as] exI [of _ a] exI [of _ "[]"] exI [of _ u]) simp
  qed
qed

end

text \<open>Something that can happen once: an input fires only while the mark is not set, and sets it; the
  mark stays. Counting the inputs of a run that fire gives at most one.\<close>

fun fired :: "('s \<Rightarrow> 'a \<Rightarrow> 's option) \<Rightarrow> ('s \<Rightarrow> 'a \<Rightarrow> bool) \<Rightarrow> 's \<Rightarrow> 'a list \<Rightarrow> nat" where
  "fired step fires s [] = 0"
| "fired step fires s (a # as) = (if fires s a then 1 else 0)
     + (case step s a of None \<Rightarrow> 0 | Some t \<Rightarrow> fired step fires t as)"

locale one_shot =
  fixes step :: "'s \<Rightarrow> 'a \<Rightarrow> 's option"
    and mark :: "'s \<Rightarrow> bool"
    and fires :: "'s \<Rightarrow> 'a \<Rightarrow> bool"
  assumes fire_unmarked: "fires s a \<Longrightarrow> \<not> mark s"
    and fire_marks: "fires s a \<Longrightarrow> step s a = Some t \<Longrightarrow> mark t"
    and mark_stays: "mark s \<Longrightarrow> step s a = Some t \<Longrightarrow> mark t"
begin

lemma marked_never: "mark s \<Longrightarrow> fired step fires s as = 0"
  using fire_unmarked mark_stays by (induction as arbitrary: s) (auto split: option.split)

lemma at_most_once: "fired step fires s as \<le> 1"
proof (induction as arbitrary: s)
  case (Cons a as)
  show ?case
  proof (cases "fires s a")
    case True
    then show ?thesis using fire_marks marked_never by (auto split: option.split)
  next
    case False
    then show ?thesis using Cons by (auto split: option.split)
  qed
qed simp

lemma run_marked: "mark s \<Longrightarrow> run step s as = Some t \<Longrightarrow> mark t"
  by (induction as arbitrary: s) (auto split: option.splits intro: mark_stays)

end

end
