(* ===== verification/Lifecycle.thy ===== *)
theory Lifecycle
  imports Machine
begin

text \<open>
  The strategy lifecycle state machine (package \<open>internal/strategy\<close>). A state is a Go string;
  the empty string and unknown strings are states of their own here. An illegal transition is
  an error that leaves the instance unchanged; its message is not modelled.
\<close>

datatype state =
    NoState | StateDraft | StatePaper | StateLiveL1 | StateLiveL2 | StateLiveL3
  | StatePaused | StateKilled | UnknownState string

definition IsLive :: "state \<Rightarrow> bool" where
  "IsLive s \<longleftrightarrow> s = StateLiveL1 \<or> s = StateLiveL2 \<or> s = StateLiveL3"

datatype role = RoleViewer | RoleTrader | RoleAdmin | RoleOwner | RoleSystem

definition traderPlus :: "role \<Rightarrow> bool" where
  "traderPlus r \<longleftrightarrow> r = RoleTrader \<or> r = RoleAdmin \<or> r = RoleOwner"

definition adminPlus :: "role \<Rightarrow> bool" where
  "adminPlus r \<longleftrightarrow> r = RoleAdmin \<or> r = RoleOwner"

record lcontext =
  cx_Actor :: role
  cx_ConfigValid :: bool
  cx_ExchangeKeysConfigured :: bool
  cx_PaperGatePassed :: bool
  cx_L2EnvelopeConfigured :: bool
  cx_AdminApproval :: bool
  cx_PositionsFlat :: bool
  cx_KillCleared :: bool
  cx_CountersReset :: bool
  cx_Reason :: string

datatype effect = EffectCancelEntryOrders

record lc_instance =
  i_state :: state
  i_pausedFrom :: state

definition New :: lc_instance where
  "New = \<lparr>i_state = StateDraft, i_pausedFrom = NoState\<rparr>"

definition NewAt :: "state \<Rightarrow> lc_instance" where
  "NewAt s = \<lparr>i_state = s, i_pausedFrom = NoState\<rparr>"

definition NewPausedFrom :: "state \<Rightarrow> lc_instance" where
  "NewPausedFrom prev = \<lparr>i_state = StatePaused, i_pausedFrom = prev\<rparr>"

text \<open>A guard returns the illegal transition it refuses, or nothing.\<close>

datatype lc_error = Illegal state state

definition guardDraft :: "state \<Rightarrow> lcontext \<Rightarrow> lc_error option" where
  "guardDraft to cx =
     (if to \<noteq> StatePaper then Some (Illegal StateDraft to)
      else if \<not> traderPlus (cx_Actor cx) then Some (Illegal StateDraft to)
      else if \<not> cx_ConfigValid cx then Some (Illegal StateDraft to)
      else None)"

definition guardPaper :: "state \<Rightarrow> lcontext \<Rightarrow> lc_error option" where
  "guardPaper to cx =
     (if \<not> IsLive to then Some (Illegal StatePaper to)
      else if \<not> traderPlus (cx_Actor cx) then Some (Illegal StatePaper to)
      else if \<not> cx_PaperGatePassed cx then Some (Illegal StatePaper to)
      else (case to of
          StateLiveL1 \<Rightarrow> if \<not> cx_ExchangeKeysConfigured cx then Some (Illegal StatePaper to) else None
        | StateLiveL2 \<Rightarrow> if \<not> cx_L2EnvelopeConfigured cx then Some (Illegal StatePaper to) else None
        | StateLiveL3 \<Rightarrow> if \<not> cx_AdminApproval cx then Some (Illegal StatePaper to) else None
        | _ \<Rightarrow> None))"

definition guardLive :: "state \<Rightarrow> state \<Rightarrow> lcontext \<Rightarrow> lc_error option" where
  "guardLive frm to cx =
     (if \<not> traderPlus (cx_Actor cx) then Some (Illegal frm to)
      else if to = StatePaper then
        (if \<not> cx_PositionsFlat cx then Some (Illegal frm to) else None)
      else if frm = StateLiveL1 \<and> to = StateLiveL2 then
        (if \<not> cx_L2EnvelopeConfigured cx then Some (Illegal frm to) else None)
      else if (frm = StateLiveL1 \<or> frm = StateLiveL2) \<and> to = StateLiveL3 then
        (if \<not> cx_AdminApproval cx then Some (Illegal frm to) else None)
      else if frm = StateLiveL3 \<and> (to = StateLiveL2 \<or> to = StateLiveL1)
           \<or> frm = StateLiveL2 \<and> to = StateLiveL1 then None
      else Some (Illegal frm to))"

definition guardKilled :: "state \<Rightarrow> lcontext \<Rightarrow> lc_error option" where
  "guardKilled to cx =
     (if to \<noteq> StatePaper \<and> to \<noteq> StatePaused then Some (Illegal StateKilled to)
      else if \<not> adminPlus (cx_Actor cx) then Some (Illegal StateKilled to)
      else if \<not> cx_KillCleared cx then Some (Illegal StateKilled to)
      else if cx_Reason cx = [] then Some (Illegal StateKilled to)
      else if to = StatePaper then
        (if \<not> cx_PositionsFlat cx then Some (Illegal StateKilled to)
         else if \<not> cx_ConfigValid cx then Some (Illegal StateKilled to)
         else if \<not> cx_CountersReset cx then Some (Illegal StateKilled to)
         else None)
      else if cx_PositionsFlat cx then Some (Illegal StateKilled to)
      else None)"

definition guardPaused :: "lc_instance \<Rightarrow> state \<Rightarrow> lcontext \<Rightarrow> lc_error option" where
  "guardPaused i to cx =
     (if i_pausedFrom i = StateKilled \<or> i_pausedFrom i = NoState then
        (if to \<noteq> StatePaper then Some (Illegal StatePaused to) else guardKilled to cx)
      else if to \<noteq> i_pausedFrom i then Some (Illegal StatePaused to)
      else if \<not> traderPlus (cx_Actor cx) then Some (Illegal StatePaused to)
      else None)"

definition guardFrom :: "lc_instance \<Rightarrow> state \<Rightarrow> lcontext \<Rightarrow> lc_error option" where
  "guardFrom i to cx =
     (case i_state i of
        StateDraft \<Rightarrow> guardDraft to cx
      | StatePaper \<Rightarrow> guardPaper to cx
      | StateLiveL1 \<Rightarrow> guardLive (i_state i) to cx
      | StateLiveL2 \<Rightarrow> guardLive (i_state i) to cx
      | StateLiveL3 \<Rightarrow> guardLive (i_state i) to cx
      | StatePaused \<Rightarrow> guardPaused i to cx
      | StateKilled \<Rightarrow> guardKilled to cx
      | _ \<Rightarrow> Some (Illegal (i_state i) to))"

definition Transition :: "lc_instance \<Rightarrow> state \<Rightarrow> lcontext \<Rightarrow> lc_error + lc_instance \<times> effect list" where
  "Transition i to cx =
     (let frm = i_state i
      in if to = StateKilled then
           (if \<not> traderPlus (cx_Actor cx) \<and> cx_Actor cx \<noteq> RoleSystem then Inl (Illegal frm to)
            else Inr (\<lparr>i_state = StateKilled, i_pausedFrom = NoState\<rparr>, [EffectCancelEntryOrders]))
         else if to = StatePaused \<and> (frm = StatePaper \<or> IsLive frm) then
           (if \<not> traderPlus (cx_Actor cx) then Inl (Illegal frm to)
            else Inr (\<lparr>i_state = StatePaused, i_pausedFrom = frm\<rparr>, [EffectCancelEntryOrders]))
         else (case guardFrom i to cx of
             Some e \<Rightarrow> Inl e
           | None \<Rightarrow>
               let i1 = i\<lparr>i_state := to\<rparr>;
                   i2 = (if frm = StatePaused then i1\<lparr>i_pausedFrom := NoState\<rparr> else i1);
                   i3 = (if frm = StateKilled \<and> to = StatePaused
                         then i2\<lparr>i_pausedFrom := StateKilled\<rparr> else i2)
               in Inr (i3, [])))"

section \<open>The transition table\<close>

text \<open>
  The normative table, one rule per row: from, provenance, target, context, and what the
  instance becomes. Nothing else is a transition.
\<close>

definition unlock_common :: "lcontext \<Rightarrow> bool" where
  "unlock_common cx \<longleftrightarrow> adminPlus (cx_Actor cx) \<and> cx_KillCleared cx \<and> cx_Reason cx \<noteq> []"

definition unlock_to_paper :: "lcontext \<Rightarrow> bool" where
  "unlock_to_paper cx \<longleftrightarrow>
     unlock_common cx \<and> cx_PositionsFlat cx \<and> cx_ConfigValid cx \<and> cx_CountersReset cx"

inductive table :: "state \<Rightarrow> state \<Rightarrow> state \<Rightarrow> lcontext \<Rightarrow> state \<Rightarrow> bool" where
  kill: "traderPlus (cx_Actor cx) \<or> cx_Actor cx = RoleSystem \<Longrightarrow> table s pf StateKilled cx NoState"
| pause: "s = StatePaper \<or> IsLive s \<Longrightarrow> traderPlus (cx_Actor cx) \<Longrightarrow> table s pf StatePaused cx s"
| activate: "traderPlus (cx_Actor cx) \<Longrightarrow> cx_ConfigValid cx \<Longrightarrow> table StateDraft pf StatePaper cx pf"
| promote_l1: "traderPlus (cx_Actor cx) \<Longrightarrow> cx_PaperGatePassed cx \<Longrightarrow> cx_ExchangeKeysConfigured cx
    \<Longrightarrow> table StatePaper pf StateLiveL1 cx pf"
| promote_l2: "traderPlus (cx_Actor cx) \<Longrightarrow> cx_PaperGatePassed cx \<Longrightarrow> cx_L2EnvelopeConfigured cx
    \<Longrightarrow> table StatePaper pf StateLiveL2 cx pf"
| promote_l3: "traderPlus (cx_Actor cx) \<Longrightarrow> cx_PaperGatePassed cx \<Longrightarrow> cx_AdminApproval cx
    \<Longrightarrow> table StatePaper pf StateLiveL3 cx pf"
| l1_l2: "traderPlus (cx_Actor cx) \<Longrightarrow> cx_L2EnvelopeConfigured cx
    \<Longrightarrow> table StateLiveL1 pf StateLiveL2 cx pf"
| to_l3: "s = StateLiveL1 \<or> s = StateLiveL2 \<Longrightarrow> traderPlus (cx_Actor cx) \<Longrightarrow> cx_AdminApproval cx
    \<Longrightarrow> table s pf StateLiveL3 cx pf"
| demote: "s = StateLiveL3 \<and> t = StateLiveL2 \<or> s = StateLiveL3 \<and> t = StateLiveL1
      \<or> s = StateLiveL2 \<and> t = StateLiveL1 \<Longrightarrow> traderPlus (cx_Actor cx) \<Longrightarrow> table s pf t cx pf"
| back_to_paper: "IsLive s \<Longrightarrow> traderPlus (cx_Actor cx) \<Longrightarrow> cx_PositionsFlat cx
    \<Longrightarrow> table s pf StatePaper cx pf"
| resume: "pf \<notin> {StateKilled, NoState} \<Longrightarrow> traderPlus (cx_Actor cx)
    \<Longrightarrow> table StatePaused pf pf cx NoState"
| resume_after_kill: "pf = StateKilled \<or> pf = NoState \<Longrightarrow> unlock_to_paper cx
    \<Longrightarrow> table StatePaused pf StatePaper cx NoState"
| unlock_paper: "unlock_to_paper cx \<Longrightarrow> table StateKilled pf StatePaper cx pf"
| unlock_paused: "unlock_common cx \<Longrightarrow> \<not> cx_PositionsFlat cx
    \<Longrightarrow> table StateKilled pf StatePaused cx StateKilled"

inductive_simps table_simps:
  "table StateDraft pf t cx pf'" "table StatePaper pf t cx pf'" "table StateLiveL1 pf t cx pf'"
  "table StateLiveL2 pf t cx pf'" "table StateLiveL3 pf t cx pf'" "table StatePaused pf t cx pf'"
  "table StateKilled pf t cx pf'" "table NoState pf t cx pf'" "table (UnknownState u) pf t cx pf'"

lemmas lifecycle_defs = Transition_def guardFrom_def guardDraft_def guardPaper_def guardLive_def
  guardPaused_def guardKilled_def Let_def

definition effects_of :: "state \<Rightarrow> state \<Rightarrow> effect list" where
  "effects_of s t = (if t = StateKilled \<or> t = StatePaused \<and> (s = StatePaper \<or> IsLive s)
                     then [EffectCancelEntryOrders] else [])"

lemma Transition_rows:
  "Transition i to cx = Inr (i', effs)
     \<longleftrightarrow> table (i_state i) (i_pausedFrom i) to cx (i_pausedFrom i')
         \<and> i_state i' = to \<and> effs = effects_of (i_state i) to"
proof (cases i)
  case i: (fields s pf)
  obtain s' pf' where i': "i' = \<lparr>i_state = s', i_pausedFrom = pf'\<rparr>" by (cases i')
  show ?thesis
    by (cases s; cases to)
      (auto simp: i i' table_simps lifecycle_defs IsLive_def effects_of_def unlock_to_paper_def
        unlock_common_def)
qed

text \<open>the implemented machine is the transition table: a transition succeeds exactly when the
  table has a row for it under its guards, it moves to the target with the table's resume
  provenance, and it asks for the cancellation of entry orders exactly on kills and pauses.\<close>

theorem Transition_iff_table:
  "Transition i to cx = Inr (i', effs)
     \<longleftrightarrow> table (i_state i) (i_pausedFrom i) to cx (i_pausedFrom i')
         \<and> i_state i' = to \<and> effs = effects_of (i_state i) to"
  by (rule Transition_rows)

section \<open>Runs of an instance\<close>

definition lc_step :: "lc_instance \<Rightarrow> state \<times> lcontext \<Rightarrow> lc_instance option" where
  "lc_step i a = (case Transition i (fst a) (snd a) of Inl _ \<Rightarrow> None | Inr (i', _) \<Rightarrow> Some i')"

lemma lc_step_table:
  "lc_step i (to, cx) = Some j \<Longrightarrow>
     table (i_state i) (i_pausedFrom i) to cx (i_pausedFrom j) \<and> i_state j = to"
  by (auto simp: lc_step_def simp: Transition_rows split: sum.splits)

text \<open>Resume provenance exists in \<open>paused\<close> only, and is a state a strategy can be paused from.\<close>

definition lc_wf :: "lc_instance \<Rightarrow> bool" where
  "lc_wf i \<longleftrightarrow> (case i_state i of NoState \<Rightarrow> False | UnknownState _ \<Rightarrow> False
      | StatePaused \<Rightarrow> i_pausedFrom i = StateKilled \<or> i_pausedFrom i = StatePaper \<or> IsLive (i_pausedFrom i)
      | _ \<Rightarrow> i_pausedFrom i = NoState)"

text \<open>Holding money at risk: live, or paused with a live state to resume to.\<close>

definition exposed :: "lc_instance \<Rightarrow> bool" where
  "exposed i \<longleftrightarrow> IsLive (i_state i) \<or> i_state i = StatePaused \<and> IsLive (i_pausedFrom i)"

definition promotion :: "lc_instance \<Rightarrow> state \<times> lcontext \<Rightarrow> bool" where
  "promotion i a \<longleftrightarrow> i_state i = StatePaper \<and> IsLive (fst a) \<and> cx_PaperGatePassed (snd a)
     \<and> traderPlus (cx_Actor (snd a))"

definition demotion :: "state \<times> lcontext \<Rightarrow> bool" where
  "demotion a \<longleftrightarrow> fst a = StateKilled \<or> fst a = StatePaper \<or> fst a = StateDraft"

text \<open>Locked by a kill: killed, or paused by a kill's unlock.\<close>

definition locked :: "lc_instance \<Rightarrow> bool" where
  "locked i \<longleftrightarrow> i_state i = StateKilled
     \<or> i_state i = StatePaused \<and> (i_pausedFrom i = StateKilled \<or> i_pausedFrom i = NoState)"

definition unlocks :: "lc_instance \<Rightarrow> state \<times> lcontext \<Rightarrow> bool" where
  "unlocks i a \<longleftrightarrow> fst a = StatePaper \<and> unlock_to_paper (snd a)"

definition kills :: "state \<times> lcontext \<Rightarrow> bool" where
  "kills a \<longleftrightarrow> fst a = StateKilled"

lemma table_wf: "lc_wf i \<Longrightarrow> table (i_state i) (i_pausedFrom i) (i_state j) cx (i_pausedFrom j) \<Longrightarrow> lc_wf j"
  by (cases "i_state i"; cases "i_state j") (auto simp: lc_wf_def table_simps IsLive_def)

interpretation lc: machine lc_step lc_wf
proof unfold_locales
  fix i :: lc_instance and a j
  assume "lc_wf i" and "lc_step i a = Some j"
  then show "lc_wf j" using lc_step_table [of i "fst a" "snd a" j] table_wf [of i j] by auto
qed

interpretation lc_gate: gated_machine lc_step exposed promotion demotion
proof unfold_locales
  fix i :: lc_instance and a j
  assume s: "lc_step i a = Some j"
  then have t: "table (i_state i) (i_pausedFrom i) (fst a) (snd a) (i_pausedFrom j)" "i_state j = fst a"
    using lc_step_table [of i "fst a" "snd a" j] by auto
  show "promotion i a" if "exposed j" "\<not> exposed i"
    using t that by (cases "i_state i"; cases "fst a")
      (auto simp: table_simps exposed_def promotion_def IsLive_def)
  show "\<not> exposed j" if "demotion a"
    using t that by (cases "i_state i") (auto simp: table_simps exposed_def demotion_def IsLive_def)
qed

interpretation lc_lock: gated_machine lc_step "\<lambda>i. \<not> locked i" unlocks kills
proof unfold_locales
  fix i :: lc_instance and a j
  assume s: "lc_step i a = Some j"
  then have t: "table (i_state i) (i_pausedFrom i) (fst a) (snd a) (i_pausedFrom j)" "i_state j = fst a"
    using lc_step_table [of i "fst a" "snd a" j] by auto
  show "unlocks i a" if "\<not> locked j" "\<not> \<not> locked i"
    using t that by (cases "i_state i"; cases "fst a")
      (auto simp: table_simps locked_def unlocks_def IsLive_def)
  show "\<not> \<not> locked j" if "kills a"
    using t that by (auto simp: locked_def kills_def)
qed

text \<open>C11: real money needs the paper gate: in every run from \<open>draft\<close> that ends live, at some point
  the strategy was in paper and was promoted with the gate passed, by Trader or above, and
  since then it was neither killed nor sent back to paper or draft.\<close>

theorem live_needs_paper_gate:
  assumes "run lc_step New as = Some i" and "IsLive (i_state i)"
  shows "\<exists>pre a post u. as = pre @ a # post \<and> run lc_step New pre = Some u \<and> promotion u a
           \<and> list_all (\<lambda>b. \<not> demotion b) (a # post)"
proof (rule lc_gate.run_inside)
  show "\<not> exposed New" by (simp add: exposed_def New_def IsLive_def)
qed (use assms in \<open>auto simp: exposed_def\<close>)

text \<open>a kill is sticky: from a killed instance every run that ends live contains an unlock to
  paper by Admin or Owner (kill cleared, reason recorded, positions flat, config valid,
  counters reset) with no kill after it, and a promotion with the paper gate passed with
  neither kill nor return to paper after it.\<close>

theorem killed_needs_unlock_and_gate:
  assumes "i_state k = StateKilled" and "run lc_step k as = Some i" and "IsLive (i_state i)"
  shows "(\<exists>pre a post u. as = pre @ a # post \<and> run lc_step k pre = Some u \<and> unlocks u a
            \<and> list_all (\<lambda>b. \<not> kills b) (a # post))
       \<and> (\<exists>pre a post u. as = pre @ a # post \<and> run lc_step k pre = Some u \<and> promotion u a
            \<and> list_all (\<lambda>b. \<not> demotion b) (a # post))"
proof
  have l: "\<not> \<not> locked k" "\<not> locked i" "\<not> exposed k" "exposed i"
    using assms by (auto simp: locked_def exposed_def IsLive_def)
  show "\<exists>pre a post u. as = pre @ a # post \<and> run lc_step k pre = Some u \<and> unlocks u a
      \<and> list_all (\<lambda>b. \<not> kills b) (a # post)"
    using l(1) assms(2) l(2) by (rule lc_lock.run_inside)
  show "\<exists>pre a post u. as = pre @ a # post \<and> run lc_step k pre = Some u \<and> promotion u a
      \<and> list_all (\<lambda>b. \<not> demotion b) (a # post)"
    using l(3) assms(2) l(4) by (rule lc_gate.run_inside)
qed

text \<open>a pause is resumed to the state it interrupted: after a successful pause of a paper or
  live strategy, any successful transition other than a kill goes back to that state and
  forgets the provenance.\<close>

theorem pause_resume_exact:
  assumes "i_state i = StatePaper \<or> IsLive (i_state i)"
    and "lc_step i (StatePaused, cx) = Some j" and "lc_step j (to, cx') = Some k"
    and "to \<noteq> StateKilled"
  shows "i_state k = i_state i \<and> i_pausedFrom k = NoState"
  using assms(1,4) lc_step_table [OF assms(2)] lc_step_table [OF assms(3)]
  by (cases "i_state i") (auto simp: table_simps IsLive_def)

text \<open>runs from \<open>draft\<close> stay well formed: the state is one of the seven canonical ones and
  resume provenance is recorded in \<open>paused\<close> only, where it names killed, paper or a live state.\<close>

theorem lifecycle_wf: "run lc_step New as = Some i \<Longrightarrow> lc_wf i"
  by (rule lc.run_inv) (simp_all add: lc_wf_def New_def)

section \<open>A concrete run\<close>

definition sample_cx :: lcontext where
  "sample_cx = \<lparr>cx_Actor = RoleAdmin, cx_ConfigValid = True, cx_ExchangeKeysConfigured = True,
     cx_PaperGatePassed = True, cx_L2EnvelopeConfigured = True, cx_AdminApproval = True,
     cx_PositionsFlat = True, cx_KillCleared = True, cx_CountersReset = True, cx_Reason = ''r''\<rparr>"

theorem live_needs_paper_gate_witness:
  "\<exists>pre a post u. [(StatePaper, sample_cx), (StateLiveL1, sample_cx)] = pre @ a # post
     \<and> run lc_step New pre = Some u \<and> promotion u a \<and> list_all (\<lambda>b. \<not> demotion b) (a # post)"
proof (rule live_needs_paper_gate)
  show "run lc_step New [(StatePaper, sample_cx), (StateLiveL1, sample_cx)]
      = Some \<lparr>i_state = StateLiveL1, i_pausedFrom = NoState\<rparr>" by code_simp
qed (simp add: IsLive_def)

theorem killed_needs_unlock_and_gate_witness:
  "\<exists>pre a post u. [(StatePaper, sample_cx), (StateLiveL2, sample_cx)] = pre @ a # post
     \<and> run lc_step (NewAt StateKilled) pre = Some u \<and> unlocks u a \<and> list_all (\<lambda>b. \<not> kills b) (a # post)"
proof -
  have "run lc_step (NewAt StateKilled) [(StatePaper, sample_cx), (StateLiveL2, sample_cx)]
      = Some \<lparr>i_state = StateLiveL2, i_pausedFrom = NoState\<rparr>" by code_simp
  from killed_needs_unlock_and_gate [OF _ this] show ?thesis by (simp add: NewAt_def IsLive_def)
qed

theorem pause_resume_exact_witness:
  "lc_step (NewAt StateLiveL2) (StatePaused, sample_cx) = Some (NewPausedFrom StateLiveL2)
   \<and> lc_step (NewPausedFrom StateLiveL2) (StateLiveL2, sample_cx) = Some (NewAt StateLiveL2)
   \<and> i_state (NewAt StateLiveL2) = StateLiveL2"
proof -
  have a: "lc_step (NewAt StateLiveL2) (StatePaused, sample_cx) = Some (NewPausedFrom StateLiveL2)"
    and b: "lc_step (NewPausedFrom StateLiveL2) (StateLiveL2, sample_cx) = Some (NewAt StateLiveL2)"
    by code_simp+
  with pause_resume_exact [OF _ a b] show ?thesis by (simp add: NewAt_def IsLive_def)
qed

theorem lifecycle_wf_witness: "lc_wf \<lparr>i_state = StateLiveL1, i_pausedFrom = NoState\<rparr>"
  by (rule lifecycle_wf [of "[(StatePaper, sample_cx), (StateLiveL1, sample_cx)]"]) code_simp

end
