(* ===== verification/Stores.thy ===== *)
theory Stores
  imports Prelude "HOL-Library.AList" "HOL-Library.List_Lexorder" "HOL-Library.Char_ord"
begin

text \<open>
  In-memory tables of the control plane. A Go map is an association list (keys are looked up,
  the order of entries never matters to the code, which sorts or sweeps); a table of rows that
  carry their own key is a list of rows. The interface \<open>keyed_store\<close> states the laws of lookup
  after update that the components use.
\<close>

locale keyed_store =
  fixes get :: "'s \<Rightarrow> 'k \<Rightarrow> 'v option"
    and put :: "'k \<Rightarrow> 'v \<Rightarrow> 's \<Rightarrow> 's"
    and ok :: "'k \<Rightarrow> 'v \<Rightarrow> bool"
  assumes get_put: "ok k v \<Longrightarrow> get (put k v s) j = (if j = k then Some v else get s j)"
begin

lemma get_put_same: "ok k v \<Longrightarrow> get (put k v s) k = Some v"
  by (simp add: get_put)

lemma get_put_other: "ok k v \<Longrightarrow> j \<noteq> k \<Longrightarrow> get (put k v s) j = get s j"
  by (simp add: get_put)

lemma get_put_put: "ok k v \<Longrightarrow> ok k w \<Longrightarrow> get (put k w (put k v s)) = get (put k w s)"
  by (rule ext) (simp add: get_put)

lemma get_put_swap:
  "ok k v \<Longrightarrow> ok j w \<Longrightarrow> j \<noteq> k \<Longrightarrow> get (put k v (put j w s)) = get (put j w (put k v s))"
  by (rule ext) (simp add: get_put)

end

text \<open>Association lists.\<close>

abbreviation al_get :: "('k \<times> 'v) list \<Rightarrow> 'k \<Rightarrow> 'v option" where
  "al_get \<equiv> map_of"

abbreviation al_put :: "'k \<Rightarrow> 'v \<Rightarrow> ('k \<times> 'v) list \<Rightarrow> ('k \<times> 'v) list" where
  "al_put \<equiv> AList.update"

interpretation al: keyed_store al_get al_put "\<lambda>_ _. True"
  by unfold_locales (simp add: update_conv' fun_upd_def)

text \<open>Tables of rows with a key field.\<close>

definition row_get :: "('r \<Rightarrow> 'k) \<Rightarrow> 'r list \<Rightarrow> 'k \<Rightarrow> 'r option" where
  "row_get key rs k = find (\<lambda>r. key r = k) rs"

fun row_put :: "('r \<Rightarrow> 'k) \<Rightarrow> 'k \<Rightarrow> 'r \<Rightarrow> 'r list \<Rightarrow> 'r list" where
  "row_put key k r [] = [r]"
| "row_put key k r (x # xs) = (if key x = k then r # xs else x # row_put key k r xs)"

lemma row_get_simps [simp]:
  "row_get key [] k = None"
  "row_get key (x # xs) k = (if key x = k then Some x else row_get key xs k)"
  by (simp_all add: row_get_def)

lemma row_get_put: "key r = k \<Longrightarrow> row_get key (row_put key k r rs) j
    = (if j = k then Some r else row_get key rs j)"
  by (induction rs) auto

lemma row_get_key: "row_get key rs k = Some r \<Longrightarrow> key r = k \<and> r \<in> set rs"
  by (induction rs) (auto split: if_splits)

lemma row_get_in: "distinct (map key rs) \<Longrightarrow> r \<in> set rs \<Longrightarrow> row_get key rs (key r) = Some r"
  by (induction rs) auto

lemma row_get_map:
  "(\<And>r. key (f r) = key r) \<Longrightarrow> row_get key (map f rs) k = map_option f (row_get key rs k)"
  by (induction rs) auto

lemma row_get_None_iff: "row_get key rs k = None \<longleftrightarrow> k \<notin> key ` set rs"
  by (induction rs) auto

lemma row_get_append: "row_get key (xs @ ys) k =
    (case row_get key xs k of Some r \<Rightarrow> Some r | None \<Rightarrow> row_get key ys k)"
  by (induction xs) auto

lemma set_row_put: "r' \<in> set (row_put key k r rs) \<Longrightarrow> r' = r \<or> r' \<in> set rs"
  by (induction rs) (auto split: if_splits)

lemma row_put_keys: "key r = k \<Longrightarrow> set (map key (row_put key k r rs)) = insert k (set (map key rs))"
  by (induction rs) auto

lemma row_put_distinct:
  "key r = k \<Longrightarrow> distinct (map key rs) \<Longrightarrow> distinct (map key (row_put key k r rs))"
proof (induction rs)
  case (Cons x xs)
  then show ?case using row_put_keys [of key r k xs] by (auto simp: image_iff)
qed simp

interpretation rows: keyed_store "row_get key" "row_put key" "\<lambda>k r. key r = k"
  for key :: "'r \<Rightarrow> 'k"
  by unfold_locales (rule row_get_put)

end
