(* ===== verification/PaperOMS.thy ===== *)
theory PaperOMS
  imports Contract Stores
begin

text \<open>
  The in-memory paper order manager (package \<open>internal/oms/paper\<close>). Orders are the rows of a
  table keyed by order id; position books are a map from (strategy, symbol). A call returns
  the new manager together with Go's result pair: the order (None for the zero order) and the
  error. The identifiers that the UUID package mints are the parameter \<open>U\<close>, read at a counter
  of the state; the protective-placement seam is a field, as in the code.
\<close>

section \<open>Data\<close>

datatype oclass = ClassEntry | ClassProtective
datatype side = SideBuy | SideSell
datatype ostatus = StatusOpen | StatusFilled | StatusCanceled

record 'd order =
  o_ID :: string
  o_StrategyID :: string
  o_Symbol :: string
  o_Class :: oclass
  o_Side :: side
  o_Type :: string
  o_ReduceOnly :: bool
  o_QtyBase :: 'd
  o_LimitPrice :: 'd
  o_StopPrice :: 'd
  o_TakeProfit :: 'd
  o_FillPrice :: 'd
  o_FeeQuote :: 'd
  o_Status :: ostatus
  o_KillEpoch :: int

record 'd position =
  pos_Symbol :: string
  pos_QtyBase :: 'd
  pos_EntryPrice :: 'd
  pos_FeesQuote :: 'd
  pos_RealizedPnLQuote :: 'd

record fill_model_cfg =
  fm_MarketSlippageBps :: string
  fm_TakerFeeBps :: string
  fm_MakerFeeBps :: string

record 'd fill_model =
  fl_slippageBps :: 'd
  fl_takerBps :: 'd
  fl_makerBps :: 'd

datatype paper_error =
    ErrFillModel contract_error | ErrSlippageTooLarge
  | ErrKillEpochStale | ErrUnknownEntryType | ErrNonPositiveSize | ErrNonPositiveLimitPrice
  | ErrNonPositiveMarkPrice | ErrNonPositiveFillPrice | ErrQtyRoundsToZero
  | ErrNoOpenLimitEntry | ErrNoOpenPosition | ErrProtectivePlacement
  | ErrRestoreEmptyID | ErrRestoreNotOpen | ErrRestorePresent

definition parse_bps :: "'d dlib \<Rightarrow> string \<Rightarrow> (paper_error, 'd) outcome" where
  "parse_bps L s = (case ParseDecimal L s of Ok d \<Rightarrow> Ok (cd_dec d) | Err e \<Rightarrow> Err (ErrFillModel e)
      | Panic \<Rightarrow> Panic | Diverge \<Rightarrow> Diverge)"

definition parseFillModel ::
  "'d::linordered_field dlib \<Rightarrow> fill_model_cfg \<Rightarrow> (paper_error, 'd fill_model) outcome" where
  "parseFillModel L fm =
     bind_outcome (parse_bps L (fm_MarketSlippageBps fm)) (\<lambda>slip.
       if slip \<ge> 10000 then Err ErrSlippageTooLarge
       else bind_outcome (parse_bps L (fm_TakerFeeBps fm)) (\<lambda>taker.
         bind_outcome (parse_bps L (fm_MakerFeeBps fm)) (\<lambda>maker.
           Ok \<lparr>fl_slippageBps = slip, fl_takerBps = taker, fl_makerBps = maker\<rparr>)))"

type_synonym pkey = "string \<times> string"

record 'd oms =
  oms_killEpochs :: "(string \<times> int) list"
  oms_fill :: "'d fill_model"
  oms_orders :: "'d order list"
  oms_positions :: "(pkey \<times> 'd position) list"
  oms_place :: "'d order \<Rightarrow> bool"   \<comment> \<open>\<open>placeProtective\<close> returns no error\<close>
  oms_minted :: nat               \<comment> \<open>identifiers minted so far\<close>

definition NewOMS ::
  "'d::linordered_field dlib \<Rightarrow> fill_model_cfg \<Rightarrow> (paper_error, 'd oms) outcome" where
  "NewOMS L fm = bind_outcome (parseFillModel L fm) (\<lambda>f.
     Ok \<lparr>oms_killEpochs = [], oms_fill = f, oms_orders = [], oms_positions = [],
         oms_place = (\<lambda>_. True), oms_minted = 0\<rparr>)"

definition SetProtectivePlacementHook :: "('d order \<Rightarrow> bool) \<Rightarrow> 'd oms \<Rightarrow> 'd oms" where
  "SetProtectivePlacementHook f m = m\<lparr>oms_place := f\<rparr>"

text \<open>The snapshot of all orders; Go's map order is not fixed.\<close>

definition Orders :: "'d oms \<Rightarrow> 'd order list" where
  "Orders m = oms_orders m"

text \<open>Reading a missing key of the epoch map yields zero.\<close>

definition KillEpoch :: "'d oms \<Rightarrow> string \<Rightarrow> int" where
  "KillEpoch m s = (case al_get (oms_killEpochs m) s of None \<Rightarrow> 0 | Some e \<Rightarrow> e)"

definition get_order :: "'d oms \<Rightarrow> string \<Rightarrow> 'd order option" where
  "get_order m = row_get o_ID (oms_orders m)"

definition put_order :: "'d order \<Rightarrow> 'd oms \<Rightarrow> 'd oms" where
  "put_order r m = m\<lparr>oms_orders := row_put o_ID (o_ID r) r (oms_orders m)\<rparr>"

definition book_of :: "'d oms \<Rightarrow> string \<Rightarrow> string \<Rightarrow> 'd position option" where
  "book_of m s sy = al_get (oms_positions m) (s, sy)"

definition Position :: "'d::linordered_field oms \<Rightarrow> string \<Rightarrow> string \<Rightarrow> 'd position option" where
  "Position m s sy =
     (case book_of m s sy of None \<Rightarrow> None
      | Some p \<Rightarrow> if pos_QtyBase p = 0 then None else Some p)"

definition RealizedPnL :: "'d::linordered_field oms \<Rightarrow> string \<Rightarrow> string \<Rightarrow> 'd" where
  "RealizedPnL m s sy = (case book_of m s sy of None \<Rightarrow> 0 | Some p \<Rightarrow> pos_RealizedPnLQuote p)"

section \<open>Fill arithmetic\<close>

definition sideSign :: "side \<Rightarrow> 'd::linordered_field" where
  "sideSign s = (if s = SideBuy then 1 else - 1)"

definition closeSide :: "'d::linordered_field \<Rightarrow> side" where
  "closeSide q = (if q > 0 then SideSell else SideBuy)"

definition round8 :: "'d dlib \<Rightarrow> 'd \<Rightarrow> 'd" where
  "round8 L d = dRound L d 8"

definition qtyStep :: "'d::linordered_field" where
  "qtyStep = unit_of 8"

text \<open>The loop that steps the quantity down until its notional fits.\<close>

partial_function (option) lower_qty ::
  "'d::linordered_field \<Rightarrow> 'd \<Rightarrow> 'd \<Rightarrow> 'd option" where
  "lower_qty sizeQuote fillPrice qty =
     (if qty * fillPrice > sizeQuote then lower_qty sizeQuote fillPrice (qty - qtyStep) else Some qty)"

declare lower_qty.simps [code]

definition qtyForNotional ::
  "'d::linordered_field dlib \<Rightarrow> 'd \<Rightarrow> 'd \<Rightarrow> (paper_error, 'd) outcome" where
  "qtyForNotional L sizeQuote fillPrice =
     bind_outcome (ddiv L sizeQuote fillPrice) (\<lambda>q.
       case lower_qty sizeQuote fillPrice (round8 L q) of
         None \<Rightarrow> Diverge
       | Some qty \<Rightarrow> if qty \<le> 0 then Err ErrQtyRoundsToZero else Ok qty)"

definition slippedPrice ::
  "'d::linordered_field dlib \<Rightarrow> 'd fill_model \<Rightarrow> side \<Rightarrow> 'd \<Rightarrow> 'd" where
  "slippedPrice L fm sd mark =
     (let slip = fl_slippageBps fm * unit_of 4
      in if sd = SideBuy then round8 L (mark * (1 + slip)) else round8 L (mark * (1 - slip)))"

definition feeQuote :: "'d::linordered_field dlib \<Rightarrow> 'd \<Rightarrow> 'd \<Rightarrow> 'd \<Rightarrow> 'd" where
  "feeQuote L qty price feeBps = round8 L (qty * price * (feeBps * unit_of 4))"

definition stopTriggered :: "side \<Rightarrow> 'd::linordered_field \<Rightarrow> 'd \<Rightarrow> bool" where
  "stopTriggered sd mark stop = (if sd = SideSell then mark \<le> stop else mark \<ge> stop)"

definition limitCrossed :: "side \<Rightarrow> 'd::linordered_field \<Rightarrow> 'd \<Rightarrow> bool" where
  "limitCrossed sd mark limit = (if sd = SideBuy then mark \<le> limit else mark \<ge> limit)"

section \<open>Booking fills\<close>

text \<open>\<open>applyFill\<close> on one position book; a missing book starts flat.\<close>

definition flat_position :: "string \<Rightarrow> 'd::linordered_field position" where
  "flat_position sy = \<lparr>pos_Symbol = sy, pos_QtyBase = 0, pos_EntryPrice = 0, pos_FeesQuote = 0,
     pos_RealizedPnLQuote = 0\<rparr>"

definition fill_position ::
  "'d::linordered_field dlib \<Rightarrow> 'd position \<Rightarrow> side \<Rightarrow> 'd \<Rightarrow> 'd \<Rightarrow> 'd \<Rightarrow>
     (unit, 'd position) outcome" where
  "fill_position L pos sd qty price fee =
     (let q0 = pos_QtyBase pos;
          pos = (if q0 = 0 then pos\<lparr>pos_FeesQuote := 0\<rparr> else pos);
          delta = sideSign sd * qty
      in bind_outcome
        (if q0 = 0 \<or> sgn q0 = sgn delta
         then let total = \<bar>q0\<bar> + qty
              in bind_outcome (ddiv L (pos_EntryPrice pos * \<bar>q0\<bar> + price * qty) total)
                   (\<lambda>e. Ok (pos\<lparr>pos_EntryPrice := e\<rparr>))
         else let closed = min qty \<bar>q0\<bar>;
                  gross = round8 L ((price - pos_EntryPrice pos) * closed * sgn q0);
                  pos = pos\<lparr>pos_RealizedPnLQuote := pos_RealizedPnLQuote pos + gross\<rparr>
              in Ok (if qty > \<bar>q0\<bar> then pos\<lparr>pos_EntryPrice := price\<rparr> else pos))
        (\<lambda>pos.
          let pos = pos\<lparr>pos_FeesQuote := pos_FeesQuote pos + fee,
                        pos_RealizedPnLQuote := pos_RealizedPnLQuote pos - fee,
                        pos_QtyBase := q0 + delta\<rparr>
          in Ok (if pos_QtyBase pos = 0 then pos\<lparr>pos_EntryPrice := 0\<rparr> else pos)))"

definition held :: "'d::linordered_field oms \<Rightarrow> string \<Rightarrow> string \<Rightarrow> 'd position" where
  "held m s sy = (case book_of m s sy of None \<Rightarrow> flat_position sy | Some p \<Rightarrow> p)"

definition applyFill ::
  "'d::linordered_field dlib \<Rightarrow> 'd oms \<Rightarrow> string \<Rightarrow> string \<Rightarrow> side \<Rightarrow> 'd \<Rightarrow> 'd \<Rightarrow> 'd \<Rightarrow>
     (unit, 'd oms) outcome" where
  "applyFill L m s sy sd qty price fee =
     bind_outcome
       (fill_position L (held m s sy) sd qty price fee)
       (\<lambda>p. Ok (m\<lparr>oms_positions := al_put (s, sy) p (oms_positions m)\<rparr>))"

type_synonym 'd oms_result = "(unit, 'd oms \<times> 'd order option \<times> paper_error option) outcome"

definition bookFill :: "'d::linordered_field dlib \<Rightarrow> 'd oms \<Rightarrow> 'd order \<Rightarrow> 'd \<Rightarrow> 'd \<Rightarrow> 'd oms_result" where
  "bookFill L m r price fee =
     (if price \<le> 0 then Ok (m, None, Some ErrNonPositiveFillPrice)
      else let r' = r\<lparr>o_FillPrice := price, o_FeeQuote := fee, o_Status := StatusFilled\<rparr>
      in bind_outcome
           (applyFill L (put_order r' m) (o_StrategyID r) (o_Symbol r) (o_Side r) (o_QtyBase r) price fee)
           (\<lambda>m'. Ok (m', Some r', None)))"

section \<open>Orders\<close>

definition blank_order :: "string \<Rightarrow> string \<Rightarrow> string \<Rightarrow> oclass \<Rightarrow> side \<Rightarrow> string \<Rightarrow> int \<Rightarrow>
     'd::linordered_field order" where
  "blank_order oid s sy cl sd ty ep =
     \<lparr>o_ID = oid, o_StrategyID = s, o_Symbol = sy, o_Class = cl, o_Side = sd, o_Type = ty,
      o_ReduceOnly = (cl = ClassProtective), o_QtyBase = 0, o_LimitPrice = 0, o_StopPrice = 0,
      o_TakeProfit = 0, o_FillPrice = 0, o_FeeQuote = 0, o_Status = StatusOpen, o_KillEpoch = ep\<rparr>"

definition mint :: "(nat \<Rightarrow> string) \<Rightarrow> 'd oms \<Rightarrow> string \<times> 'd oms" where
  "mint U m = (U (oms_minted m), m\<lparr>oms_minted := Suc (oms_minted m)\<rparr>)"

definition is_open_protective :: "string \<Rightarrow> string \<Rightarrow> 'd order \<Rightarrow> bool" where
  "is_open_protective s sy r \<longleftrightarrow>
     o_StrategyID r = s \<and> o_Symbol r = sy \<and> o_Class r = ClassProtective \<and> o_Status r = StatusOpen"

definition is_open_entry :: "string \<Rightarrow> 'd order \<Rightarrow> bool" where
  "is_open_entry s r \<longleftrightarrow> o_StrategyID r = s \<and> o_Class r = ClassEntry \<and> o_Status r = StatusOpen"

definition cancel_where :: "('d order \<Rightarrow> bool) \<Rightarrow> 'd oms \<Rightarrow> 'd oms" where
  "cancel_where P m =
     m\<lparr>oms_orders := map (\<lambda>r. if P r then r\<lparr>o_Status := StatusCanceled\<rparr> else r) (oms_orders m)\<rparr>"

definition cancelOpenProtectives :: "string \<Rightarrow> string \<Rightarrow> 'd oms \<Rightarrow> 'd oms" where
  "cancelOpenProtectives s sy = cancel_where (is_open_protective s sy)"

definition CancelOpenEntries :: "string \<Rightarrow> 'd oms \<Rightarrow> 'd oms" where
  "CancelOpenEntries s = cancel_where (is_open_entry s)"

definition RestoreKillEpoch :: "string \<Rightarrow> int \<Rightarrow> 'd oms \<Rightarrow> 'd oms" where
  "RestoreKillEpoch s ep m =
     (if ep > KillEpoch m s then m\<lparr>oms_killEpochs := al_put s ep (oms_killEpochs m)\<rparr> else m)"

definition Kill :: "string \<Rightarrow> int \<Rightarrow> 'd oms \<Rightarrow> 'd oms" where
  "Kill s ep m =
     CancelOpenEntries s
       (if ep > KillEpoch m s then m\<lparr>oms_killEpochs := al_put s ep (oms_killEpochs m)\<rparr> else m)"

text \<open>The reduce-only stop and take-profit covering the filled quantity; False is the seam's error.\<close>

definition placeProtectives ::
  "(nat \<Rightarrow> string) \<Rightarrow> 'd::linordered_field oms \<Rightarrow> 'd order \<Rightarrow> 'd \<Rightarrow> 'd \<Rightarrow> 'd oms \<times> bool" where
  "placeProtectives U m r stopPrice takeProfit =
     (let sd = closeSide (sideSign (o_Side r) :: 'd);
          (m1, ok1) =
            (if stopPrice > 0 then
               let (oid, m0) = mint U m;
                   stop = (blank_order oid (o_StrategyID r) (o_Symbol r) ClassProtective sd ''stop''
                            (o_KillEpoch r))\<lparr>o_QtyBase := o_QtyBase r, o_StopPrice := stopPrice\<rparr>
               in if oms_place m0 stop then (put_order stop m0, True) else (m0, False)
             else (m, True))
      in if \<not> ok1 then (m1, False)
         else if takeProfit > 0 then
           let (oid, m2) = mint U m1;
               tp = (blank_order oid (o_StrategyID r) (o_Symbol r) ClassProtective sd ''take_profit''
                      (o_KillEpoch r))\<lparr>o_QtyBase := o_QtyBase r, o_LimitPrice := takeProfit\<rparr>
           in if oms_place m2 tp then (put_order tp m2, True) else (m2, False)
         else (m1, True))"

definition flatten ::
  "'d::linordered_field dlib \<Rightarrow> (nat \<Rightarrow> string) \<Rightarrow> 'd oms \<Rightarrow> string \<Rightarrow> string \<Rightarrow> 'd \<Rightarrow> 'd oms_result" where
  "flatten L U m s sy mark =
     (case Position m s sy of
        None \<Rightarrow> Ok (m, None, Some ErrNoOpenPosition)
      | Some pos \<Rightarrow>
          let sd = closeSide (pos_QtyBase pos); qty = \<bar>pos_QtyBase pos\<bar>;
              (oid, m1) = mint U m;
              r = (blank_order oid s sy ClassProtective sd ''market'' 0)\<lparr>o_QtyBase := qty\<rparr>;
              m2 = put_order r m1
          in if mark \<le> 0 then Ok (m2, Some r, None)
             else let price = slippedPrice L (oms_fill m2) sd mark
             in bind_outcome (bookFill L m2 r price (feeQuote L qty price (fl_takerBps (oms_fill m2))))
                  (\<lambda>(m3, r', e). case e of
                     Some err \<Rightarrow> Ok (m3, Some r, Some err)
                   | None \<Rightarrow> Ok (cancelOpenProtectives s sy m3, r', None)))"

text \<open>Protective placement after an entry fill, with the contingency flatten.\<close>

definition protect_fill ::
  "'d::linordered_field dlib \<Rightarrow> (nat \<Rightarrow> string) \<Rightarrow> 'd oms \<Rightarrow> 'd order \<Rightarrow> 'd \<Rightarrow> 'd \<Rightarrow> 'd \<Rightarrow> 'd oms_result" where
  "protect_fill L U m r stopPrice takeProfit mark =
     (let (m1, placed) = placeProtectives U m r stopPrice takeProfit
      in if placed then Ok (m1, Some r, None)
         else bind_outcome (flatten L U m1 (o_StrategyID r) (o_Symbol r) mark)
                (\<lambda>(m2, _, _). Ok (m2, Some r, Some ErrProtectivePlacement)))"

definition fillLimitEntry ::
  "'d::linordered_field dlib \<Rightarrow> (nat \<Rightarrow> string) \<Rightarrow> 'd oms \<Rightarrow> 'd order \<Rightarrow> 'd \<Rightarrow> 'd \<Rightarrow> 'd oms_result" where
  "fillLimitEntry L U m r contingencyMark feeBps =
     bind_outcome (bookFill L m r (o_LimitPrice r) (feeQuote L (o_QtyBase r) (o_LimitPrice r) feeBps))
       (\<lambda>(m1, r', e). case (e, r') of
          (None, Some r1) \<Rightarrow> protect_fill L U m1 r1 (o_StopPrice r) (o_TakeProfit r) contingencyMark
        | _ \<Rightarrow> Ok (m1, None, e))"

definition FillLimitEntry ::
  "'d::linordered_field dlib \<Rightarrow> (nat \<Rightarrow> string) \<Rightarrow> 'd oms \<Rightarrow> string \<Rightarrow> 'd oms_result" where
  "FillLimitEntry L U m oid =
     (case get_order m oid of
        None \<Rightarrow> Ok (m, None, Some ErrNoOpenLimitEntry)
      | Some r \<Rightarrow>
          if o_Class r \<noteq> ClassEntry \<or> o_Type r \<noteq> ''limit'' \<or> o_Status r \<noteq> StatusOpen
          then Ok (m, None, Some ErrNoOpenLimitEntry)
          else fillLimitEntry L U m r (o_LimitPrice r) (fl_makerBps (oms_fill m)))"

definition Flatten ::
  "'d::linordered_field dlib \<Rightarrow> (nat \<Rightarrow> string) \<Rightarrow> 'd oms \<Rightarrow> string \<Rightarrow> string \<Rightarrow> 'd \<Rightarrow> 'd oms_result" where
  "Flatten L U m s sy mark = flatten L U m s sy mark"

section \<open>Submitting an entry\<close>

record 'd entry_request =
  rq_StrategyID :: string
  rq_Symbol :: string
  rq_Side :: side
  rq_Type :: string
  rq_LimitPrice :: 'd
  rq_SizeQuote :: 'd
  rq_MarkPrice :: 'd
  rq_StopPrice :: 'd
  rq_TakeProfit :: 'd
  rq_KillEpoch :: int

definition with_qty ::
  "'d oms \<Rightarrow> (paper_error, 'd) outcome \<Rightarrow> ('d \<Rightarrow> 'd oms_result) \<Rightarrow> 'd oms_result" where
  "with_qty m q k = (case q of Ok d \<Rightarrow> k d | Err e \<Rightarrow> Ok (m, None, Some e)
      | Panic \<Rightarrow> Panic | Diverge \<Rightarrow> Diverge)"

definition SubmitEntry ::
  "'d::linordered_field dlib \<Rightarrow> (nat \<Rightarrow> string) \<Rightarrow> 'd oms \<Rightarrow> 'd entry_request \<Rightarrow> 'd oms_result" where
  "SubmitEntry L U m rq =
     (if rq_KillEpoch rq < KillEpoch m (rq_StrategyID rq) then Ok (m, None, Some ErrKillEpochStale)
      else if rq_SizeQuote rq \<le> 0 then Ok (m, None, Some ErrNonPositiveSize)
      else let (oid, m1) = mint U m;
               r = blank_order oid (rq_StrategyID rq) (rq_Symbol rq) ClassEntry (rq_Side rq)
                     (rq_Type rq) (rq_KillEpoch rq)
      in if rq_Type rq = ''limit'' then
           (if rq_LimitPrice rq \<le> 0 then Ok (m1, None, Some ErrNonPositiveLimitPrice)
            else with_qty m1 (qtyForNotional L (rq_SizeQuote rq) (rq_LimitPrice rq)) (\<lambda>qty.
              let r1 = r\<lparr>o_LimitPrice := rq_LimitPrice rq, o_StopPrice := rq_StopPrice rq,
                         o_TakeProfit := rq_TakeProfit rq, o_QtyBase := qty\<rparr>;
                  m2 = put_order r1 m1
              in if rq_MarkPrice rq > 0 \<and> limitCrossed (rq_Side rq) (rq_MarkPrice rq) (rq_LimitPrice rq)
                 then fillLimitEntry L U m2 r1 (rq_MarkPrice rq) (fl_takerBps (oms_fill m2))
                 else Ok (m2, Some r1, None)))
         else if rq_Type rq = ''market'' then
           (if rq_MarkPrice rq \<le> 0 then Ok (m1, None, Some ErrNonPositiveMarkPrice)
            else let price = slippedPrice L (oms_fill m1) (rq_Side rq) (rq_MarkPrice rq)
            in with_qty m1 (qtyForNotional L (rq_SizeQuote rq) price) (\<lambda>qty.
              let r1 = r\<lparr>o_QtyBase := qty\<rparr>; m2 = put_order r1 m1
              in bind_outcome
                   (bookFill L m2 r1 price (feeQuote L qty price (fl_takerBps (oms_fill m2))))
                   (\<lambda>(m3, r', e). case (e, r') of
                      (None, Some r2) \<Rightarrow>
                        protect_fill L U m3 r2 (rq_StopPrice rq) (rq_TakeProfit rq) (rq_MarkPrice rq)
                    | _ \<Rightarrow> Ok (put_order (r1\<lparr>o_Status := StatusCanceled\<rparr>) m3, None, e))))
         else Ok (m1, None, Some ErrUnknownEntryType))"

section \<open>The per-tick trigger sweep\<close>

definition openOrders :: "'d oms \<Rightarrow> string \<Rightarrow> oclass \<Rightarrow> string \<Rightarrow> string list" where
  "openOrders m sy cl ty =
     sort (map o_ID (filter (\<lambda>r. o_Symbol r = sy \<and> o_Class r = cl \<and> o_Type r = ty
                                 \<and> o_Status r = StatusOpen) (oms_orders m)))"

text \<open>What one order, one class, one symbol or the whole tick yields: the manager, the booked fills
  in order, and the errors.\<close>

type_synonym 'd sweep_result = "(unit, 'd oms \<times> 'd order list \<times> paper_error list) outcome"

definition fillProtective ::
  "'d::linordered_field dlib \<Rightarrow> 'd oms \<Rightarrow> 'd order \<Rightarrow> 'd \<Rightarrow> 'd \<Rightarrow> 'd sweep_result" where
  "fillProtective L m r price feeBps =
     (case Position m (o_StrategyID r) (o_Symbol r) of
        None \<Rightarrow> Ok (put_order (r\<lparr>o_Status := StatusCanceled\<rparr>) m, [], [])
      | Some p \<Rightarrow>
          if closeSide (pos_QtyBase p) \<noteq> o_Side r
          then Ok (put_order (r\<lparr>o_Status := StatusCanceled\<rparr>) m, [], [])
          else let r1 = r\<lparr>o_QtyBase := min (o_QtyBase r) \<bar>pos_QtyBase p\<bar>\<rparr>;
                   m1 = put_order r1 m
          in bind_outcome (bookFill L m1 r1 price (feeQuote L (o_QtyBase r1) price feeBps))
               (\<lambda>(m2, r', e). case (e, r') of
                  (None, Some r2) \<Rightarrow>
                    Ok (if Position m2 (o_StrategyID r) (o_Symbol r) = None
                        then cancelOpenProtectives (o_StrategyID r) (o_Symbol r) m2 else m2, [r2], [])
                | (Some err, _) \<Rightarrow> Ok (m2, [], [err])
                | _ \<Rightarrow> Ok (m2, [], [])))"

definition tickQueuedExit ::
  "'d::linordered_field dlib \<Rightarrow> 'd \<Rightarrow> 'd oms \<Rightarrow> 'd order \<Rightarrow> 'd sweep_result" where
  "tickQueuedExit L mark m r =
     (let r1 = (case Position m (o_StrategyID r) (o_Symbol r) of
                  None \<Rightarrow> r | Some p \<Rightarrow> r\<lparr>o_QtyBase := \<bar>pos_QtyBase p\<bar>\<rparr>)
      in fillProtective L m r1 (slippedPrice L (oms_fill m) (o_Side r) mark) (fl_takerBps (oms_fill m)))"

definition tickStop ::
  "'d::linordered_field dlib \<Rightarrow> 'd \<Rightarrow> 'd oms \<Rightarrow> 'd order \<Rightarrow> 'd sweep_result" where
  "tickStop L mark m r =
     (if o_Status r \<noteq> StatusOpen \<or> \<not> stopTriggered (o_Side r) mark (o_StopPrice r) then Ok (m, [], [])
      else fillProtective L m r (slippedPrice L (oms_fill m) (o_Side r) mark) (fl_takerBps (oms_fill m)))"

definition tickTakeProfit ::
  "'d::linordered_field dlib \<Rightarrow> 'd \<Rightarrow> 'd oms \<Rightarrow> 'd order \<Rightarrow> 'd sweep_result" where
  "tickTakeProfit L mark m r =
     (if o_Status r \<noteq> StatusOpen \<or> \<not> limitCrossed (o_Side r) mark (o_LimitPrice r) then Ok (m, [], [])
      else fillProtective L m r (o_LimitPrice r) (fl_makerBps (oms_fill m)))"

definition tickEntryLimit ::
  "'d::linordered_field dlib \<Rightarrow> (nat \<Rightarrow> string) \<Rightarrow> 'd \<Rightarrow> 'd oms \<Rightarrow> 'd order \<Rightarrow> 'd sweep_result" where
  "tickEntryLimit L U mark m r =
     (if o_Status r \<noteq> StatusOpen \<or> \<not> limitCrossed (o_Side r) mark (o_LimitPrice r) then Ok (m, [], [])
      else bind_outcome (fillLimitEntry L U m r mark (fl_makerBps (oms_fill m)))
             (\<lambda>(m1, r', e). case (e, r') of
                (None, Some r1) \<Rightarrow> Ok (m1, [r1], [])
              | (Some err, _) \<Rightarrow> Ok (m1, [], [err])
              | _ \<Rightarrow> Ok (m1, [], [])))"

text \<open>A loop over the identifiers listed when it starts; each order is read as it is by then.\<close>

fun sweep ::
  "('d oms \<Rightarrow> 'd order \<Rightarrow> 'd sweep_result) \<Rightarrow> 'd oms \<Rightarrow> string list \<Rightarrow> 'd sweep_result" where
  "sweep h m [] = Ok (m, [], [])"
| "sweep h m (i # is) =
     bind_outcome (case get_order m i of None \<Rightarrow> Ok (m, [], []) | Some r \<Rightarrow> h m r)
       (\<lambda>(m1, fs, es). bind_outcome (sweep h m1 is) (\<lambda>(m2, fs', es'). Ok (m2, fs @ fs', es @ es')))"

definition tickSymbol ::
  "'d::linordered_field dlib \<Rightarrow> (nat \<Rightarrow> string) \<Rightarrow> 'd oms \<Rightarrow> string \<Rightarrow> 'd \<Rightarrow> 'd sweep_result" where
  "tickSymbol L U m sy mark =
     bind_outcome (sweep (tickQueuedExit L mark) m (openOrders m sy ClassProtective ''market''))
       (\<lambda>(m1, f1, e1). bind_outcome
          (sweep (tickStop L mark) m1 (openOrders m1 sy ClassProtective ''stop''))
       (\<lambda>(m2, f2, e2). bind_outcome
          (sweep (tickTakeProfit L mark) m2 (openOrders m2 sy ClassProtective ''take_profit''))
       (\<lambda>(m3, f3, e3). bind_outcome
          (sweep (tickEntryLimit L U mark) m3 (openOrders m3 sy ClassEntry ''limit''))
       (\<lambda>(m4, f4, e4). Ok (m4, f1 @ f2 @ f3 @ f4, e1 @ e2 @ e3 @ e4)))))"

fun tickSymbols ::
  "'d::linordered_field dlib \<Rightarrow> (nat \<Rightarrow> string) \<Rightarrow> 'd oms \<Rightarrow> (string \<times> 'd) list \<Rightarrow> 'd sweep_result" where
  "tickSymbols L U m [] = Ok (m, [], [])"
| "tickSymbols L U m ((sy, mark) # rest) =
     bind_outcome (tickSymbol L U m sy mark)
       (\<lambda>(m1, fs, es). bind_outcome (tickSymbols L U m1 rest)
          (\<lambda>(m2, fs', es'). Ok (m2, fs @ fs', es @ es')))"

text \<open>The marks are a map with distinct symbols; symbols with a positive mark, in order.\<close>

definition usable_marks :: "(string \<times> 'd::linordered_field) list \<Rightarrow> (string \<times> 'd) list" where
  "usable_marks marks = sort_key fst (filter (\<lambda>p. snd p > 0) marks)"

definition ProcessTick ::
  "'d::linordered_field dlib \<Rightarrow> (nat \<Rightarrow> string) \<Rightarrow> 'd oms \<Rightarrow> (string \<times> 'd) list \<Rightarrow> 'd sweep_result" where
  "ProcessTick L U m marks = tickSymbols L U m (usable_marks marks)"

section \<open>Restart\<close>

definition RestoreOrder :: "'d oms \<Rightarrow> 'd order \<Rightarrow> paper_error + 'd oms" where
  "RestoreOrder m r =
     (if o_ID r = [] then Inl ErrRestoreEmptyID
      else if o_Status r \<noteq> StatusOpen then Inl ErrRestoreNotOpen
      else if get_order m (o_ID r) \<noteq> None then Inl ErrRestorePresent
      else Inr (put_order r m))"

definition RestorePosition :: "'d oms \<Rightarrow> string \<Rightarrow> 'd position \<Rightarrow> 'd oms" where
  "RestorePosition m s p = m\<lparr>oms_positions := al_put (s, pos_Symbol p) p (oms_positions m)\<rparr>"

text \<open>All books, flat ones included, sorted by strategy and symbol.\<close>

definition Books :: "'d oms \<Rightarrow> (string \<times> 'd position) list" where
  "Books m = map (\<lambda>(k, p). (fst k, p))
     (sort_key (\<lambda>e. fst (fst e)) (sort_key (\<lambda>e. snd (fst e)) (AList.clearjunk (oms_positions m))))"

section \<open>Sizing\<close>

lemma lower_qty_fits: "qty * price \<le> sz \<Longrightarrow> lower_qty sz price qty = Some qty"
  by (simp add: lower_qty.simps not_less)

lemma lower_qty_one_step:
  assumes "(qty - qtyStep) * price \<le> sz"
  shows "\<exists>q. lower_qty sz price qty = Some q \<and> q * price \<le> sz \<and> (q = qty \<or> q = qty - qtyStep)"
proof (cases "qty * price \<le> sz")
  case True
  then show ?thesis using lower_qty_fits by blast
next
  case False
  then show ?thesis using assms lower_qty_fits [OF assms]
    by (simp add: lower_qty.simps [of sz price qty] not_le)
qed

lemma unit_16_le_8: "unit_of 16 / 2 + unit_of 8 / 2 \<le> (qtyStep :: 'd::linordered_field)"
proof -
  have "unit_of 16 \<le> (unit_of 8 :: 'd)" by (simp add: unit_of_def divide_le_eq)
  then show ?thesis unfolding qtyStep_def by linarith
qed

lemma rounded_quotient_close:
  assumes "div_documented L" "round_documented L" "price \<noteq> 0"
  shows "\<bar>round8 L (dDiv L sz price) - sz / price\<bar> \<le> qtyStep"
  using div_documented_close [OF assms(1,3), of sz] unit_16_le_8 [where ?'d = 'a]
    round_close [OF assms(2), of "dDiv L sz price" 8]
  unfolding round8_def by linarith

text \<open>sizing a notional at a positive price returns, without panicking or looping forever: the
  quantity is positive and its notional never exceeds the requested size, at the price of less
  than two steps of the eighth decimal; otherwise the only error is a quantity that rounds to
  zero.\<close>

theorem qtyForNotional_bounds:
  assumes "div_documented L" and "round_documented L" and "0 < price"
  shows "case qtyForNotional L sz price of
      Ok q \<Rightarrow> 0 < q \<and> q * price \<le> sz \<and> sz \<le> (q + 2 * qtyStep) * price
    | Err e \<Rightarrow> e = ErrQtyRoundsToZero \<and> sz \<le> 2 * qtyStep * price
    | Panic \<Rightarrow> False | Diverge \<Rightarrow> False"
proof -
  define q0 where "q0 = round8 L (dDiv L sz price)"
  have close: "\<bar>q0 - sz / price\<bar> \<le> qtyStep"
    unfolding q0_def using assms by (intro rounded_quotient_close) auto
  then have "q0 - qtyStep \<le> sz / price" "sz / price \<le> q0 + qtyStep" by (simp_all add: abs_le_iff)
  with assms(3) have below: "(q0 - qtyStep) * price \<le> sz" and above: "sz \<le> (q0 + qtyStep) * price"
    by (simp_all add: pos_le_divide_eq pos_divide_le_eq)
  obtain q where q: "lower_qty sz price q0 = Some q" "q * price \<le> sz" "q = q0 \<or> q = q0 - qtyStep"
    using lower_qty_one_step [OF below] by blast
  have step: "0 < (qtyStep :: 'a)" by (simp add: qtyStep_def)
  then have "q0 + qtyStep \<le> q + 2 * qtyStep" using q(3) by auto
  then have "(q0 + qtyStep) * price \<le> (q + 2 * qtyStep) * price"
    using assms(3) by (intro mult_right_mono) auto
  with above have up: "sz \<le> (q + 2 * qtyStep) * price" by simp
  have zero: "sz \<le> 2 * qtyStep * price" if "q \<le> 0"
  proof -
    have "(q + 2 * qtyStep) * price \<le> 2 * qtyStep * price"
      using that assms(3) by (intro mult_right_mono) auto
    with up show ?thesis by simp
  qed
  have "qtyForNotional L sz price = (if q \<le> 0 then Err ErrQtyRoundsToZero else Ok q)"
    using assms(3) q(1) by (simp add: qtyForNotional_def q0_def)
  then show ?thesis using q(2) up zero by simp
qed

text \<open>Rounding to zero: below half a unit of the last digit kept.\<close>

lemma round_to_zero:
  assumes "round_documented (L :: 'd::linordered_field dlib)" "0 \<le> a" "a < unit_of n / 2"
  shows "dRound L a n = 0"
proof -
  obtain k :: int where k: "dRound L a n = of_int k * unit_of n" using round_grid [OF assms(1)] by blast
  have "\<bar>dRound L a n\<bar> < unit_of n" using round_close [OF assms(1), of a n] assms(2,3) by linarith
  with k have "\<bar>of_int k :: 'd\<bar> * unit_of n < 1 * unit_of n"
    by (simp only: abs_mult abs_of_pos [OF unit_of_pos] mult_1_left)
  then have "\<bar>of_int k :: 'd\<bar> < 1" by (rule mult_right_less_imp_less) (simp add: less_imp_le)
  then have "k = 0" by (simp flip: of_int_abs)
  with k show ?thesis by simp
qed

text \<open>a market entry whose positive mark slips to a price below half a unit of the eighth decimal
  panics in the sizing division: the guard of the code is on the mark, not on the rounded fill
  price.\<close>

theorem SubmitEntry_tiny_mark_panics:
  assumes "round_documented L" and "rq_Type rq = ''market''" and "0 < rq_SizeQuote rq"
    and "KillEpoch m (rq_StrategyID rq) \<le> rq_KillEpoch rq" and "0 < rq_MarkPrice rq"
    and "rq_Side rq = SideBuy" and "0 \<le> fl_slippageBps (oms_fill m)"
    and "rq_MarkPrice rq * (1 + fl_slippageBps (oms_fill m) * unit_of 4) < unit_of 8 / 2"
  shows "SubmitEntry L U m rq = Panic"
proof -
  have "0 \<le> fl_slippageBps (oms_fill m) * unit_of 4" using assms(7) by (simp add: less_imp_le)
  then have "0 \<le> rq_MarkPrice rq * (1 + fl_slippageBps (oms_fill m) * unit_of 4)" using assms(5) by simp
  then have "slippedPrice L (oms_fill m) SideBuy (rq_MarkPrice rq) = 0"
    using round_to_zero [OF assms(1) _ assms(8)] by (simp add: slippedPrice_def round8_def)
  with assms show ?thesis
    by (simp add: SubmitEntry_def mint_def qtyForNotional_def with_qty_def not_le not_less)
qed

definition sample_oms :: "rat oms" where
  "sample_oms = \<lparr>oms_killEpochs = [], oms_fill = \<lparr>fl_slippageBps = 5, fl_takerBps = 10, fl_makerBps = 2\<rparr>,
     oms_orders = [], oms_positions = [], oms_place = (\<lambda>_. True), oms_minted = 0\<rparr>"

definition sample_rq :: "rat entry_request" where
  "sample_rq = \<lparr>rq_StrategyID = ''s'', rq_Symbol = ''BTC/USDT'', rq_Side = SideBuy, rq_Type = ''market'',
     rq_LimitPrice = 0, rq_SizeQuote = 1000, rq_MarkPrice = 100, rq_StopPrice = 95, rq_TakeProfit = 110,
     rq_KillEpoch = 0\<rparr>"

definition sample_ids :: "nat \<Rightarrow> string" where
  "sample_ids n = replicate (Suc n) (CHR ''a'')"

theorem qtyForNotional_bounds_witness:
  "case qtyForNotional rat_lib 1000 3 of
      Ok q \<Rightarrow> 0 < q \<and> q * 3 \<le> 1000 \<and> 1000 \<le> (q + 2 * qtyStep) * 3
    | Err e \<Rightarrow> e = ErrQtyRoundsToZero \<and> 1000 \<le> 2 * qtyStep * (3::rat)
    | Panic \<Rightarrow> False | Diverge \<Rightarrow> False"
  by (rule qtyForNotional_bounds [OF rat_lib_div rat_lib_round]) simp

theorem SubmitEntry_tiny_mark_panics_witness:
  "SubmitEntry rat_lib sample_ids sample_oms (sample_rq\<lparr>rq_MarkPrice := 1 / 10 ^ 9\<rparr>) = Panic"
  by (rule SubmitEntry_tiny_mark_panics [OF rat_lib_round])
    (simp_all add: sample_rq_def sample_oms_def KillEpoch_def unit_of_def)

end
