(* ===== verification/Book.thy ===== *)
theory Book
  imports Machine
begin

text \<open>
  Position books. Three components keep the same kind of book (signed quantity, average entry
  price, realized profit): the paper order manager, the paper-gate replay and the live order
  manager. The interface states how one fill changes the quantity and the marked value of a
  book; what follows for a sequence of fills is proved here once.
\<close>

record 'd bfill =
  bf_buy :: bool
  bf_qty :: 'd
  bf_price :: 'd
  bf_fee :: 'd

definition signed :: "'d::linordered_field bfill \<Rightarrow> 'd" where
  "signed f = (if bf_buy f then bf_qty f else - bf_qty f)"

text \<open>What a fill adds to the marked value of a book: cash at the fill price against the mark,
  less the fee.\<close>

definition flow :: "'d::linordered_field \<Rightarrow> 'd bfill \<Rightarrow> 'd" where
  "flow m f = signed f * (m - bf_price f) - bf_fee f"

text \<open>The rounding of one fill: one rounded realized amount, or one rounded average over the
  whole quantity.\<close>

definition slack :: "'d::linordered_field \<Rightarrow> 'd" where
  "slack T = unit_of 8 / 2 + T * (unit_of 16 / 2)"

lemma slack_mono: "S \<le> T \<Longrightarrow> slack S \<le> slack (T :: 'd::linordered_field)"
  by (simp add: slack_def mult_right_mono less_imp_le)

lemma abs_signed: "0 < bf_qty f \<Longrightarrow> \<bar>signed f\<bar> = bf_qty f"
  by (simp add: signed_def)

text \<open>The arithmetic behind the interface, for a book with quantity \<open>q\<close>, average \<open>a\<close>.\<close>

lemma open_value_exact:
  fixes q a :: "'d::linordered_field"
  assumes "q = 0 \<or> sgn q = sgn d" and "d \<noteq> 0"
  shows "(q + d) * (m - e) - q * (m - a) - d * (m - p)
           = sgn d * (\<bar>q\<bar> + \<bar>d\<bar>) * ((a * \<bar>q\<bar> + p * \<bar>d\<bar>) / (\<bar>q\<bar> + \<bar>d\<bar>) - e)"
proof -
  have T: "\<bar>q\<bar> + \<bar>d\<bar> \<noteq> 0" using assms(2) by linarith
  have q: "sgn d * \<bar>q\<bar> = q"
  proof (cases "q = 0")
    case False
    with assms(1) have "sgn d = sgn q" by simp
    then show ?thesis by (simp add: sgn_mult_abs)
  qed simp
  have d: "sgn d * \<bar>d\<bar> = d" by (rule sgn_mult_abs)
  have sum: "sgn d * (a * \<bar>q\<bar> + p * \<bar>d\<bar>) = a * (sgn d * \<bar>q\<bar>) + p * (sgn d * \<bar>d\<bar>)"
    by (simp add: algebra_simps)
  have tot: "sgn d * (\<bar>q\<bar> + \<bar>d\<bar>) = sgn d * \<bar>q\<bar> + sgn d * \<bar>d\<bar>" by (simp add: algebra_simps)
  have "(q + d) * (m - e) - q * (m - a) - d * (m - p) = q * a + d * p - (q + d) * e"
    by (simp add: algebra_simps)
  also have "\<dots> = sgn d * (a * \<bar>q\<bar> + p * \<bar>d\<bar>) - sgn d * (\<bar>q\<bar> + \<bar>d\<bar>) * e"
    unfolding sum tot q d by (simp add: mult.commute)
  also have "\<dots> = sgn d * (\<bar>q\<bar> + \<bar>d\<bar>) * ((a * \<bar>q\<bar> + p * \<bar>d\<bar>) / (\<bar>q\<bar> + \<bar>d\<bar>) - e)"
    using T by (simp add: right_diff_distrib)
  finally show ?thesis .
qed

lemma reduce_value_exact:
  fixes q a :: "'d::linordered_field"
  assumes "q \<noteq> 0" and "d = - sgn q * x" and "0 \<le> x" and "e = (if x > \<bar>q\<bar> then p else a)"
  shows "(q + d) * (m - e) - q * (m - a) - d * (m - p) = - ((p - a) * min x \<bar>q\<bar> * sgn q)"
proof (cases "x > \<bar>q\<bar>")
  case True
  then have "min x \<bar>q\<bar> * sgn q = q" by (simp add: min_def abs_mult_sgn)
  then have "(p - a) * min x \<bar>q\<bar> * sgn q = (p - a) * q" by (simp add: mult.assoc)
  with True assms(4) show ?thesis by (simp add: algebra_simps)
next
  case False
  then have "min x \<bar>q\<bar> * sgn q = - d" using assms(2) by (simp add: min_def mult.commute)
  then have "(p - a) * min x \<bar>q\<bar> * sgn q = (a - p) * d"
    by (simp add: mult.assoc left_diff_distrib)
  with False assms(4) show ?thesis by (simp add: algebra_simps)
qed

text \<open>With the rounding of the code: a rounded average when the fill opens or grows the book, a
  rounded realized amount \<open>g\<close> when it reduces, closes or flips it.\<close>

lemma open_value_close:
  fixes q a :: "'d::linordered_field"
  assumes "div_documented L" and "q = 0 \<or> sgn q = sgn d" and "d \<noteq> 0"
    and "e = dDiv L (a * \<bar>q\<bar> + p * \<bar>d\<bar>) (\<bar>q\<bar> + \<bar>d\<bar>)"
  shows "\<bar>(q + d) * (m - e) - q * (m - a) - d * (m - p)\<bar> \<le> slack (\<bar>q\<bar> + \<bar>d\<bar>)"
proof -
  define T where "T = \<bar>q\<bar> + \<bar>d\<bar>"
  define x where "x = (a * \<bar>q\<bar> + p * \<bar>d\<bar>) / T"
  have T: "0 < T" unfolding T_def using assms(3) by linarith
  have e: "\<bar>x - e\<bar> \<le> unit_of 16 / 2"
    using div_documented_close [OF assms(1), of T "a * \<bar>q\<bar> + p * \<bar>d\<bar>"] T
    unfolding assms(4) x_def T_def [symmetric] by (simp add: abs_minus_commute)
  have "\<bar>(q + d) * (m - e) - q * (m - a) - d * (m - p)\<bar> = \<bar>sgn d\<bar> * T * \<bar>x - e\<bar>"
    unfolding open_value_exact [OF assms(2,3)] x_def T_def by (simp add: abs_mult)
  also have "\<dots> = T * \<bar>x - e\<bar>" using assms(3) by (simp add: abs_sgn_eq)
  also have "\<dots> \<le> T * (unit_of 16 / 2)" using e T by (intro mult_left_mono) auto
  also have "\<dots> \<le> slack T" by (simp add: slack_def less_imp_le)
  finally show ?thesis by (simp only: T_def)
qed

lemma reduce_value_close:
  fixes q a :: "'d::linordered_field"
  assumes "q \<noteq> 0" and "sgn q \<noteq> sgn d" and "d \<noteq> 0"
    and "e = (if \<bar>d\<bar> > \<bar>q\<bar> then p else a) \<or> q + d = 0"
    and "\<bar>g - (p - a) * min \<bar>d\<bar> \<bar>q\<bar> * sgn q\<bar> \<le> unit_of 8 / 2"
  shows "\<bar>g + (q + d) * (m - e) - q * (m - a) - d * (m - p)\<bar> \<le> slack (\<bar>q\<bar> + \<bar>d\<bar>)"
proof -
  define e' where "e' = (if \<bar>d\<bar> > \<bar>q\<bar> then p else a)"
  have "(q + d) * (m - e) = (q + d) * (m - e')" using assms(4) unfolding e'_def by fastforce
  moreover have "d = - sgn q * \<bar>d\<bar>"
    using assms(1-3) by (cases "0 < q"; cases "0 < d") (auto simp: sgn_if split: if_splits)
  then have "(q + d) * (m - e') - q * (m - a) - d * (m - p) = - ((p - a) * min \<bar>d\<bar> \<bar>q\<bar> * sgn q)"
    using assms(1) by (intro reduce_value_exact) (auto simp: e'_def)
  ultimately have "g + (q + d) * (m - e) - q * (m - a) - d * (m - p)
      = g - (p - a) * min \<bar>d\<bar> \<bar>q\<bar> * sgn q" by linarith
  with assms(5) have "\<bar>g + (q + d) * (m - e) - q * (m - a) - d * (m - p)\<bar> \<le> unit_of 8 / 2"
    by (simp only:)
  moreover have "0 \<le> (\<bar>q\<bar> + \<bar>d\<bar>) * (unit_of 16 / 2)" by (simp add: less_imp_le)
  ultimately show ?thesis unfolding slack_def by linarith
qed

locale book_accounting =
  fixes qty avg realized :: "'b \<Rightarrow> 'd::linordered_field"
    and fill :: "'d dlib \<Rightarrow> 'b \<Rightarrow> 'd bfill \<Rightarrow> 'b option"
  assumes qty_fill: "0 < bf_qty f \<Longrightarrow> fill L b f = Some b' \<Longrightarrow> qty b' = qty b + signed f"
    and value_fill: "div_documented L \<Longrightarrow> round_documented L \<Longrightarrow> 0 < bf_qty f \<Longrightarrow>
      fill L b f = Some b' \<Longrightarrow>
      \<bar>realized b' + qty b' * (m - avg b') - (realized b + qty b * (m - avg b)) - flow m f\<bar>
        \<le> slack (\<bar>qty b\<bar> + bf_qty f)"
begin

definition marked :: "'d \<Rightarrow> 'b \<Rightarrow> 'd" where
  "marked m b = realized b + qty b * (m - avg b)"

lemma run_qty:
  "list_all (\<lambda>f. 0 < bf_qty f) fs \<Longrightarrow> run (fill L) b fs = Some b' \<Longrightarrow>
     qty b' = qty b + sum_list (map signed fs)"
proof (induction fs arbitrary: b)
  case Nil
  then show ?case by simp
next
  case (Cons f fs)
  then obtain c where c: "fill L b f = Some c" "run (fill L) c fs = Some b'"
    by (auto split: option.splits)
  with Cons qty_fill [OF _ c(1)] show ?case by (simp add: add.assoc)
qed

lemma run_value:
  assumes L: "div_documented L" "round_documented L"
  shows "list_all (\<lambda>f. 0 < bf_qty f) fs \<Longrightarrow> run (fill L) b fs = Some b' \<Longrightarrow>
     \<bar>qty b\<bar> + sum_list (map bf_qty fs) \<le> T \<Longrightarrow>
     \<bar>marked m b' - marked m b - sum_list (map (flow m) fs)\<bar> \<le> of_nat (length fs) * slack T"
proof (induction fs arbitrary: b)
  case Nil
  then show ?case by simp
next
  case (Cons f fs)
  then obtain c where c: "fill L b f = Some c" "run (fill L) c fs = Some b'"
    by (auto split: option.splits)
  have f: "0 < bf_qty f" "list_all (\<lambda>f. 0 < bf_qty f) fs" using Cons.prems(1) by auto
  have qc: "qty c = qty b + signed f" by (rule qty_fill [OF f(1) c(1)])
  have "\<bar>qty c\<bar> \<le> \<bar>qty b\<bar> + bf_qty f"
    using abs_triangle_ineq [of "qty b" "signed f"] f(1) by (simp add: qc abs_signed)
  with Cons.prems(3) have "\<bar>qty c\<bar> + sum_list (map bf_qty fs) \<le> T" by simp
  from Cons.IH [OF f(2) c(2) this]
  have rest: "\<bar>marked m b' - marked m c - sum_list (map (flow m) fs)\<bar> \<le> of_nat (length fs) * slack T" .
  have "0 \<le> sum_list (map bf_qty fs)"
    using f(2) by (intro sum_list_nonneg) (auto simp: list_all_iff less_imp_le)
  with Cons.prems(3) have "\<bar>qty b\<bar> + bf_qty f \<le> T" by simp
  with value_fill [OF L f(1) c(1), of m] have "\<bar>marked m c - marked m b - flow m f\<bar> \<le> slack T"
    unfolding marked_def using slack_mono order_trans by blast
  with rest have "\<bar>marked m b' - marked m b - (flow m f + sum_list (map (flow m) fs))\<bar>
      \<le> slack T + of_nat (length fs) * slack T" unfolding abs_le_iff by linarith
  then show ?case by (simp add: algebra_simps)
qed

text \<open>A round trip from flat to flat realizes the exit proceeds less the entry cost and the fees.\<close>

lemma run_round_trip:
  assumes "div_documented L" "round_documented L" "list_all (\<lambda>f. 0 < bf_qty f) fs"
    and "run (fill L) b fs = Some b'" and "qty b = 0" and "qty b' = 0"
  shows "\<bar>realized b' - realized b - (- sum_list (map (\<lambda>f. signed f * bf_price f + bf_fee f) fs))\<bar>
           \<le> of_nat (length fs) * slack (sum_list (map bf_qty fs))"
proof -
  have "sum_list (map (flow 0) fs) = - sum_list (map (\<lambda>f. signed f * bf_price f + bf_fee f) fs)"
    by (induction fs) (simp_all add: flow_def)
  with run_value [OF assms(1-4), of "sum_list (map bf_qty fs)" 0] assms(5,6)
  show ?thesis by (simp add: marked_def)
qed

end

end
