(* ===== verification/PaperSafety.thy ===== *)
theory PaperSafety
  imports PaperOMS Book Machine
begin

text \<open>
  What the paper order manager guarantees. Its books meet the interface of position books; every
  operation is a sequence of small changes to the state (\<open>oms_change\<close>), from which the frame,
  the well-formedness invariant and the kill-epoch fence follow by rule induction.
\<close>

section \<open>The paper book as a position book\<close>

text \<open>One fill of the paper order manager on one book, with its side as in \<open>applyFill\<close>.\<close>

definition paper_fill ::
  "'d::linordered_field dlib \<Rightarrow> 'd position \<Rightarrow> 'd bfill \<Rightarrow> 'd position option" where
  "paper_fill L b f =
     (case fill_position L b (if bf_buy f then SideBuy else SideSell) (bf_qty f) (bf_price f) (bf_fee f)
      of Ok p \<Rightarrow> Some p | _ \<Rightarrow> None)"

lemma paper_delta: "sideSign (if bf_buy f then SideBuy else SideSell) * bf_qty f = signed f"
  by (simp add: sideSign_def signed_def)

lemma fill_position_no_panic:
  "0 < qty \<Longrightarrow> \<exists>p. fill_position L b sd qty price fee = Ok p"
  by (auto simp: fill_position_def Let_def add_nonneg_eq_0_iff ddiv_def)

lemma paper_fill_open:
  assumes "0 < bf_qty f" and "pos_QtyBase b = 0 \<or> sgn (pos_QtyBase b) = sgn (signed f)"
  shows "\<exists>b'. paper_fill L b f = Some b' \<and> pos_QtyBase b' = pos_QtyBase b + signed f \<and>
    pos_EntryPrice b' = dDiv L (pos_EntryPrice b * \<bar>pos_QtyBase b\<bar> + bf_price f * bf_qty f)
       (\<bar>pos_QtyBase b\<bar> + bf_qty f) \<and> pos_RealizedPnLQuote b' = pos_RealizedPnLQuote b - bf_fee f"
proof -
  have nz: "\<bar>pos_QtyBase b\<bar> + bf_qty f \<noteq> 0" using assms(1) by linarith
  have "pos_QtyBase b + signed f \<noteq> 0"
    using assms by (cases "bf_buy f") (auto simp: signed_def sgn_if split: if_splits)
  with nz show ?thesis using assms(2)
    by (auto simp: paper_fill_def fill_position_def Let_def paper_delta)
qed

lemma paper_fill_reduce:
  assumes "0 < bf_qty f" and "pos_QtyBase b \<noteq> 0" and "sgn (pos_QtyBase b) \<noteq> sgn (signed f)"
  shows "\<exists>b'. paper_fill L b f = Some b' \<and> pos_QtyBase b' = pos_QtyBase b + signed f \<and>
    (pos_EntryPrice b' = (if bf_qty f > \<bar>pos_QtyBase b\<bar> then bf_price f else pos_EntryPrice b)
       \<or> pos_QtyBase b + signed f = 0) \<and>
    pos_RealizedPnLQuote b' = pos_RealizedPnLQuote b + round8 L ((bf_price f - pos_EntryPrice b)
       * min (bf_qty f) \<bar>pos_QtyBase b\<bar> * sgn (pos_QtyBase b)) - bf_fee f"
  using assms by (auto simp: paper_fill_def fill_position_def Let_def paper_delta)

lemma paper_fill_qty:
  assumes "0 < bf_qty f" and "paper_fill L b f = Some b'"
  shows "pos_QtyBase b' = pos_QtyBase b + signed f"
  using paper_fill_open [OF assms(1), of b L] paper_fill_reduce [OF assms(1), of b L] assms(2)
  by (cases "pos_QtyBase b = 0 \<or> sgn (pos_QtyBase b) = sgn (signed f)") auto

lemma paper_fill_value:
  fixes L :: "'d::linordered_field dlib"
  assumes "div_documented L" and "round_documented L" and f: "0 < bf_qty f"
    and "paper_fill L b f = Some b'"
  shows "\<bar>pos_RealizedPnLQuote b' + pos_QtyBase b' * (m - pos_EntryPrice b')
           - (pos_RealizedPnLQuote b + pos_QtyBase b * (m - pos_EntryPrice b)) - flow m f\<bar>
         \<le> slack (\<bar>pos_QtyBase b\<bar> + bf_qty f)"
proof (cases "pos_QtyBase b = 0 \<or> sgn (pos_QtyBase b) = sgn (signed f)")
  case True
  have nz: "signed f \<noteq> 0" using f by (simp add: signed_def)
  from paper_fill_open [OF f True, of L] assms(4)
  have r: "pos_QtyBase b' = pos_QtyBase b + signed f"
    "pos_RealizedPnLQuote b' = pos_RealizedPnLQuote b - bf_fee f"
    "pos_EntryPrice b' = dDiv L (pos_EntryPrice b * \<bar>pos_QtyBase b\<bar> + bf_price f * \<bar>signed f\<bar>)
       (\<bar>pos_QtyBase b\<bar> + \<bar>signed f\<bar>)" by (auto simp: abs_signed [OF f])
  from open_value_close [OF assms(1) True nz r(3), of m]
  show ?thesis unfolding flow_def r(1,2) abs_signed [OF f] by (simp add: algebra_simps)
next
  case False
  then have q: "pos_QtyBase b \<noteq> 0" "sgn (pos_QtyBase b) \<noteq> sgn (signed f)" by auto
  have nz: "signed f \<noteq> 0" using f by (simp add: signed_def)
  define g where "g = round8 L ((bf_price f - pos_EntryPrice b)
       * min \<bar>signed f\<bar> \<bar>pos_QtyBase b\<bar> * sgn (pos_QtyBase b))"
  from paper_fill_reduce [OF f q, of L] assms(4)
  have r: "pos_QtyBase b' = pos_QtyBase b + signed f"
    "pos_RealizedPnLQuote b' = pos_RealizedPnLQuote b + g - bf_fee f"
    "pos_EntryPrice b' = (if \<bar>signed f\<bar> > \<bar>pos_QtyBase b\<bar> then bf_price f else pos_EntryPrice b)
       \<or> pos_QtyBase b + signed f = 0" by (auto simp: abs_signed [OF f] g_def)
  have "\<bar>g - (bf_price f - pos_EntryPrice b) * min \<bar>signed f\<bar> \<bar>pos_QtyBase b\<bar> * sgn (pos_QtyBase b)\<bar>
      \<le> unit_of 8 / 2" unfolding g_def round8_def by (rule round_close [OF assms(2)])
  from reduce_value_close [OF q nz r(3) this, of m]
  show ?thesis unfolding flow_def r(1,2) abs_signed [OF f] by (simp add: algebra_simps)
qed

interpretation paper_book: book_accounting pos_QtyBase pos_EntryPrice pos_RealizedPnLQuote paper_fill
  using paper_fill_qty paper_fill_value by unfold_locales blast+

section \<open>Small changes of the state\<close>

abbreviation order_key :: "'d order \<Rightarrow> pkey" where
  "order_key r \<equiv> (o_StrategyID r, o_Symbol r)"

definition order_ok :: "'d::linordered_field order \<Rightarrow> bool" where
  "order_ok r \<longleftrightarrow> 0 < o_QtyBase r"

text \<open>The rows have distinct identifiers and positive quantities, and the identifiers still to be
  minted are new.\<close>

definition oms_wf :: "(nat \<Rightarrow> string) \<Rightarrow> 'd::linordered_field oms \<Rightarrow> bool" where
  "oms_wf U m \<longleftrightarrow> inj U \<and> (\<forall>n\<ge>oms_minted m. get_order m (U n) = None)
     \<and> distinct (map o_ID (oms_orders m)) \<and> list_all order_ok (oms_orders m)"

inductive oms_change :: "(nat \<Rightarrow> string) \<Rightarrow> (pkey \<Rightarrow> bool) \<Rightarrow> 'd::linordered_field oms \<Rightarrow> 'd oms \<Rightarrow> bool"
  for U K m where
  change_refl: "oms_change U K m m"
| change_new: "oms_change U K m m1 \<Longrightarrow> o_ID r = U (oms_minted m1) \<Longrightarrow> order_ok r \<Longrightarrow> K (order_key r) \<Longrightarrow>
    (o_Class r = ClassEntry \<Longrightarrow> KillEpoch m1 (o_StrategyID r) \<le> o_KillEpoch r) \<Longrightarrow>
    oms_change U K m (put_order r (m1\<lparr>oms_minted := Suc (oms_minted m1)\<rparr>))"
| change_mint: "oms_change U K m m1 \<Longrightarrow> oms_change U K m (m1\<lparr>oms_minted := Suc (oms_minted m1)\<rparr>)"
| change_upd: "oms_change U K m m1 \<Longrightarrow> get_order m1 (o_ID r) = Some r0 \<Longrightarrow> order_key r0 = order_key r \<Longrightarrow>
    K (order_key r) \<Longrightarrow> o_Class r0 = o_Class r \<Longrightarrow> o_KillEpoch r0 = o_KillEpoch r \<Longrightarrow>
    (o_Status r = StatusOpen \<or> o_Class r = ClassEntry \<Longrightarrow> o_Status r0 = StatusOpen) \<Longrightarrow> order_ok r \<Longrightarrow>
    oms_change U K m (put_order r m1)"
| change_book: "oms_change U K m m1 \<Longrightarrow> K k \<Longrightarrow> pos_Symbol p = pos_Symbol (held m1 (fst k) (snd k)) \<Longrightarrow>
    oms_change U K m (m1\<lparr>oms_positions := al_put k p (oms_positions m1)\<rparr>)"
| change_cancel: "oms_change U K m m1 \<Longrightarrow> (\<And>r. P r \<Longrightarrow> K (order_key r) \<and> o_Status r = StatusOpen) \<Longrightarrow>
    oms_change U K m (cancel_where P m1)"

lemma oms_change_trans:
  "oms_change U K m1 m2 \<Longrightarrow> oms_change U K m m1 \<Longrightarrow> oms_change U K m m2"
  by (induction rule: oms_change.induct) (auto intro: oms_change.intros)

subsection \<open>Lookups after each change\<close>

lemma get_put_order: "get_order (put_order r m) i = (if i = o_ID r then Some r else get_order m i)"
  unfolding get_order_def put_order_def by (simp add: row_get_put)

lemma get_cancel_where: "get_order (cancel_where P m) i =
    map_option (\<lambda>r. if P r then r\<lparr>o_Status := StatusCanceled\<rparr> else r) (get_order m i)"
  unfolding get_order_def cancel_where_def by (simp add: row_get_map)

lemma get_order_upd [simp]:
  "get_order (m\<lparr>oms_minted := n\<rparr>) = get_order m"
  "get_order (m\<lparr>oms_positions := b\<rparr>) = get_order m"
  "get_order (m\<lparr>oms_killEpochs := e\<rparr>) = get_order m"
  by (rule ext, simp add: get_order_def)+

lemma get_order_ID: "get_order m i = Some r \<Longrightarrow> o_ID r = i \<and> r \<in> set (oms_orders m)"
  unfolding get_order_def by (rule row_get_key)

lemma minted_put [simp]: "oms_minted (put_order r m) = oms_minted m"
  "oms_minted (cancel_where P m) = oms_minted m" by (simp_all add: put_order_def cancel_where_def)

lemma positions_put [simp]: "oms_positions (put_order r m) = oms_positions m"
  "oms_positions (cancel_where P m) = oms_positions m" by (simp_all add: put_order_def cancel_where_def)

lemma epochs_put [simp]: "oms_killEpochs (put_order r m) = oms_killEpochs m"
  "oms_killEpochs (cancel_where P m) = oms_killEpochs m" by (simp_all add: put_order_def cancel_where_def)

lemma fill_put [simp]: "oms_fill (put_order r m) = oms_fill m"
  "oms_fill (cancel_where P m) = oms_fill m" by (simp_all add: put_order_def cancel_where_def)

lemma book_of_upd [simp]:
  "book_of (put_order r m) = book_of m" "book_of (cancel_where P m) = book_of m"
  "book_of (m\<lparr>oms_minted := n\<rparr>) = book_of m"
  "book_of (m\<lparr>oms_positions := al_put k p b\<rparr>) s sy =
     (if (s, sy) = k then Some p else al_get b (s, sy))"
  by (auto simp: book_of_def fun_eq_iff al.get_put)

lemma KillEpoch_upd [simp]:
  "KillEpoch (put_order r m) = KillEpoch m" "KillEpoch (cancel_where P m) = KillEpoch m"
  "KillEpoch (m\<lparr>oms_minted := n\<rparr>) = KillEpoch m" "KillEpoch (m\<lparr>oms_positions := b\<rparr>) = KillEpoch m"
  by (auto simp: KillEpoch_def fun_eq_iff)

lemma orders_cancel: "x \<in> set (oms_orders (cancel_where P m)) \<Longrightarrow>
    \<exists>r \<in> set (oms_orders m). x = r \<or> x = r\<lparr>o_Status := StatusCanceled\<rparr>"
  by (auto simp: cancel_where_def)

lemma orders_put: "x \<in> set (oms_orders (put_order r m)) \<Longrightarrow> x = r \<or> x \<in> set (oms_orders m)"
  unfolding put_order_def by (simp add: set_row_put)

lemma distinct_put: "distinct (map o_ID (oms_orders m)) \<Longrightarrow> distinct (map o_ID (oms_orders (put_order r m)))"
  by (simp add: put_order_def row_put_distinct)

lemma distinct_cancel: "map o_ID (oms_orders (cancel_where P m)) = map o_ID (oms_orders m)"
  by (simp add: cancel_where_def)

lemma get_order_in: "distinct (map o_ID (oms_orders m)) \<Longrightarrow> r \<in> set (oms_orders m) \<Longrightarrow>
    get_order m (o_ID r) = Some r"
  unfolding get_order_def by (rule row_get_in)

subsection \<open>What every sequence of changes keeps\<close>

lemma wf_put: "oms_wf U m \<Longrightarrow> order_ok r \<Longrightarrow> get_order m (o_ID r) \<noteq> None \<Longrightarrow> oms_wf U (put_order r m)"
  unfolding oms_wf_def list_all_iff by (auto simp: get_put_order distinct_put dest: orders_put)

lemma wf_mint: "oms_wf U m \<Longrightarrow> oms_wf U (m\<lparr>oms_minted := Suc (oms_minted m)\<rparr>)"
  by (simp add: oms_wf_def)

lemma wf_new:
  "oms_wf U m \<Longrightarrow> order_ok r \<Longrightarrow> o_ID r = U (oms_minted m) \<Longrightarrow>
     oms_wf U (put_order r (m\<lparr>oms_minted := Suc (oms_minted m)\<rparr>))"
  unfolding oms_wf_def list_all_iff
  by (auto simp: get_put_order inj_eq dest: orders_put intro!: distinct_put)

lemma wf_cancel: "oms_wf U m \<Longrightarrow> oms_wf U (cancel_where P m)"
  unfolding oms_wf_def list_all_iff
  by (auto simp: get_cancel_where order_ok_def distinct_cancel dest: orders_cancel)

lemma change_wf: "oms_change U K m m' \<Longrightarrow> oms_wf U m \<Longrightarrow> oms_wf U m'"
proof (induction rule: oms_change.induct)
  case (change_book m1 k p)
  then show ?case by (simp add: oms_wf_def)
qed (auto intro: wf_new wf_mint wf_put wf_cancel)

lemma change_epoch: "oms_change U K m m' \<Longrightarrow> oms_killEpochs m' = oms_killEpochs m"
  by (induction rule: oms_change.induct) auto

lemma change_fill: "oms_change U K m m' \<Longrightarrow> oms_fill m' = oms_fill m"
  by (induction rule: oms_change.induct) auto

lemma change_frame_book: "oms_change U K m m' \<Longrightarrow> \<not> K (s, sy) \<Longrightarrow> book_of m' s sy = book_of m s sy"
  by (induction rule: oms_change.induct) (auto simp: book_of_def al.get_put)

lemma change_frame_order:
  "oms_change U K m m' \<Longrightarrow> oms_wf U m \<Longrightarrow> get_order m i = Some r \<Longrightarrow> \<not> K (order_key r) \<Longrightarrow>
     get_order m' i = Some r"
proof (induction rule: oms_change.induct)
  case (change_new m1 r1)
  then have "oms_wf U m1" using change_wf by blast
  then have "get_order m1 (U (oms_minted m1)) = None" by (simp add: oms_wf_def)
  with change_new show ?case by (auto simp: get_put_order)
qed (auto simp: get_put_order get_cancel_where)

text \<open>An entry that is no longer open never changes again.\<close>

lemma change_closed:
  "oms_change U K m m' \<Longrightarrow> oms_wf U m \<Longrightarrow> get_order m i = Some r \<Longrightarrow> o_Class r = ClassEntry \<Longrightarrow>
     o_Status r \<noteq> StatusOpen \<Longrightarrow> get_order m' i = Some r"
proof (induction rule: oms_change.induct)
  case (change_new m1 r1)
  then have "oms_wf U m1" using change_wf by blast
  then have "get_order m1 (U (oms_minted m1)) = None" by (simp add: oms_wf_def)
  with change_new show ?case by (auto simp: get_put_order)
qed (auto simp: get_put_order get_cancel_where)

text \<open>No open entry is older than its strategy's kill epoch.\<close>

definition entries_fenced :: "'d oms \<Rightarrow> bool" where
  "entries_fenced m \<longleftrightarrow> (\<forall>i r. get_order m i = Some r \<longrightarrow> o_Class r = ClassEntry \<longrightarrow> o_Status r = StatusOpen
     \<longrightarrow> KillEpoch m (o_StrategyID r) \<le> o_KillEpoch r)"

lemma change_fenced: "oms_change U K m m' \<Longrightarrow> entries_fenced m \<Longrightarrow> entries_fenced m'"
proof (induction rule: oms_change.induct)
  case (change_upd m1 r r0)
  have "o_Status r = StatusOpen \<Longrightarrow> o_Status r0 = StatusOpen" using change_upd.hyps(7) by blast
  then show ?case using change_upd.hyps(2,3,5,6) change_upd.IH change_upd.prems
    by (fastforce simp: entries_fenced_def get_put_order)
qed (auto simp: entries_fenced_def get_put_order get_cancel_where split: if_splits)

section \<open>Each operation is a sequence of changes\<close>

lemma book_order_state:
  "put_order r (m\<lparr>oms_positions := b\<rparr>) = (put_order r m)\<lparr>oms_positions := b\<rparr>"
  by (simp add: put_order_def)

text \<open>Booking a fill of an order in the table returns the error for a price that is not positive,
  or books it.\<close>

lemma bookFill_unfold:
  assumes "0 < o_QtyBase r"
  shows "\<exists>p. fill_position L (held m (o_StrategyID r) (o_Symbol r)) (o_Side r) (o_QtyBase r) price fee = Ok p \<and>
    bookFill L m r price fee =
      (if price \<le> 0 then Ok (m, None, Some ErrNonPositiveFillPrice)
       else let r' = r\<lparr>o_FillPrice := price, o_FeeQuote := fee, o_Status := StatusFilled\<rparr>
         in Ok ((put_order r' m)\<lparr>oms_positions := al_put (order_key r) p (oms_positions m)\<rparr>, Some r', None))"
proof -
  obtain p where "fill_position L (held m (o_StrategyID r) (o_Symbol r)) (o_Side r) (o_QtyBase r) price fee = Ok p"
    using fill_position_no_panic [OF assms] by blast
  then show ?thesis by (simp add: bookFill_def applyFill_def held_def Let_def)
qed

text \<open>A stored row: the row the table holds under its identifier has the same key, class and
  epoch, and is open if this one is or if it is an entry.\<close>

definition stored :: "'d oms \<Rightarrow> 'd order \<Rightarrow> bool" where
  "stored m r \<longleftrightarrow> (\<exists>r0. get_order m (o_ID r) = Some r0 \<and> order_key r0 = order_key r \<and>
     o_Class r0 = o_Class r \<and> o_KillEpoch r0 = o_KillEpoch r \<and>
     (o_Status r = StatusOpen \<or> o_Class r = ClassEntry \<longrightarrow> o_Status r0 = StatusOpen))"

lemma stored_self:
  "get_order m i = Some r \<Longrightarrow> (o_Class r = ClassEntry \<Longrightarrow> o_Status r = StatusOpen) \<Longrightarrow> stored m r"
  unfolding stored_def using get_order_ID by fastforce

lemma stored_put: "(o_Class r = ClassEntry \<Longrightarrow> o_Status r = StatusOpen) \<Longrightarrow> stored (put_order r m) r"
  by (auto simp: stored_def get_put_order)

lemma change_put:
  "oms_change U K m m1 \<Longrightarrow> stored m1 r \<Longrightarrow> K (order_key r) \<Longrightarrow> order_ok r \<Longrightarrow>
     oms_change U K m (put_order r m1)"
  unfolding stored_def by (auto intro: change_upd)

lemma fill_position_symbol: "fill_position L b sd qty price fee = Ok b' \<Longrightarrow> pos_Symbol b' = pos_Symbol b"
  by (auto simp: fill_position_def Let_def bind_outcome_eq_Ok ddiv_def split: if_splits)

lemma bookFill_change:
  assumes "oms_change U K m m1" "stored m1 r" "K (order_key r)" "order_ok r"
  shows "returns (bookFill L m1 r price fee) (\<lambda>(m2, r', e). oms_change U K m m2 \<and>
    (if price \<le> 0 then m2 = m1 \<and> r' = None \<and> e = Some ErrNonPositiveFillPrice
     else e = None \<and> r' = Some (r\<lparr>o_FillPrice := price, o_FeeQuote := fee, o_Status := StatusFilled\<rparr>)
       \<and> get_order m2 (o_ID r) = r'
       \<and> fill_position L (held m1 (o_StrategyID r) (o_Symbol r)) (o_Side r) (o_QtyBase r) price fee
           = Ok (held m2 (o_StrategyID r) (o_Symbol r))
       \<and> (\<forall>i. i \<noteq> o_ID r \<longrightarrow> get_order m2 i = get_order m1 i)))"
proof -
  have q: "0 < o_QtyBase r" using assms(4) by (simp add: order_ok_def)
  obtain p where p: "fill_position L (held m1 (o_StrategyID r) (o_Symbol r)) (o_Side r) (o_QtyBase r) price fee = Ok p"
    "bookFill L m1 r price fee = (if price \<le> 0 then Ok (m1, None, Some ErrNonPositiveFillPrice)
       else let r' = r\<lparr>o_FillPrice := price, o_FeeQuote := fee, o_Status := StatusFilled\<rparr>
         in Ok ((put_order r' m1)\<lparr>oms_positions := al_put (order_key r) p (oms_positions m1)\<rparr>, Some r', None))"
    using bookFill_unfold [OF q] by blast
  define r' where "r' = r\<lparr>o_FillPrice := price, o_FeeQuote := fee, o_Status := StatusFilled\<rparr>"
  have "stored m1 r'" "order_ok r'" "order_key r' = order_key r"
    using assms(2,4) by (auto simp: r'_def stored_def order_ok_def)
  then have "oms_change U K m (put_order r' m1)" using assms(1,3) by (auto intro!: change_put)
  moreover have "pos_Symbol p = pos_Symbol (held (put_order r' m1) (fst (order_key r)) (snd (order_key r)))"
    using fill_position_symbol [OF p(1)] by (simp add: held_def)
  ultimately have "oms_change U K m ((put_order r' m1)\<lparr>oms_positions := al_put (order_key r) p (oms_positions m1)\<rparr>)"
    using change_book [of U K m "put_order r' m1" "order_key r" p] assms(3) by simp
  then show ?thesis using assms(1) p
    by (auto simp: Let_def get_put_order r'_def held_def al.get_put)
qed

lemma cancel_change:
  "oms_change U K m m1 \<Longrightarrow> K (s, sy) \<Longrightarrow> oms_change U K m (cancelOpenProtectives s sy m1)"
  unfolding cancelOpenProtectives_def by (rule change_cancel) (auto simp: is_open_protective_def)

lemma Position_upd [simp]:
  "Position (put_order r m) = Position m" "Position (cancel_where P m) = Position m"
  "Position (m\<lparr>oms_minted := n\<rparr>) = Position m"
  by (auto simp: Position_def fun_eq_iff)

lemma Position_Some: "Position m s sy = Some p \<Longrightarrow> pos_QtyBase p \<noteq> 0 \<and> held m s sy = p"
  by (auto simp: Position_def held_def split: option.splits if_splits)

lemma Position_None_iff: "Position m s sy = None \<longleftrightarrow> pos_QtyBase (held m s sy) = 0"
  by (auto simp: Position_def held_def flat_position_def split: option.splits)

lemma fill_position_qty:
  assumes "0 < qty" and "fill_position L b sd qty price fee = Ok b'"
  shows "pos_QtyBase b' = pos_QtyBase b + sideSign sd * qty"
  using paper_fill_qty [of "\<lparr>bf_buy = (sd = SideBuy), bf_qty = qty, bf_price = price, bf_fee = fee\<rparr>" L b b'] assms
  by (cases sd) (auto simp: paper_fill_def signed_def sideSign_def)

text \<open>Flattening never panics; afterwards the position is flat with its protectives cancelled, or an
  open reduce-only market exit for the whole position is on the table.\<close>

definition exiting :: "'d::linordered_field oms \<Rightarrow> string \<Rightarrow> string \<Rightarrow> bool" where
  "exiting m s sy \<longleftrightarrow> Position m s sy = None \<or>
     (\<exists>r p. get_order m (o_ID r) = Some r \<and> is_open_protective s sy r \<and> o_Type r = ''market'' \<and>
        o_ReduceOnly r \<and> Position m s sy = Some p \<and> o_Side r = closeSide (pos_QtyBase p) \<and>
        o_QtyBase r = \<bar>pos_QtyBase p\<bar>)"

lemma close_side_sum: "q + sideSign (closeSide q) * \<bar>q\<bar> = 0"
  by (simp add: sideSign_def closeSide_def)

lemma flatten_change:
  assumes "oms_wf U m1" "oms_change U K m m1" "K (s, sy)"
  shows "returns (flatten L U m1 s sy mark) (\<lambda>(m2, r', e). oms_change U K m m2 \<and>
    exiting m2 s sy)"
proof (cases "Position m1 s sy")
  case None
  then show ?thesis using assms(2) by (simp add: flatten_def exiting_def)
next
  case (Some p)
  define r where "r = (blank_order (U (oms_minted m1)) s sy ClassProtective (closeSide (pos_QtyBase p))
     ''market'' 0)\<lparr>o_QtyBase := \<bar>pos_QtyBase p\<bar>\<rparr>"
  define m2 where "m2 = put_order r (m1\<lparr>oms_minted := Suc (oms_minted m1)\<rparr>)"
  define price where "price = slippedPrice L (oms_fill m2) (closeSide (pos_QtyBase p)) mark"
  define fee where "fee = feeQuote L \<bar>pos_QtyBase p\<bar> price (fl_takerBps (oms_fill m2))"
  have nz: "pos_QtyBase p \<noteq> 0" using Position_Some [OF Some] by simp
  have r: "o_ID r = U (oms_minted m1)" "order_key r = (s, sy)" "o_Class r = ClassProtective" "order_ok r"
    "is_open_protective s sy r" "o_Type r = ''market''" "o_ReduceOnly r" "o_Side r = closeSide (pos_QtyBase p)"
    "o_QtyBase r = \<bar>pos_QtyBase p\<bar>" "o_StrategyID r = s" "o_Symbol r = sy"
    using nz by (simp_all add: r_def blank_order_def order_ok_def is_open_protective_def)
  have c2: "oms_change U K m m2"
    unfolding m2_def using assms(2,3) r by (intro change_new) auto
  have p2: "Position m2 s sy = Some p" using Some by (simp add: m2_def)
  have g2: "get_order m2 (o_ID r) = Some r" by (simp add: m2_def get_put_order)
  have queued: "oms_change U K m m2 \<and> exiting m2 s sy" using c2 p2 g2 r unfolding exiting_def by blast
  have unf: "flatten L U m1 s sy mark = (if mark \<le> 0 then Ok (m2, Some r, None)
     else bind_outcome (bookFill L m2 r price fee) (\<lambda>(m3, r', e). case e of
           Some err \<Rightarrow> Ok (m3, Some r, Some err) | None \<Rightarrow> Ok (cancelOpenProtectives s sy m3, r', None)))"
    using Some unfolding price_def fee_def m2_def r_def by (simp add: flatten_def mint_def Let_def)
  have K: "K (order_key r)" using assms(3) r(2) by simp
  have st: "stored m2 r" unfolding m2_def by (rule stored_put) (simp add: r(3))
  show ?thesis
  proof (cases "mark \<le> 0")
    case True
    then show ?thesis unfolding unf using queued by simp
  next
    case False
    have "returns (bind_outcome (bookFill L m2 r price fee) (\<lambda>(m3, r', e). case e of
           Some err \<Rightarrow> Ok (m3, Some r, Some err) | None \<Rightarrow> Ok (cancelOpenProtectives s sy m3, r', None)))
       (\<lambda>(m2, r', e). oms_change U K m m2 \<and> exiting m2 s sy)"
    proof (rule returns_bind [OF bookFill_change [OF c2 st K r(4)]], clarify, goal_cases)
      case (1 m3 r' e)
      show ?case
      proof (cases "price \<le> 0")
        case True
        with 1 queued show ?thesis by simp
      next
        case False
        with 1 r(2) have f: "e = None" "fill_position L (held m2 s sy) (closeSide (pos_QtyBase p))
           \<bar>pos_QtyBase p\<bar> price fee = Ok (held m3 s sy)" by (auto simp: r)
        have "pos_QtyBase (held m3 s sy) = 0"
          using fill_position_qty [OF _ f(2)] nz Position_Some [OF p2] by (simp add: close_side_sum)
        then have "Position (cancelOpenProtectives s sy m3) s sy = None"
          by (simp add: Position_None_iff [symmetric] cancelOpenProtectives_def)
        then have "exiting (cancelOpenProtectives s sy m3) s sy" by (simp add: exiting_def)
        then show ?thesis using 1 f(1) assms(3) cancel_change by fastforce
      qed
    qed
    then show ?thesis unfolding unf using False by simp
  qed
qed

text \<open>A stop or take-profit that covers an entry: open, reduce-only, on the other side, for the
  entry's quantity.\<close>

definition covers :: "'d::linordered_field order \<Rightarrow> 'd order \<Rightarrow> bool" where
  "covers x r \<longleftrightarrow> is_open_protective (o_StrategyID r) (o_Symbol r) x \<and> o_ReduceOnly x \<and>
     o_QtyBase x = o_QtyBase r \<and> o_Side x \<noteq> o_Side r"

definition protected_by :: "'d::linordered_field oms \<Rightarrow> 'd order \<Rightarrow> 'd \<Rightarrow> 'd \<Rightarrow> bool" where
  "protected_by m r stopPrice takeProfit \<longleftrightarrow>
     (0 < stopPrice \<longrightarrow> (\<exists>x. get_order m (o_ID x) = Some x \<and> covers x r \<and> o_Type x = ''stop'' \<and>
        o_StopPrice x = stopPrice)) \<and>
     (0 < takeProfit \<longrightarrow> (\<exists>x. get_order m (o_ID x) = Some x \<and> covers x r \<and> o_Type x = ''take_profit'' \<and>
        o_LimitPrice x = takeProfit))"

definition protective_row ::
  "string \<Rightarrow> 'd::linordered_field order \<Rightarrow> string \<Rightarrow> 'd \<Rightarrow> 'd order" where
  "protective_row oid r ty price =
     (let x = (blank_order oid (o_StrategyID r) (o_Symbol r) ClassProtective
                 (closeSide (sideSign (o_Side r) :: 'd)) ty (o_KillEpoch r))\<lparr>o_QtyBase := o_QtyBase r\<rparr>
      in if ty = ''stop'' then x\<lparr>o_StopPrice := price\<rparr> else x\<lparr>o_LimitPrice := price\<rparr>)"

lemma protective_row:
  "o_ID (protective_row oid r ty price) = oid"
  "order_key (protective_row oid r ty price) = order_key r"
  "o_Class (protective_row oid r ty price) = ClassProtective"
  "o_Type (protective_row oid r ty price) = ty"
  "order_ok r \<Longrightarrow> order_ok (protective_row oid r ty price)"
  "covers (protective_row oid r ty price) r"
  "o_StopPrice (protective_row oid r ''stop'' price) = price"
  "o_LimitPrice (protective_row oid r ''take_profit'' price) = price"
  by (cases "o_Side r"; simp add: protective_row_def blank_order_def order_ok_def covers_def
        is_open_protective_def closeSide_def sideSign_def Let_def)+

text \<open>Placing one protective: mint, ask the seam, store.\<close>

definition place_one ::
  "(nat \<Rightarrow> string) \<Rightarrow> 'd::linordered_field oms \<Rightarrow> 'd order \<Rightarrow> string \<Rightarrow> 'd \<Rightarrow> 'd oms \<times> bool" where
  "place_one U m r ty price =
     (if price > 0 then
        let m1 = m\<lparr>oms_minted := Suc (oms_minted m)\<rparr>;
            x = protective_row (U (oms_minted m)) r ty price
        in if oms_place m1 x then (put_order x m1, True) else (m1, False)
      else (m, True))"

lemma placeProtectives_by_one:
  "placeProtectives U m r sl tp =
     (case place_one U m r ''stop'' sl of
        (m1, False) \<Rightarrow> (m1, False) | (m1, True) \<Rightarrow> place_one U m1 r ''take_profit'' tp)"
  by (simp add: placeProtectives_def place_one_def mint_def protective_row_def blank_order_def Let_def)

lemma place_one_change:
  assumes "oms_wf U m1" "oms_change U K m m1" "K (order_key r)" "order_ok r"
    and "place_one U m1 r ty price = (m2, ok)"
  shows "oms_change U K m m2" "oms_wf U m2" "\<And>i x. get_order m1 i = Some x \<Longrightarrow> get_order m2 i = Some x"
    "ok \<Longrightarrow> 0 < price \<Longrightarrow> \<exists>oid. get_order m2 oid = Some (protective_row oid r ty price)"
    "oms_positions m2 = oms_positions m1"
proof -
  define x where "x = protective_row (U (oms_minted m1)) r ty price"
  have x: "o_ID x = U (oms_minted m1)" "order_key x = order_key r" "o_Class x = ClassProtective"
    "order_ok r \<Longrightarrow> order_ok x" by (simp_all add: x_def protective_row)
  have none: "get_order m1 (U (oms_minted m1)) = None" using assms(1) by (simp add: oms_wf_def)
  have K: "K (order_key x)" using assms(3) x by simp
  have new: "oms_change U K m (put_order x (m1\<lparr>oms_minted := Suc (oms_minted m1)\<rparr>))"
    using assms(2,4) K x by (intro change_new) auto
  have mint: "oms_change U K m (m1\<lparr>oms_minted := Suc (oms_minted m1)\<rparr>)"
    using assms(2) by (rule change_mint)
  have wf: "oms_wf U (put_order x (m1\<lparr>oms_minted := Suc (oms_minted m1)\<rparr>))"
    using assms(1,4) x by (intro wf_new) auto
  show "oms_change U K m m2" "oms_wf U m2" "\<And>i x. get_order m1 i = Some x \<Longrightarrow> get_order m2 i = Some x"
    "ok \<Longrightarrow> 0 < price \<Longrightarrow> \<exists>oid. get_order m2 oid = Some (protective_row oid r ty price)"
    "oms_positions m2 = oms_positions m1"
    using assms(1,2,5) new mint wf none wf_mint [OF assms(1)] x(1)
    by (auto simp: place_one_def Let_def x_def get_put_order split: if_splits)
qed

lemma placeProtectives_change:
  assumes "oms_wf U m1" "oms_change U K m m1" "K (order_key r)" "order_ok r"
    and "placeProtectives U m1 r sl tp = (m2, ok)"
  shows "oms_change U K m m2" "oms_wf U m2" "\<And>i x. get_order m1 i = Some x \<Longrightarrow> get_order m2 i = Some x"
    "ok \<Longrightarrow> protected_by m2 r sl tp" "oms_positions m2 = oms_positions m1"
proof -
  obtain m' ok' where one: "place_one U m1 r ''stop'' sl = (m', ok')" by (cases "place_one U m1 r ''stop'' sl")
  note s = place_one_change [OF assms(1-4) one]
  show "oms_change U K m m2" "oms_wf U m2" "\<And>i x. get_order m1 i = Some x \<Longrightarrow> get_order m2 i = Some x"
    "ok \<Longrightarrow> protected_by m2 r sl tp" "oms_positions m2 = oms_positions m1"
  proof (atomize (full), goal_cases)
    case 1
    show ?case
    proof (cases ok')
      case False
      with one assms(5) have "m2 = m'" "\<not> ok" by (auto simp: placeProtectives_by_one)
      with s show ?thesis by simp
    next
      case True
      with one assms(5) have two: "place_one U m' r ''take_profit'' tp = (m2, ok)"
        by (simp add: placeProtectives_by_one)
      note t = place_one_change [OF s(2,1) assms(3,4) two]
      have "protected_by m2 r sl tp" if ok
        unfolding protected_by_def
      proof (intro conjI impI)
        assume "0 < sl"
        with s(4) True obtain oid where "get_order m' oid = Some (protective_row oid r ''stop'' sl)" by blast
        then have "get_order m2 oid = Some (protective_row oid r ''stop'' sl)" by (rule t(3))
        then show "\<exists>x. get_order m2 (o_ID x) = Some x \<and> covers x r \<and> o_Type x = ''stop'' \<and> o_StopPrice x = sl"
          by (intro exI [of _ "protective_row oid r ''stop'' sl"]) (simp add: protective_row)
      next
        assume "0 < tp"
        with t(4) that obtain oid where "get_order m2 oid = Some (protective_row oid r ''take_profit'' tp)"
          by blast
        then show "\<exists>x. get_order m2 (o_ID x) = Some x \<and> covers x r \<and> o_Type x = ''take_profit'' \<and> o_LimitPrice x = tp"
          by (intro exI [of _ "protective_row oid r ''take_profit'' tp"]) (simp add: protective_row)
      qed
      with t s show ?thesis by auto
    qed
  qed
qed


section \<open>Submitting and filling entries\<close>

lemma lower_qty_Some:
  assumes "lower_qty sz price qty = Some q" shows "q * price \<le> sz"
proof (rule lower_qty.raw_induct [of "\<lambda>sz price qty q. q * price \<le> sz", OF _ assms])
  fix f :: "'a \<Rightarrow> 'a \<Rightarrow> 'a \<Rightarrow> 'a option" and sz price qty q
  assume "\<And>sz price qty q. f sz price qty = Some q \<Longrightarrow> q * price \<le> sz"
    and "(if sz < qty * price then f sz price (qty - qtyStep) else Some qty) = Some q"
  then show "q * price \<le> sz" by (auto split: if_splits)
qed

lemma qtyForNotional_Ok: "qtyForNotional L sz price = Ok q \<Longrightarrow> 0 < q \<and> q * price \<le> sz"
  by (auto simp: qtyForNotional_def bind_outcome_eq_Ok dest: lower_qty_Some split: option.splits if_splits)

lemma qtyForNotional_pos:
  assumes "div_documented L" "round_documented L" "0 < price"
  obtains q where "qtyForNotional L sz price = Ok q" | "qtyForNotional L sz price = Err ErrQtyRoundsToZero"
proof -
  have below: "(round8 L (dDiv L sz price) - qtyStep) * price \<le> sz"
    using rounded_quotient_close [OF assms(1,2), of price sz] assms(3)
    by (simp add: abs_le_iff pos_le_divide_eq [symmetric] diff_le_eq add.commute)
  then obtain q where "lower_qty sz price (round8 L (dDiv L sz price)) = Some q"
    using lower_qty_one_step by blast
  then have "qtyForNotional L sz price = (if q \<le> 0 then Err ErrQtyRoundsToZero else Ok q)"
    using assms(3) by (simp add: qtyForNotional_def)
  then show thesis using that by (cases "q \<le> 0") simp_all
qed

text \<open>What protecting a booked entry leaves: the protectives asked for, or the error with the
  position flat or on its way out.\<close>

definition guarded :: "'d::linordered_field oms \<Rightarrow> 'd order \<Rightarrow> 'd \<Rightarrow> 'd \<Rightarrow> paper_error option \<Rightarrow> bool" where
  "guarded m r sl tp e \<longleftrightarrow> (e = None \<and> protected_by m r sl tp) \<or>
     (e = Some ErrProtectivePlacement \<and> exiting m (o_StrategyID r) (o_Symbol r))"

lemma protect_fill_change:
  assumes "oms_wf U m1" "oms_change U K m m1" "K (order_key r)" "order_ok r"
  shows "returns (protect_fill L U m1 r sl tp mark) (\<lambda>(m2, r', e). oms_change U K m m2 \<and>
     r' = Some r \<and> guarded m2 r sl tp e)"
proof (cases "placeProtectives U m1 r sl tp")
  case (Pair m2 ok)
  note p = placeProtectives_change [OF assms Pair]
  show ?thesis
  proof (cases ok)
    case True
    then show ?thesis using Pair p by (simp add: protect_fill_def guarded_def)
  next
    case False
    have "returns (bind_outcome (flatten L U m2 (o_StrategyID r) (o_Symbol r) mark)
             (\<lambda>(m3, _, _). Ok (m3, Some r, Some ErrProtectivePlacement)))
          (\<lambda>(m2, r', e). oms_change U K m m2 \<and> r' = Some r \<and> guarded m2 r sl tp e)"
      by (rule returns_bind [OF flatten_change [OF p(2,1) assms(3)]]) (auto simp: guarded_def)
    then show ?thesis using False Pair by (simp add: protect_fill_def)
  qed
qed

lemma fillLimitEntry_change:
  assumes "oms_wf U m" "oms_change U K m m1" "stored m1 r" "K (order_key r)" "order_ok r" "0 < o_LimitPrice r"
  shows "returns (fillLimitEntry L U m1 r mark bps) (\<lambda>(m2, r', e). oms_change U K m m2 \<and>
     (\<exists>r2 fee. r' = Some r2 \<and> r2 = r\<lparr>o_FillPrice := o_LimitPrice r, o_FeeQuote := fee, o_Status := StatusFilled\<rparr>
        \<and> guarded m2 r2 (o_StopPrice r) (o_TakeProfit r) e))"
  unfolding fillLimitEntry_def
proof (rule returns_bind [OF bookFill_change [OF assms(2-5)]], clarify, goal_cases)
  case (1 m2 r' e)
  define r2 where "r2 = r\<lparr>o_FillPrice := o_LimitPrice r,
     o_FeeQuote := feeQuote L (o_QtyBase r) (o_LimitPrice r) bps, o_Status := StatusFilled\<rparr>"
  have e: "e = None" "r' = Some r2" using 1 assms(6) by (auto simp: r2_def)
  have c: "oms_change U K m m2" using 1 by simp
  then have wf: "oms_wf U m2" using change_wf assms(1) by blast
  have ok: "K (order_key r2)" "order_ok r2" using assms(4,5) by (simp_all add: r2_def order_ok_def)
  show ?case
    unfolding e(1,2) prod.case option.case
    by (rule returns_mono [OF protect_fill_change [OF wf c ok]]) (auto simp: r2_def)
qed

text \<open>The fill model the constructor accepts.\<close>

definition model_ok :: "'d::linordered_field oms \<Rightarrow> bool" where
  "model_ok m \<longleftrightarrow> 0 \<le> fl_slippageBps (oms_fill m) \<and> fl_slippageBps (oms_fill m) < 10000"

lemma slippedPrice_nonneg:
  assumes "round_documented L" "model_ok m" "0 < mark"
  shows "0 \<le> slippedPrice L (oms_fill m) sd mark"
proof -
  have "fl_slippageBps (oms_fill m) * unit_of 4 \<le> 1" "0 \<le> fl_slippageBps (oms_fill m) * unit_of 4"
    using assms(2) by (auto simp: model_ok_def unit_of_def)
  then show ?thesis using assms(3)
    by (auto simp: slippedPrice_def round8_def Let_def intro!: round_nonneg [OF assms(1)])
qed

text \<open>What submitting an entry leaves, in one predicate over its result.\<close>

definition entry_outcome :: "(nat \<Rightarrow> string) \<Rightarrow> 'd::linordered_field oms \<Rightarrow> 'd entry_request \<Rightarrow>
     'd oms \<times> 'd order option \<times> paper_error option \<Rightarrow> bool" where
  "entry_outcome U m rq = (\<lambda>(m', r', e).
     oms_change U ((=) (rq_StrategyID rq, rq_Symbol rq)) m m' \<and>
     (case r' of
        None \<Rightarrow> e \<noteq> None \<and> oms_positions m' = oms_positions m
      | Some r \<Rightarrow> order_key r = (rq_StrategyID rq, rq_Symbol rq) \<and> o_Side r = rq_Side rq \<and> 0 < o_QtyBase r \<and>
          (if o_Status r = StatusFilled
           then 0 < o_FillPrice r \<and> o_QtyBase r * o_FillPrice r \<le> rq_SizeQuote rq \<and>
                guarded m' r (rq_StopPrice rq) (rq_TakeProfit rq) e
           else e = None \<and> o_Status r = StatusOpen \<and> o_Type r = ''limit'' \<and> get_order m' (o_ID r) = Some r \<and>
                o_QtyBase r * o_LimitPrice r \<le> rq_SizeQuote rq \<and> oms_positions m' = oms_positions m)))"

lemma SubmitEntry_limit:
  fixes L :: "'d::linordered_field dlib"
  assumes "div_documented L" "round_documented L" "oms_wf U m"
    and "KillEpoch m (rq_StrategyID rq) \<le> rq_KillEpoch rq" "0 < rq_SizeQuote rq" "rq_Type rq = ''limit''"
  shows "returns (SubmitEntry L U m rq) (entry_outcome U m rq)"
proof -
  define K where "K = (=) (rq_StrategyID rq, rq_Symbol rq)"
  define m1 where "m1 = m\<lparr>oms_minted := Suc (oms_minted m)\<rparr>"
  define r :: "'d order" where "r = blank_order (U (oms_minted m)) (rq_StrategyID rq) (rq_Symbol rq) ClassEntry
     (rq_Side rq) (rq_Type rq) (rq_KillEpoch rq)"
  have c1: "oms_change U K m m1" unfolding m1_def by (intro change_mint change_refl)
  have guards: "\<not> rq_KillEpoch rq < KillEpoch m (rq_StrategyID rq)" "\<not> rq_SizeQuote rq \<le> 0"
    using assms(4,5) by auto
  have err: "entry_outcome U m rq (m1, None, Some x)" for x
    using c1 by (simp add: entry_outcome_def K_def m1_def)
  show ?thesis
  proof (cases "rq_LimitPrice rq \<le> 0")
    case True
    then show ?thesis using guards assms(6) err by (simp add: SubmitEntry_def mint_def m1_def)
  next
    case False
    then have lp: "0 < rq_LimitPrice rq" by simp
    from assms(1,2) lp show ?thesis
    proof (cases rule: qtyForNotional_pos [of L "rq_LimitPrice rq" "rq_SizeQuote rq"])
      case (2)
      then show ?thesis using guards False assms(6) err
        by (simp add: SubmitEntry_def mint_def m1_def with_qty_def Let_def)
    next
      case (1 q)
      have q: "0 < q" "q * rq_LimitPrice rq \<le> rq_SizeQuote rq" using qtyForNotional_Ok [OF 1] by auto
      define r1 where "r1 = r\<lparr>o_LimitPrice := rq_LimitPrice rq, o_StopPrice := rq_StopPrice rq,
                         o_TakeProfit := rq_TakeProfit rq, o_QtyBase := q\<rparr>"
      have r1: "o_ID r1 = U (oms_minted m)" "order_key r1 = (rq_StrategyID rq, rq_Symbol rq)" "order_ok r1"
        "o_Side r1 = rq_Side rq" "o_KillEpoch r1 = rq_KillEpoch rq" "o_Status r1 = StatusOpen"
        "o_LimitPrice r1 = rq_LimitPrice rq" "o_StopPrice r1 = rq_StopPrice rq"
        "o_TakeProfit r1 = rq_TakeProfit rq" "o_QtyBase r1 = q" "o_Type r1 = ''limit''"
        using q(1) assms(6) by (simp_all add: r1_def r_def blank_order_def order_ok_def)
      note st = stored_put [of r1, OF r1(6)]
      have c2: "oms_change U K m (put_order r1 m1)"
        unfolding m1_def using r1 assms(4) by (intro change_new change_refl) (auto simp: K_def)
      have K: "K (order_key r1)" "0 < o_LimitPrice r1" using r1 lp by (simp_all add: K_def)
      have unf: "SubmitEntry L U m rq = (if rq_MarkPrice rq > 0 \<and> limitCrossed (rq_Side rq) (rq_MarkPrice rq) (rq_LimitPrice rq)
           then fillLimitEntry L U (put_order r1 m1) r1 (rq_MarkPrice rq) (fl_takerBps (oms_fill (put_order r1 m1)))
           else Ok (put_order r1 m1, Some r1, None))"
        using guards False assms(6) 1 unfolding m1_def r1_def r_def
        by (simp add: SubmitEntry_def mint_def with_qty_def Let_def)
      have "returns (fillLimitEntry L U (put_order r1 m1) r1 mk bps) (entry_outcome U m rq)" for mk bps
        using q r1 lp
        by (intro returns_mono [OF fillLimitEntry_change [OF assms(3) c2 st K(1) r1(3) K(2)]])
          (auto simp: entry_outcome_def K_def [symmetric] split: option.splits)
      moreover have "entry_outcome U m rq (put_order r1 m1, Some r1, None)"
        using c2 q r1 unfolding K_def by (simp add: entry_outcome_def get_put_order m1_def)
      ultimately show ?thesis unfolding unf by simp
    qed
  qed
qed

lemma SubmitEntry_market:
  fixes L :: "'d::linordered_field dlib"
  assumes "div_documented L" "round_documented L" "oms_wf U m" "model_ok m"
    and "KillEpoch m (rq_StrategyID rq) \<le> rq_KillEpoch rq" "0 < rq_SizeQuote rq" "rq_Type rq = ''market''"
    and "0 < rq_MarkPrice rq" "slippedPrice L (oms_fill m) (rq_Side rq) (rq_MarkPrice rq) \<noteq> 0"
  shows "returns (SubmitEntry L U m rq) (entry_outcome U m rq)"
proof -
  define K where "K = (=) (rq_StrategyID rq, rq_Symbol rq)"
  define m1 where "m1 = m\<lparr>oms_minted := Suc (oms_minted m)\<rparr>"
  define r :: "'d order" where "r = blank_order (U (oms_minted m)) (rq_StrategyID rq) (rq_Symbol rq) ClassEntry
     (rq_Side rq) ''market'' (rq_KillEpoch rq)"
  define price where "price = slippedPrice L (oms_fill m) (rq_Side rq) (rq_MarkPrice rq)"
  have c1: "oms_change U K m m1" unfolding m1_def by (intro change_mint change_refl)
  have guards: "\<not> rq_KillEpoch rq < KillEpoch m (rq_StrategyID rq)" "\<not> rq_SizeQuote rq \<le> 0"
    "\<not> rq_MarkPrice rq \<le> 0" using assms(5,6,8) by auto
  have pp: "0 < price" using slippedPrice_nonneg [OF assms(2,4,8), of "rq_Side rq"] assms(9)
    by (simp add: price_def)
  from assms(1,2) pp show ?thesis
  proof (cases rule: qtyForNotional_pos [of L price "rq_SizeQuote rq"])
    case 2
    then show ?thesis using guards assms(7) c1
      by (simp add: SubmitEntry_def mint_def m1_def with_qty_def Let_def price_def entry_outcome_def K_def)
  next
    case (1 q)
    have q: "0 < q" "q * price \<le> rq_SizeQuote rq" using qtyForNotional_Ok [OF 1] by auto
    define r1 where "r1 = r\<lparr>o_QtyBase := q\<rparr>"
    have r1: "o_ID r1 = U (oms_minted m)" "order_key r1 = (rq_StrategyID rq, rq_Symbol rq)" "order_ok r1"
      "o_Side r1 = rq_Side rq" "o_KillEpoch r1 = rq_KillEpoch rq" "o_QtyBase r1 = q"
      "o_Status r1 = StatusOpen"
      using q(1) by (simp_all add: r1_def r_def blank_order_def order_ok_def)
    note st = stored_put [of r1, OF r1(7)]
    have c2: "oms_change U K m (put_order r1 m1)"
      unfolding m1_def using r1 assms(5) by (intro change_new change_refl) (auto simp: K_def)
    have K: "K (order_key r1)" using r1 by (simp add: K_def)
    define bps where "bps = fl_takerBps (oms_fill (put_order r1 m1))"
    have unf: "SubmitEntry L U m rq = bind_outcome (bookFill L (put_order r1 m1) r1 price (feeQuote L q price bps))
         (\<lambda>(m3, r', e). case (e, r') of
            (None, Some r2) \<Rightarrow> protect_fill L U m3 r2 (rq_StopPrice rq) (rq_TakeProfit rq) (rq_MarkPrice rq)
          | _ \<Rightarrow> Ok (put_order (r1\<lparr>o_Status := StatusCanceled\<rparr>) m3, None, e))"
      using guards 1 unfolding m1_def r1_def r_def bps_def price_def SubmitEntry_def assms(7)
      by (simp add: mint_def with_qty_def Let_def)
    show ?thesis
      unfolding unf
    proof (rule returns_bind [OF bookFill_change [OF c2 st K r1(3)]], clarify, goal_cases)
      case (1 m3 r' e)
      define r2 where "r2 = r1\<lparr>o_FillPrice := price, o_FeeQuote := feeQuote L q price bps, o_Status := StatusFilled\<rparr>"
      have e: "e = None" "r' = Some r2" "oms_change U K m m3" using 1 pp by (auto simp: r2_def)
      have wf: "oms_wf U m3" using change_wf [OF e(3) assms(3)] .
      have ok: "K (order_key r2)" "order_ok r2" using K r1(3) by (simp_all add: r2_def order_ok_def)
      show ?case
        unfolding e(1,2) prod.case option.case
        using q r1 pp
        by (intro returns_mono [OF protect_fill_change [OF wf e(3) ok]])
          (auto simp: entry_outcome_def K_def [symmetric] r2_def split: option.splits)
    qed
  qed
qed

lemma SubmitEntry_outcome:
  assumes "div_documented L" "round_documented L" "oms_wf U m" "model_ok m"
    and "\<not> (rq_Type rq = ''market'' \<and> slippedPrice L (oms_fill m) (rq_Side rq) (rq_MarkPrice rq) = 0)"
  shows "returns (SubmitEntry L U m rq) (entry_outcome U m rq)"
proof -
  define m1 where "m1 = m\<lparr>oms_minted := Suc (oms_minted m)\<rparr>"
  have err: "entry_outcome U m rq (m, None, Some x)" "entry_outcome U m rq (m1, None, Some x)" for x
    by (auto simp: entry_outcome_def m1_def intro: change_refl change_mint)
  consider "rq_KillEpoch rq < KillEpoch m (rq_StrategyID rq) \<or> rq_SizeQuote rq \<le> 0"
    | "KillEpoch m (rq_StrategyID rq) \<le> rq_KillEpoch rq" "0 < rq_SizeQuote rq" "rq_Type rq = ''limit''"
    | "KillEpoch m (rq_StrategyID rq) \<le> rq_KillEpoch rq" "0 < rq_SizeQuote rq" "rq_Type rq = ''market''"
        "0 < rq_MarkPrice rq"
    | "KillEpoch m (rq_StrategyID rq) \<le> rq_KillEpoch rq" "0 < rq_SizeQuote rq" "rq_Type rq \<noteq> ''limit''"
        "rq_Type rq = ''market'' \<longrightarrow> rq_MarkPrice rq \<le> 0"
    by (metis not_le)
  then show ?thesis
  proof cases
    case 1
    then show ?thesis using err by (auto simp: SubmitEntry_def)
  next
    case 2
    then show ?thesis using SubmitEntry_limit assms by blast
  next
    case 3
    then show ?thesis using SubmitEntry_market assms by blast
  next
    case 4
    then show ?thesis using err by (auto simp: SubmitEntry_def mint_def Let_def m1_def not_le not_less)
  qed
qed

section \<open>The tick\<close>

text \<open>A book that only shrinks towards flat: never larger, never on the other side.\<close>

definition shrinks :: "'d::linordered_field \<Rightarrow> 'd \<Rightarrow> bool" where
  "shrinks q q' \<longleftrightarrow> \<bar>q'\<bar> \<le> \<bar>q\<bar> \<and> (q' = 0 \<or> sgn q' = sgn q)"

lemma shrinks_refl [simp]: "shrinks q q"
  by (simp add: shrinks_def)

lemma shrinks_clamped:
  assumes "q \<noteq> 0" "0 < x" shows "shrinks q (q + sideSign (closeSide q) * min x \<bar>q\<bar>)"
proof -
  define y where "y = min x \<bar>q\<bar>"
  have y: "0 \<le> y" "y \<le> \<bar>q\<bar>" using assms by (simp_all add: y_def)
  show ?thesis
  proof (cases "0 < q")
    case True
    with y have "\<bar>q - y\<bar> \<le> \<bar>q\<bar>" "q - y = 0 \<or> sgn (q - y) = sgn q" by (simp_all add: sgn_if)
    with True show ?thesis
      unfolding y_def [symmetric] by (simp add: shrinks_def sideSign_def closeSide_def)
  next
    case False
    with y assms(1) have "\<bar>q + y\<bar> \<le> \<bar>q\<bar>" "q + y = 0 \<or> sgn (q + y) = sgn q" by (simp_all add: sgn_if)
    with False show ?thesis
      unfolding y_def [symmetric] by (simp add: shrinks_def sideSign_def closeSide_def)
  qed
qed

definition booked :: "(pkey \<Rightarrow> bool) \<Rightarrow> 'd::linordered_field order list \<Rightarrow> bool" where
  "booked K fs \<longleftrightarrow> (\<forall>f \<in> set fs. o_Status f = StatusFilled \<and> 0 < o_FillPrice f \<and> 0 < o_QtyBase f \<and> K (order_key f))"

lemma booked_simps [simp]: "booked K []" "booked K (fs @ gs) = (booked K fs \<and> booked K gs)"
  by (auto simp: booked_def)

definition no_open_protectives :: "string \<Rightarrow> string \<Rightarrow> 'd oms \<Rightarrow> bool" where
  "no_open_protectives s sy m \<longleftrightarrow> (\<forall>i r. get_order m i = Some r \<longrightarrow> \<not> is_open_protective s sy r)"

lemma not_open_canceled:
  "\<not> is_open_protective s sy (if is_open_protective s sy z then z\<lparr>o_Status := StatusCanceled\<rparr> else z)"
  by (simp add: is_open_protective_def)

lemma cancelOpenProtectives_none: "no_open_protectives s sy (cancelOpenProtectives s sy m)"
  unfolding no_open_protectives_def cancelOpenProtectives_def
  using not_open_canceled by (auto simp only: get_cancel_where map_option_eq_Some)

lemma held_cancel [simp]: "held (cancelOpenProtectives s sy m) = held m" "held (put_order r m) = held m"
  by (auto simp: held_def cancelOpenProtectives_def fun_eq_iff)

lemma fillProtective_change:
  assumes "oms_change U K m m1" "stored m1 r" "K (order_key r)" "order_ok r" "o_Class r = ClassProtective"
  shows "returns (fillProtective L m1 r price bps) (\<lambda>(m2, fs, es). oms_change U K m m2 \<and> booked K fs \<and>
    shrinks (pos_QtyBase (held m1 (o_StrategyID r) (o_Symbol r))) (pos_QtyBase (held m2 (o_StrategyID r) (o_Symbol r))) \<and>
    (fs \<noteq> [] \<longrightarrow> Position m2 (o_StrategyID r) (o_Symbol r) = None \<longrightarrow>
       no_open_protectives (o_StrategyID r) (o_Symbol r) m2) \<and> (price \<le> 0 \<longrightarrow> fs = []))"
proof -
  have can: "oms_change U K m (put_order (r\<lparr>o_Status := StatusCanceled\<rparr>) m1)"
    using assms by (intro change_put) (auto simp: stored_def order_ok_def)
  show ?thesis
  proof (cases "Position m1 (o_StrategyID r) (o_Symbol r)")
    case None
    then show ?thesis using can by (simp add: fillProtective_def)
  next
    case (Some p)
    have p: "pos_QtyBase p \<noteq> 0" "held m1 (o_StrategyID r) (o_Symbol r) = p" using Position_Some [OF Some] by auto
    show ?thesis
    proof (cases "closeSide (pos_QtyBase p) = o_Side r")
      case False
      then show ?thesis using can Some by (simp add: fillProtective_def)
    next
      case True
      define r1 where "r1 = r\<lparr>o_QtyBase := min (o_QtyBase r) \<bar>pos_QtyBase p\<bar>\<rparr>"
      have r1: "o_StrategyID r1 = o_StrategyID r" "o_Symbol r1 = o_Symbol r" "o_Side r1 = o_Side r"
        "o_QtyBase r1 = min (o_QtyBase r) \<bar>pos_QtyBase p\<bar>" "0 < o_QtyBase r1" "order_ok r1" "stored m1 r1"
        using assms(2,4) p(1) by (auto simp: r1_def order_ok_def stored_def)
      have st: "stored (put_order r1 m1) r1" by (rule stored_put) (simp add: r1_def assms(5))
      have K: "K (order_key r1)" using assms(3) r1 by simp
      have c1: "oms_change U K m (put_order r1 m1)"
        using assms(1) r1(7) K r1(6) by (intro change_put) auto
      have unf: "fillProtective L m1 r price bps =
         bind_outcome (bookFill L (put_order r1 m1) r1 price (feeQuote L (o_QtyBase r1) price bps))
               (\<lambda>(m2, r', e). case (e, r') of
                  (None, Some r2) \<Rightarrow>
                    Ok (if Position m2 (o_StrategyID r) (o_Symbol r) = None
                        then cancelOpenProtectives (o_StrategyID r) (o_Symbol r) m2 else m2, [r2], [])
                | (Some err, _) \<Rightarrow> Ok (m2, [], [err])
                | _ \<Rightarrow> Ok (m2, [], []))"
        unfolding r1_def using Some True by (simp add: fillProtective_def Let_def)
      show ?thesis
        unfolding unf
      proof (rule returns_bind [OF bookFill_change [OF c1 st K r1(6)]], clarify, goal_cases)
        case (1 m3 r' e)
        show ?case
        proof (cases "price \<le> 0")
          case True
          with 1 show ?thesis by simp
        next
          case False
          define r2 where "r2 = r1\<lparr>o_FillPrice := price, o_FeeQuote := feeQuote L (o_QtyBase r1) price bps,
             o_Status := StatusFilled\<rparr>"
          from 1 False have f: "e = None" "r' = Some r2" "oms_change U K m m3"
            "fill_position L p (o_Side r) (o_QtyBase r1) price (feeQuote L (o_QtyBase r1) price bps)
               = Ok (held m3 (o_StrategyID r) (o_Symbol r))" by (auto simp: r2_def r1 p(2))
          have "pos_QtyBase (held m3 (o_StrategyID r) (o_Symbol r)) = pos_QtyBase p + sideSign (o_Side r) * o_QtyBase r1"
            using fill_position_qty [OF r1(5) f(4)] .
          then have "shrinks (pos_QtyBase p) (pos_QtyBase (held m3 (o_StrategyID r) (o_Symbol r)))"
            using shrinks_clamped [OF p(1), of "o_QtyBase r"] assms(4) True r1(4) \<open>closeSide _ = _\<close>
            by (simp add: order_ok_def)
          moreover have "booked K [r2]" using K r1 False by (simp add: booked_def r2_def)
          moreover have "oms_change U K m (cancelOpenProtectives (o_StrategyID r) (o_Symbol r) m3)"
            using f(3) assms(3) by (rule cancel_change)
          ultimately show ?thesis
            using f False p(2) cancelOpenProtectives_none by (auto simp: cancelOpenProtectives_none)
        qed
      qed
    qed
  qed
qed

definition tick_outcome :: "(nat \<Rightarrow> string) \<Rightarrow> (pkey \<Rightarrow> bool) \<Rightarrow> 'd::linordered_field oms \<Rightarrow>
    'd oms \<times> 'd order list \<times> paper_error list \<Rightarrow> bool" where
  "tick_outcome U K m = (\<lambda>(m', fs, es). oms_change U K m m' \<and> booked K fs)"

lemma tick_outcome_none [simp]: "tick_outcome U K m (m1, [], es) = oms_change U K m m1"
  by (simp add: tick_outcome_def)

lemma fillProtective_tick:
  assumes "oms_change U K m m1" "stored m1 r" "K (order_key r)" "order_ok r" "o_Class r = ClassProtective"
  shows "returns (fillProtective L m1 r price bps) (tick_outcome U K m)"
  by (rule returns_mono [OF fillProtective_change [OF assms]]) (auto simp: tick_outcome_def)

lemma wf_order_ok: "oms_wf U m \<Longrightarrow> get_order m i = Some r \<Longrightarrow> order_ok r"
  using get_order_ID by (fastforce simp: oms_wf_def list_all_iff)

lemma tickQueuedExit_tick:
  assumes "oms_wf U m" "oms_change U K m m1" "get_order m1 i = Some r" "K (order_key r)"
    and cl: "o_Class r = ClassProtective"
  shows "returns (tickQueuedExit L mark m1 r) (tick_outcome U K m)"
proof -
  have ok: "order_ok r" using wf_order_ok change_wf assms by blast
  define r1 where "r1 = (case Position m1 (o_StrategyID r) (o_Symbol r) of
                  None \<Rightarrow> r | Some p \<Rightarrow> r\<lparr>o_QtyBase := \<bar>pos_QtyBase p\<bar>\<rparr>)"
  have "stored m1 r" using stored_self [OF assms(3)] cl by simp
  then have "stored m1 r1" "K (order_key r1)" "order_ok r1" "o_Class r1 = ClassProtective"
    using ok assms(4) cl by (auto simp: r1_def stored_def order_ok_def dest: Position_Some split: option.splits)
  then show ?thesis using assms(2) unfolding tickQueuedExit_def r1_def [symmetric] Let_def
    by (intro fillProtective_tick)
qed

lemma tickStop_tick:
  assumes "oms_wf U m" "oms_change U K m m1" "get_order m1 i = Some r" "K (order_key r)"
    and "o_Class r = ClassProtective"
  shows "returns (tickStop L mark m1 r) (tick_outcome U K m)"
  using assms wf_order_ok [OF change_wf [OF assms(2,1)] assms(3)] stored_self [OF assms(3)]
  by (auto simp: tickStop_def intro!: fillProtective_tick)

lemma tickTakeProfit_tick:
  assumes "oms_wf U m" "oms_change U K m m1" "get_order m1 i = Some r" "K (order_key r)"
    and "o_Class r = ClassProtective"
  shows "returns (tickTakeProfit L mark m1 r) (tick_outcome U K m)"
  using assms wf_order_ok [OF change_wf [OF assms(2,1)] assms(3)] stored_self [OF assms(3)]
  by (auto simp: tickTakeProfit_def intro!: fillProtective_tick)

lemma fillLimitEntry_nonpos:
  assumes "o_LimitPrice r \<le> 0" "0 < o_QtyBase r"
  shows "fillLimitEntry L U m1 r mark bps = Ok (m1, None, Some ErrNonPositiveFillPrice)"
  using bookFill_unfold [OF assms(2), of L m1 "o_LimitPrice r" "feeQuote L (o_QtyBase r) (o_LimitPrice r) bps"] assms
  by (auto simp: fillLimitEntry_def)

lemma tickEntryLimit_tick:
  assumes "oms_wf U m" "oms_change U K m m1" "get_order m1 i = Some r" "K (order_key r)"
  shows "returns (tickEntryLimit L U mark m1 r) (tick_outcome U K m)"
proof (cases "o_Status r = StatusOpen")
  case False
  then show ?thesis using assms(2) by (simp add: tickEntryLimit_def)
next
  case True
  note ok = wf_order_ok [OF change_wf [OF assms(2,1)] assms(3)] and st = stored_self [OF assms(3) True]
  have "returns (bind_outcome (fillLimitEntry L U m1 r mark bps)
             (\<lambda>(m1, r', e). case (e, r') of
                (None, Some r1) \<Rightarrow> Ok (m1, [r1], [])
              | (Some err, _) \<Rightarrow> Ok (m1, [], [err])
              | _ \<Rightarrow> Ok (m1, [], []))) (tick_outcome U K m)" for bps
  proof (cases "0 < o_LimitPrice r")
    case True
    show ?thesis
      by (rule returns_bind [OF fillLimitEntry_change [OF assms(1,2) st assms(4) ok True]])
        (use True ok assms(4) in \<open>auto simp: tick_outcome_def booked_def order_ok_def split: option.splits\<close>)
  next
    case False
    then show ?thesis using fillLimitEntry_nonpos [of r L U m1 mark bps] ok assms(2)
      by (simp add: order_ok_def)
  qed
  then show ?thesis using assms(2) by (simp add: tickEntryLimit_def)
qed

text \<open>A row keeps its strategy, symbol and class.\<close>

lemma change_key:
  "oms_change U K m m1 \<Longrightarrow> oms_wf U m \<Longrightarrow> get_order m i = Some r \<Longrightarrow>
     \<exists>r1. get_order m1 i = Some r1 \<and> order_key r1 = order_key r \<and> o_Class r1 = o_Class r"
proof (induction rule: oms_change.induct)
  case (change_new m1 r1)
  then have "get_order m1 (U (oms_minted m1)) = None" using change_wf oms_wf_def by blast
  with change_new show ?case by (auto simp: get_put_order)
next
  case (change_cancel m1 P)
  then show ?case by (fastforce simp: get_cancel_where)
qed (auto simp: get_put_order)

lemma returns_tick_bind:
  assumes "oms_wf U m" "returns x (tick_outcome U K m)"
    and "\<And>m1. oms_wf U m1 \<Longrightarrow> oms_change U K m m1 \<Longrightarrow> returns (y m1) (tick_outcome U K m1)"
  shows "returns (bind_outcome x (\<lambda>(m1, fs, es). bind_outcome (y m1)
           (\<lambda>(m2, fs', es'). Ok (m2, fs @ fs', es @ es')))) (tick_outcome U K m)"
proof (rule returns_bind [OF assms(2)], clarify)
  fix m1 fs es
  assume "tick_outcome U K m (m1, fs, es)"
  then have c: "oms_change U K m m1" "booked K fs" by (simp_all add: tick_outcome_def)
  have "returns (y m1) (tick_outcome U K m1)" using assms(3) change_wf [OF c(1) assms(1)] c(1) .
  then show "returns (bind_outcome (y m1) (\<lambda>(m2, fs', es'). Ok (m2, fs @ fs', es @ es'))) (tick_outcome U K m)"
    by (rule returns_bind) (use c oms_change_trans in \<open>auto simp: tick_outcome_def\<close>)
qed

definition listed :: "(pkey \<Rightarrow> bool) \<Rightarrow> oclass \<Rightarrow> 'd oms \<Rightarrow> string list \<Rightarrow> bool" where
  "listed K cl m is \<longleftrightarrow> (\<forall>i \<in> set is. \<exists>r. get_order m i = Some r \<and> K (order_key r) \<and> o_Class r = cl)"

lemma listed_change: "oms_change U K m m1 \<Longrightarrow> oms_wf U m \<Longrightarrow> listed K cl m is \<Longrightarrow> listed K cl m1 is"
  using change_key unfolding listed_def by metis

lemma sweep_tick:
  assumes h: "\<And>m i r. oms_wf U m \<Longrightarrow> get_order m i = Some r \<Longrightarrow> K (order_key r) \<Longrightarrow>
      o_Class r = cl \<Longrightarrow> returns (h m r) (tick_outcome U K m)"
  shows "oms_wf U m \<Longrightarrow> listed K cl m is \<Longrightarrow> returns (sweep h m is) (tick_outcome U K m)"
proof (induction "is" arbitrary: m)
  case Nil
  then show ?case by (simp add: change_refl)
next
  case (Cons i "is")
  then obtain r where r: "get_order m i = Some r" "K (order_key r)" "o_Class r = cl"
    by (auto simp: listed_def)
  have rest: "listed K cl m is" using Cons.prems(2) by (simp add: listed_def)
  have "returns (sweep h m1 is) (tick_outcome U K m1)" if "oms_wf U m1" "oms_change U K m m1" for m1
    using Cons.IH [OF that(1)] listed_change [OF that(2) Cons.prems(1) rest] .
  then show ?case
    using r h [OF Cons.prems(1) r] by (auto intro!: returns_tick_bind [OF Cons.prems(1)])
qed

lemma openOrders_listed: "oms_wf U m \<Longrightarrow> K = (\<lambda>k. snd k = sy) \<Longrightarrow> listed K cl m (openOrders m sy cl ty)"
  using get_order_in by (fastforce simp: listed_def openOrders_def oms_wf_def)

lemma tickSymbol_tick:
  assumes "oms_wf U m"
  shows "returns (tickSymbol L U m sy mark) (tick_outcome U (\<lambda>k. snd k = sy) m)"
proof -
  define K :: "pkey \<Rightarrow> bool" where "K = (\<lambda>k. snd k = sy)"
  have one: "returns (sweep h m1 (openOrders m1 sy cl ty)) (\<lambda>(m', fs, es). oms_change U K m m' \<and> oms_wf U m' \<and> booked K fs)"
    if c: "oms_change U K m m1" "oms_wf U m1"
      and h: "\<And>m i r. oms_wf U m \<Longrightarrow> get_order m i = Some r \<Longrightarrow> K (order_key r) \<Longrightarrow> o_Class r = cl \<Longrightarrow>
        returns (h m r) (tick_outcome U K m)"
    for h m1 cl ty
  proof (rule returns_mono [OF sweep_tick [OF h c(2) openOrders_listed [OF c(2) K_def]]], assumption+, clarify)
    fix a b d
    assume "tick_outcome U K m1 (a, b, d)"
    then have t: "oms_change U K m1 a" "booked K b" by (simp_all add: tick_outcome_def)
    then show "oms_change U K m a \<and> oms_wf U a \<and> booked K b"
      using oms_change_trans [OF t(1) c(1)] change_wf [OF t(1) c(2)] by blast
  qed
  note h = tickQueuedExit_tick [OF _ change_refl] tickStop_tick [OF _ change_refl]
    tickTakeProfit_tick [OF _ change_refl] tickEntryLimit_tick [OF _ change_refl]
  show ?thesis
    unfolding tickSymbol_def K_def [symmetric]
    apply (rule returns_bind [OF one [OF change_refl assms h(1)]], assumption+, clarify)
    apply (rule returns_bind [OF one [OF _ _ h(2)]], assumption+, clarify)
    apply (rule returns_bind [OF one [OF _ _ h(3)]], assumption+, clarify)
    apply (rule returns_bind [OF one [OF _ _ h(4)]], assumption+)
    apply (auto simp: tick_outcome_def)
    done
qed

lemma oms_change_mono: "oms_change U K m m' \<Longrightarrow> (\<And>k. K k \<Longrightarrow> K' k) \<Longrightarrow> oms_change U K' m m'"
  by (induction rule: oms_change.induct) (auto intro: oms_change.intros)

lemma tick_outcome_mono: "tick_outcome U K m x \<Longrightarrow> (\<And>k. K k \<Longrightarrow> K' k) \<Longrightarrow> tick_outcome U K' m x"
  by (auto simp: tick_outcome_def booked_def intro: oms_change_mono)

lemma tickSymbols_tick:
  "oms_wf U m \<Longrightarrow> returns (tickSymbols L U m ps) (tick_outcome U (\<lambda>k. snd k \<in> set (map fst ps)) m)"
proof (induction ps arbitrary: m)
  case Nil
  then show ?case by (simp add: change_refl)
next
  case (Cons p ps)
  obtain sy mark where p: "p = (sy, mark)" by (cases p)
  let ?K = "\<lambda>k::pkey. snd k \<in> set (map fst (p # ps))"
  have "returns (tickSymbol L U m sy mark) (tick_outcome U ?K m)"
    by (rule returns_mono [OF tickSymbol_tick [OF Cons.prems]]) (rule tick_outcome_mono, assumption, simp add: p)
  moreover have "returns (tickSymbols L U m1 ps) (tick_outcome U ?K m1)" if "oms_wf U m1" for m1
    by (rule returns_mono [OF Cons.IH [OF that]]) (rule tick_outcome_mono, assumption, simp)
  ultimately show ?case
    unfolding p tickSymbols.simps by (intro returns_tick_bind [OF Cons.prems]) auto
qed

lemma ProcessTick_tick:
  "oms_wf U m \<Longrightarrow> returns (ProcessTick L U m marks)
     (tick_outcome U (\<lambda>k. \<exists>mk. (snd k, mk) \<in> set marks \<and> 0 < mk) m)"
  unfolding ProcessTick_def
  by (rule returns_mono [OF tickSymbols_tick], assumption, erule tick_outcome_mono)
    (auto simp: usable_marks_def)

section \<open>The manager as a machine\<close>

text \<open>The calls a running strategy loop makes. A call that panics has no next state.\<close>

datatype 'd oms_input =
    InSubmit "'d entry_request"
  | InFillLimit string
  | InFlatten string string 'd
  | InKill string int
  | InCancelEntries string
  | InTick "(string \<times> 'd) list"

fun oms_step :: "'d::linordered_field dlib \<Rightarrow> (nat \<Rightarrow> string) \<Rightarrow> 'd oms \<Rightarrow> 'd oms_input \<Rightarrow> 'd oms option" where
  "oms_step L U m (InSubmit rq) = (case SubmitEntry L U m rq of Ok (m', _, _) \<Rightarrow> Some m' | _ \<Rightarrow> None)"
| "oms_step L U m (InFillLimit i) = (case FillLimitEntry L U m i of Ok (m', _, _) \<Rightarrow> Some m' | _ \<Rightarrow> None)"
| "oms_step L U m (InFlatten s sy mark) = (case Flatten L U m s sy mark of Ok (m', _, _) \<Rightarrow> Some m' | _ \<Rightarrow> None)"
| "oms_step L U m (InKill s ep) = Some (Kill s ep m)"
| "oms_step L U m (InCancelEntries s) = Some (CancelOpenEntries s m)"
| "oms_step L U m (InTick marks) = (case ProcessTick L U m marks of Ok (m', _, _) \<Rightarrow> Some m' | _ \<Rightarrow> None)"

definition paper_inv :: "'d::linordered_field dlib \<Rightarrow> (nat \<Rightarrow> string) \<Rightarrow> 'd oms \<Rightarrow> bool" where
  "paper_inv L U m \<longleftrightarrow> div_documented L \<and> round_documented L \<and> oms_wf U m \<and> model_ok m \<and> entries_fenced m"

lemma paper_inv_change: "paper_inv L U m \<Longrightarrow> oms_change U K m m' \<Longrightarrow> paper_inv L U m'"
  using change_wf change_fenced change_fill unfolding paper_inv_def model_ok_def by metis

lemma FillLimitEntry_change:
  assumes "oms_wf U m"
  shows "returns (FillLimitEntry L U m i) (\<lambda>(m', r', e). oms_change U (\<lambda>_. True) m m')"
proof (cases "\<exists>r. get_order m i = Some r \<and> o_Status r = StatusOpen")
  case False
  then show ?thesis by (auto simp: FillLimitEntry_def change_refl split: option.splits)
next
  case True
  then obtain r where r: "get_order m i = Some r" "o_Status r = StatusOpen" by blast
  note ok = wf_order_ok [OF assms r(1)] and st = stored_self [OF r]
  have "returns (fillLimitEntry L U m r mark bps) (\<lambda>(m', r', e). oms_change U (\<lambda>_. True) m m')" for mark bps
  proof (cases "0 < o_LimitPrice r")
    case True
    show ?thesis
      by (rule returns_mono [OF fillLimitEntry_change [OF assms change_refl st _ ok True]]) auto
  next
    case False
    then show ?thesis using fillLimitEntry_nonpos [of r L U m mark bps] ok
      by (simp add: order_ok_def change_refl)
  qed
  with r show ?thesis by (simp add: FillLimitEntry_def change_refl)
qed

lemma KillEpoch_Kill: "KillEpoch (Kill s ep m) s' = (if s' = s then max ep (KillEpoch m s) else KillEpoch m s')"
  by (auto simp: Kill_def CancelOpenEntries_def KillEpoch_def al.get_put max_def)

lemma get_Kill: "get_order (Kill s ep m) i =
    map_option (\<lambda>r. if is_open_entry s r then r\<lparr>o_Status := StatusCanceled\<rparr> else r) (get_order m i)"
  by (simp add: Kill_def CancelOpenEntries_def get_cancel_where)

lemma Kill_fenced: "entries_fenced m \<Longrightarrow> entries_fenced (Kill s ep m)"
  unfolding entries_fenced_def
proof (intro allI impI)
  fix i r
  assume inv: "\<forall>i r. get_order m i = Some r \<longrightarrow> o_Class r = ClassEntry \<longrightarrow> o_Status r = StatusOpen
      \<longrightarrow> KillEpoch m (o_StrategyID r) \<le> o_KillEpoch r"
    and r: "get_order (Kill s ep m) i = Some r" "o_Class r = ClassEntry" "o_Status r = StatusOpen"
  then obtain r0 where r0: "get_order m i = Some r0" "r = (if is_open_entry s r0 then r0\<lparr>o_Status := StatusCanceled\<rparr> else r0)"
    by (auto simp: get_Kill)
  with r(3) have "\<not> is_open_entry s r0" by auto
  with r0(2) r have "r = r0" "o_StrategyID r \<noteq> s" by (auto simp: is_open_entry_def)
  with inv r0(1) r show "KillEpoch (Kill s ep m) (o_StrategyID r) \<le> o_KillEpoch r"
    by (simp add: KillEpoch_Kill)
qed

lemma Kill_inv: "paper_inv L U m \<Longrightarrow> paper_inv L U (Kill s ep m)"
  using Kill_fenced [of m s ep] wf_cancel [of U _ "is_open_entry s"]
  by (auto simp: paper_inv_def Kill_def CancelOpenEntries_def model_ok_def oms_wf_def)

lemma CancelOpenEntries_change: "oms_change U (\<lambda>_. True) m (CancelOpenEntries s m)"
  unfolding CancelOpenEntries_def by (rule change_cancel [OF change_refl]) (simp add: is_open_entry_def)

lemma SubmitEntry_no_return:
  assumes "rq_Type rq = ''market''" "slippedPrice L (oms_fill m) (rq_Side rq) (rq_MarkPrice rq) = 0"
    and "SubmitEntry L U m rq = Ok x"
  shows "\<exists>m' e. x = (m', None, e) \<and> (m' = m \<or> m' = m\<lparr>oms_minted := Suc (oms_minted m)\<rparr>)"
  using assms by (auto simp: SubmitEntry_def mint_def with_qty_def qtyForNotional_def Let_def split: if_splits)

lemma SubmitEntry_change_base:
  assumes "div_documented L" "round_documented L" "oms_wf U m" "model_ok m" "SubmitEntry L U m rq = Ok (m', r', e)"
  shows "oms_change U (\<lambda>_. True) m m'"
proof (cases "rq_Type rq = ''market'' \<and> slippedPrice L (oms_fill m) (rq_Side rq) (rq_MarkPrice rq) = 0")
  case True
  then show ?thesis using SubmitEntry_no_return [OF _ _ assms(5)] by (auto intro: change_refl change_mint)
next
  case False
  with SubmitEntry_outcome [of L U m rq] assms have "entry_outcome U m rq (m', r', e)"
    by simp
  then show ?thesis by (auto simp: entry_outcome_def intro: oms_change_mono)
qed

lemma SubmitEntry_change:
  assumes "paper_inv L U m" "SubmitEntry L U m rq = Ok (m', r', e)"
  shows "oms_change U (\<lambda>_. True) m m'"
  using SubmitEntry_change_base assms by (auto simp: paper_inv_def)

text \<open>Every call but a kill is a sequence of small changes.\<close>

lemma oms_step_change:
  assumes "paper_inv L U m" "oms_step L U m a = Some m'" "\<And>s ep. a \<noteq> InKill s ep"
  shows "oms_change U (\<lambda>_. True) m m'"
proof -
  have wf: "oms_wf U m" using assms(1) by (simp add: paper_inv_def)
  show ?thesis
  proof (cases a)
    case (InSubmit rq)
    with assms(1,2) SubmitEntry_change show ?thesis by (fastforce split: outcome.splits)
  next
    case (InFillLimit i)
    with assms(2) FillLimitEntry_change [OF wf, of L i] show ?thesis by (auto split: outcome.splits)
  next
    case (InFlatten s sy mark)
    with assms(2) flatten_change [OF wf change_refl, of "\<lambda>_. True" s sy L mark] show ?thesis
      by (auto simp: Flatten_def split: outcome.splits)
  next
    case (InKill s ep)
    with assms(3) show ?thesis by blast
  next
    case (InCancelEntries s)
    with assms(2) CancelOpenEntries_change show ?thesis by auto
  next
    case (InTick marks)
    with assms(2) ProcessTick_tick [OF wf, of L marks] show ?thesis
      by (auto simp: tick_outcome_def split: outcome.splits intro: oms_change_mono)
  qed
qed

lemma oms_step_inv:
  assumes "paper_inv L U m" "oms_step L U m a = Some m'"
  shows "paper_inv L U m'" and "KillEpoch m s \<le> KillEpoch m' s"
proof -
  show "paper_inv L U m'"
  proof (cases "\<exists>t ep. a = InKill t ep")
    case True
    with assms Kill_inv show ?thesis by auto
  next
    case False
    then show ?thesis using paper_inv_change [OF assms(1)] oms_step_change [OF assms] by blast
  qed
  show "KillEpoch m s \<le> KillEpoch m' s"
  proof (cases "\<exists>t ep. a = InKill t ep")
    case True
    with assms(2) show ?thesis by (auto simp: KillEpoch_Kill)
  next
    case False
    then have "oms_killEpochs m' = oms_killEpochs m" using oms_step_change [OF assms] change_epoch by blast
    then show ?thesis by (simp add: KillEpoch_def)
  qed
qed

interpretation paper_oms: machine "oms_step L U" "paper_inv L U"
  for L :: "'d::linordered_field dlib" and U
  by unfold_locales (rule oms_step_inv(1))

interpretation paper_epoch: machine "oms_step L U" "\<lambda>m. paper_inv L U m \<and> c \<le> KillEpoch m s"
  for L :: "'d::linordered_field dlib" and U c s
proof unfold_locales
  fix m a t
  assume "paper_inv L U m \<and> c \<le> KillEpoch m s" "oms_step L U m a = Some t"
  then show "paper_inv L U t \<and> c \<le> KillEpoch t s"
    using oms_step_inv(1) oms_step_inv(2) [of L U m a t s] by auto
qed


text \<open>An entry that is no longer open, filled or cancelled, is never touched again by any call.\<close>

lemma oms_step_closed:
  assumes "paper_inv L U m" "oms_step L U m a = Some m'"
    and "get_order m i = Some r" "o_Class r = ClassEntry" "o_Status r \<noteq> StatusOpen"
  shows "get_order m' i = Some r"
proof (cases "\<exists>t ep. a = InKill t ep")
  case True
  with assms show ?thesis by (auto simp: get_Kill is_open_entry_def)
next
  case False
  then show ?thesis
    using change_closed [OF oms_step_change [OF assms(1,2)]] assms by (simp add: paper_inv_def)
qed

interpretation paper_closed: machine "oms_step L U"
    "\<lambda>m. paper_inv L U m \<and> get_order m i = Some r \<and> o_Class r = ClassEntry \<and> o_Status r \<noteq> StatusOpen"
  for L :: "'d::linordered_field dlib" and U i r
proof unfold_locales
  fix m a t
  assume "paper_inv L U m \<and> get_order m i = Some r \<and> o_Class r = ClassEntry \<and> o_Status r \<noteq> StatusOpen"
    and "oms_step L U m a = Some t"
  then show "paper_inv L U t \<and> get_order t i = Some r \<and> o_Class r = ClassEntry \<and> o_Status r \<noteq> StatusOpen"
    using oms_step_inv(1) oms_step_closed by blast
qed

section \<open>What the paper order manager guarantees\<close>

text \<open>the paper book's accounting. Whatever sequence of fills takes a book from flat back to flat,
  the profit it realizes is the exit proceeds less the entry cost and every fee, up to half a unit
  of the eighth decimal per fill and the sixteenth-decimal averaging of the traded quantity: no
  fill books profit out of nothing, and no fee is dropped.\<close>

theorem paper_round_trip:
  assumes "div_documented L" and "round_documented L" and "list_all (\<lambda>f. 0 < bf_qty f) fs"
    and "run (paper_fill L) b fs = Some b'" and "pos_QtyBase b = 0" and "pos_QtyBase b' = 0"
  shows "\<bar>pos_RealizedPnLQuote b' - pos_RealizedPnLQuote b
           - (- sum_list (map (\<lambda>f. signed f * bf_price f + bf_fee f) fs))\<bar>
         \<le> of_nat (length fs) * slack (sum_list (map bf_qty fs))"
  by (rule paper_book.run_round_trip [OF assms])

definition sample_fills :: "rat bfill list" where
  "sample_fills = [\<lparr>bf_buy = True, bf_qty = 2, bf_price = 10, bf_fee = 1/50\<rparr>,
     \<lparr>bf_buy = True, bf_qty = 1, bf_price = 11, bf_fee = 1/90\<rparr>,
     \<lparr>bf_buy = False, bf_qty = 3, bf_price = 12, bf_fee = 1/30\<rparr>]"

definition sample_book :: "rat position" where
  "sample_book = flat_position ''BTC/USDT''"

definition sample_end :: "rat position" where
  "sample_end = the (run (paper_fill rat_lib) sample_book sample_fills)"

theorem paper_round_trip_witness:
  "\<bar>pos_RealizedPnLQuote sample_end - pos_RealizedPnLQuote sample_book
      - (- sum_list (map (\<lambda>f. signed f * bf_price f + bf_fee f) sample_fills))\<bar>
    \<le> of_nat (length sample_fills) * slack (sum_list (map bf_qty sample_fills))"
proof (rule paper_round_trip [OF rat_lib_div rat_lib_round])
  show "run (paper_fill rat_lib) sample_book sample_fills = Some sample_end" by code_simp
  show "list_all (\<lambda>f. 0 < bf_qty f) sample_fills" by code_simp
  show "pos_QtyBase sample_book = 0" by code_simp
  show "pos_QtyBase sample_end = 0" by code_simp
qed

text \<open>C24: an entry never leaves a naked position. When submitting an entry reports a fill, the fill is at
  a positive price, for a notional within the requested size, and either every protective order
  asked for is on the table (open, reduce-only, on the closing side, for the whole filled quantity
  and at the requested price) or the placement error is returned and the position is flat or has an
  open reduce-only market exit for all of it. The books of every other strategy and symbol are
  unchanged.\<close>

theorem SubmitEntry_never_naked:
  assumes "paper_inv L U m" and "SubmitEntry L U m rq = Ok (m', Some r, e)" and "o_Status r = StatusFilled"
  shows "0 < o_QtyBase r \<and> 0 < o_FillPrice r \<and> o_QtyBase r * o_FillPrice r \<le> rq_SizeQuote rq \<and>
    (e = None \<and> protected_by m' r (rq_StopPrice rq) (rq_TakeProfit rq) \<or>
     e = Some ErrProtectivePlacement \<and> exiting m' (rq_StrategyID rq) (rq_Symbol rq)) \<and>
    (\<forall>s sy. (s, sy) \<noteq> (rq_StrategyID rq, rq_Symbol rq) \<longrightarrow> book_of m' s sy = book_of m s sy)"
proof -
  have "\<not> (rq_Type rq = ''market'' \<and> slippedPrice L (oms_fill m) (rq_Side rq) (rq_MarkPrice rq) = 0)"
    using SubmitEntry_no_return [of rq L m U "(m', Some r, e)"] assms(2) by auto
  with SubmitEntry_outcome [of L U m rq] assms have "entry_outcome U m rq (m', Some r, e)"
    by (simp add: paper_inv_def)
  with assms(3) show ?thesis
    by (auto simp: entry_outcome_def guarded_def change_frame_book)
qed

text \<open>protective orders only reduce. Filling a protective order never panics; the position it acts on
  never grows and never changes side; a fill that flattens the position cancels every other
  protective of it, so none can later open a position; and an order whose position is gone, or on
  the other side, is cancelled instead of filled.\<close>

theorem fillProtective_reduce_only:
  assumes "oms_wf U m" and "get_order m i = Some r" and "o_Class r = ClassProtective"
  shows "returns (fillProtective L m r price bps) (\<lambda>(m', fills, errs).
    shrinks (pos_QtyBase (held m (o_StrategyID r) (o_Symbol r))) (pos_QtyBase (held m' (o_StrategyID r) (o_Symbol r))) \<and>
    (fills \<noteq> [] \<longrightarrow> Position m' (o_StrategyID r) (o_Symbol r) = None \<longrightarrow>
       no_open_protectives (o_StrategyID r) (o_Symbol r) m') \<and>
    (\<forall>s sy. (s, sy) \<noteq> order_key r \<longrightarrow> book_of m' s sy = book_of m s sy))"
  by (rule returns_mono [OF fillProtective_change [OF change_refl stored_self [OF assms(2)],
      where K = "(=) (order_key r)" and U = U]])
    (use assms(3) in \<open>auto simp: wf_order_ok [OF assms(1,2)] change_frame_book\<close>)

text \<open>a tick acts only where it has a price. It never panics; every fill it reports is a filled order
  at a positive price for a positive quantity whose symbol has a positive mark; an order or a book
  of any other symbol is left exactly as it was; and the well-formedness of the state is kept.\<close>

theorem ProcessTick_frame:
  assumes "paper_inv L U m"
  shows "returns (ProcessTick L U m marks) (\<lambda>(m', fills, errs).
    paper_inv L U m' \<and>
    (\<forall>f \<in> set fills. o_Status f = StatusFilled \<and> 0 < o_FillPrice f \<and> 0 < o_QtyBase f \<and>
       (\<exists>mk. (o_Symbol f, mk) \<in> set marks \<and> 0 < mk)) \<and>
    (\<forall>sy. (\<forall>mk. (sy, mk) \<in> set marks \<longrightarrow> mk \<le> 0) \<longrightarrow>
       (\<forall>s. book_of m' s sy = book_of m s sy) \<and>
       (\<forall>i r. get_order m i = Some r \<longrightarrow> o_Symbol r = sy \<longrightarrow> get_order m' i = Some r)))"
proof (rule returns_mono [OF ProcessTick_tick [of U m L marks]], goal_cases)
  case 1
  then show ?case using assms by (simp add: paper_inv_def)
next
  case (2 a)
  then obtain m' fs es where a: "a = (m', fs, es)"
    and c: "oms_change U (\<lambda>k. \<exists>mk. (snd k, mk) \<in> set marks \<and> 0 < mk) m m'"
    and b: "booked (\<lambda>k. \<exists>mk. (snd k, mk) \<in> set marks \<and> 0 < mk) fs"
    by (cases a) (auto simp: tick_outcome_def)
  have wf: "oms_wf U m" using assms by (simp add: paper_inv_def)
  have skip: "(\<forall>s. book_of m' s sy = book_of m s sy) \<and>
       (\<forall>i r. get_order m i = Some r \<longrightarrow> o_Symbol r = sy \<longrightarrow> get_order m' i = Some r)"
    if "\<forall>mk. (sy, mk) \<in> set marks \<longrightarrow> mk \<le> 0" for sy
    using that change_frame_book [OF c] change_frame_order [OF c wf] by (fastforce simp: not_le)
  show ?case
    using paper_inv_change [OF assms c] b skip by (auto simp: a booked_def)
qed

text \<open>C37: killing a strategy fences it. From the kill on, through any run of later calls, every entry
  order of the strategy that was open when the kill came stays cancelled, with the row it had and
  no fill; the strategy's epoch stays at least the kill's; it has no open entry order older than
  the kill; and an entry that carries an older epoch is refused without touching the state.\<close>

theorem Kill_fences:
  assumes "paper_inv L U m" and "run (oms_step L U) (Kill s ep m) ins = Some m'"
  shows "(\<forall>i r. get_order m i = Some r \<longrightarrow> is_open_entry s r \<longrightarrow>
       get_order m' i = Some (r\<lparr>o_Status := StatusCanceled\<rparr>)) \<and>
    ep \<le> KillEpoch m' s \<and>
    (\<forall>i r. get_order m' i = Some r \<longrightarrow> is_open_entry s r \<longrightarrow> ep \<le> o_KillEpoch r) \<and>
    (\<forall>rq. rq_StrategyID rq = s \<longrightarrow> rq_KillEpoch rq < ep \<longrightarrow>
       SubmitEntry L U m' rq = Ok (m', None, Some ErrKillEpochStale))"
proof -
  have start: "paper_inv L U (Kill s ep m) \<and> ep \<le> KillEpoch (Kill s ep m) s"
    using Kill_inv [OF assms(1)] by (simp add: KillEpoch_Kill)
  then have i: "paper_inv L U m'" "ep \<le> KillEpoch m' s"
    using paper_epoch.run_inv [OF _ assms(2)] by auto
  then have "entries_fenced m'" by (simp add: paper_inv_def)
  with i(2) have "\<forall>i r. get_order m' i = Some r \<longrightarrow> is_open_entry s r \<longrightarrow> ep \<le> o_KillEpoch r"
    unfolding entries_fenced_def is_open_entry_def by (metis order_trans)
  moreover have "get_order m' i = Some (r\<lparr>o_Status := StatusCanceled\<rparr>)"
    if "get_order m i = Some r" "is_open_entry s r" for i r
  proof -
    have "get_order (Kill s ep m) i = Some (r\<lparr>o_Status := StatusCanceled\<rparr>)" "o_Class r = ClassEntry"
      using that by (simp_all add: get_Kill is_open_entry_def)
    then show ?thesis
      using paper_closed.run_inv [OF _ assms(2), of i "r\<lparr>o_Status := StatusCanceled\<rparr>"] start by simp
  qed
  ultimately show ?thesis using i(2) by (auto simp: SubmitEntry_def)
qed

text \<open>a kill cancels exactly the strategy's open entry orders. Its protective orders keep guarding the
  open positions, no book changes, and no other strategy's order or epoch is touched.\<close>

theorem Kill_only_entries:
  "get_order (Kill s ep m) i = map_option
      (\<lambda>r. if o_StrategyID r = s \<and> o_Class r = ClassEntry \<and> o_Status r = StatusOpen
           then r\<lparr>o_Status := StatusCanceled\<rparr> else r) (get_order m i) \<and>
   oms_positions (Kill s ep m) = oms_positions m \<and>
   KillEpoch (Kill s ep m) s' = (if s' = s then max ep (KillEpoch m s) else KillEpoch m s')"
proof -
  have "oms_positions (Kill s ep m) = oms_positions m" by (simp add: Kill_def CancelOpenEntries_def)
  then show ?thesis by (simp add: get_Kill KillEpoch_Kill is_open_entry_def)
qed

subsection \<open>Witnesses\<close>

lemma inj_sample_ids: "inj sample_ids"
  by (rule injI) (metis sample_ids_def length_replicate nat.inject)

lemma sample_inv: "paper_inv rat_lib sample_ids sample_oms"
  using inj_sample_ids rat_lib_div rat_lib_round
  by (simp add: paper_inv_def oms_wf_def model_ok_def entries_fenced_def sample_oms_def get_order_def)

text \<open>A submission that fills and is protected, and the manager it leaves.\<close>

definition sample_result :: "rat oms \<times> rat order option \<times> paper_error option" where
  "sample_result = (case SubmitEntry rat_lib sample_ids sample_oms sample_rq of
     Ok x \<Rightarrow> x | _ \<Rightarrow> (sample_oms, None, None))"

definition sample_after :: "rat oms" where "sample_after = fst sample_result"
definition sample_order :: "rat order" where
  "sample_order = (case fst (snd sample_result) of Some r \<Rightarrow> r | None \<Rightarrow> blank_order [] [] [] ClassEntry SideBuy [] 0)"

definition sample_ok :: bool where
  "sample_ok = (case SubmitEntry rat_lib sample_ids sample_oms sample_rq of
     Ok (m, Some r, None) \<Rightarrow> o_Status r = StatusFilled | _ \<Rightarrow> False)"

lemma sample_ok: sample_ok
  by code_simp

lemma sample_submitted:
  "SubmitEntry rat_lib sample_ids sample_oms sample_rq = Ok (sample_after, Some sample_order, None)"
  "o_Status sample_order = StatusFilled"
  using sample_ok unfolding sample_ok_def sample_after_def sample_order_def sample_result_def
  by (auto split: outcome.splits option.splits prod.splits)

lemma sample_after_inv: "paper_inv rat_lib sample_ids sample_after"
  using paper_inv_change [OF sample_inv SubmitEntry_change [OF sample_inv sample_submitted(1)]] .

theorem SubmitEntry_never_naked_witness:
  "0 < o_QtyBase sample_order \<and> 0 < o_FillPrice sample_order \<and>
    o_QtyBase sample_order * o_FillPrice sample_order \<le> rq_SizeQuote sample_rq \<and>
    protected_by sample_after sample_order (rq_StopPrice sample_rq) (rq_TakeProfit sample_rq) \<and>
    book_of sample_after ''other'' ''BTC/USDT'' = book_of sample_oms ''other'' ''BTC/USDT''"
  using SubmitEntry_never_naked [OF sample_inv sample_submitted] by (auto simp: sample_rq_def)

definition sample_stop :: "rat order" where
  "sample_stop = (case get_order sample_after (sample_ids 1) of
     Some r \<Rightarrow> r | None \<Rightarrow> blank_order [] [] [] ClassEntry SideBuy [] 0)"

definition sample_stop_ok :: bool where
  "sample_stop_ok = (case get_order sample_after (sample_ids 1) of
     Some r \<Rightarrow> o_Class r = ClassProtective | _ \<Rightarrow> False)"

lemma sample_stop_ok: sample_stop_ok
  by code_simp

lemma sample_stop: "get_order sample_after (sample_ids 1) = Some sample_stop" "o_Class sample_stop = ClassProtective"
  using sample_stop_ok unfolding sample_stop_ok_def sample_stop_def by (auto split: option.splits)

theorem fillProtective_reduce_only_witness:
  "returns (fillProtective rat_lib sample_after sample_stop 90 10) (\<lambda>(m', fills, errs).
    shrinks (pos_QtyBase (held sample_after (o_StrategyID sample_stop) (o_Symbol sample_stop)))
      (pos_QtyBase (held m' (o_StrategyID sample_stop) (o_Symbol sample_stop))) \<and>
    (fills \<noteq> [] \<longrightarrow> Position m' (o_StrategyID sample_stop) (o_Symbol sample_stop) = None \<longrightarrow>
       no_open_protectives (o_StrategyID sample_stop) (o_Symbol sample_stop) m') \<and>
    (\<forall>s sy. (s, sy) \<noteq> order_key sample_stop \<longrightarrow> book_of m' s sy = book_of sample_after s sy))"
  using sample_after_inv sample_stop by (intro fillProtective_reduce_only) (auto simp: paper_inv_def)

definition sample_marks :: "(string \<times> rat) list" where
  "sample_marks = [(''BTC/USDT'', 90), (''ETH/USDT'', 0)]"

theorem ProcessTick_frame_witness:
  "returns (ProcessTick rat_lib sample_ids sample_after sample_marks) (\<lambda>(m', fills, errs).
    paper_inv rat_lib sample_ids m' \<and>
    (\<forall>f \<in> set fills. o_Status f = StatusFilled \<and> 0 < o_FillPrice f \<and> 0 < o_QtyBase f \<and>
       (\<exists>mk. (o_Symbol f, mk) \<in> set sample_marks \<and> 0 < mk)) \<and>
    (\<forall>sy. (\<forall>mk. (sy, mk) \<in> set sample_marks \<longrightarrow> mk \<le> 0) \<longrightarrow>
       (\<forall>s. book_of m' s sy = book_of sample_after s sy) \<and>
       (\<forall>i r. get_order sample_after i = Some r \<longrightarrow> o_Symbol r = sy \<longrightarrow> get_order m' i = Some r)))"
  by (rule ProcessTick_frame [OF sample_after_inv])

text \<open>A resting limit entry, killed; the fill of it is then asked for, twice, and refused.\<close>

definition sample_limit :: "rat entry_request" where
  "sample_limit = sample_rq\<lparr>rq_Type := ''limit'', rq_LimitPrice := 90, rq_KillEpoch := 1\<rparr>"

definition sample_resting :: "rat oms" where
  "sample_resting = (case SubmitEntry rat_lib sample_ids sample_after sample_limit of
     Ok (m, _, _) \<Rightarrow> m | _ \<Rightarrow> sample_oms)"

definition sample_entry :: "rat order" where
  "sample_entry = (case get_order sample_resting (sample_ids 3) of
     Some r \<Rightarrow> r | None \<Rightarrow> blank_order [] [] [] ClassEntry SideBuy [] 0)"

definition sample_calls :: "rat oms_input list" where
  "sample_calls = [InFillLimit (sample_ids 3), InTick [(''BTC/USDT'', 80)], InSubmit sample_rq]"

definition sample_final :: "rat oms" where
  "sample_final = (case run (oms_step rat_lib sample_ids) (Kill ''s'' 3 sample_resting) sample_calls of
     Some m \<Rightarrow> m | None \<Rightarrow> sample_oms)"

definition sample_run_ok :: bool where
  "sample_run_ok = ((case SubmitEntry rat_lib sample_ids sample_after sample_limit of
       Ok (m, Some r, None) \<Rightarrow> True | _ \<Rightarrow> False) \<and>
     (case get_order sample_resting (sample_ids 3) of Some r \<Rightarrow> is_open_entry ''s'' r | None \<Rightarrow> False) \<and>
     (case run (oms_step rat_lib sample_ids) (Kill ''s'' 3 sample_resting) sample_calls of
       Some m \<Rightarrow> True | None \<Rightarrow> False))"

lemma sample_run_ok: sample_run_ok
  by code_simp

lemma sample_resting_inv: "paper_inv rat_lib sample_ids sample_resting"
  using paper_inv_change [OF sample_after_inv SubmitEntry_change [OF sample_after_inv]] sample_run_ok
  unfolding sample_run_ok_def sample_resting_def by (auto split: outcome.splits)

lemma sample_entry: "get_order sample_resting (sample_ids 3) = Some sample_entry" "is_open_entry ''s'' sample_entry"
  using sample_run_ok unfolding sample_run_ok_def sample_entry_def by (auto split: option.splits)

lemma sample_calls_run: "run (oms_step rat_lib sample_ids) (Kill ''s'' 3 sample_resting) sample_calls = Some sample_final"
  using sample_run_ok unfolding sample_run_ok_def sample_final_def by (auto split: option.splits)

theorem Kill_fences_witness:
  "get_order sample_final (sample_ids 3) = Some (sample_entry\<lparr>o_Status := StatusCanceled\<rparr>) \<and>
   3 \<le> KillEpoch sample_final ''s'' \<and>
   SubmitEntry rat_lib sample_ids sample_final (sample_rq\<lparr>rq_KillEpoch := 2\<rparr>)
     = Ok (sample_final, None, Some ErrKillEpochStale)"
  using Kill_fences [OF sample_resting_inv sample_calls_run] sample_entry by (simp add: sample_rq_def)

end
