(* ===== verification/GoTime.thy ===== *)
theory GoTime
  imports Contract
begin

text \<open>
  Rendering instants: the part of Go's \<open>time\<close> package that turns an instant into the civil
  date and the RFC 3339 strings the control plane stores.
\<close>

function int_digits :: "int \<Rightarrow> string" where
  "int_digits n = (if n < 10 then [char_of (48 + n)] else int_digits (n div 10) @ [char_of (48 + n mod 10)])"
  by pat_completeness auto

termination
  by (relation "measure nat") auto

declare int_digits.simps [simp del]

definition pad_int :: "nat \<Rightarrow> int \<Rightarrow> string" where
  "pad_int w x = (let ds = int_digits \<bar>x\<bar>
     in (if x < 0 then ''-'' else []) @ replicate (w - length ds) (CHR ''0'') @ ds)"

text \<open>Civil date (year, month, day) of a day number, counted from 1970-01-01.\<close>

definition civil_of_days :: "int \<Rightarrow> int \<times> int \<times> int" where
  "civil_of_days z =
     (let z = z + 719468; era = z div 146097; doe = z mod 146097;
          yoe = (doe - doe div 1460 + doe div 36524 - doe div 146096) div 365;
          doy = doe - (365 * yoe + yoe div 4 - yoe div 100);
          mp = (5 * doy + 2) div 153;
          d = doy - (153 * mp + 2) div 5 + 1;
          m = (if mp < 10 then mp + 3 else mp - 9);
          y = yoe + era * 400 + (if m \<le> 2 then 1 else 0)
      in (y, m, d))"

text \<open>\<open>t.UTC().Format("2006-01-02")\<close> and \<open>t.UTC().Format("2006-01-02T15:04:05Z")\<close>: sub-second digits
  are cut.\<close>

definition utcDate :: "instant \<Rightarrow> string" where
  "utcDate t = (let (y, m, d) = civil_of_days (t div second div 86400)
     in pad_int 4 y @ ''-'' @ pad_int 2 m @ ''-'' @ pad_int 2 d)"

definition format_seconds :: "instant \<Rightarrow> string" where
  "format_seconds t = (let sod = t div second mod 86400
     in utcDate t @ ''T'' @
         pad_int 2 (sod div 3600) @ '':'' @ pad_int 2 (sod div 60 mod 60) @ '':'' @ pad_int 2 (sod mod 60) @ ''Z'')"

text \<open>In the years 0 to 9999 a date has ten characters.\<close>

definition four_digit_year :: "instant \<Rightarrow> bool" where
  "four_digit_year t \<longleftrightarrow> length (utcDate t) = 10"

lemma take_format_seconds: "four_digit_year t \<Longrightarrow> take 10 (format_seconds t) = utcDate t"
  by (simp add: format_seconds_def four_digit_year_def Let_def)

text \<open>Integers in base ten.\<close>

definition int_string :: "int \<Rightarrow> string" where
  "int_string n = pad_int 0 n"

end
