(* ===== verification/PaperGate.thy ===== *)
theory PaperGate
  imports GoTime Stores Book PaperSafety
begin

text \<open>
  The paper gate (package \<open>internal/papergate\<close>): the replay of a strategy's paper fills into
  closed trades, an equity curve and a drawdown, the five conditions that promotion to live
  needs, and the arena curve that shares the replay.
\<close>

section \<open>The replay\<close>

record 'd pg_fill =
  gf_Symbol :: string
  gf_Side :: string
  gf_ReduceOnly :: bool
  gf_QtyBase :: 'd
  gf_FillPrice :: 'd
  gf_FeeQuote :: 'd
  gf_FillTS :: string

record 'd trade =
  tr_pnl :: 'd
  tr_closingNotional :: 'd

record 'd gate_book =
  gb_qty :: 'd
  gb_avg :: 'd
  gb_pnl :: 'd
  gb_notional :: 'd

definition empty_book :: "'d::linordered_field gate_book" where
  "empty_book = \<lparr>gb_qty = 0, gb_avg = 0, gb_pnl = 0, gb_notional = 0\<rparr>"

record 'd replay_state =
  rs_books :: "(string \<times> 'd gate_book) list"
  rs_trades :: "'d trade list"
  rs_equity :: 'd
  rs_peak :: 'd
  rs_maxDD :: 'd
  rs_curve :: "'d list"        \<comment> \<open>the equities passed to \<open>step\<close>\<close>

definition gate_round8 :: "'d dlib \<Rightarrow> 'd \<Rightarrow> 'd" where
  "gate_round8 L d = dRound L d 8"

text \<open>The quantity a fill moves: a reduce-only fill is cut at the open opposite-side quantity.\<close>

definition fill_sign :: "'d::linordered_field pg_fill \<Rightarrow> 'd" where
  "fill_sign f = (if gf_Side f \<noteq> ''buy'' then - 1 else 1)"

definition clamped_qty :: "'d::linordered_field gate_book \<Rightarrow> 'd pg_fill \<Rightarrow> 'd" where
  "clamped_qty b f =
     (if gf_ReduceOnly f then
        if gb_qty b = 0 \<or> sgn (gb_qty b) = sgn (fill_sign f) then 0
        else min (gf_QtyBase f) \<bar>gb_qty b\<bar>
      else gf_QtyBase f)"

text \<open>One fill on one book: the new book, the realized amount, and the trade it closes.\<close>

definition book_step ::
  "'d::linordered_field dlib \<Rightarrow> 'd gate_book \<Rightarrow> 'd pg_fill \<Rightarrow>
     (unit, 'd gate_book \<times> 'd \<times> 'd trade list) outcome" where
  "book_step L b f =
     (let qty = clamped_qty b f; delta = fill_sign f * qty
      in if gb_qty b = 0 \<or> sgn (gb_qty b) = sgn delta then
           let total = \<bar>gb_qty b\<bar> + qty
           in bind_outcome
                (if total > 0
                 then ddiv L (gb_avg b * \<bar>gb_qty b\<bar> + gf_FillPrice f * qty) total
                 else Ok (gb_avg b))
                (\<lambda>avg. Ok (b\<lparr>gb_avg := avg, gb_qty := gb_qty b + delta, gb_pnl := gb_pnl b - gf_FeeQuote f\<rparr>, 0, []))
         else
           let closed = min qty \<bar>gb_qty b\<bar>;
               gross = gate_round8 L ((gf_FillPrice f - gb_avg b) * closed * sgn (gb_qty b));
               flip = qty > \<bar>gb_qty b\<bar>;
               b1 = b\<lparr>gb_pnl := gb_pnl b + gross - gf_FeeQuote f,
                      gb_notional := gb_notional b + closed * gf_FillPrice f,
                      gb_qty := gb_qty b + delta\<rparr>
           in if gb_qty b1 = 0 \<or> flip
              then Ok (b1\<lparr>gb_pnl := 0, gb_notional := 0, gb_avg := (if flip then gf_FillPrice f else 0)\<rparr>, gross,
                       [\<lparr>tr_pnl = gb_pnl b1, tr_closingNotional = gb_notional b1\<rparr>])
              else Ok (b1, gross, []))"

definition get_book :: "(string \<times> 'd::linordered_field gate_book) list \<Rightarrow> string \<Rightarrow> 'd gate_book" where
  "get_book bs s = (case al_get bs s of None \<Rightarrow> empty_book | Some b \<Rightarrow> b)"

text \<open>One turn of the loop of \<open>walk\<close>.\<close>

definition walk_step ::
  "'d::linordered_field dlib \<Rightarrow> 'd \<Rightarrow> 'd replay_state \<Rightarrow> 'd pg_fill \<Rightarrow> (unit, 'd replay_state) outcome" where
  "walk_step L seed s f =
     bind_outcome (book_step L (get_book (rs_books s) (gf_Symbol f)) f) (\<lambda>(b, gross, closed).
       let equity = rs_equity s + gross - gf_FeeQuote f;
           peak = max (rs_peak s) equity
       in bind_outcome
            (if seed > 0
             then bind_outcome (ddiv L (peak - equity) peak)
                    (\<lambda>q. Ok (if q * 100 > rs_maxDD s then q * 100 else rs_maxDD s))
             else Ok (rs_maxDD s))
            (\<lambda>dd. Ok \<lparr>rs_books = al_put (gf_Symbol f) b (rs_books s), rs_trades = rs_trades s @ closed,
                       rs_equity = equity, rs_peak = peak, rs_maxDD = dd, rs_curve = rs_curve s @ [equity]\<rparr>))"

definition replay_start :: "'d::linordered_field \<Rightarrow> 'd replay_state" where
  "replay_start seed = \<lparr>rs_books = [], rs_trades = [], rs_equity = seed, rs_peak = seed, rs_maxDD = 0,
     rs_curve = []\<rparr>"

fun walk_from :: "'d::linordered_field dlib \<Rightarrow> 'd \<Rightarrow> 'd replay_state \<Rightarrow> 'd pg_fill list \<Rightarrow>
    (unit, 'd replay_state) outcome" where
  "walk_from L seed s [] = Ok s"
| "walk_from L seed s (f # fs) = bind_outcome (walk_step L seed s f) (\<lambda>t. walk_from L seed t fs)"

definition walk :: "'d::linordered_field dlib \<Rightarrow> 'd pg_fill list \<Rightarrow> 'd \<Rightarrow> (unit, 'd replay_state) outcome" where
  "walk L fills seed = walk_from L seed (replay_start seed) fills"

definition replay :: "'d::linordered_field dlib \<Rightarrow> 'd pg_fill list \<Rightarrow> 'd \<Rightarrow> (unit, 'd trade list \<times> 'd) outcome" where
  "replay L fills seed = bind_outcome (walk L fills seed) (\<lambda>s. Ok (rs_trades s, rs_maxDD s))"

section \<open>The conditions\<close>

record 'd gate_input =
  gi_WindowOK :: bool
  gi_WindowStart :: instant
  gi_Now :: instant
  gi_Fills :: "'d pg_fill list"
  gi_LimitsOK :: bool
  gi_NotionalCap :: 'd
  gi_MaxDrawdownPct :: 'd
  gi_Seed :: 'd

datatype cond_name = CondMinDays | CondMinClosedTrades | CondMinAvgNotional | CondMaxDrawdown | CondProfitFactor

record condition =
  c_Name :: cond_name
  c_Passed :: bool
  c_Measured :: string
  c_Required :: string

record report =
  rep_Passed :: bool
  rep_WindowStartedAt :: "string option"
  rep_EvaluatedAt :: string
  rep_Conditions :: "condition list"

definition minWindow :: duration where
  "minWindow = 14 * 24 * 3600 * second"

definition minTrades :: nat where "minTrades = 30"

text \<open>\<open>decimal.NewFromInt\<close> and the decimal constants.\<close>

definition quarter :: "'d::linordered_field" where "quarter = 1 / 4"
definition requiredPF :: "'d::linordered_field" where "requiredPF = 1"

definition formatTime :: "instant \<Rightarrow> string" where
  "formatTime t = format_seconds t"

definition condMinDays :: "'d::linordered_field dlib \<Rightarrow> 'd gate_input \<Rightarrow> (unit, condition) outcome" where
  "condMinDays L inp =
     (let raw = time_sub (gi_Now inp) (gi_WindowStart inp);
          elapsed = (if raw < 0 then 0 else raw)
      in bind_outcome (ddiv L (of_int (elapsed div second)) 86400) (\<lambda>measured.
           Ok \<lparr>c_Name = CondMinDays, c_Passed = elapsed \<ge> minWindow, c_Measured = dString L measured,
               c_Required = ''14''\<rparr>))"

definition condMinClosedTrades :: "'d::linordered_field dlib \<Rightarrow> 'd trade list \<Rightarrow> condition" where
  "condMinClosedTrades L trades =
     \<lparr>c_Name = CondMinClosedTrades, c_Passed = length trades \<ge> minTrades,
      c_Measured = dString L (of_nat (length trades)), c_Required = dString L (of_nat minTrades)\<rparr>"

definition condMinAvgNotional ::
  "'d::linordered_field dlib \<Rightarrow> 'd gate_input \<Rightarrow> 'd trade list \<Rightarrow> (unit, condition) outcome" where
  "condMinAvgNotional L inp trades =
     (let limitsOK = gi_LimitsOK inp \<and> gi_NotionalCap inp > 0;
          req = (if limitsOK then dString L (gi_NotionalCap inp * quarter) else ''0'')
      in if trades = []
         then Ok \<lparr>c_Name = CondMinAvgNotional, c_Passed = False, c_Measured = ''0'', c_Required = req\<rparr>
         else bind_outcome (ddiv L (sum_list (map tr_closingNotional trades)) (of_nat (length trades))) (\<lambda>avg.
           Ok \<lparr>c_Name = CondMinAvgNotional, c_Passed = limitsOK \<and> avg \<ge> gi_NotionalCap inp * quarter,
               c_Measured = dString L avg, c_Required = req\<rparr>))"

definition condMaxDrawdown ::
  "'d::linordered_field dlib \<Rightarrow> 'd gate_input \<Rightarrow> 'd trade list \<Rightarrow> 'd \<Rightarrow> condition" where
  "condMaxDrawdown L inp trades maxDD =
     (let limitsOK = gi_LimitsOK inp \<and> gi_MaxDrawdownPct inp > 0;
          req = (if limitsOK then dString L (gi_MaxDrawdownPct inp) else ''0'')
      in if trades = [] \<or> gi_Seed inp \<le> 0
         then \<lparr>c_Name = CondMaxDrawdown, c_Passed = False, c_Measured = ''0'', c_Required = req\<rparr>
         else \<lparr>c_Name = CondMaxDrawdown, c_Passed = limitsOK \<and> maxDD \<le> gi_MaxDrawdownPct inp,
               c_Measured = dString L maxDD, c_Required = req\<rparr>)"

definition gross_profit :: "'d::linordered_field trade list \<Rightarrow> 'd" where
  "gross_profit trades = sum_list (map tr_pnl (filter (\<lambda>t. tr_pnl t > 0) trades))"

definition gross_loss :: "'d::linordered_field trade list \<Rightarrow> 'd" where
  "gross_loss trades = sum_list (map (\<lambda>t. - tr_pnl t) (filter (\<lambda>t. \<not> tr_pnl t > 0) trades))"

definition condProfitFactor :: "'d::linordered_field dlib \<Rightarrow> 'd trade list \<Rightarrow> (unit, condition) outcome" where
  "condProfitFactor L trades =
     (let req = dString L requiredPF; gp = gross_profit trades; gl = gross_loss trades;
          zero = \<lparr>c_Name = CondProfitFactor, c_Passed = False, c_Measured = ''0'', c_Required = req\<rparr>
      in if trades = [] then Ok zero
         else if gl = 0 \<and> gp > 0 then Ok (zero\<lparr>c_Measured := dString L gp, c_Passed := True\<rparr>)
         else if gl = 0 then Ok zero
         else bind_outcome (ddiv L gp gl) (\<lambda>pf.
           Ok (zero\<lparr>c_Measured := dString L pf, c_Passed := pf \<ge> requiredPF\<rparr>)))"

definition closed_condition :: "cond_name \<Rightarrow> condition" where
  "closed_condition n = \<lparr>c_Name = n, c_Passed = False, c_Measured = ''0'', c_Required = ''0''\<rparr>"

definition gate_Evaluate :: "'d::linordered_field dlib \<Rightarrow> 'd gate_input \<Rightarrow> (unit, report) outcome" where
  "gate_Evaluate L inp =
     (if \<not> gi_WindowOK inp
      then Ok \<lparr>rep_Passed = False, rep_WindowStartedAt = None, rep_EvaluatedAt = formatTime (gi_Now inp),
               rep_Conditions = map closed_condition
                 [CondMinDays, CondMinClosedTrades, CondMinAvgNotional, CondMaxDrawdown, CondProfitFactor]\<rparr>
      else bind_outcome (replay L (gi_Fills inp) (gi_Seed inp)) (\<lambda>(trades, maxDD).
        bind_outcome (condMinDays L inp) (\<lambda>c1.
        bind_outcome (condMinAvgNotional L inp trades) (\<lambda>c3.
        bind_outcome (condProfitFactor L trades) (\<lambda>c5.
          let cs = [c1, condMinClosedTrades L trades, c3, condMaxDrawdown L inp trades maxDD, c5]
          in Ok \<lparr>rep_Passed = list_all c_Passed cs, rep_WindowStartedAt = Some (formatTime (gi_WindowStart inp)),
                 rep_EvaluatedAt = formatTime (gi_Now inp), rep_Conditions = cs\<rparr>)))))"

section \<open>The arena curve\<close>

record 'd curve_point =
  cp_TS :: string
  cp_Equity :: 'd

record 'd curve_stats =
  cs_RealizedPnL :: 'd
  cs_FeesPaid :: 'd
  cs_MaxDrawdownPct :: 'd
  cs_ClosedTrades :: nat
  cs_Wins :: nat
  cs_Losses :: nat
  cs_WinRatePct :: 'd
  cs_ProfitFactor :: "'d option"
  cs_LastFillAt :: string

definition ReplayCurve :: "'d::linordered_field dlib \<Rightarrow> 'd pg_fill list \<Rightarrow> 'd \<Rightarrow>
    (unit, 'd curve_point list \<times> 'd curve_stats) outcome" where
  "ReplayCurve L fills seed =
     bind_outcome (walk L fills seed) (\<lambda>s.
       let curve = map2 (\<lambda>f e. \<lparr>cp_TS = gf_FillTS f, cp_Equity = e\<rparr>) fills (rs_curve s);
           trades = rs_trades s;
           wins = filter (\<lambda>t. tr_pnl t > 0) trades;
           losses = filter (\<lambda>t. tr_pnl t < 0) trades;
           gp = sum_list (map tr_pnl wins);
           gl = sum_list (map (\<lambda>t. - tr_pnl t) losses)
       in bind_outcome
            (if trades = [] then Ok 0
             else bind_outcome (ddiv L (of_nat (length wins)) (of_nat (length trades))) (\<lambda>q. Ok (q * 100)))
            (\<lambda>rate. bind_outcome
              (if gl > 0 then bind_outcome (ddiv L gp gl) (\<lambda>q. Ok (Some q)) else Ok None)
              (\<lambda>pf. Ok (curve,
                 \<lparr>cs_RealizedPnL = (if fills = [] then 0 else cp_Equity (last curve) - seed),
                  cs_FeesPaid = sum_list (map gf_FeeQuote fills),
                  cs_MaxDrawdownPct = rs_maxDD s, cs_ClosedTrades = length trades,
                  cs_Wins = length wins, cs_Losses = length losses, cs_WinRatePct = rate,
                  cs_ProfitFactor = pf, cs_LastFillAt = (if fills = [] then [] else gf_FillTS (last fills))\<rparr>))))"

section \<open>One fill\<close>

definition sum_pnl :: "'d::linordered_field trade list \<Rightarrow> 'd" where
  "sum_pnl ts = sum_list (map tr_pnl ts)"

lemma sum_pnl_simps [simp]: "sum_pnl [] = 0" "sum_pnl (ts @ us) = sum_pnl ts + sum_pnl us"
  "sum_pnl [t] = tr_pnl t"
  by (simp_all add: sum_pnl_def)

text \<open>The step never divides by zero, and what it realizes less the fee goes to the span or to the
  trade that closes it.\<close>

lemma book_step_ok:
  "returns (book_step L b f) (\<lambda>(b', gross, closed).
     gb_qty b' = gb_qty b + fill_sign f * clamped_qty b f \<and>
     gb_pnl b' + sum_pnl closed = gb_pnl b + gross - gf_FeeQuote f)"
  by (auto simp: book_step_def Let_def)

lemma clamped_fits:
  "gf_ReduceOnly f \<Longrightarrow> 0 < gf_QtyBase f \<Longrightarrow> clamped_qty b f = 0 \<or>
     (gb_qty b \<noteq> 0 \<and> sgn (gb_qty b) = - fill_sign f \<and> 0 < clamped_qty b f \<and> clamped_qty b f \<le> \<bar>gb_qty b\<bar>)"
  by (cases "0 < gb_qty b") (auto simp: clamped_qty_def fill_sign_def sgn_if)

lemma reduce_only_shrinks:
  assumes "gf_ReduceOnly f" "0 < gf_QtyBase f"
  shows "shrinks (gb_qty b) (gb_qty b + fill_sign f * clamped_qty b f)"
proof (cases "clamped_qty b f = 0")
  case False
  with clamped_fits [OF assms, of b] have c: "gb_qty b \<noteq> 0" "sgn (gb_qty b) = - fill_sign f"
    "clamped_qty b f = min (gf_QtyBase f) \<bar>gb_qty b\<bar>"
    by (auto simp: clamped_qty_def assms(1) split: if_splits)
  have "fill_sign f = sideSign (closeSide (gb_qty b))"
    using c(1,2) by (cases "0 < gb_qty b") (auto simp: sideSign_def closeSide_def sgn_if)
  with shrinks_clamped [OF c(1) assms(2)] c(3) show ?thesis by simp
qed simp

section \<open>The whole walk\<close>

text \<open>What the walk keeps: the equity is the seed plus every closed trade and every open span, the
  peak is the largest equity so far, and the drawdown is never negative.\<close>

definition book_pnl :: "'d::linordered_field replay_state \<Rightarrow> string \<Rightarrow> 'd" where
  "book_pnl s sy = gb_pnl (get_book (rs_books s) sy)"

definition walk_inv :: "string set \<Rightarrow> 'd::linordered_field \<Rightarrow> 'd replay_state \<Rightarrow> bool" where
  "walk_inv S seed s \<longleftrightarrow> rs_equity s = seed + sum_pnl (rs_trades s) + (\<Sum>sy\<in>S. book_pnl s sy) \<and>
     rs_equity s = last (seed # rs_curve s) \<and> rs_peak s = Max (set (seed # rs_curve s))"

lemma get_book_put: "get_book (al_put s b bs) t = (if t = s then b else get_book bs t)"
  by (simp add: get_book_def al.get_put)

lemma walk_step_ok:
  fixes L :: "'a::linordered_field dlib"
  assumes "walk_inv S seed s" "finite S" "gf_Symbol f \<in> S"
  shows "returns (walk_step L seed s f) (\<lambda>t. walk_inv S seed t \<and>
     (\<exists>b gross closed. book_step L (get_book (rs_books s) (gf_Symbol f)) f = Ok (b, gross, closed) \<and>
        rs_books t = al_put (gf_Symbol f) b (rs_books s) \<and> rs_trades t = rs_trades s @ closed \<and>
        rs_equity t = rs_equity s + gross - gf_FeeQuote f \<and> rs_peak t = max (rs_peak s) (rs_equity t) \<and>
        rs_curve t = rs_curve s @ [rs_equity t] \<and>
        rs_maxDD t = (if seed > 0 then max (rs_maxDD s) (dDiv L (rs_peak t - rs_equity t) (rs_peak t) * 100)
                      else rs_maxDD s)))"
proof -
  obtain b gross closed where b: "book_step L (get_book (rs_books s) (gf_Symbol f)) f = Ok (b, gross, closed)"
    "gb_pnl b + sum_pnl closed = book_pnl s (gf_Symbol f) + gross - gf_FeeQuote f"
    using book_step_ok [of L "get_book (rs_books s) (gf_Symbol f)" f] by (auto simp: returns_iff book_pnl_def)
  define equity where "equity = rs_equity s + gross - gf_FeeQuote f"
  define peak where "peak = max (rs_peak s) equity"
  define dd where "dd = (if seed > 0 then max (rs_maxDD s) (dDiv L (peak - equity) peak * 100) else rs_maxDD s)"
  define t where "t = \<lparr>rs_books = al_put (gf_Symbol f) b (rs_books s), rs_trades = rs_trades s @ closed,
     rs_equity = equity, rs_peak = peak, rs_maxDD = dd, rs_curve = rs_curve s @ [equity]\<rparr>"
  have "seed \<le> rs_peak s" using assms(1) by (simp add: walk_inv_def)
  then have pk: "seed > 0 \<Longrightarrow> peak \<noteq> 0" by (auto simp: peak_def max_def)
  have mx: "(if x > y then x else y) = max y x" for x y :: 'a by (simp add: max_def)
  have step: "walk_step L seed s f = Ok t"
    using b(1) pk unfolding walk_step_def t_def dd_def by (simp add: Let_def mx flip: equity_def peak_def)
  have bp: "book_pnl t = (book_pnl s)(gf_Symbol f := gb_pnl b)"
    by (rule ext) (simp add: book_pnl_def t_def get_book_put)
  have "(\<Sum>sy\<in>S. book_pnl t sy) = (\<Sum>sy\<in>S - {gf_Symbol f}. book_pnl s sy) + gb_pnl b"
    unfolding bp using assms(2,3) by (subst sum.remove [of _ "gf_Symbol f"]) (auto intro!: sum.cong)
  moreover have "(\<Sum>sy\<in>S. book_pnl s sy) = (\<Sum>sy\<in>S - {gf_Symbol f}. book_pnl s sy) + book_pnl s (gf_Symbol f)"
    using assms(2,3) by (subst sum.remove [of _ "gf_Symbol f"]) auto
  moreover have "rs_peak s = Max (insert seed (set (rs_curve s)))" using assms(1) by (simp add: walk_inv_def)
  then have "peak = Max (insert seed (set (rs_curve s @ [equity])))"
    by (simp add: peak_def insert_commute [of seed] max.commute)
  ultimately have "walk_inv S seed t"
    using assms(1) b(2) by (simp add: walk_inv_def t_def equity_def)
  then show ?thesis
    unfolding step using b(1) by (simp add: t_def dd_def peak_def equity_def)
qed

text \<open>The drawdown percentages along an equity curve, against the running peak.\<close>

fun drawdowns :: "'d::linordered_field dlib \<Rightarrow> 'd \<Rightarrow> 'd list \<Rightarrow> 'd list" where
  "drawdowns L peak [] = []"
| "drawdowns L peak (e # es) =
     dDiv L (max peak e - e) (max peak e) * 100 # drawdowns L (max peak e) es"

lemma foldl_max: "foldl max a xs = Max (set (a # xs))" for a :: "'a::linorder"
proof (induction xs rule: rev_induct)
  case (snoc x xs)
  have "Max (insert a (insert x (set xs))) = max x (Max (insert a (set xs)))"
    unfolding insert_commute [of a x] by (intro Max_insert) auto
  with snoc show ?case by (simp add: max.commute)
qed simp

lemma walk_from_ok:
  assumes "finite S"
  shows "walk_inv S seed s \<Longrightarrow> gf_Symbol ` set fs \<subseteq> S \<Longrightarrow>
    returns (walk_from L seed s fs) (\<lambda>t. walk_inv S seed t \<and> (\<exists>es. rs_curve t = rs_curve s @ es \<and>
      length es = length fs \<and>
      rs_maxDD t = (if seed > 0 then foldl max (rs_maxDD s) (drawdowns L (rs_peak s) es) else rs_maxDD s)))"
proof (induction fs arbitrary: s)
  case Nil
  then show ?case by simp
next
  case (Cons f fs)
  show ?case
    unfolding walk_from.simps
  proof (rule returns_bind [OF walk_step_ok [OF Cons.prems(1) assms]], goal_cases)
    case 1
    then show ?case using Cons.prems(2) by simp
  next
    case (2 t)
    have "gf_Symbol ` set fs \<subseteq> S" using Cons.prems(2) by simp
    with 2 have "returns (walk_from L seed t fs) (\<lambda>u. walk_inv S seed u \<and> (\<exists>es. rs_curve u = rs_curve t @ es \<and>
      length es = length fs \<and>
      rs_maxDD u = (if seed > 0 then foldl max (rs_maxDD t) (drawdowns L (rs_peak t) es) else rs_maxDD t)))"
      by (intro Cons.IH) auto
    then show ?case
    proof (rule returns_mono)
      fix u
      assume "walk_inv S seed u \<and> (\<exists>es. rs_curve u = rs_curve t @ es \<and> length es = length fs \<and>
        rs_maxDD u = (if seed > 0 then foldl max (rs_maxDD t) (drawdowns L (rs_peak t) es) else rs_maxDD t))"
      then obtain es where u: "walk_inv S seed u" "rs_curve u = rs_curve t @ es" "length es = length fs"
        "rs_maxDD u = (if seed > 0 then foldl max (rs_maxDD t) (drawdowns L (rs_peak t) es) else rs_maxDD t)"
        by blast
      with 2 have "rs_curve u = rs_curve s @ (rs_equity t # es)" "length (rs_equity t # es) = length (f # fs)"
        "rs_maxDD u = (if seed > 0 then foldl max (rs_maxDD s) (drawdowns L (rs_peak s) (rs_equity t # es))
                       else rs_maxDD s)" by auto
      with u(1) show "walk_inv S seed u \<and> (\<exists>es. rs_curve u = rs_curve s @ es \<and> length es = length (f # fs) \<and>
          rs_maxDD u = (if seed > 0 then foldl max (rs_maxDD s) (drawdowns L (rs_peak s) es) else rs_maxDD s))"
        by blast
    qed
  qed
qed

lemma walk_start_inv: "walk_inv S seed (replay_start seed)"
  by (simp add: walk_inv_def replay_start_def book_pnl_def get_book_def empty_book_def)

lemma walk_ok:
  "returns (walk L fills seed) (\<lambda>s. walk_inv (gf_Symbol ` set fills) seed s \<and> length (rs_curve s) = length fills \<and>
     rs_maxDD s = (if seed > 0 then Max (set (0 # drawdowns L seed (rs_curve s))) else 0))"
  unfolding walk_def
  using walk_from_ok [of "gf_Symbol ` set fills" seed "replay_start seed" fills L]
  by (auto simp: replay_start_def foldl_max walk_start_inv [unfolded replay_start_def] elim!: returns_mono)

text \<open>the replay accounts for every fill. It never panics; it yields one equity sample per fill; the
  final equity is exactly the seed plus the profit of every closed trade plus what the open spans
  have realized so far, so no realized amount and no fee is lost or counted twice; and the reported
  drawdown is the largest fall from the running peak along that curve, in percent.\<close>

theorem walk_accounts:
  "returns (walk L fills seed) (\<lambda>s. length (rs_curve s) = length fills \<and>
     rs_equity s = last (seed # rs_curve s) \<and>
     rs_equity s = seed + sum_pnl (rs_trades s) + (\<Sum>sy\<in>gf_Symbol ` set fills. book_pnl s sy) \<and>
     rs_maxDD s = (if seed > 0 then Max (set (0 # drawdowns L seed (rs_curve s))) else 0))"
  by (rule returns_mono [OF walk_ok]) (auto simp: walk_inv_def)

lemma crossing_iff:
  fixes q d :: "'d::linordered_field"
  assumes "q \<noteq> 0" "sgn q \<noteq> sgn d"
  shows "q + d = 0 \<or> \<bar>q\<bar> < \<bar>d\<bar> \<longleftrightarrow> q + d = 0 \<or> sgn (q + d) = - sgn q"
  using assms by (cases "0 < q"; cases "0 < d"; cases "0 < q + d") (auto simp: sgn_if split: if_splits)

lemma no_crossing:
  fixes q d :: "'d::linordered_field"
  assumes "q \<noteq> 0" "sgn q = sgn d"
  shows "q + d \<noteq> 0 \<and> sgn (q + d) = sgn q"
  using assms by (cases "0 < q"; cases "0 < d") (auto simp: sgn_if split: if_splits)

lemma clamped_abs:
  "0 < gf_QtyBase f \<Longrightarrow> clamped_qty b f = \<bar>fill_sign f * clamped_qty b f\<bar>"
  by (auto simp: clamped_qty_def fill_sign_def abs_mult)

text \<open>one replayed fill on one book. It never panics. A reduce-only fill only shrinks the book, never
  opens or flips it. A trade is closed exactly when the book reaches or crosses zero, and its profit
  is the span's realized amounts net of all its fees, after which the span starts afresh.\<close>

theorem book_step_spans:
  assumes "0 < gf_QtyBase f"
  shows "returns (book_step L b f) (\<lambda>(b', gross, closed).
     (gf_ReduceOnly f \<longrightarrow> shrinks (gb_qty b) (gb_qty b')) \<and>
     (closed \<noteq> [] \<longleftrightarrow> gb_qty b \<noteq> 0 \<and> (gb_qty b' = 0 \<or> sgn (gb_qty b') = - sgn (gb_qty b))) \<and>
     (closed \<noteq> [] \<longrightarrow> gb_pnl b' = 0 \<and> gb_notional b' = 0 \<and>
        map tr_pnl closed = [gb_pnl b + gross - gf_FeeQuote f]) \<and>
     (closed = [] \<longrightarrow> gb_pnl b' = gb_pnl b + gross - gf_FeeQuote f))"
proof -
  define d where "d = fill_sign f * clamped_qty b f"
  have y: "clamped_qty b f = \<bar>d\<bar>" unfolding d_def by (rule clamped_abs [OF assms])
  have fd: "fill_sign f * \<bar>d\<bar> = d" by (subst y [symmetric]) (simp add: d_def)
  have ro: "gf_ReduceOnly f \<Longrightarrow> shrinks (gb_qty b) (gb_qty b + d)"
    unfolding d_def using assms by (intro reduce_only_shrinks)
  show ?thesis
  proof (cases "gb_qty b = 0 \<or> sgn (gb_qty b) = sgn d")
    case True
    have "gb_qty b + d \<noteq> 0 \<and> sgn (gb_qty b + d) \<noteq> - sgn (gb_qty b)" if "gb_qty b \<noteq> 0"
      using no_crossing [of "gb_qty b" d] True that by (simp add: sgn_if split: if_splits)
    with True ro show ?thesis
      by (auto simp: book_step_def Let_def d_def [symmetric])
  next
    case False
    then have c: "gb_qty b + d = 0 \<or> \<bar>gb_qty b\<bar> < \<bar>d\<bar> \<longleftrightarrow>
        gb_qty b + d = 0 \<or> sgn (gb_qty b + d) = - sgn (gb_qty b)"
      by (intro crossing_iff) auto
    define gross where "gross = gate_round8 L ((gf_FillPrice f - gb_avg b) * min \<bar>d\<bar> \<bar>gb_qty b\<bar> * sgn (gb_qty b))"
    have nz: "gb_qty b \<noteq> 0" using False by simp
    show ?thesis
    proof (cases "gb_qty b + d = 0 \<or> \<bar>gb_qty b\<bar> < \<bar>d\<bar>")
      case True
      then have "\<exists>b' t. book_step L b f = Ok (b', gross, [t]) \<and> gb_qty b' = gb_qty b + d \<and> gb_pnl b' = 0 \<and>
          gb_notional b' = 0 \<and> tr_pnl t = gb_pnl b + gross - gf_FeeQuote f"
        using False by (simp add: book_step_def Let_def y fd gross_def)
      with ro c True nz show ?thesis by auto
    next
      case no: False
      then have "\<exists>b'. book_step L b f = Ok (b', gross, []) \<and> gb_qty b' = gb_qty b + d \<and>
          gb_pnl b' = gb_pnl b + gross - gf_FeeQuote f"
        using False by (simp add: book_step_def Let_def y fd gross_def)
      with ro c no nz show ?thesis by auto
    qed
  qed
qed

section \<open>The report\<close>

text \<open>C17: the paper gate passes exactly on its five conditions. The evaluation always returns a report,
  whatever the fills, limits and seed; the report passes exactly when the window is open, at least
  fourteen days have elapsed on the clock, at least thirty trades closed, the limits are present
  and positive, the average closing notional reaches a quarter of the cap, the seed is positive
  and the drawdown is within its limit, and the closed trades have profits with no loss or a
  profit factor of at least one. A closed window or missing limits can never pass.\<close>

theorem gate_Evaluate_passed_iff:
  "returns (gate_Evaluate L inp) (\<lambda>rep. map c_Name (rep_Conditions rep) =
       [CondMinDays, CondMinClosedTrades, CondMinAvgNotional, CondMaxDrawdown, CondProfitFactor] \<and>
     (rep_Passed rep \<longleftrightarrow> gi_WindowOK inp \<and> minWindow \<le> time_sub (gi_Now inp) (gi_WindowStart inp) \<and>
       gi_LimitsOK inp \<and> 0 < gi_NotionalCap inp \<and> 0 < gi_MaxDrawdownPct inp \<and> 0 < gi_Seed inp \<and>
       returns (replay L (gi_Fills inp) (gi_Seed inp)) (\<lambda>(trades, maxDD).
         30 \<le> length trades \<and> maxDD \<le> gi_MaxDrawdownPct inp \<and>
         gi_NotionalCap inp / 4 \<le> dDiv L (sum_list (map tr_closingNotional trades)) (of_nat (length trades)) \<and>
         (if gross_loss trades = 0 then 0 < gross_profit trades
          else 1 \<le> dDiv L (gross_profit trades) (gross_loss trades)))))"
proof (cases "gi_WindowOK inp")
  case False
  then show ?thesis by (simp add: gate_Evaluate_def closed_condition_def)
next
  case True
  obtain s where s: "walk L (gi_Fills inp) (gi_Seed inp) = Ok s"
    using walk_ok [of L "gi_Fills inp" "gi_Seed inp"] by (auto simp: returns_iff)
  define trades where "trades = rs_trades s"
  have days: "condMinDays L inp = Ok \<lparr>c_Name = CondMinDays,
      c_Passed = (minWindow \<le> time_sub (gi_Now inp) (gi_WindowStart inp)),
      c_Measured = dString L (dDiv L (of_int ((if time_sub (gi_Now inp) (gi_WindowStart inp) < 0 then 0
         else time_sub (gi_Now inp) (gi_WindowStart inp)) div second)) 86400), c_Required = ''14''\<rparr>"
    by (simp add: condMinDays_def minWindow_def second_def Let_def)
  have notional: "returns (condMinAvgNotional L inp trades) (\<lambda>c. c_Name c = CondMinAvgNotional \<and>
      (c_Passed c \<longleftrightarrow> trades \<noteq> [] \<and> gi_LimitsOK inp \<and> 0 < gi_NotionalCap inp \<and> gi_NotionalCap inp / 4 \<le>
         dDiv L (sum_list (map tr_closingNotional trades)) (of_nat (length trades))))"
    by (simp add: condMinAvgNotional_def Let_def quarter_def)
  have profit: "returns (condProfitFactor L trades) (\<lambda>c. c_Name c = CondProfitFactor \<and>
      (c_Passed c \<longleftrightarrow> trades \<noteq> [] \<and> (if gross_loss trades = 0 then 0 < gross_profit trades
          else 1 \<le> dDiv L (gross_profit trades) (gross_loss trades))))"
    by (simp add: condProfitFactor_def Let_def requiredPF_def)
  from notional profit obtain c3 c5 where c: "condMinAvgNotional L inp trades = Ok c3" "condProfitFactor L trades = Ok c5"
    "c_Name c3 = CondMinAvgNotional" "c_Name c5 = CondProfitFactor"
    "c_Passed c3 \<longleftrightarrow> trades \<noteq> [] \<and> gi_LimitsOK inp \<and> 0 < gi_NotionalCap inp \<and> gi_NotionalCap inp / 4 \<le>
         dDiv L (sum_list (map tr_closingNotional trades)) (of_nat (length trades))"
    "c_Passed c5 \<longleftrightarrow> trades \<noteq> [] \<and> (if gross_loss trades = 0 then 0 < gross_profit trades
          else 1 \<le> dDiv L (gross_profit trades) (gross_loss trades))"
    by (auto simp: returns_iff)
  have dd: "c_Name (condMaxDrawdown L inp trades (rs_maxDD s)) = CondMaxDrawdown"
    "c_Passed (condMaxDrawdown L inp trades (rs_maxDD s)) \<longleftrightarrow> trades \<noteq> [] \<and> 0 < gi_Seed inp \<and> gi_LimitsOK inp \<and>
       0 < gi_MaxDrawdownPct inp \<and> rs_maxDD s \<le> gi_MaxDrawdownPct inp"
    by (auto simp: condMaxDrawdown_def Let_def)
  have ct: "c_Name (condMinClosedTrades L trades) = CondMinClosedTrades"
    "c_Passed (condMinClosedTrades L trades) \<longleftrightarrow> 30 \<le> length trades"
    by (simp_all add: condMinClosedTrades_def minTrades_def)
  show ?thesis
    using True s c(1-4) days dd(1) ct(1)
    by (auto simp: gate_Evaluate_def replay_def trades_def [symmetric] c(5,6) dd(2) ct(2))
qed

text \<open>the arena curve and the gate cannot disagree. On the same fills and seed the curve statistics
  report the gate's own closed trades and drawdown, one point per fill stamped with the fill's
  time, a realized profit that is the final equity less the seed, the sum of all fees, and wins and
  losses that partition the trades that are not flat; computing them never panics.\<close>

theorem ReplayCurve_agrees:
  "returns (ReplayCurve L fills seed) (\<lambda>(curve, st). returns (replay L fills seed) (\<lambda>(trades, maxDD).
     cs_MaxDrawdownPct st = maxDD \<and> cs_ClosedTrades st = length trades \<and>
     map cp_TS curve = map gf_FillTS fills \<and> length curve = length fills \<and>
     seed + cs_RealizedPnL st = last (seed # map cp_Equity curve) \<and>
     cs_FeesPaid st = sum_list (map gf_FeeQuote fills) \<and>
     cs_Wins st + cs_Losses st + length (filter (\<lambda>t. tr_pnl t = 0) trades) = cs_ClosedTrades st))"
proof -
  obtain s where s: "walk L fills seed = Ok s" "length (rs_curve s) = length fills"
    using walk_ok [of L fills seed] by (auto simp: returns_iff)
  define curve where "curve = map2 (\<lambda>f e. \<lparr>cp_TS = gf_FillTS f, cp_Equity = e\<rparr>) fills (rs_curve s)"
  have m: "map cp_TS curve = map gf_FillTS fills" "map cp_Equity curve = rs_curve s" "length curve = length fills"
    using s(2) by (auto simp: curve_def map2_map_map intro: nth_equalityI)
  have parts: "length (filter (\<lambda>t. 0 < tr_pnl t) ts) + length (filter (\<lambda>t. tr_pnl t < 0) ts) +
      length (filter (\<lambda>t. tr_pnl t = 0) ts) = length ts" for ts :: "'a trade list"
    by (induction ts) auto
  have last: "fills \<noteq> [] \<Longrightarrow> cp_Equity (last curve) = last (rs_curve s)"
    using m by (metis last_map length_0_conv)
  have "fills = [] \<longleftrightarrow> rs_curve s = []" using s(2) by auto
  then show ?thesis
    using s m parts [of "rs_trades s"] last
    by (auto simp: ReplayCurve_def replay_def Let_def curve_def [symmetric])
qed

section \<open>The replay follows the paper order manager\<close>

text \<open>The order manager booking the same fills, for one strategy. A reduce-only fill it booked is on
  the side that closes the position and no larger than it; a fill that is not is refused here.\<close>

definition paper_side :: "'d pg_fill \<Rightarrow> side" where
  "paper_side f = (if gf_Side f \<noteq> ''buy'' then SideSell else SideBuy)"

definition fits :: "'d::linordered_field \<Rightarrow> 'd pg_fill \<Rightarrow> bool" where
  "fits q f \<longleftrightarrow> 0 < gf_QtyBase f \<and>
     (gf_ReduceOnly f \<longrightarrow> q \<noteq> 0 \<and> closeSide q = paper_side f \<and> gf_QtyBase f \<le> \<bar>q\<bar>)"

definition book_paper :: "'d::linordered_field dlib \<Rightarrow> string \<Rightarrow> 'd oms \<Rightarrow> 'd pg_fill \<Rightarrow> 'd oms option" where
  "book_paper L sid m f =
     (if fits (pos_QtyBase (held m sid (gf_Symbol f))) f then
        case applyFill L m sid (gf_Symbol f) (paper_side f) (gf_QtyBase f) (gf_FillPrice f) (gf_FeeQuote f) of
          Ok m' \<Rightarrow> Some m' | _ \<Rightarrow> None
      else None)"

text \<open>The simulation: quantity and average agree in every book, and the equity is the seed plus what
  the order manager has realized since the start.\<close>

definition tracks :: "string \<Rightarrow> string set \<Rightarrow> 'd::linordered_field oms \<Rightarrow> 'd \<Rightarrow> 'd oms \<Rightarrow> 'd replay_state \<Rightarrow> bool" where
  "tracks sid S m0 seed m s \<longleftrightarrow>
     (\<forall>sy. gb_qty (get_book (rs_books s) sy) = pos_QtyBase (held m sid sy) \<and>
           gb_avg (get_book (rs_books s) sy) = pos_EntryPrice (held m sid sy)) \<and>
     rs_equity s = seed + (\<Sum>sy\<in>S. RealizedPnL m sid sy - RealizedPnL m0 sid sy)"

lemma RealizedPnL_held: "RealizedPnL m s sy = pos_RealizedPnLQuote (held m s sy)"
  by (auto simp: RealizedPnL_def held_def flat_position_def split: option.splits)

lemma fits_clamped: "fits (gb_qty b) f \<Longrightarrow> clamped_qty b f = gf_QtyBase f"
  by (cases "0 < gb_qty b")
    (auto simp: fits_def clamped_qty_def fill_sign_def closeSide_def paper_side_def sgn_if split: if_splits)

lemma fill_sign_side: "fill_sign f = (sideSign (paper_side f) :: 'd::linordered_field)"
  by (simp add: fill_sign_def paper_side_def sideSign_def)

lemma book_step_matches:
  assumes "fits (gb_qty b) f" "gb_qty b = pos_QtyBase p" "gb_avg b = pos_EntryPrice p"
    and "fill_position L p (paper_side f) (gf_QtyBase f) (gf_FillPrice f) (gf_FeeQuote f) = Ok p'"
  shows "\<exists>b' gross closed. book_step L b f = Ok (b', gross, closed) \<and> gb_qty b' = pos_QtyBase p' \<and>
     gb_avg b' = pos_EntryPrice p' \<and>
     pos_RealizedPnLQuote p' = pos_RealizedPnLQuote p + gross - gf_FeeQuote f"
proof -
  define y where "y = gf_QtyBase f"
  define d where "d = sideSign (paper_side f) * y"
  have y: "0 < y" "clamped_qty b f = y" using assms(1) fits_clamped by (auto simp: fits_def y_def)
  have fd: "fill_sign f * y = d" by (simp add: d_def fill_sign_side)
  have ad: "\<bar>d\<bar> = y" using y(1) by (simp add: d_def sideSign_def)
  show ?thesis
  proof (cases "gb_qty b = 0 \<or> sgn (gb_qty b) = sgn d")
    case True
    have "gb_qty b + d \<noteq> 0"
      using True y(1) ad no_crossing [of "gb_qty b" d] by (cases "gb_qty b = 0") auto
    moreover have "0 < \<bar>pos_QtyBase p\<bar> + y" using y(1) by linarith
    ultimately show ?thesis
      using True assms(2-4)
      by (auto simp: book_step_def fill_position_def Let_def y(2) fd y_def [symmetric] d_def [symmetric])
  next
    case False
    show ?thesis
    proof (cases "y > \<bar>gb_qty b\<bar>")
      case True
      then have "gb_qty b + d \<noteq> 0" using ad by (auto simp: add_eq_0_iff)
      then show ?thesis
        using False True assms(2-4)
        by (auto simp: book_step_def fill_position_def Let_def y(2) fd y_def [symmetric] d_def [symmetric]
            round8_def gate_round8_def)
    next
      case le: False
      then show ?thesis
        using False assms(2-4)
        by (auto simp: book_step_def fill_position_def Let_def y(2) fd y_def [symmetric] d_def [symmetric]
            round8_def gate_round8_def)
    qed
  qed
qed

lemma book_paper_tracks:
  assumes "walk_inv S seed s" "finite S" "gf_Symbol f \<in> S" "tracks sid S m0 seed m s" "book_paper L sid m f = Some m'"
  shows "\<exists>t. walk_step L seed s f = Ok t \<and> walk_inv S seed t \<and> tracks sid S m0 seed m' t"
proof -
  define sy where "sy = gf_Symbol f"
  from assms(5) obtain p' where p': "fits (pos_QtyBase (held m sid sy)) f"
    "fill_position L (held m sid sy) (paper_side f) (gf_QtyBase f) (gf_FillPrice f) (gf_FeeQuote f) = Ok p'"
    "m' = m\<lparr>oms_positions := al_put (sid, sy) p' (oms_positions m)\<rparr>"
    by (auto simp: book_paper_def applyFill_def sy_def bind_outcome_eq_Ok split: if_splits outcome.splits)
  have b: "gb_qty (get_book (rs_books s) sy) = pos_QtyBase (held m sid sy)"
    "gb_avg (get_book (rs_books s) sy) = pos_EntryPrice (held m sid sy)"
    using assms(4) by (simp_all add: tracks_def)
  obtain b' gross closed where st: "book_step L (get_book (rs_books s) sy) f = Ok (b', gross, closed)"
    "gb_qty b' = pos_QtyBase p'" "gb_avg b' = pos_EntryPrice p'"
    "pos_RealizedPnLQuote p' = pos_RealizedPnLQuote (held m sid sy) + gross - gf_FeeQuote f"
    using book_step_matches [OF _ b p'(2)] p'(1) b(1) by auto
  from walk_step_ok [OF assms(1-3), of L] obtain t where t: "walk_step L seed s f = Ok t" "walk_inv S seed t"
    "rs_books t = al_put sy b' (rs_books s)" "rs_equity t = rs_equity s + gross - gf_FeeQuote f"
    using st(1) by (auto simp: returns_iff sy_def)
  have held': "held m' sid sy' = (if sy' = sy then p' else held m sid sy')" for sy'
    by (simp add: p'(3) held_def book_of_def al.get_put)
  have "(\<Sum>x\<in>S. RealizedPnL m' sid x - RealizedPnL m0 sid x) =
      (\<Sum>x\<in>S. RealizedPnL m sid x - RealizedPnL m0 sid x) + gross - gf_FeeQuote f"
  proof -
    have "(\<Sum>x\<in>S. RealizedPnL m' sid x - RealizedPnL m0 sid x)
        = (\<Sum>x\<in>S. (RealizedPnL m sid x - RealizedPnL m0 sid x) + (if x = sy then gross - gf_FeeQuote f else 0))"
      by (intro sum.cong) (auto simp: RealizedPnL_held held' st(4))
    also have "\<dots> = (\<Sum>x\<in>S. RealizedPnL m sid x - RealizedPnL m0 sid x) + (gross - gf_FeeQuote f)"
      using assms(2,3) by (simp add: sum.distrib sy_def)
    finally show ?thesis by simp
  qed
  then have "tracks sid S m0 seed m' t"
    using assms(4) by (simp add: tracks_def t(3,4) get_book_put held' st(2,3))
  with t(1,2) show ?thesis by blast
qed

lemma book_paper_run_tracks:
  "walk_inv S seed s \<Longrightarrow> finite S \<Longrightarrow> gf_Symbol ` set fs \<subseteq> S \<Longrightarrow> tracks sid S m0 seed m s \<Longrightarrow>
     run (book_paper L sid) m fs = Some m' \<Longrightarrow>
     \<exists>t. walk_from L seed s fs = Ok t \<and> tracks sid S m0 seed m' t"
proof (induction fs arbitrary: m s)
  case (Cons f fs)
  then obtain m1 where m1: "book_paper L sid m f = Some m1" "run (book_paper L sid) m1 fs = Some m'"
    by (auto split: option.splits)
  from Cons.prems(3) have "gf_Symbol f \<in> S" by simp
  from book_paper_tracks [OF Cons.prems(1,2) this Cons.prems(4) m1(1)] obtain t where
    "walk_step L seed s f = Ok t" "walk_inv S seed t" "tracks sid S m0 seed m1 t" by blast
  with Cons.IH [of t m1] Cons.prems(2,3) m1(2) show ?case by auto
qed auto

text \<open>C34: the gate sees what the order manager booked. If the paper order manager, flat at the window's
  start, books a strategy's fills (each of positive quantity, reduce-only ones on the closing side
  and within the position), then the gate's replay of those fills ends with the same signed
  quantity and average entry price for every symbol, and its final equity is the seed plus exactly
  the profit the order manager realized over the window.\<close>

theorem replay_tracks_paper_oms:
  assumes "run (book_paper L sid) m0 fills = Some m"
    and "\<forall>sy. pos_QtyBase (held m0 sid sy) = 0 \<and> pos_EntryPrice (held m0 sid sy) = 0"
  shows "returns (walk L fills seed) (\<lambda>s.
     (\<forall>sy. gb_qty (get_book (rs_books s) sy) = pos_QtyBase (held m sid sy) \<and>
           gb_avg (get_book (rs_books s) sy) = pos_EntryPrice (held m sid sy)) \<and>
     rs_equity s = seed + (\<Sum>sy\<in>gf_Symbol ` set fills. RealizedPnL m sid sy - RealizedPnL m0 sid sy))"
proof -
  define S where "S = gf_Symbol ` set fills"
  have "tracks sid S m0 seed m0 (replay_start seed)"
    using assms(2) by (simp add: tracks_def replay_start_def get_book_def empty_book_def)
  with book_paper_run_tracks [OF walk_start_inv _ _ this assms(1)] show ?thesis
    by (auto simp: walk_def S_def tracks_def returns_iff)
qed

section \<open>The replayed book as a position book\<close>

definition of_bfill :: "'d bfill \<Rightarrow> 'd pg_fill" where
  "of_bfill f = \<lparr>gf_Symbol = [], gf_Side = (if bf_buy f then ''buy'' else ''sell''), gf_ReduceOnly = False,
     gf_QtyBase = bf_qty f, gf_FillPrice = bf_price f, gf_FeeQuote = bf_fee f, gf_FillTS = []\<rparr>"

text \<open>A book together with the profit booked on it so far, over all its spans.\<close>

definition gate_fill :: "'d::linordered_field dlib \<Rightarrow> 'd gate_book \<times> 'd \<Rightarrow> 'd bfill \<Rightarrow> ('d gate_book \<times> 'd) option" where
  "gate_fill L bc f = (case book_step L (fst bc) (of_bfill f) of
     Ok (b', gross, _) \<Rightarrow> Some (b', snd bc + gross - bf_fee f) | _ \<Rightarrow> None)"

definition as_position :: "'d::linordered_field gate_book \<times> 'd \<Rightarrow> 'd position" where
  "as_position bc = \<lparr>pos_Symbol = [], pos_QtyBase = gb_qty (fst bc), pos_EntryPrice = gb_avg (fst bc),
     pos_FeesQuote = 0, pos_RealizedPnLQuote = snd bc\<rparr>"

lemma gate_fill_paper:
  assumes "0 < bf_qty f" "gate_fill L bc f = Some bc'"
  shows "\<exists>p'. paper_fill L (as_position bc) f = Some p' \<and> gb_qty (fst bc') = pos_QtyBase p' \<and>
     gb_avg (fst bc') = pos_EntryPrice p' \<and> snd bc' = pos_RealizedPnLQuote p'"
proof -
  have "0 < gf_QtyBase (of_bfill f)" using assms(1) by (simp add: of_bfill_def)
  then obtain p' where p': "fill_position L (as_position bc) (paper_side (of_bfill f)) (gf_QtyBase (of_bfill f))
      (gf_FillPrice (of_bfill f)) (gf_FeeQuote (of_bfill f)) = Ok p'"
    using fill_position_no_panic by blast
  have fit: "fits (gb_qty (fst bc)) (of_bfill f)" using assms(1) by (simp add: fits_def of_bfill_def)
  have q: "gb_qty (fst bc) = pos_QtyBase (as_position bc)" "gb_avg (fst bc) = pos_EntryPrice (as_position bc)"
    and fee: "gf_FeeQuote (of_bfill f) = bf_fee f" "pos_RealizedPnLQuote (as_position bc) = snd bc"
    by (simp_all add: as_position_def of_bfill_def)
  from book_step_matches [OF fit q p', unfolded fee] obtain b' gross closed where
    st: "book_step L (fst bc) (of_bfill f) = Ok (b', gross, closed)" "gb_qty b' = pos_QtyBase p'"
      "gb_avg b' = pos_EntryPrice p'" "pos_RealizedPnLQuote p' = snd bc + gross - bf_fee f" by blast
  have "bc' = (b', snd bc + gross - bf_fee f)" using assms(2) st(1) by (simp add: gate_fill_def)
  moreover have "paper_fill L (as_position bc) f = Some p'"
    using p' by (cases "bf_buy f") (simp_all add: paper_fill_def of_bfill_def paper_side_def)
  ultimately show ?thesis using st(2-4) by simp
qed

interpretation gate_books: book_accounting "\<lambda>bc. gb_qty (fst bc)" "\<lambda>bc. gb_avg (fst bc)" snd gate_fill
proof unfold_locales
  fix L :: "'a dlib" and b f b'
  assume "0 < bf_qty f" "gate_fill L b f = Some b'"
  then show "gb_qty (fst b') = gb_qty (fst b) + signed f"
    using gate_fill_paper paper_fill_qty by (fastforce simp: as_position_def)
next
  fix L :: "'a dlib" and b f b' m
  assume a: "div_documented L" "round_documented L" "0 < bf_qty f" "gate_fill L b f = Some b'"
  from gate_fill_paper [OF a(3,4)] obtain p' where p': "paper_fill L (as_position b) f = Some p'"
    "gb_qty (fst b') = pos_QtyBase p'" "gb_avg (fst b') = pos_EntryPrice p'" "snd b' = pos_RealizedPnLQuote p'" by blast
  from paper_fill_value [OF a(1-3) p'(1), of m]
  show "\<bar>snd b' + gb_qty (fst b') * (m - gb_avg (fst b')) - (snd b + gb_qty (fst b) * (m - gb_avg (fst b))) - flow m f\<bar>
      \<le> slack (\<bar>gb_qty (fst b)\<bar> + bf_qty f)"
    by (simp add: p'(2-4) as_position_def)
qed

subsection \<open>Witnesses\<close>

definition sample_pg :: "bool \<Rightarrow> rat \<Rightarrow> rat \<Rightarrow> rat pg_fill" where
  "sample_pg buy qty price = \<lparr>gf_Symbol = ''BTC/USDT'', gf_Side = (if buy then ''buy'' else ''sell''),
     gf_ReduceOnly = (\<not> buy), gf_QtyBase = qty, gf_FillPrice = price, gf_FeeQuote = 1/100, gf_FillTS = ''t''\<rparr>"

definition sample_window :: "rat pg_fill list" where
  "sample_window = [sample_pg True 2 10, sample_pg False 1 12, sample_pg True 1 11, sample_pg False 2 9]"

theorem book_step_spans_witness:
  "returns (book_step rat_lib \<lparr>gb_qty = 2, gb_avg = 10, gb_pnl = 1, gb_notional = 0\<rparr> (sample_pg False 3 12)) (\<lambda>(b', gross, closed).
     (gf_ReduceOnly (sample_pg False 3 12) \<longrightarrow> shrinks (2::rat) (gb_qty b')) \<and>
     (closed \<noteq> [] \<longleftrightarrow> (2::rat) \<noteq> 0 \<and> (gb_qty b' = 0 \<or> sgn (gb_qty b') = - sgn 2)) \<and>
     (closed \<noteq> [] \<longrightarrow> gb_pnl b' = 0 \<and> gb_notional b' = 0 \<and>
        map tr_pnl closed = [1 + gross - gf_FeeQuote (sample_pg False 3 12)]) \<and>
     (closed = [] \<longrightarrow> gb_pnl b' = 1 + gross - gf_FeeQuote (sample_pg False 3 12)))"
  using book_step_spans [of "sample_pg False 3 12" rat_lib "\<lparr>gb_qty = 2, gb_avg = 10, gb_pnl = 1, gb_notional = 0\<rparr>"]
  by (simp add: sample_pg_def)

definition sample_booked :: "rat oms" where
  "sample_booked = (case run (book_paper rat_lib ''s'') sample_oms sample_window of Some m \<Rightarrow> m | None \<Rightarrow> sample_oms)"

definition sample_booked_ok :: bool where
  "sample_booked_ok = (case run (book_paper rat_lib ''s'') sample_oms sample_window of Some m \<Rightarrow> True | None \<Rightarrow> False)"

lemma sample_booked_ok: sample_booked_ok
  by code_simp

lemma sample_booked: "run (book_paper rat_lib ''s'') sample_oms sample_window = Some sample_booked"
  using sample_booked_ok unfolding sample_booked_ok_def sample_booked_def by (auto split: option.splits)

theorem replay_tracks_paper_oms_witness:
  "returns (walk rat_lib sample_window 1000) (\<lambda>s.
     (\<forall>sy. gb_qty (get_book (rs_books s) sy) = pos_QtyBase (held sample_booked ''s'' sy) \<and>
           gb_avg (get_book (rs_books s) sy) = pos_EntryPrice (held sample_booked ''s'' sy)) \<and>
     rs_equity s = 1000 + (\<Sum>sy\<in>gf_Symbol ` set sample_window.
        RealizedPnL sample_booked ''s'' sy - RealizedPnL sample_oms ''s'' sy))"
  by (rule replay_tracks_paper_oms [OF sample_booked])
    (simp add: held_def book_of_def sample_oms_def flat_position_def)

end
