(* ===== verification/GateService.thy ===== *)
theory GateService
  imports RiskGate Machine Stores
begin

text \<open>
  The gate service (\<open>internal/riskgate/service.go\<close>): concurrent calls of \<open>Evaluate\<close>, serialized
  per strategy, with one stored verdict per proposal id. Each call is a thread that takes the
  steps between which other threads may run; a schedule is a list of thread numbers. The payload
  hash (SHA-256 of the JSON form) is the parameter \<open>H\<close>, None when marshalling fails.
\<close>

section \<open>State\<close>

record ('d, 'h) stored_verdict =
  sv_verdict :: "'d verdict"
  sv_hash :: 'h

record 'd gate_call =
  gc_p :: "'d proposal"
  gc_limits :: "'d risk_limits"
  gc_state :: "'d runtime_state"
  gc_now :: instant
  gc_vid :: string               \<comment> \<open>the identifier minted for the verdict\<close>

datatype svc_error = ErrHash | ErrIdempotencyConflict

type_synonym 'd svc_result = "svc_error + 'd verdict"

text \<open>Where a call stands: before hashing, waiting for its strategy's lock, holding it before the
  lookup, holding it with a fresh verdict, about to release it, returned.\<close>

datatype ('d, 'h) pc =
    AtStart | AtLock 'h | AtLookup 'h | AtCommit 'h "'d verdict" | AtUnlock "'d svc_result" | Returned "'d svc_result"

record ('d, 'h) svc =
  svc_locks :: "(string \<times> nat option) list"     \<comment> \<open>\<open>strategyMu\<close>: the holder of each mutex\<close>
  svc_verdicts :: "(string \<times> ('d, 'h) stored_verdict) list"
  svc_calls :: "'d gate_call list"
  svc_pcs :: "('d, 'h) pc list"

definition NewService :: "'d gate_call list \<Rightarrow> ('d, 'h) svc" where
  "NewService calls = \<lparr>svc_locks = [], svc_verdicts = [], svc_calls = calls, svc_pcs = replicate (length calls) AtStart\<rparr>"

section \<open>Steps\<close>

definition holder :: "('d, 'h) svc \<Rightarrow> string \<Rightarrow> nat option" where
  "holder s k = (case al_get (svc_locks s) k of None \<Rightarrow> None | Some h \<Rightarrow> h)"

definition goto :: "nat \<Rightarrow> ('d, 'h) pc \<Rightarrow> ('d, 'h) svc \<Rightarrow> ('d, 'h) svc" where
  "goto i l s = s\<lparr>svc_pcs := (svc_pcs s)[i := l]\<rparr>"

text \<open>\<open>lookup\<close>: a hit with another hash is a conflict.\<close>

definition lookup_verdict :: "('d, 'h) svc \<Rightarrow> string \<Rightarrow> 'h \<Rightarrow> 'd svc_result option" where
  "lookup_verdict s pid h = (case al_get (svc_verdicts s) pid of
     None \<Rightarrow> None
   | Some st \<Rightarrow> Some (if sv_hash st \<noteq> h then Inl ErrIdempotencyConflict else Inr (sv_verdict st)))"

definition svc_step ::
  "'d::linordered_field dlib \<Rightarrow> ('d proposal \<Rightarrow> 'h option) \<Rightarrow> ('d, 'h) svc \<Rightarrow> nat \<Rightarrow> ('d, 'h) svc option" where
  "svc_step L H s i =
     (if i \<ge> length (svc_pcs s) then None
      else let c = svc_calls s ! i; pid = p_ProposalID (gc_p c); k = p_StrategyID (gc_p c)
      in case svc_pcs s ! i of
        AtStart \<Rightarrow> Some (goto i (case H (gc_p c) of None \<Rightarrow> Returned (Inl ErrHash) | Some h \<Rightarrow> AtLock h) s)
      | AtLock h \<Rightarrow>
          (if holder s k \<noteq> None then None
           else Some (goto i (AtLookup h) (s\<lparr>svc_locks := al_put k (Some i) (svc_locks s)\<rparr>)))
      | AtLookup h \<Rightarrow>
          (case lookup_verdict s pid h of
             Some r \<Rightarrow> Some (goto i (AtUnlock r) s)
           | None \<Rightarrow> (case Evaluate L (gc_vid c) (gc_p c) (gc_limits c) (gc_state c) (gc_now c) of
               Ok v \<Rightarrow> Some (goto i (AtCommit h v) s) | _ \<Rightarrow> None))
      | AtCommit h v \<Rightarrow>
          (case al_get (svc_verdicts s) pid of
             Some st \<Rightarrow> Some (goto i (AtUnlock (Inr (sv_verdict st))) s)
           | None \<Rightarrow> Some (goto i (AtUnlock (Inr v))
               (s\<lparr>svc_verdicts := al_put pid \<lparr>sv_verdict = v, sv_hash = h\<rparr> (svc_verdicts s)\<rparr>)))
      | AtUnlock r \<Rightarrow> Some (goto i (Returned r) (s\<lparr>svc_locks := al_put k None (svc_locks s)\<rparr>))
      | Returned r \<Rightarrow> None)"

section \<open>Invariant\<close>

abbreviation pid_of :: "('d, 'h) svc \<Rightarrow> nat \<Rightarrow> string" where
  "pid_of s i \<equiv> p_ProposalID (gc_p (svc_calls s ! i))"

abbreviation strategy_of :: "('d, 'h) svc \<Rightarrow> nat \<Rightarrow> string" where
  "strategy_of s i \<equiv> p_StrategyID (gc_p (svc_calls s ! i))"

fun inside :: "('d, 'h) pc \<Rightarrow> bool" where
  "inside (AtLookup h) = True" | "inside (AtCommit h v) = True" | "inside (AtUnlock r) = True"
| "inside _ = False"

fun hash_of :: "('d, 'h) pc \<Rightarrow> 'h option" where
  "hash_of (AtLock h) = Some h" | "hash_of (AtLookup h) = Some h" | "hash_of (AtCommit h v) = Some h"
| "hash_of _ = None"

fun result_of :: "('d, 'h) pc \<Rightarrow> 'd svc_result option" where
  "result_of (AtUnlock r) = Some r" | "result_of (Returned r) = Some r" | "result_of _ = None"

definition evaluated :: "'d::linordered_field dlib \<Rightarrow> 'd gate_call \<Rightarrow> 'd verdict \<Rightarrow> bool" where
  "evaluated L c v \<longleftrightarrow> Evaluate L (gc_vid c) (gc_p c) (gc_limits c) (gc_state c) (gc_now c) = Ok v"

text \<open>Another call carries the same proposal id for another strategy.\<close>

definition rival :: "('d, 'h) svc \<Rightarrow> nat \<Rightarrow> bool" where
  "rival s i \<longleftrightarrow> (\<exists>j < length (svc_calls s). pid_of s j = pid_of s i \<and> strategy_of s j \<noteq> strategy_of s i)"

text \<open>What holds for one call: the lock it holds, the hash it carries, the verdict it is about to store,
  the result it has.\<close>

definition lock_ok :: "('d, 'h) svc \<Rightarrow> nat \<Rightarrow> bool" where
  "lock_ok s i \<longleftrightarrow> (inside (svc_pcs s ! i) \<longrightarrow> holder s (strategy_of s i) = Some i)"

definition hash_ok :: "('d proposal \<Rightarrow> 'h option) \<Rightarrow> ('d, 'h) svc \<Rightarrow> nat \<Rightarrow> bool" where
  "hash_ok H s i \<longleftrightarrow> (\<forall>h. hash_of (svc_pcs s ! i) = Some h \<longrightarrow> H (gc_p (svc_calls s ! i)) = Some h)"

definition commit_ok :: "'d::linordered_field dlib \<Rightarrow> ('d, 'h) svc \<Rightarrow> nat \<Rightarrow> bool" where
  "commit_ok L s i \<longleftrightarrow> (\<forall>h v. svc_pcs s ! i = AtCommit h v \<longrightarrow> evaluated L (svc_calls s ! i) v \<and>
     (al_get (svc_verdicts s) (pid_of s i) \<noteq> None \<longrightarrow> rival s i))"

definition result_ok :: "('d proposal \<Rightarrow> 'h option) \<Rightarrow> ('d, 'h) svc \<Rightarrow> nat \<Rightarrow> bool" where
  "result_ok H s i \<longleftrightarrow> (\<forall>v. result_of (svc_pcs s ! i) = Some (Inr v) \<longrightarrow>
     (\<exists>st. al_get (svc_verdicts s) (pid_of s i) = Some st \<and> sv_verdict st = v \<and>
        (H (gc_p (svc_calls s ! i)) = Some (sv_hash st) \<or> rival s i)))"

lemmas call_defs = lock_ok_def hash_ok_def commit_ok_def result_ok_def

definition call_ok ::
  "'d::linordered_field dlib \<Rightarrow> ('d proposal \<Rightarrow> 'h option) \<Rightarrow> ('d, 'h) svc \<Rightarrow> nat \<Rightarrow> bool" where
  "call_ok L H s i \<longleftrightarrow> lock_ok s i \<and> hash_ok H s i \<and> commit_ok L s i \<and> result_ok H s i"

definition stored_ok ::
  "'d::linordered_field dlib \<Rightarrow> ('d proposal \<Rightarrow> 'h option) \<Rightarrow> ('d, 'h) svc \<Rightarrow> bool" where
  "stored_ok L H s \<longleftrightarrow> (\<forall>pid st. al_get (svc_verdicts s) pid = Some st \<longrightarrow>
     (\<exists>j < length (svc_calls s). pid_of s j = pid \<and> H (gc_p (svc_calls s ! j)) = Some (sv_hash st) \<and>
        evaluated L (svc_calls s ! j) (sv_verdict st)))"

definition svc_inv ::
  "'d::linordered_field dlib \<Rightarrow> ('d proposal \<Rightarrow> 'h option) \<Rightarrow> ('d, 'h) svc \<Rightarrow> bool" where
  "svc_inv L H s \<longleftrightarrow> length (svc_pcs s) = length (svc_calls s) \<and> stored_ok L H s \<and>
     (\<forall>i < length (svc_calls s). call_ok L H s i)"

lemma goto_simps [simp]:
  "svc_locks (goto i l s) = svc_locks s" "svc_verdicts (goto i l s) = svc_verdicts s"
  "svc_calls (goto i l s) = svc_calls s" "svc_pcs (goto i l s) = (svc_pcs s)[i := l]"
  "holder (goto i l s) = holder s"
  by (simp_all add: goto_def holder_def fun_eq_iff)

lemma holder_put: "holder (s\<lparr>svc_locks := al_put k h (svc_locks s)\<rparr>) k' = (if k' = k then h else holder s k')"
  by (simp add: holder_def al.get_put)

text \<open>A step either leaves the verdicts alone or adds the first one for a proposal id.\<close>

lemma svc_step_fixed:
  "svc_step L H s i = Some t \<Longrightarrow> svc_calls t = svc_calls s \<and> length (svc_pcs t) = length (svc_pcs s) \<and>
     (\<forall>pid st. al_get (svc_verdicts s) pid = Some st \<longrightarrow> al_get (svc_verdicts t) pid = Some st)"
  by (auto simp: svc_step_def Let_def al.get_put split: if_splits pc.splits option.splits outcome.splits)

text \<open>Two calls inside at once belong to different strategies.\<close>

lemma inside_exclusive:
  "svc_inv L H s \<Longrightarrow> i < length (svc_calls s) \<Longrightarrow> j < length (svc_calls s) \<Longrightarrow> inside (svc_pcs s ! i) \<Longrightarrow>
     inside (svc_pcs s ! j) \<Longrightarrow> strategy_of s i = strategy_of s j \<Longrightarrow> i = j"
  unfolding svc_inv_def call_ok_def lock_ok_def by (metis option.inject)


lemma rival_frame: "svc_calls t = svc_calls s \<Longrightarrow> rival t j = rival s j"
  by (simp add: rival_def)

lemma call_ok_frame:
  assumes ok: "call_ok L H s j" and c: "svc_calls t = svc_calls s" and p: "svc_pcs t ! j = svc_pcs s ! j"
    and lk: "holder s (strategy_of s j) = Some j \<Longrightarrow> holder t (strategy_of s j) = Some j"
    and mono: "\<And>pid st. al_get (svc_verdicts s) pid = Some st \<Longrightarrow> al_get (svc_verdicts t) pid = Some st"
    and new: "\<And>h v. svc_pcs s ! j = AtCommit h v \<Longrightarrow> al_get (svc_verdicts s) (pid_of s j) = None \<Longrightarrow>
       al_get (svc_verdicts t) (pid_of s j) \<noteq> None \<Longrightarrow> rival s j"
  shows "call_ok L H t j"
proof -
  have "lock_ok t j" "hash_ok H t j"
    using ok lk by (simp_all add: call_ok_def lock_ok_def hash_ok_def c p)
  moreover have "commit_ok L t j"
    unfolding commit_ok_def c p rival_frame [OF c]
    using ok new unfolding call_ok_def commit_ok_def by blast
  moreover have "result_ok H t j"
    unfolding result_ok_def c p rival_frame [OF c]
    using ok mono unfolding call_ok_def result_ok_def by blast
  ultimately show ?thesis by (simp add: call_ok_def)
qed

lemma stored_ok_frame:
  assumes "stored_ok L H s" "svc_calls t = svc_calls s" "svc_verdicts t = svc_verdicts s"
  shows "stored_ok L H t"
  using assms by (simp add: stored_ok_def)

text \<open>A step that changes no verdict and no lock another call holds.\<close>

lemma svc_inv_local:
  assumes "svc_inv L H s" "i < length (svc_calls s)" "svc_calls t = svc_calls s"
    and "svc_pcs t = (svc_pcs s)[i := l]" "svc_verdicts t = svc_verdicts s"
    and "\<And>j. j \<noteq> i \<Longrightarrow> holder s (strategy_of s j) = Some j \<Longrightarrow> holder t (strategy_of s j) = Some j"
    and "call_ok L H t i"
  shows "svc_inv L H t"
proof -
  have "call_ok L H t j" if "j < length (svc_calls s)" for j
  proof (cases "j = i")
    case False
    have "call_ok L H s j" using assms(1) that by (simp add: svc_inv_def)
    then show ?thesis
      by (rule call_ok_frame) (use assms(3-6) False in simp_all)
  next
    case True
    then show ?thesis using assms(7) by simp
  qed
  moreover have "stored_ok L H s" "length (svc_pcs s) = length (svc_calls s)"
    using assms(1) by (simp_all add: svc_inv_def)
  moreover from this(1) have "stored_ok L H t" by (rule stored_ok_frame [OF _ assms(3,5)])
  ultimately show ?thesis by (simp add: svc_inv_def assms(3,4))
qed

lemma svc_step_inv:
  assumes inv: "svc_inv L H s" and step: "svc_step L H s i = Some t"
  shows "svc_inv L H t"
proof -
  have i: "i < length (svc_calls s)" "i < length (svc_pcs s)"
    using assms by (auto simp: svc_inv_def svc_step_def split: if_splits)
  define c where "c = svc_calls s ! i"
  have ok: "call_ok L H s i" using inv i by (simp add: svc_inv_def)
  have excl: "strategy_of s j \<noteq> strategy_of s i" if "j \<noteq> i" "holder s (strategy_of s j) = Some j" "inside (svc_pcs s ! i)" for j
    using ok that by (auto simp: call_ok_def lock_ok_def)
  show ?thesis
  proof (cases "svc_pcs s ! i")
    case AtStart
    with step i have t: "t = goto i (case H (gc_p c) of None \<Rightarrow> Returned (Inl ErrHash) | Some h \<Rightarrow> AtLock h) s"
      by (simp add: svc_step_def c_def)
    show ?thesis
      by (rule svc_inv_local [OF inv i(1)])
        (use i in \<open>auto simp: t call_ok_def call_defs c_def split: option.splits\<close>)
  next
    case (AtLock h)
    with step i have t: "t = goto i (AtLookup h) (s\<lparr>svc_locks := al_put (strategy_of s i) (Some i) (svc_locks s)\<rparr>)"
      "holder s (strategy_of s i) = None" by (auto simp: svc_step_def Let_def split: if_splits)
    show ?thesis
      by (rule svc_inv_local [OF inv i(1)])
        (use i t ok AtLock in \<open>auto simp: call_ok_def call_defs rival_def holder_put\<close>)
  next
    case (AtLookup h)
    show ?thesis
    proof (cases "al_get (svc_verdicts s) (pid_of s i)")
      case (Some st)
      with step i AtLookup have t: "t = goto i (AtUnlock (if sv_hash st \<noteq> h then Inl ErrIdempotencyConflict
          else Inr (sv_verdict st))) s" by (simp add: svc_step_def lookup_verdict_def)
      show ?thesis
        by (rule svc_inv_local [OF inv i(1)])
          (use i t ok AtLookup Some in \<open>auto simp: call_ok_def call_defs rival_def split: if_splits\<close>)
    next
      case None
      with step i AtLookup obtain v where t: "t = goto i (AtCommit h v) s" "evaluated L c v"
        by (auto simp: svc_step_def Let_def lookup_verdict_def evaluated_def c_def split: outcome.splits)
      show ?thesis
        by (rule svc_inv_local [OF inv i(1)])
          (use i t ok AtLookup None in \<open>auto simp: call_ok_def call_defs rival_def c_def\<close>)
    qed
  next
    case (AtUnlock r)
    with step i have t: "t = goto i (Returned r) (s\<lparr>svc_locks := al_put (strategy_of s i) None (svc_locks s)\<rparr>)"
      by (simp add: svc_step_def Let_def)
    show ?thesis
      by (rule svc_inv_local [OF inv i(1)])
        (use i t ok AtUnlock excl in \<open>auto simp: call_ok_def call_defs rival_def holder_put\<close>)
  next
    case (Returned r)
    with step i show ?thesis by (simp add: svc_step_def)
  next
    case (AtCommit h v)
    show ?thesis
    proof (cases "al_get (svc_verdicts s) (pid_of s i)")
      case (Some st)
      with step i AtCommit have t: "t = goto i (AtUnlock (Inr (sv_verdict st))) s" by (simp add: svc_step_def)
      show ?thesis
        by (rule svc_inv_local [OF inv i(1)])
          (use i t ok AtCommit Some in \<open>auto simp: call_ok_def call_defs rival_def\<close>)
    next
      case None
      with step i AtCommit have t: "t = goto i (AtUnlock (Inr v))
         (s\<lparr>svc_verdicts := al_put (pid_of s i) \<lparr>sv_verdict = v, sv_hash = h\<rparr> (svc_verdicts s)\<rparr>)"
        by (simp add: svc_step_def)
      have hv: "H (gc_p c) = Some h" "evaluated L c v" using ok AtCommit by (auto simp: call_ok_def call_defs c_def)
      have self: "call_ok L H t i" using i t ok AtCommit hv
        by (auto simp: call_ok_def call_defs al.get_put c_def holder_def)
      have others: "call_ok L H t j" if "j < length (svc_calls s)" "j \<noteq> i" for j
      proof (rule call_ok_frame [of L H s])
        show "call_ok L H s j" using inv that by (simp add: svc_inv_def)
        fix h' v'
        assume a: "svc_pcs s ! j = AtCommit h' v'" "al_get (svc_verdicts s) (pid_of s j) = None"
          "al_get (svc_verdicts t) (pid_of s j) \<noteq> None"
        then have "pid_of s j = pid_of s i" by (auto simp: t al.get_put split: if_splits)
        moreover have "strategy_of s i \<noteq> strategy_of s j"
          using inside_exclusive [OF inv i(1) that(1)] a(1) AtCommit that(2) by auto
        ultimately show "rival s j" using i(1) unfolding rival_def by metis
      qed (use that None in \<open>auto simp: t al.get_put holder_def\<close>)
      have "stored_ok L H t"
        unfolding stored_ok_def
      proof (intro allI impI)
        fix pid st
        assume "al_get (svc_verdicts t) pid = Some st"
        then have "pid = pid_of s i \<and> st = \<lparr>sv_verdict = v, sv_hash = h\<rparr> \<or> al_get (svc_verdicts s) pid = Some st"
          by (auto simp: t al.get_put split: if_splits)
        then show "\<exists>j < length (svc_calls t). pid_of t j = pid \<and> H (gc_p (svc_calls t ! j)) = Some (sv_hash st) \<and>
            evaluated L (svc_calls t ! j) (sv_verdict st)"
          using inv i(1) hv by (auto simp: svc_inv_def stored_ok_def t c_def)
      qed
      then show ?thesis using inv self others i by (auto simp: svc_inv_def t)
    qed
  qed
qed

text \<open>A lock is held only by a call that is inside, for the call's own strategy.\<close>

definition held_ok :: "('d, 'h) svc \<Rightarrow> bool" where
  "held_ok s \<longleftrightarrow> (\<forall>k j. holder s k = Some j \<longrightarrow>
     j < length (svc_pcs s) \<and> inside (svc_pcs s ! j) \<and> strategy_of s j = k)"

lemma holder_verdicts: "holder (s\<lparr>svc_verdicts := x\<rparr>) = holder s"
  by (simp add: holder_def fun_eq_iff)

lemma held_ok_step:
  assumes "held_ok s" "svc_step L H s i = Some t"
  shows "held_ok t"
  unfolding held_ok_def
proof (intro allI impI)
  fix k j
  assume h: "holder t k = Some j"
  have i: "i < length (svc_pcs s)" using assms(2) by (auto simp: svc_step_def split: if_splits)
  have c: "svc_calls t = svc_calls s" "length (svc_pcs t) = length (svc_pcs s)"
    using svc_step_fixed [OF assms(2)] by auto
  have other: "svc_pcs t ! j = svc_pcs s ! j" if "j \<noteq> i"
    using assms(2) that by (auto simp: svc_step_def Let_def split: if_splits pc.splits option.splits outcome.splits)
  show "j < length (svc_pcs t) \<and> inside (svc_pcs t ! j) \<and> strategy_of t j = k"
  proof (cases "holder s k = Some j")
    case True
    with assms(1) have a: "j < length (svc_pcs s)" "inside (svc_pcs s ! j)" "strategy_of s j = k"
      by (auto simp: held_ok_def)
    have "inside (svc_pcs t ! j)"
    proof (cases "j = i")
      case True
      with a h i assms(2) show ?thesis
        by (auto simp: svc_step_def Let_def holder_put holder_verdicts
            split: if_splits pc.splits option.splits outcome.splits)
    qed (use a other in simp)
    with a c show ?thesis by simp
  next
    case False
    with h assms(2) i have "j = i \<and> strategy_of s i = k \<and> inside (svc_pcs t ! i)"
      by (auto simp: svc_step_def Let_def holder_put holder_verdicts
          split: if_splits pc.splits option.splits outcome.splits)
    with i c show ?thesis by auto
  qed
qed

lemma NewService_inv: "svc_inv L H (NewService calls)" "held_ok (NewService calls)"
  by (auto simp: svc_inv_def NewService_def stored_ok_def call_ok_def call_defs held_ok_def holder_def)

interpretation gate_service: machine "svc_step L H" "\<lambda>s. svc_inv L H s \<and> held_ok s \<and> svc_calls s = calls"
  for L :: "'d::linordered_field dlib" and H and calls
  using svc_step_inv held_ok_step svc_step_fixed by unfold_locales blast

lemma reachable_inv:
  "run (svc_step L H) (NewService calls) sched = Some s \<Longrightarrow>
     svc_inv L H s \<and> held_ok s \<and> svc_calls s = calls"
  by (rule gate_service.run_inv) (auto simp: NewService_inv, simp add: NewService_def)

section \<open>What the service guarantees\<close>

definition got :: "('d, 'h) svc \<Rightarrow> nat \<Rightarrow> 'd verdict \<Rightarrow> bool" where
  "got s i v \<longleftrightarrow> result_of (svc_pcs s ! i) = Some (Inr v)"

text \<open>C25: one verdict per proposal. In every interleaving of concurrent calls, any two calls that have a
  verdict for the same proposal id have the same one, and it is the gate's evaluation of one of the
  calls that carried that id: a duplicate is never evaluated into a second verdict.\<close>

theorem one_verdict_per_proposal:
  assumes "run (svc_step L H) (NewService calls) sched = Some s"
    and "i < length calls" and "j < length calls" and "got s i v" and "got s j w"
    and "p_ProposalID (gc_p (calls ! i)) = p_ProposalID (gc_p (calls ! j))"
  shows "v = w \<and> (\<exists>k < length calls. p_ProposalID (gc_p (calls ! k)) = p_ProposalID (gc_p (calls ! i)) \<and>
     Evaluate L (gc_vid (calls ! k)) (gc_p (calls ! k)) (gc_limits (calls ! k)) (gc_state (calls ! k))
       (gc_now (calls ! k)) = Ok v)"
proof -
  from reachable_inv [OF assms(1)] have inv: "svc_inv L H s" and c: "svc_calls s = calls" by auto
  have r: "result_ok H s i" "result_ok H s j" "stored_ok L H s"
    using inv assms(2,3) c by (auto simp: svc_inv_def call_ok_def)
  from r(1) assms(4) obtain st where st: "al_get (svc_verdicts s) (pid_of s i) = Some st" "sv_verdict st = v"
    by (auto simp: result_ok_def got_def)
  moreover from r(2) assms(5,6) c obtain st' where
    "al_get (svc_verdicts s) (pid_of s i) = Some st'" "sv_verdict st' = w"
    by (auto simp: result_ok_def got_def)
  moreover from r(3) st(1) c obtain k where "k < length calls" "pid_of s k = pid_of s i"
    "evaluated L (calls ! k) (sv_verdict st)" unfolding stored_ok_def by metis
  ultimately show ?thesis using c by (auto simp: evaluated_def)
qed

text \<open>the idempotency check within a strategy. If no two calls carry the same proposal id for different
  strategies, then two calls that both get a verdict for one id carried the same payload hash: a
  different payload under a used id always gets the conflict error instead of a verdict.\<close>

theorem same_strategy_conflict_detected:
  assumes "run (svc_step L H) (NewService calls) sched = Some s"
    and "i < length calls" and "j < length calls" and "got s i v" and "got s j w"
    and "p_ProposalID (gc_p (calls ! i)) = p_ProposalID (gc_p (calls ! j))"
    and "\<forall>k < length calls. \<forall>l < length calls. p_ProposalID (gc_p (calls ! k)) = p_ProposalID (gc_p (calls ! l))
       \<longrightarrow> p_StrategyID (gc_p (calls ! k)) = p_StrategyID (gc_p (calls ! l))"
  shows "H (gc_p (calls ! i)) = H (gc_p (calls ! j)) \<and> H (gc_p (calls ! i)) \<noteq> None"
proof -
  from reachable_inv [OF assms(1)] have inv: "svc_inv L H s" and c: "svc_calls s = calls" by auto
  have nr: "\<not> rival s i" "\<not> rival s j" using assms(2,3,7) c unfolding rival_def by metis+
  have r: "result_ok H s i" "result_ok H s j" using inv assms(2,3) c by (auto simp: svc_inv_def call_ok_def)
  from r(1) assms(4) nr(1) obtain st where "al_get (svc_verdicts s) (pid_of s i) = Some st"
    "H (gc_p (calls ! i)) = Some (sv_hash st)" by (auto simp: result_ok_def got_def c)
  moreover from r(2) assms(5,6) nr(2) obtain st' where "al_get (svc_verdicts s) (pid_of s i) = Some st'"
    "H (gc_p (calls ! j)) = Some (sv_hash st')" by (auto simp: result_ok_def got_def c)
  ultimately show ?thesis by simp
qed

text \<open>evaluations of one strategy are serialized and never block each other for ever. In every reachable
  state at most one call per strategy is between taking and releasing its lock, and unless every
  call has returned, some call can take its next step.\<close>

theorem gate_service_progress:
  assumes "run (svc_step L H) (NewService calls) sched = Some s"
  shows "(\<forall>i < length calls. \<forall>j < length calls. inside (svc_pcs s ! i) \<longrightarrow> inside (svc_pcs s ! j) \<longrightarrow>
       p_StrategyID (gc_p (calls ! i)) = p_StrategyID (gc_p (calls ! j)) \<longrightarrow> i = j) \<and>
    ((\<forall>i < length calls. \<exists>r. svc_pcs s ! i = Returned r) \<or> (\<exists>i t. svc_step L H s i = Some t))"
proof -
  from reachable_inv [OF assms] have inv: "svc_inv L H s" and hok: "held_ok s" and c: "svc_calls s = calls" by auto
  have len: "length (svc_pcs s) = length calls" using inv c by (simp add: svc_inv_def)
  have go: "\<exists>t. svc_step L H s i = Some t" if "i < length calls" "inside (svc_pcs s ! i)" for i
    using that len Evaluate_returns [of L "gc_vid (calls ! i)" "gc_p (calls ! i)" "gc_limits (calls ! i)"
        "gc_state (calls ! i)" "gc_now (calls ! i)"]
    by (auto simp: svc_step_def Let_def c split: pc.splits option.splits)
  have "\<exists>i t. svc_step L H s i = Some t" if "i < length calls" "\<And>r. svc_pcs s ! i \<noteq> Returned r" for i
  proof (cases "svc_pcs s ! i")
    case AtStart
    then show ?thesis using that len by (intro exI [of _ i]) (auto simp: svc_step_def)
  next
    case (AtLock h)
    show ?thesis
    proof (cases "holder s (strategy_of s i)")
      case None
      then show ?thesis using that len AtLock by (intro exI [of _ i]) (auto simp: svc_step_def)
    next
      case (Some j)
      with hok have "j < length calls" "inside (svc_pcs s ! j)" using len by (auto simp: held_ok_def)
      with go show ?thesis by blast
    qed
  next
    case (AtLookup h)
    then have "inside (svc_pcs s ! i)" by simp
    then show ?thesis using go that(1) by blast
  next
    case (AtCommit h v)
    then have "inside (svc_pcs s ! i)" by simp
    then show ?thesis using go that(1) by blast
  next
    case (AtUnlock r)
    then have "inside (svc_pcs s ! i)" by simp
    then show ?thesis using go that(1) by blast
  qed (use that in simp)
  moreover have "i = j" if "i < length calls" "j < length calls" "inside (svc_pcs s ! i)" "inside (svc_pcs s ! j)"
      "p_StrategyID (gc_p (calls ! i)) = p_StrategyID (gc_p (calls ! j))" for i j
    using inside_exclusive [OF inv _ _ that(3,4)] that(1,2,5) c by simp
  ultimately show ?thesis by blast
qed

section \<open>Witnesses\<close>

definition sample_call :: "string \<Rightarrow> rat gate_call" where
  "sample_call k = \<lparr>gc_p = sample_proposal\<lparr>p_StrategyID := k\<rparr>, gc_limits = sample_limits, gc_state = sample_state,
     gc_now = 0, gc_vid = sample_uuid\<rparr>"

text \<open>A payload hash that tells all payloads apart that differ in their strategy.\<close>

definition sample_hash :: "rat proposal \<Rightarrow> string option" where
  "sample_hash p = Some (p_StrategyID p)"

definition two_calls :: "rat gate_call list" where "two_calls = [sample_call ''k'', sample_call ''k'']"

definition two_sched :: "nat list" where "two_sched = [0, 1, 0, 0, 0, 0, 1, 1, 1]"

definition svc_end :: "rat gate_call list \<Rightarrow> nat list \<Rightarrow> (rat, string) svc" where
  "svc_end calls sched = (case run (svc_step rat_lib sample_hash) (NewService calls) sched of
     Some s \<Rightarrow> s | None \<Rightarrow> NewService calls)"

definition has_verdict :: "('d, 'h) pc \<Rightarrow> bool" where
  "has_verdict l = (case result_of l of Some (Inr _) \<Rightarrow> True | _ \<Rightarrow> False)"

definition svc_done :: "rat gate_call list \<Rightarrow> nat list \<Rightarrow> bool" where
  "svc_done calls sched = (case run (svc_step rat_lib sample_hash) (NewService calls) sched of
     Some s \<Rightarrow> has_verdict (svc_pcs s ! 0) \<and> has_verdict (svc_pcs s ! Suc 0) | None \<Rightarrow> False)"

lemma two_done: "svc_done two_calls two_sched"
  by code_simp

lemma svc_end_run:
  "svc_done calls sched \<Longrightarrow> run (svc_step rat_lib sample_hash) (NewService calls) sched = Some (svc_end calls sched)"
  by (auto simp: svc_done_def svc_end_def split: option.splits)

definition verdict_at :: "(rat, string) svc \<Rightarrow> nat \<Rightarrow> rat verdict" where
  "verdict_at s i = (case result_of (svc_pcs s ! i) of Some (Inr v) \<Rightarrow> v | _ \<Rightarrow> sample_verdict)"

lemma svc_end_got:
  assumes "svc_done calls sched"
  shows "got (svc_end calls sched) 0 (verdict_at (svc_end calls sched) 0)"
    "got (svc_end calls sched) (Suc 0) (verdict_at (svc_end calls sched) (Suc 0))"
proof -
  have "has_verdict (svc_pcs (svc_end calls sched) ! 0)" "has_verdict (svc_pcs (svc_end calls sched) ! Suc 0)"
    using assms by (auto simp: svc_done_def svc_end_def split: option.splits)
  then show "got (svc_end calls sched) 0 (verdict_at (svc_end calls sched) 0)"
    "got (svc_end calls sched) (Suc 0) (verdict_at (svc_end calls sched) (Suc 0))"
    by (auto simp: got_def verdict_at_def has_verdict_def split: option.splits sum.splits)
qed

theorem one_verdict_per_proposal_witness:
  "verdict_at (svc_end two_calls two_sched) 0 = verdict_at (svc_end two_calls two_sched) (Suc 0) \<and>
   (\<exists>k < length two_calls. p_ProposalID (gc_p (two_calls ! k)) = p_ProposalID (gc_p (two_calls ! 0)) \<and>
     Evaluate rat_lib (gc_vid (two_calls ! k)) (gc_p (two_calls ! k)) (gc_limits (two_calls ! k))
       (gc_state (two_calls ! k)) (gc_now (two_calls ! k)) = Ok (verdict_at (svc_end two_calls two_sched) 0))"
  by (rule one_verdict_per_proposal [OF svc_end_run [OF two_done] _ _ svc_end_got [OF two_done]])
    (simp_all add: two_calls_def)

theorem same_strategy_conflict_detected_witness:
  "sample_hash (gc_p (two_calls ! 0)) = sample_hash (gc_p (two_calls ! Suc 0)) \<and> sample_hash (gc_p (two_calls ! 0)) \<noteq> None"
  by (rule same_strategy_conflict_detected [OF svc_end_run [OF two_done] _ _ svc_end_got [OF two_done]])
    (auto simp: two_calls_def sample_call_def less_Suc_eq)

theorem gate_service_progress_witness:
  "(\<forall>i < length two_calls. \<exists>r. svc_pcs (svc_end two_calls two_sched) ! i = Returned r) \<or>
   (\<exists>i t. svc_step rat_lib sample_hash (svc_end two_calls two_sched) i = Some t)"
  using gate_service_progress [OF svc_end_run [OF two_done]] by (rule conjunct2)

section \<open>The race across strategies\<close>

definition race_calls :: "rat gate_call list" where "race_calls = [sample_call ''k'', sample_call ''m'']"

definition race_sched :: "nat list" where "race_sched = [0, 1, 0, 1, 0, 1, 0, 1, 0, 1]"

lemma race_done: "svc_done race_calls race_sched"
  by code_simp

text \<open>the idempotency rule does not hold across strategies. Two calls with one proposal id, different
  strategies and different payload hashes that both look up before either commits both get a
  verdict, and it is the same one: the second payload is answered with the first payload's verdict
  where the rule asks for the conflict error, because the insert-or-fetch path does not compare the
  hash.\<close>

theorem cross_strategy_race:
  "\<exists>s v. run (svc_step rat_lib sample_hash) (NewService race_calls) race_sched = Some s \<and>
     got s 0 v \<and> got s 1 v \<and>
     p_ProposalID (gc_p (race_calls ! 0)) = p_ProposalID (gc_p (race_calls ! 1)) \<and>
     sample_hash (gc_p (race_calls ! 0)) \<noteq> sample_hash (gc_p (race_calls ! 1))"
proof -
  have same: "verdict_at (svc_end race_calls race_sched) 0 = verdict_at (svc_end race_calls race_sched) 1"
    using svc_end_got [OF race_done] reachable_inv [OF svc_end_run [OF race_done]]
    by (auto simp: svc_inv_def call_ok_def result_ok_def got_def race_calls_def sample_call_def All_less_Suc2)
  have "p_ProposalID (gc_p (race_calls ! 0)) = p_ProposalID (gc_p (race_calls ! 1))"
    "sample_hash (gc_p (race_calls ! 0)) \<noteq> sample_hash (gc_p (race_calls ! 1))"
    by (simp_all add: race_calls_def sample_call_def sample_hash_def)
  with same svc_end_got [OF race_done] svc_end_run [OF race_done] show ?thesis by (metis One_nat_def)
qed

end
