(* ===== verification/StoreTables.thy ===== *)
theory StoreTables
  imports GoTime Stores
begin

text \<open>
  The runtime tables of the SQLite store (package \<open>internal/store\<close>). A table is a list of rows
  in insertion (rowid) order and a nullable column is an option; a statement that violates a
  key, a foreign key or a check, or updates no row, is an error. The store has one connection,
  so a call is one atomic step; a transaction is a function that returns the new tables or an
  error, and an error leaves the caller's tables as they were (the rollback). Columns hold the
  strings that the code writes. I/O failures of the driver are not modelled.
\<close>

datatype store_error = ErrConstraint | ErrNotFound | ErrColumn | ErrNoProposal | ErrUnknownStatus
  | ErrNoActiveKill | ErrClearConflict | ErrKillActive

section \<open>Rows\<close>

record strategy_row =
  sg_StrategyID :: string
  sg_TenantID :: string
  sg_Name :: string
  sg_LifecycleState :: string
  sg_CreatedAt :: string
  sg_UpdatedAt :: string

record transition_row =
  lt_TransitionID :: string
  lt_StrategyID :: string
  lt_FromState :: string
  lt_ToState :: string
  lt_ActorID :: string
  lt_ActorRole :: string
  lt_Reason :: string
  lt_RecordedAt :: string

record kill_row =
  ke_EventID :: string
  ke_Kind :: string
  ke_Scope :: string
  ke_StrategyID :: "string option"
  ke_TenantID :: "string option"
  ke_KillEpoch :: "int option"
  ke_Flatten :: "bool option"
  ke_TriggerRef :: "string option"
  ke_ActorID :: string
  ke_RecordedAt :: string

record clear_row =
  kc_ClearID :: string
  kc_Scope :: string
  kc_StrategyID :: "string option"
  kc_TenantID :: "string option"
  kc_ClearedEpoch :: int
  kc_ActorID :: string
  kc_Reason :: string
  kc_RecordedAt :: string

record alert_row =
  sa_AlertID :: string
  sa_Kind :: string
  sa_StrategyID :: "string option"
  sa_RefID :: "string option"
  sa_DetailsJSON :: string
  sa_RecordedAt :: string

text \<open>Proposals and verdicts, without their payloads.\<close>

record proposal_row =
  pp_ProposalID :: string
  pp_StrategyID :: string
  pp_Action :: string

record verdict_row =
  vv_ProposalID :: string
  vv_Decision :: string
  vv_EvaluatedAt :: string

text \<open>An order: Go's \<open>Order\<close>, and \<open>LiveOrder\<close> with the last two columns.\<close>

record order_row =
  or_OrderID :: string
  or_ProposalID :: "string option"
  or_Origin :: string
  or_StrategyID :: string
  or_Symbol :: string
  or_Class :: string
  or_Side :: string
  or_Type :: string
  or_ReduceOnly :: bool
  or_QtyBase :: string
  or_LimitPrice :: "string option"
  or_StopPrice :: "string option"
  or_TakeProfit :: "string option"
  or_FillPrice :: "string option"
  or_KillEpoch :: int
  or_Status :: string
  or_SubmittedAt :: string
  or_FilledAt :: "string option"
  or_ClientOrderID :: "string option"
  or_ExchangeOrderID :: "string option"

text \<open>A fill: Go's \<open>Fill\<close>, and \<open>VenueFill\<close> with the last three columns.\<close>

record fill_row =
  fr_FillID :: string
  fr_OrderID :: string
  fr_QtyBase :: string
  fr_FillPrice :: string
  fr_FeeQuote :: string
  fr_FillTS :: string
  fr_VenueSymbol :: "string option"
  fr_ExchangeTradeID :: "int option"
  fr_VenueEpoch :: int

record position_row =
  pr_StrategyID :: string
  pr_Symbol :: string
  pr_QtyBase :: string
  pr_EntryPrice :: string
  pr_FeesQuote :: string
  pr_RealizedPnLQuote :: string
  pr_UpdatedAt :: string

record state_row =
  sr_StrategyID :: string
  sr_EquityQuote :: string
  sr_PeakEquityQuote :: string
  sr_DailyRealizedPnLQuote :: string
  sr_UTCDate :: string
  sr_UpdatedAt :: string

record intent_row =
  oi_ClientOrderID :: string
  oi_IntentToken :: string
  oi_Attempt :: int
  oi_OrderID :: string
  oi_StrategyID :: string
  oi_Symbol :: string
  oi_VenueSymbol :: string
  oi_Side :: string
  oi_Type :: string
  oi_QtyBase :: string
  oi_LimitPrice :: "string option"
  oi_StopPrice :: "string option"
  oi_Origin :: string
  oi_ProposalID :: "string option"
  oi_KillEpoch :: int
  oi_JournaledAt :: string
  oi_ClaimedAt :: "string option"
  oi_ClaimRevokedAt :: "string option"

record obligation_row =
  po_ObligationID :: string
  po_EntryOrderID :: string
  po_StrategyID :: string
  po_Kind :: string
  po_DueAt :: string
  po_CreatedAt :: string
  po_SatisfiedAt :: "string option"

record fee_row =
  pf_FillID :: string
  pf_Commission :: string
  pf_CommissionAsset :: string
  pf_RecordedAt :: string
  pf_ConvertedAt :: "string option"

record epoch_row =
  ve_VenueEpoch :: int
  ve_StartedAt :: string
  ve_Reason :: string
  ve_DetailsJSON :: string

record recon_row =
  re_EventID :: string
  re_Kind :: string
  re_RunID :: "string option"
  re_StrategyID :: "string option"
  re_Symbol :: "string option"
  re_ClientOrderID :: "string option"
  re_ExchangeOrderID :: "string option"
  re_ExchangeTradeID :: "int option"
  re_DetailsJSON :: string
  re_RecordedAt :: string

record store_db =
  db_strategies :: "strategy_row list"
  db_transitions :: "transition_row list"
  db_kills :: "kill_row list"
  db_clears :: "clear_row list"
  db_effects :: "(string \<times> string) list"
  db_alerts :: "alert_row list"
  db_proposals :: "proposal_row list"
  db_verdicts :: "verdict_row list"
  db_orders :: "order_row list"
  db_fills :: "fill_row list"
  db_positions :: "position_row list"
  db_states :: "state_row list"
  db_intents :: "intent_row list"
  db_obligations :: "obligation_row list"
  db_fees :: "fee_row list"
  db_epochs :: "epoch_row list"
  db_recon :: "recon_row list"

definition empty_db :: store_db where
  "empty_db = \<lparr>db_strategies = [], db_transitions = [], db_kills = [], db_clears = [], db_effects = [],
     db_alerts = [], db_proposals = [], db_verdicts = [], db_orders = [], db_fills = [], db_positions = [], db_states = [],
     db_intents = [], db_obligations = [], db_fees = [], db_epochs = [], db_recon = []\<rparr>"

section \<open>Statements on orders, fills and books\<close>

definition get_strategy_row :: "store_db \<Rightarrow> string \<Rightarrow> strategy_row option" where
  "get_strategy_row db = row_get sg_StrategyID (db_strategies db)"

definition get_order_row :: "store_db \<Rightarrow> string \<Rightarrow> order_row option" where
  "get_order_row db = row_get or_OrderID (db_orders db)"

definition InsertOrder :: "order_row \<Rightarrow> store_db \<Rightarrow> (store_error, store_db) outcome" where
  "InsertOrder r db =
     (if get_order_row db (or_OrderID r) \<noteq> None
         \<or> (case or_ProposalID r of None \<Rightarrow> False | Some p \<Rightarrow> row_get pp_ProposalID (db_proposals db) p = None)
         \<or> or_Class r \<notin> {''ENTRY'', ''PROTECTIVE''}
         \<or> or_Origin r \<notin> {''proposal'', ''breaker'', ''kill'', ''watchdog'', ''sl_contingency''}
      then Err ErrConstraint
      else Ok (db\<lparr>db_orders := db_orders db @
             [r\<lparr>or_ClientOrderID := None, or_ExchangeOrderID := None\<rparr>]\<rparr>))"

definition update_order :: "string \<Rightarrow> (order_row \<Rightarrow> order_row) \<Rightarrow> store_db \<Rightarrow> (store_error, store_db) outcome" where
  "update_order i f db =
     (if get_order_row db i = None then Err ErrNotFound
      else Ok (db\<lparr>db_orders := map (\<lambda>r. if or_OrderID r = i then f r else r) (db_orders db)\<rparr>))"

definition RecordOrderFill :: "string \<Rightarrow> string \<Rightarrow> string \<Rightarrow> store_db \<Rightarrow> (store_error, store_db) outcome" where
  "RecordOrderFill i price ts = update_order i
     (\<lambda>r. r\<lparr>or_Status := ''filled'', or_FillPrice := Some price, or_FilledAt := Some ts\<rparr>)"

definition RecordOrderCancel :: "string \<Rightarrow> store_db \<Rightarrow> (store_error, store_db) outcome" where
  "RecordOrderCancel i = update_order i (\<lambda>r. r\<lparr>or_Status := ''canceled''\<rparr>)"

definition InsertFill :: "fill_row \<Rightarrow> store_db \<Rightarrow> (store_error, store_db) outcome" where
  "InsertFill f db =
     (if row_get fr_FillID (db_fills db) (fr_FillID f) \<noteq> None \<or> get_order_row db (fr_OrderID f) = None
      then Err ErrConstraint
      else Ok (db\<lparr>db_fills := db_fills db @
             [f\<lparr>fr_VenueSymbol := None, fr_ExchangeTradeID := None, fr_VenueEpoch := 0\<rparr>]\<rparr>))"

definition position_key :: "position_row \<Rightarrow> string \<times> string" where
  "position_key r = (pr_StrategyID r, pr_Symbol r)"

definition UpsertPosition :: "position_row \<Rightarrow> store_db \<Rightarrow> store_db" where
  "UpsertPosition r db = db\<lparr>db_positions := row_put position_key (position_key r) r (db_positions db)\<rparr>"

definition GetPosition :: "store_db \<Rightarrow> string \<Rightarrow> string \<Rightarrow> position_row option" where
  "GetPosition db s sy = row_get position_key (db_positions db) (s, sy)"

definition UpsertStrategyState :: "state_row \<Rightarrow> store_db \<Rightarrow> (store_error, store_db) outcome" where
  "UpsertStrategyState r db =
     (if get_strategy_row db (sr_StrategyID r) = None then Err ErrConstraint
      else Ok (db\<lparr>db_states := row_put sr_StrategyID (sr_StrategyID r) r (db_states db)\<rparr>))"

definition GetStrategyState :: "store_db \<Rightarrow> string \<Rightarrow> state_row option" where
  "GetStrategyState db = row_get sr_StrategyID (db_states db)"

text \<open>Rows of a strategy: open orders by submission time and id, positions by symbol.\<close>

definition ListOpenOrders :: "store_db \<Rightarrow> string \<Rightarrow> order_row list" where
  "ListOpenOrders db s = sort_key or_SubmittedAt (sort_key or_OrderID
     (filter (\<lambda>r. or_StrategyID r = s \<and> or_Status r = ''open'') (db_orders db)))"

definition ListPositions :: "store_db \<Rightarrow> string \<Rightarrow> position_row list" where
  "ListPositions db s = sort_key pr_Symbol (filter (\<lambda>r. pr_StrategyID r = s) (db_positions db))"

text \<open>The pages of strategies, put together.\<close>

definition ListStrategies :: "store_db \<Rightarrow> strategy_row list" where
  "ListStrategies db = sort_key sg_CreatedAt (sort_key sg_StrategyID (db_strategies db))"

text \<open>Live orders that are not terminal.\<close>

definition ListNonTerminalLiveOrders :: "store_db \<Rightarrow> order_row list" where
  "ListNonTerminalLiveOrders db = sort_key or_SubmittedAt (sort_key or_OrderID
     (filter (\<lambda>r. or_ClientOrderID r \<noteq> None \<and>
        or_Status r \<in> {''pending_new'', ''open'', ''partially_filled''}) (db_orders db)))"

text \<open>Verdicts that consumed a rate token: approved or clipped, not a hold, after the cutoff.\<close>

definition CountRateVerdictsSince :: "store_db \<Rightarrow> string \<Rightarrow> string \<Rightarrow> int" where
  "CountRateVerdictsSince db s after = int (length (filter (\<lambda>v.
     (case row_get pp_ProposalID (db_proposals db) (vv_ProposalID v) of
        None \<Rightarrow> False | Some p \<Rightarrow> pp_StrategyID p = s \<and> pp_Action p \<noteq> ''hold'')
     \<and> vv_Decision v \<in> {''approve'', ''clip''} \<and> after < vv_EvaluatedAt v) (db_verdicts db)))"

text \<open>A decimal column.\<close>

definition parse_dec :: "'d dlib \<Rightarrow> string \<Rightarrow> (store_error, 'd) outcome" where
  "parse_dec L s = (case dFromString L s of None \<Rightarrow> Err ErrColumn | Some d \<Rightarrow> Ok d)"

section \<open>Facts about the tables\<close>

lemma set_ListStrategies [simp]: "set (ListStrategies db) = set (db_strategies db)"
  by (simp add: ListStrategies_def)

lemma set_ListOpenOrders [simp]:
  "set (ListOpenOrders db s) = {r \<in> set (db_orders db). or_StrategyID r = s \<and> or_Status r = ''open''}"
  by (auto simp: ListOpenOrders_def)

lemma set_ListPositions [simp]:
  "set (ListPositions db s) = {r \<in> set (db_positions db). pr_StrategyID r = s}"
  by (auto simp: ListPositions_def)

end
