(* ===== verification/KillStore.thy ===== *)
theory KillStore
  imports StoreTables Machine
begin

text \<open>
  The kill switch in the store (files \<open>killclear.go\<close>, \<open>safety.go\<close>, \<open>append.go\<close>): append-only kill
  and breaker events under one global epoch counter, append-only clears checked against the
  epoch the operator saw, served markers and alerts. Fresh alert identifiers are the parameter
  \<open>U\<close>, read at the number of alerts; epochs are unbounded integers.
\<close>

section \<open>Epochs and scopes\<close>

text \<open>\<open>COALESCE(MAX(x), 0)\<close> over the non-null values.\<close>

definition sql_max :: "int list \<Rightarrow> int" where
  "sql_max xs = (if xs = [] then 0 else Max (set xs))"

lemma sql_max_upper: "x \<in> set xs \<Longrightarrow> x \<le> sql_max xs"
  by (auto simp: sql_max_def)

lemma sql_max_in: "xs \<noteq> [] \<Longrightarrow> sql_max xs \<in> set xs"
  by (simp add: sql_max_def)

lemma sql_max_nonneg: "(\<And>x. x \<in> set xs \<Longrightarrow> 0 \<le> x) \<Longrightarrow> 0 \<le> sql_max xs"
  using sql_max_in [of xs] by (cases "xs = []") (auto simp: sql_max_def)

lemma sql_max_least: "(\<And>x. x \<in> set xs \<Longrightarrow> x \<le> m) \<Longrightarrow> 0 \<le> m \<Longrightarrow> sql_max xs \<le> m"
  by (cases "xs = []") (auto simp: sql_max_def)

lemma sql_max_snoc: "sql_max xs < x \<Longrightarrow> 0 \<le> x \<Longrightarrow> sql_max (xs @ [x]) = x"
  by (auto simp: sql_max_def intro!: Max_eqI split: if_splits)

definition epochs_of :: "kill_row list \<Rightarrow> int list" where
  "epochs_of es = List.map_filter ke_KillEpoch es"

lemma epochs_of_simps [simp]:
  "epochs_of [] = []"
  "epochs_of (es @ fs) = epochs_of es @ epochs_of fs"
  "epochs_of (e # es) = (case ke_KillEpoch e of None \<Rightarrow> epochs_of es | Some k \<Rightarrow> k # epochs_of es)"
  by (simp_all add: epochs_of_def List.map_filter_def split: option.splits)

lemma epochs_of_in: "e \<in> set es \<Longrightarrow> ke_KillEpoch e = Some k \<Longrightarrow> k \<in> set (epochs_of es)"
  by (induction es) (auto split: option.splits)

definition next_epoch :: "store_db \<Rightarrow> int" where
  "next_epoch db = sql_max (epochs_of (db_kills db)) + 1"

datatype kscope = ScopeStrategy string | ScopeTenant string | ScopePlatform

text \<open>The rows of a scope: a column that is null equals nothing.\<close>

definition in_scope :: "kscope \<Rightarrow> kill_row \<Rightarrow> bool" where
  "in_scope sc e = (case sc of
      ScopeStrategy s \<Rightarrow> ke_StrategyID e = Some s
    | ScopeTenant t \<Rightarrow> ke_StrategyID e = None \<and> ke_TenantID e = Some t
    | ScopePlatform \<Rightarrow> ke_StrategyID e = None \<and> ke_TenantID e = None)"

definition clears_scope :: "kscope \<Rightarrow> clear_row \<Rightarrow> bool" where
  "clears_scope sc c = (case sc of
      ScopeStrategy s \<Rightarrow> kc_Scope c = ''strategy'' \<and> kc_StrategyID c = Some s
    | ScopeTenant t \<Rightarrow> kc_Scope c = ''tenant'' \<and> kc_TenantID c = Some t
    | ScopePlatform \<Rightarrow> kc_Scope c = ''platform'')"

definition watermark :: "store_db \<Rightarrow> kscope \<Rightarrow> int" where
  "watermark db sc = sql_max (map kc_ClearedEpoch (filter (clears_scope sc) (db_clears db)))"

definition exceeds :: "kill_row \<Rightarrow> int \<Rightarrow> bool" where
  "exceeds e n = (case ke_KillEpoch e of None \<Rightarrow> False | Some k \<Rightarrow> n < k)"

definition tenant_of :: "store_db \<Rightarrow> string \<Rightarrow> string option" where
  "tenant_of db s = map_option sg_TenantID (get_strategy_row db s)"

text \<open>The three clauses of the kill predicate: the scopes that bind a strategy.\<close>

definition scopes_of :: "store_db \<Rightarrow> string \<Rightarrow> kscope list" where
  "scopes_of db s = [ScopeStrategy s, ScopePlatform] @
     (case tenant_of db s of None \<Rightarrow> [] | Some t \<Rightarrow> [ScopeTenant t])"

definition binds :: "store_db \<Rightarrow> string \<Rightarrow> kill_row \<Rightarrow> bool" where
  "binds db s e \<longleftrightarrow> list_ex (\<lambda>sc. in_scope sc e) (scopes_of db s)"

definition scope_active :: "store_db \<Rightarrow> kscope \<Rightarrow> bool" where
  "scope_active db sc \<longleftrightarrow>
     list_ex (\<lambda>e. ke_Kind e = ''kill'' \<and> in_scope sc e \<and> exceeds e (watermark db sc)) (db_kills db)"

definition ActiveKill :: "store_db \<Rightarrow> string \<Rightarrow> bool" where
  "ActiveKill db s \<longleftrightarrow>
     list_ex (\<lambda>e. ke_Kind e = ''kill'' \<and>
         list_ex (\<lambda>sc. in_scope sc e \<and> exceeds e (watermark db sc)) (scopes_of db s)) (db_kills db)"

definition GlobalMaxKillEpoch :: "store_db \<Rightarrow> string \<Rightarrow> int" where
  "GlobalMaxKillEpoch db s =
     sql_max (epochs_of (filter (\<lambda>e. ke_Kind e = ''kill'' \<and> binds db s e) (db_kills db)))"

definition BreakerActiveToday :: "store_db \<Rightarrow> string \<Rightarrow> string \<Rightarrow> bool" where
  "BreakerActiveToday db s date \<longleftrightarrow>
     list_ex (\<lambda>e. ke_Kind e = ''breaker'' \<and> take 10 (ke_RecordedAt e) = date \<and> binds db s e) (db_kills db)"

lemma ActiveKill_iff: "ActiveKill db s \<longleftrightarrow> (\<exists>sc \<in> set (scopes_of db s). scope_active db sc)"
  by (auto simp: ActiveKill_def scope_active_def list_ex_iff)

section \<open>Appending events\<close>

definition AppendKillBreakerEvent :: "kill_row \<Rightarrow> store_db \<Rightarrow> (store_error, store_db) outcome" where
  "AppendKillBreakerEvent e db =
     (if row_get ke_EventID (db_kills db) (ke_EventID e) \<noteq> None \<or> ke_Kind e \<notin> {''kill'', ''breaker''}
      then Err ErrConstraint else Ok (db\<lparr>db_kills := db_kills db @ [e]\<rparr>))"

definition AppendStrategyKill ::
  "string \<Rightarrow> string \<Rightarrow> string \<Rightarrow> string \<Rightarrow> bool \<Rightarrow> store_db \<Rightarrow> (store_error, store_db \<times> int) outcome" where
  "AppendStrategyKill ev s actor ts flat db =
     (case tenant_of db s of
        None \<Rightarrow> Err ErrNotFound
      | Some t \<Rightarrow> bind_outcome (AppendKillBreakerEvent
          \<lparr>ke_EventID = ev, ke_Kind = ''kill'', ke_Scope = ''strategy'', ke_StrategyID = Some s, ke_TenantID = Some t,
           ke_KillEpoch = Some (next_epoch db), ke_Flatten = Some flat, ke_TriggerRef = None, ke_ActorID = actor,
           ke_RecordedAt = ts\<rparr> db) (\<lambda>db'. Ok (db', next_epoch db)))"

definition AppendTenantKill ::
  "string \<Rightarrow> string \<Rightarrow> string \<Rightarrow> string \<Rightarrow> bool \<Rightarrow> store_db \<Rightarrow> (store_error, store_db \<times> int) outcome" where
  "AppendTenantKill ev t actor ts flat db =
     bind_outcome (AppendKillBreakerEvent
       \<lparr>ke_EventID = ev, ke_Kind = ''kill'', ke_Scope = ''tenant'', ke_StrategyID = None, ke_TenantID = Some t,
        ke_KillEpoch = Some (next_epoch db), ke_Flatten = Some flat, ke_TriggerRef = None, ke_ActorID = actor,
        ke_RecordedAt = ts\<rparr> db) (\<lambda>db'. Ok (db', next_epoch db))"

definition AppendPlatformKill ::
  "string \<Rightarrow> string \<Rightarrow> string \<Rightarrow> bool \<Rightarrow> store_db \<Rightarrow> (store_error, store_db \<times> int) outcome" where
  "AppendPlatformKill ev actor ts flat db =
     bind_outcome (AppendKillBreakerEvent
       \<lparr>ke_EventID = ev, ke_Kind = ''kill'', ke_Scope = ''platform'', ke_StrategyID = None, ke_TenantID = None,
        ke_KillEpoch = Some (next_epoch db), ke_Flatten = Some flat, ke_TriggerRef = None, ke_ActorID = actor,
        ke_RecordedAt = ts\<rparr> db) (\<lambda>db'. Ok (db', next_epoch db))"

section \<open>Served markers and alerts\<close>

definition SafetyEffectServed :: "store_db \<Rightarrow> string \<Rightarrow> bool" where
  "SafetyEffectServed db ev \<longleftrightarrow> al_get (db_effects db) ev \<noteq> None"

text \<open>\<open>INSERT OR IGNORE\<close>, with the foreign key enforced.\<close>

definition AppendSafetyEffectDone :: "string \<Rightarrow> string \<Rightarrow> store_db \<Rightarrow> (store_error, store_db) outcome" where
  "AppendSafetyEffectDone ev ts db =
     (if SafetyEffectServed db ev then Ok db
      else if row_get ke_EventID (db_kills db) ev = None then Err ErrConstraint
      else Ok (db\<lparr>db_effects := db_effects db @ [(ev, ts)]\<rparr>))"

definition AppendSafetyAlert :: "alert_row \<Rightarrow> store_db \<Rightarrow> (store_error, store_db) outcome" where
  "AppendSafetyAlert a db =
     (if row_get sa_AlertID (db_alerts db) (sa_AlertID a) \<noteq> None then Err ErrConstraint
      else Ok (db\<lparr>db_alerts := db_alerts db @ [a]\<rparr>))"

text \<open>An empty key of a dedupe read matches a null column.\<close>

definition null_matches :: "string option \<Rightarrow> string \<Rightarrow> bool" where
  "null_matches c k \<longleftrightarrow> c = Some k \<or> c = None \<and> k = []"

definition HasSafetyAlert :: "store_db \<Rightarrow> string \<Rightarrow> string \<Rightarrow> string \<Rightarrow> bool" where
  "HasSafetyAlert db kind s rf \<longleftrightarrow> list_ex (\<lambda>a. sa_Kind a = kind \<and>
     null_matches (sa_StrategyID a) s \<and> null_matches (sa_RefID a) rf) (db_alerts db)"

definition HasSafetyAlertToday :: "store_db \<Rightarrow> string \<Rightarrow> string \<Rightarrow> string \<Rightarrow> string \<Rightarrow> bool" where
  "HasSafetyAlertToday db kind s rf date \<longleftrightarrow> list_ex (\<lambda>a. sa_Kind a = kind \<and>
     null_matches (sa_StrategyID a) s \<and> null_matches (sa_RefID a) rf \<and>
     take 10 (sa_RecordedAt a) = date) (db_alerts db)"

definition tier :: "kill_row \<Rightarrow> nat" where
  "tier e = (if ke_StrategyID e = None \<and> ke_TenantID e = None then 0 else if ke_StrategyID e = None then 1 else 2)"

definition ListUnservedSafetyEvents :: "store_db \<Rightarrow> kill_row list" where
  "ListUnservedSafetyEvents db =
     sort_key tier (filter (\<lambda>e. \<not> SafetyEffectServed db (ke_EventID e)) (db_kills db))"

definition LatestStrategyKillEvent :: "store_db \<Rightarrow> string \<Rightarrow> (string \<times> string) option" where
  "LatestStrategyKillEvent db s =
     (case rev (filter (\<lambda>e. ke_Kind e = ''kill'' \<and> ke_Scope e = ''strategy'' \<and> ke_StrategyID e = Some s)
                  (db_kills db)) of
        [] \<Rightarrow> None | e # _ \<Rightarrow> Some (ke_EventID e, ke_ActorID e))"

section \<open>Clearing\<close>

text \<open>Go's quoting of the clear identifier in the alert details, for printable text.\<close>

definition go_quote :: "string \<Rightarrow> string" where
  "go_quote s = [CHR 0x22] @ concat (map (\<lambda>c. if c = CHR 0x22 \<or> c = CHR 0x5C then [CHR 0x5C, c] else [c]) s) @ [CHR 0x22]"

definition clear_details :: "string \<Rightarrow> string" where
  "clear_details i = ''{'' @ go_quote ''clear_id'' @ '':'' @ go_quote i @ ''}''"

definition covered :: "store_db \<Rightarrow> kscope \<Rightarrow> int \<Rightarrow> kill_row \<Rightarrow> bool" where
  "covered db sc n e \<longleftrightarrow> ke_Kind e = ''kill'' \<and> in_scope sc e \<and>
     (case ke_KillEpoch e of None \<Rightarrow> False | Some k \<Rightarrow> k \<le> n) \<and> \<not> SafetyEffectServed db (ke_EventID e)"

definition supersede_one ::
  "(nat \<Rightarrow> string) \<Rightarrow> string \<Rightarrow> string \<Rightarrow> store_db \<Rightarrow> kill_row \<Rightarrow> (store_error, store_db) outcome" where
  "supersede_one U clearID ts db e =
     (if SafetyEffectServed db (ke_EventID e) then Err ErrConstraint
      else AppendSafetyAlert
        \<lparr>sa_AlertID = U (length (db_alerts db)), sa_Kind = ''kill_effects_superseded'', sa_StrategyID = ke_StrategyID e,
         sa_RefID = Some (ke_EventID e), sa_DetailsJSON = clear_details clearID, sa_RecordedAt = ts\<rparr>
        (db\<lparr>db_effects := db_effects db @ [(ke_EventID e, ts)]\<rparr>))"

definition supersedeUnserved ::
  "(nat \<Rightarrow> string) \<Rightarrow> string \<Rightarrow> kscope \<Rightarrow> int \<Rightarrow> string \<Rightarrow> store_db \<Rightarrow> (store_error, store_db \<times> string list) outcome" where
  "supersedeUnserved U clearID sc n ts db =
     (let es = filter (covered db sc n) (db_kills db)
      in bind_outcome (fold_ok (supersede_one U clearID ts) es db) (\<lambda>db'. Ok (db', map ke_EventID es)))"

definition scope_max :: "store_db \<Rightarrow> kscope \<Rightarrow> int" where
  "scope_max db sc = sql_max (epochs_of (filter (\<lambda>e. ke_Kind e = ''kill'' \<and> in_scope sc e) (db_kills db)))"

definition clear_row_of ::
  "store_db \<Rightarrow> string \<Rightarrow> kscope \<Rightarrow> string \<Rightarrow> string \<Rightarrow> int \<Rightarrow> string \<Rightarrow> clear_row" where
  "clear_row_of db clearID sc actor reason n ts =
     \<lparr>kc_ClearID = clearID,
      kc_Scope = (case sc of ScopeStrategy _ \<Rightarrow> ''strategy'' | ScopeTenant _ \<Rightarrow> ''tenant'' | ScopePlatform \<Rightarrow> ''platform''),
      kc_StrategyID = (case sc of ScopeStrategy s \<Rightarrow> Some s | _ \<Rightarrow> None),
      kc_TenantID = (case sc of ScopeStrategy s \<Rightarrow> tenant_of db s | ScopeTenant t \<Rightarrow> Some t | ScopePlatform \<Rightarrow> None),
      kc_ClearedEpoch = n, kc_ActorID = actor, kc_Reason = reason, kc_RecordedAt = ts\<rparr>"

definition appendKillClear ::
  "(nat \<Rightarrow> string) \<Rightarrow> string \<Rightarrow> kscope \<Rightarrow> string \<Rightarrow> string \<Rightarrow> int \<Rightarrow> string \<Rightarrow> store_db \<Rightarrow>
     (store_error, store_db \<times> int \<times> string list) outcome" where
  "appendKillClear U clearID sc actor reason observed ts db =
     (if (case sc of ScopeStrategy s \<Rightarrow> tenant_of db s = None | _ \<Rightarrow> False) then Err ErrNotFound
      else if \<not> scope_active db sc then Err ErrNoActiveKill
      else if scope_max db sc \<noteq> observed then Err ErrClearConflict
      else if row_get kc_ClearID (db_clears db) clearID \<noteq> None then Err ErrConstraint
      else bind_outcome
        (supersedeUnserved U clearID sc observed ts
           (db\<lparr>db_clears := db_clears db @ [clear_row_of db clearID sc actor reason observed ts]\<rparr>))
        (\<lambda>(db', ids). Ok (db', observed, ids)))"

section \<open>The kill switch as a machine\<close>

datatype kill_op =
    OpStrategyKill string string string string bool
  | OpTenantKill string string string string bool
  | OpPlatformKill string string string bool
  | OpBreaker kill_row
  | OpDone string string
  | OpAlert alert_row
  | OpClear string kscope string string int string

text \<open>The breaker monitor appends rows of kind \<open>breaker\<close> without an epoch.\<close>

definition kill_step :: "(nat \<Rightarrow> string) \<Rightarrow> store_db \<Rightarrow> kill_op \<Rightarrow> store_db option" where
  "kill_step U db op = (case op of
      OpStrategyKill ev s a ts f \<Rightarrow> (case AppendStrategyKill ev s a ts f db of Ok (d, _) \<Rightarrow> Some d | _ \<Rightarrow> None)
    | OpTenantKill ev t a ts f \<Rightarrow> (case AppendTenantKill ev t a ts f db of Ok (d, _) \<Rightarrow> Some d | _ \<Rightarrow> None)
    | OpPlatformKill ev a ts f \<Rightarrow> (case AppendPlatformKill ev a ts f db of Ok (d, _) \<Rightarrow> Some d | _ \<Rightarrow> None)
    | OpBreaker e \<Rightarrow> if ke_Kind e = ''breaker'' \<and> ke_KillEpoch e = None
        then (case AppendKillBreakerEvent e db of Ok d \<Rightarrow> Some d | _ \<Rightarrow> None) else None
    | OpDone ev ts \<Rightarrow> (case AppendSafetyEffectDone ev ts db of Ok d \<Rightarrow> Some d | _ \<Rightarrow> None)
    | OpAlert a \<Rightarrow> (case AppendSafetyAlert a db of Ok d \<Rightarrow> Some d | _ \<Rightarrow> None)
    | OpClear i sc a r n ts \<Rightarrow> (case appendKillClear U i sc a r n ts db of Ok (d, _) \<Rightarrow> Some d | _ \<Rightarrow> None))"

text \<open>The scope a kill operation fences.\<close>

definition kills_scope :: "kscope \<Rightarrow> kill_op \<Rightarrow> bool" where
  "kills_scope sc op = (case op of
      OpStrategyKill _ s _ _ _ \<Rightarrow> sc = ScopeStrategy s
    | OpTenantKill _ t _ _ _ \<Rightarrow> sc = ScopeTenant t
    | OpPlatformKill _ _ _ _ \<Rightarrow> sc = ScopePlatform
    | _ \<Rightarrow> False)"

definition op_clears :: "kscope \<Rightarrow> kill_op \<Rightarrow> bool" where
  "op_clears sc op = (case op of OpClear _ sc' _ _ _ _ \<Rightarrow> sc' = sc | _ \<Rightarrow> False)"

definition kill_inv :: "store_db \<Rightarrow> bool" where
  "kill_inv db \<longleftrightarrow> sorted_wrt (<) (0 # epochs_of (db_kills db))
     \<and> (\<forall>c \<in> set (db_clears db). kc_ClearedEpoch c \<le> sql_max (epochs_of (db_kills db)))
     \<and> (\<forall>e \<in> set (db_kills db). ke_Kind e = ''kill'' \<longrightarrow> ke_KillEpoch e \<noteq> None)
     \<and> distinct (map ke_EventID (db_kills db))"

lemma kill_inv_empty: "kill_inv (empty_db\<lparr>db_strategies := rs\<rparr>)"
  by (simp add: kill_inv_def empty_db_def)

text \<open>What a step does to each table.\<close>

lemmas kill_op_defs = kill_step_def AppendStrategyKill_def AppendTenantKill_def AppendPlatformKill_def
  AppendKillBreakerEvent_def AppendSafetyEffectDone_def AppendSafetyAlert_def bind_outcome_eq_Ok

lemma supersede_one_frame:
  "supersede_one U i ts db e = Ok d \<Longrightarrow> db_kills d = db_kills db \<and> db_clears d = db_clears db
     \<and> db_strategies d = db_strategies db \<and> map fst (db_effects d) = map fst (db_effects db) @ [ke_EventID e]"
  by (auto simp: supersede_one_def AppendSafetyAlert_def split: if_splits)

lemma supersede_frame:
  "fold_ok (supersede_one U i ts) es db = Ok d \<Longrightarrow> db_kills d = db_kills db \<and> db_clears d = db_clears db
     \<and> db_strategies d = db_strategies db \<and> map fst (db_effects d) = map fst (db_effects db) @ map ke_EventID es"
proof (induction es arbitrary: db)
  case (Cons e es)
  obtain c where c: "supersede_one U i ts db e = Ok c" "fold_ok (supersede_one U i ts) es c = Ok d"
    using Cons.prems by (cases "supersede_one U i ts db e") simp_all
  show ?case using supersede_one_frame [OF c(1)] Cons.IH [OF c(2)] by simp
qed simp

lemma appendKillClear_Ok:
  assumes "appendKillClear U i sc a r n ts db = Ok (d, m, ids)"
  shows "m = n \<and> scope_active db sc \<and> scope_max db sc = n \<and> db_kills d = db_kills db
     \<and> db_clears d = db_clears db @ [clear_row_of db i sc a r n ts] \<and> db_strategies d = db_strategies db
     \<and> ids = map ke_EventID (filter (covered db sc n) (db_kills db))
     \<and> map fst (db_effects d) = map fst (db_effects db) @ ids"
proof -
  let ?db1 = "db\<lparr>db_clears := db_clears db @ [clear_row_of db i sc a r n ts]\<rparr>"
  have g: "scope_active db sc" "scope_max db sc = n"
    and s: "supersedeUnserved U i sc n ts ?db1 = Ok (d, ids)" and m: "m = n"
    using assms by (auto simp: appendKillClear_def bind_outcome_eq_Ok split: if_splits)
  have cov: "covered ?db1 sc n = covered db sc n"
    by (rule ext) (simp add: covered_def SafetyEffectServed_def)
  have f: "fold_ok (supersede_one U i ts) (filter (covered db sc n) (db_kills db)) ?db1 = Ok d"
    and ids: "ids = map ke_EventID (filter (covered db sc n) (db_kills db))"
    using s by (auto simp: supersedeUnserved_def Let_def bind_outcome_eq_Ok cov)
  show ?thesis using g m ids supersede_frame [OF f] by simp
qed

lemma kill_step_strategies: "kill_step U db op = Some d \<Longrightarrow> db_strategies d = db_strategies db"
  by (auto simp: kill_op_defs split: kill_op.splits outcome.splits option.splits if_splits
      dest: appendKillClear_Ok)

definition op_row :: "store_db \<Rightarrow> kill_op \<Rightarrow> kill_row list" where
  "op_row db op = (case op of
      OpStrategyKill ev s a ts f \<Rightarrow> [\<lparr>ke_EventID = ev, ke_Kind = ''kill'', ke_Scope = ''strategy'', ke_StrategyID = Some s,
        ke_TenantID = tenant_of db s, ke_KillEpoch = Some (next_epoch db), ke_Flatten = Some f, ke_TriggerRef = None,
        ke_ActorID = a, ke_RecordedAt = ts\<rparr>]
    | OpTenantKill ev t a ts f \<Rightarrow> [\<lparr>ke_EventID = ev, ke_Kind = ''kill'', ke_Scope = ''tenant'', ke_StrategyID = None,
        ke_TenantID = Some t, ke_KillEpoch = Some (next_epoch db), ke_Flatten = Some f, ke_TriggerRef = None,
        ke_ActorID = a, ke_RecordedAt = ts\<rparr>]
    | OpPlatformKill ev a ts f \<Rightarrow> [\<lparr>ke_EventID = ev, ke_Kind = ''kill'', ke_Scope = ''platform'', ke_StrategyID = None,
        ke_TenantID = None, ke_KillEpoch = Some (next_epoch db), ke_Flatten = Some f, ke_TriggerRef = None,
        ke_ActorID = a, ke_RecordedAt = ts\<rparr>]
    | OpBreaker e \<Rightarrow> [e] | _ \<Rightarrow> [])"

lemma kill_step_kills:
  "kill_step U db op = Some d \<Longrightarrow> db_kills d = db_kills db @ op_row db op
     \<and> (\<forall>e \<in> set (op_row db op). row_get ke_EventID (db_kills db) (ke_EventID e) = None)"
  by (auto simp: kill_op_defs op_row_def split: kill_op.splits outcome.splits option.splits if_splits
      dest: appendKillClear_Ok)

lemma kill_step_clears:
  "kill_step U db op = Some d \<Longrightarrow> db_clears d = db_clears db @
     (case op of OpClear i sc a r n ts \<Rightarrow> [clear_row_of db i sc a r n ts] | _ \<Rightarrow> [])"
  by (auto simp: kill_op_defs split: kill_op.splits outcome.splits option.splits if_splits
      dest: appendKillClear_Ok)

lemma kill_step_clear_max:
  "kill_step U db (OpClear i sc a r n ts) = Some d \<Longrightarrow> n = scope_max db sc"
  by (auto simp: kill_step_def split: outcome.splits dest: appendKillClear_Ok)

lemma op_row_breaker:
  "kill_step U db op = Some d \<Longrightarrow> e \<in> set (op_row db op) \<Longrightarrow>
     ke_Kind e = ''kill'' \<and> ke_KillEpoch e = Some (next_epoch db) \<or> ke_Kind e = ''breaker'' \<and> ke_KillEpoch e = None"
  by (auto simp: kill_step_def op_row_def split: kill_op.splits if_splits)

lemma epochs_of_subset: "set (epochs_of (filter P es)) \<subseteq> set (epochs_of es)"
  by (induction es) (auto split: option.splits)

lemma sorted_max: "sorted_wrt (<) (0 # xs) \<Longrightarrow> 0 \<le> sql_max xs \<and> (\<forall>x \<in> set xs. 0 < x)"
  by (cases "xs = []") (auto simp: sql_max_def intro: less_imp_le)

lemma scope_max_le: "kill_inv db \<Longrightarrow> scope_max db sc \<le> sql_max (epochs_of (db_kills db))"
  unfolding scope_max_def kill_inv_def
  by (rule sql_max_least) (use epochs_of_subset sorted_max in \<open>auto intro: sql_max_upper\<close>)

lemma watermark_le: "kill_inv db \<Longrightarrow> watermark db sc \<le> sql_max (epochs_of (db_kills db))"
  unfolding watermark_def kill_inv_def
  by (rule sql_max_least) (use sorted_max in auto)

lemma next_epoch_above: "kill_inv db \<Longrightarrow> k \<in> set (epochs_of (db_kills db)) \<Longrightarrow> k < next_epoch db"
  using sql_max_upper [of k "epochs_of (db_kills db)"] by (simp add: next_epoch_def)

lemma kill_step_inv:
  assumes inv: "kill_inv db" and st: "kill_step U db op = Some d"
  shows "kill_inv d"
proof -
  let ?ks = "db_kills db" and ?es = "op_row db op"
  note ks = kill_step_kills [OF st]
  have one: "?es = [] \<or> (\<exists>e. ?es = [e])" by (simp add: op_row_def split: kill_op.splits)
  have pos: "0 < next_epoch db" using inv sorted_max [of "epochs_of ?ks"] by (simp add: kill_inv_def next_epoch_def)
  have srt: "sorted_wrt (<) (0 # epochs_of (db_kills d))"
    using one
  proof
    assume "\<exists>e. ?es = [e]"
    then obtain e where e: "?es = [e]" ..
    with op_row_breaker [OF st, of e] inv next_epoch_above [OF inv] pos show ?thesis
      by (auto simp: ks kill_inv_def sorted_wrt_append)
  qed (use ks inv in \<open>simp add: kill_inv_def\<close>)
  have mono: "sql_max (epochs_of ?ks) \<le> sql_max (epochs_of (db_kills d))"
    using inv srt sorted_max [of "epochs_of (db_kills d)"]
    by (intro sql_max_least) (auto simp: ks intro: sql_max_upper)
  have cl: "\<forall>c \<in> set (db_clears d). kc_ClearedEpoch c \<le> sql_max (epochs_of (db_kills d))"
  proof
    fix c assume c: "c \<in> set (db_clears d)"
    show "kc_ClearedEpoch c \<le> sql_max (epochs_of (db_kills d))"
    proof (cases "c \<in> set (db_clears db)")
      case True
      then have "kc_ClearedEpoch c \<le> sql_max (epochs_of ?ks)" using inv by (simp add: kill_inv_def)
      with mono show ?thesis by simp
    next
      case False
      then obtain i sc a r n ts where op: "op = OpClear i sc a r n ts" and "kc_ClearedEpoch c = n"
        using c kill_step_clears [OF st] by (auto simp: clear_row_of_def split: kill_op.splits)
      moreover have "n = scope_max db sc" using kill_step_clear_max st op by blast
      ultimately show ?thesis using scope_max_le [OF inv, of sc] mono by simp
    qed
  qed
  have kinds: "\<forall>e \<in> set (db_kills d). ke_Kind e = ''kill'' \<longrightarrow> ke_KillEpoch e \<noteq> None"
  proof -
    have "ke_KillEpoch e \<noteq> None" if "e \<in> set ?es" "ke_Kind e = ''kill''" for e
      using op_row_breaker [OF st that(1)] that(2) by auto
    with inv show ?thesis by (auto simp: ks kill_inv_def)
  qed
  have "distinct (map ke_EventID (db_kills d))"
    using one
  proof
    assume "\<exists>e. ?es = [e]"
    then obtain e where "?es = [e]" ..
    with inv ks show ?thesis by (simp add: kill_inv_def row_get_None_iff)
  qed (use ks inv in \<open>simp add: kill_inv_def\<close>)
  with srt cl kinds show ?thesis by (simp add: kill_inv_def)
qed

interpretation kill_machine: machine "kill_step U" kill_inv for U
  by unfold_locales (rule kill_step_inv)

section \<open>What a kill fences and what lifts it\<close>

lemma kill_step_watermark:
  assumes "kill_step U db op = Some d" "\<not> op_clears sc op"
  shows "watermark d sc = watermark db sc"
proof -
  have "clears_scope sc (clear_row_of db i sc' a r n ts) \<longleftrightarrow> sc' = sc" for i sc' a r n ts
    by (auto simp: clears_scope_def clear_row_of_def split: kscope.splits)
  with assms show ?thesis
    by (auto simp: watermark_def kill_step_clears [OF assms(1)] op_clears_def split: kill_op.splits)
qed

lemma kill_step_active:
  "kill_step U db op = Some d \<Longrightarrow> \<not> op_clears sc op \<Longrightarrow> scope_active db sc \<Longrightarrow> scope_active d sc"
  by (auto simp: scope_active_def kill_step_watermark kill_step_kills)

lemma kill_step_kill:
  assumes inv: "kill_inv db" and st: "kill_step U db op = Some d" and k: "kills_scope sc op"
  shows "scope_active d sc" and "sql_max (epochs_of (db_kills db)) < scope_max d sc"
proof -
  obtain e where e: "op_row db op = [e]" "in_scope sc e" "ke_Kind e = ''kill''" "ke_KillEpoch e = Some (next_epoch db)"
    using k by (auto simp: kills_scope_def op_row_def in_scope_def split: kill_op.splits)
  have "\<not> op_clears sc op" using k by (auto simp: kills_scope_def op_clears_def split: kill_op.splits)
  then have "watermark d sc < next_epoch db"
    using kill_step_watermark [OF st] watermark_le [OF inv, of sc] by (simp add: next_epoch_def)
  with e show "scope_active d sc"
    by (simp add: scope_active_def kill_step_kills [OF st] exceeds_def)
  have "next_epoch db \<le> scope_max d sc"
    unfolding scope_max_def by (rule sql_max_upper) (simp add: kill_step_kills [OF st] e)
  then show "sql_max (epochs_of (db_kills db)) < scope_max d sc" by (simp add: next_epoch_def)
qed

lemma kill_step_scope_max:
  assumes "kill_inv db" "kill_step U db op = Some d" shows "scope_max db sc \<le> scope_max d sc"
proof -
  have "kill_inv d" by (rule kill_step_inv [OF assms])
  then have "sorted_wrt (<) (0 # epochs_of (db_kills d))" by (simp add: kill_inv_def)
  then have pos: "0 < x" if "x \<in> set (epochs_of (db_kills d))" for x using that by simp
  let ?P = "\<lambda>e. ke_Kind e = ''kill'' \<and> in_scope sc e"
  have sub: "set (epochs_of (filter ?P (db_kills db))) \<subseteq> set (epochs_of (filter ?P (db_kills d)))"
    by (simp add: kill_step_kills [OF assms(2)])
  have "0 \<le> scope_max d sc"
    unfolding scope_max_def
    by (rule sql_max_nonneg) (use pos epochs_of_subset [of ?P "db_kills d"] in \<open>auto intro: less_imp_le\<close>)
  then show ?thesis
    unfolding scope_max_def [of db] by (intro sql_max_least) (use sub in \<open>auto simp: scope_max_def intro: sql_max_upper\<close>)
qed

lemma scopes_of_frame: "db_strategies d = db_strategies db \<Longrightarrow> scopes_of d s = scopes_of db s"
  by (simp add: scopes_of_def tenant_of_def get_strategy_row_def)

lemma run_kill_frame:
  "run (kill_step U) db ops = Some d \<Longrightarrow> db_strategies d = db_strategies db"
  by (induction ops arbitrary: db) (auto split: option.splits dest: kill_step_strategies)

lemma run_kill_active:
  "run (kill_step U) db ops = Some d \<Longrightarrow> list_all (\<lambda>op. \<not> op_clears sc op) ops \<Longrightarrow> scope_active db sc \<Longrightarrow>
     scope_active d sc"
  by (induction ops arbitrary: db) (auto split: option.splits dest: kill_step_active)

lemma run_kill_scope_max:
  "kill_inv db \<Longrightarrow> run (kill_step U) db ops = Some d \<Longrightarrow> scope_max db sc \<le> scope_max d sc"
proof (induction ops arbitrary: db)
  case (Cons op ops)
  then obtain c where c: "kill_step U db op = Some c" "run (kill_step U) c ops = Some d"
    by (auto split: option.splits)
  with Cons.IH [OF kill_step_inv [OF Cons.prems(1) c(1)] c(2)] kill_step_scope_max [OF Cons.prems(1) c(1), of sc]
  show ?case by simp
qed simp

lemma kill_binds:
  assumes "kill_inv db" and "kill_step U db op = Some db1" and "kills_scope sc op"
    and "sc \<in> set (scopes_of db s)"
    and "run (kill_step U) db1 ops = Some db2" and "list_all (\<lambda>x. \<not> op_clears sc x) ops"
  shows "ActiveKill db2 s"
proof -
  have "scope_active db2 sc" using run_kill_active [OF assms(5,6) kill_step_kill(1) [OF assms(1-3)]] .
  moreover have "scopes_of db2 s = scopes_of db s"
    by (rule scopes_of_frame) (simp add: run_kill_frame [OF assms(5)] kill_step_strategies [OF assms(2)])
  ultimately show ?thesis using assms(4) by (auto simp: ActiveKill_iff)
qed

text \<open>A database whose two strategies share a tenant, for the witnesses.\<close>

definition kill_demo :: store_db where
  "kill_demo = empty_db\<lparr>db_strategies :=
     [\<lparr>sg_StrategyID = ''a'', sg_TenantID = ''t'', sg_Name = ''A'', sg_LifecycleState = ''live_l1'',
       sg_CreatedAt = ''2026-01-01T00:00:00Z'', sg_UpdatedAt = ''2026-01-01T00:00:00Z''\<rparr>,
      \<lparr>sg_StrategyID = ''b'', sg_TenantID = ''t'', sg_Name = ''B'', sg_LifecycleState = ''paper'',
       sg_CreatedAt = ''2026-01-01T00:00:00Z'', sg_UpdatedAt = ''2026-01-01T00:00:00Z''\<rparr>]\<rparr>"

lemma kill_demo_inv: "kill_inv kill_demo"
  unfolding kill_demo_def by (rule kill_inv_empty)

definition demo_ids :: "nat \<Rightarrow> string" where
  "demo_ids n = replicate (Suc n) CHR ''x''"

definition demo_kill :: kill_op where
  "demo_kill = OpTenantKill ''k1'' ''t'' ''admin'' ''2026-02-01T00:00:00Z'' False"

definition demo_more :: "kill_op list" where
  "demo_more = [OpPlatformKill ''k2'' ''root'' ''2026-02-01T00:00:01Z'' True,
     OpClear ''c1'' ScopePlatform ''root'' ''done'' 2 ''2026-02-01T00:00:02Z'']"

definition demo_killed :: store_db where
  "demo_killed = the (kill_step demo_ids kill_demo demo_kill)"

definition demo_later :: store_db where
  "demo_later = the (run (kill_step demo_ids) demo_killed demo_more)"

lemma demo_killed: "kill_step demo_ids kill_demo demo_kill = Some demo_killed"
proof -
  have "kill_step demo_ids kill_demo demo_kill \<noteq> None" by code_simp
  then show ?thesis by (simp add: demo_killed_def)
qed

lemma demo_later: "run (kill_step demo_ids) demo_killed demo_more = Some demo_later"
proof -
  have "run (kill_step demo_ids) demo_killed demo_more \<noteq> None" by code_simp
  then show ?thesis by (simp add: demo_later_def)
qed

text \<open>C6: a kill fences every strategy its scope binds until that scope is cleared: after a kill of a
  scope and any further operations of the kill switch without a clear of this scope (further kills,
  breakers, served markers, alerts, clears of other scopes), the active-kill predicate holds for the
  strategy.\<close>

theorem kill_fences_until_cleared:
  assumes "kill_inv db" and "kill_step U db op = Some db1" and "kills_scope sc op"
    and "sc \<in> set (scopes_of db s)"
    and "run (kill_step U) db1 ops = Some db2" and "list_all (\<lambda>x. \<not> op_clears sc x) ops"
  shows "ActiveKill db2 s"
  by (rule kill_binds [OF assms])

theorem kill_fences_until_cleared_witness:
  "kill_step demo_ids kill_demo demo_kill = Some demo_killed
     \<and> run (kill_step demo_ids) demo_killed demo_more = Some demo_later
     \<and> ActiveKill demo_later ''b''"
proof -
  have k: "kills_scope (ScopeTenant ''t'') demo_kill" by code_simp
  have b: "ScopeTenant ''t'' \<in> set (scopes_of kill_demo ''b'')" by code_simp
  have c: "list_all (\<lambda>x. \<not> op_clears (ScopeTenant ''t'') x) demo_more" by code_simp
  show ?thesis
    using demo_killed demo_later
      kill_fences_until_cleared [OF kill_demo_inv demo_killed k b demo_later c] by simp
qed

text \<open>a clear never sweeps away a kill its operator did not see: when a kill of the scope lands
  anywhere between the operator's read of the scope's highest epoch and the clear, with other
  operations around it, the clear is refused.\<close>

theorem clear_refused_after_unseen_kill:
  assumes "kill_inv db" and "run (kill_step U) db pre = Some db1"
    and "kill_step U db1 op = Some db2" and "kills_scope sc op"
    and "run (kill_step U) db2 post = Some db3"
  shows "appendKillClear U i sc a r (scope_max db sc) ts db3 \<noteq> Ok (d, m, ids)"
proof
  assume "appendKillClear U i sc a r (scope_max db sc) ts db3 = Ok (d, m, ids)"
  then have eq: "scope_max db3 sc = scope_max db sc" by (auto dest: appendKillClear_Ok)
  have inv1: "kill_inv db1" by (rule kill_machine.run_inv [OF assms(1,2)])
  have inv2: "kill_inv db2" by (rule kill_step_inv [OF inv1 assms(3)])
  have "scope_max db sc \<le> scope_max db1 sc" by (rule run_kill_scope_max [OF assms(1,2)])
  also have "\<dots> \<le> sql_max (epochs_of (db_kills db1))" by (rule scope_max_le [OF inv1])
  also have "\<dots> < scope_max db2 sc" by (rule kill_step_kill(2) [OF inv1 assms(3,4)])
  also have "\<dots> \<le> scope_max db3 sc" by (rule run_kill_scope_max [OF inv2 assms(5)])
  finally show False using eq by simp
qed

theorem clear_refused_after_unseen_kill_witness:
  "scope_max kill_demo (ScopeTenant ''t'') = 0
     \<and> appendKillClear demo_ids ''c2'' (ScopeTenant ''t'') ''admin'' ''early'' 0 ''2026-02-02T00:00:00Z'' demo_later
         \<noteq> Ok (demo_later, 0, [])"
proof -
  have k: "kills_scope (ScopeTenant ''t'') demo_kill" by code_simp
  have r: "run (kill_step demo_ids) kill_demo [] = Some kill_demo" by simp
  have z: "scope_max kill_demo (ScopeTenant ''t'') = 0" by code_simp
  show ?thesis
    using clear_refused_after_unseen_kill [OF kill_demo_inv r demo_killed k demo_later,
        where i = "''c2''" and a = "''admin''" and r = "''early''" and ts = "''2026-02-02T00:00:00Z''"
          and d = demo_later and m = 0 and ids = "[]"] z by simp
qed

text \<open>a clear that succeeds recorded exactly the epoch the operator observed, lifts its own scope,
  leaves the kill rows and every other scope's fence as they were, and marks every kill of the scope
  as served, so no later pass of the safety driver executes its effects.\<close>

theorem clear_lifts_exactly_its_scope:
  assumes inv: "kill_inv db" and ok: "appendKillClear U i sc a r n ts db = Ok (db', m, ids)"
  shows "m = n \<and> n = scope_max db sc \<and> \<not> scope_active db' sc \<and> db_kills db' = db_kills db
     \<and> (\<forall>sc'. sc' = sc \<or> scope_active db' sc' = scope_active db sc')
     \<and> filter (\<lambda>e. ke_Kind e = ''kill'' \<and> in_scope sc e) (ListUnservedSafetyEvents db') = []"
proof -
  note f = appendKillClear_Ok [OF ok]
  have cs: "clears_scope sc' (clear_row_of db i sc a r n ts) \<longleftrightarrow> sc' = sc" for sc'
    by (auto simp: clears_scope_def clear_row_of_def split: kscope.splits)
  have top: "k \<le> n" if "e \<in> set (db_kills db)" "ke_Kind e = ''kill''" "in_scope sc e" "ke_KillEpoch e = Some k" for e k
  proof -
    have "k \<le> scope_max db sc" unfolding scope_max_def
      by (rule sql_max_upper) (use that epochs_of_in in auto)
    with f show ?thesis by simp
  qed
  have "kc_ClearedEpoch (clear_row_of db i sc a r n ts) = n" by (simp add: clear_row_of_def)
  then have "n \<le> watermark db' sc" unfolding watermark_def
    by (intro sql_max_upper) (simp add: f cs)
  then have off: "\<not> scope_active db' sc"
    using top f by (fastforce simp: scope_active_def list_ex_iff exceeds_def split: option.splits)
  have other: "sc' = sc \<or> scope_active db' sc' = scope_active db sc'" for sc'
  proof (cases "sc' = sc")
    case False
    then have "watermark db' sc' = watermark db sc'" by (simp add: watermark_def f cs)
    then show ?thesis by (simp add: scope_active_def f)
  qed simp
  have served: "SafetyEffectServed db' (ke_EventID e)"
    if e: "e \<in> set (db_kills db)" "ke_Kind e = ''kill''" "in_scope sc e" for e
  proof (cases "SafetyEffectServed db (ke_EventID e)")
    case True
    then have "ke_EventID e \<in> set (map fst (db_effects db'))"
      by (simp add: f SafetyEffectServed_def map_of_eq_None_iff)
    then show ?thesis by (simp add: SafetyEffectServed_def map_of_eq_None_iff)
  next
    case False
    moreover obtain k where "ke_KillEpoch e = Some k" using inv e by (auto simp: kill_inv_def)
    ultimately have "covered db sc n e" using top e by (simp add: covered_def)
    then have "ke_EventID e \<in> set ids" using e(1) f by simp
    then have "ke_EventID e \<in> set (map fst (db_effects db'))" by (simp add: f)
    then show ?thesis by (simp add: SafetyEffectServed_def map_of_eq_None_iff)
  qed
  have "filter (\<lambda>e. ke_Kind e = ''kill'' \<and> in_scope sc e) (ListUnservedSafetyEvents db') = []"
    unfolding filter_empty_conv by (auto simp: ListUnservedSafetyEvents_def f served)
  with f off other show ?thesis by simp
qed

definition demo_cleared :: "store_db \<times> int \<times> string list" where
  "demo_cleared = (case appendKillClear demo_ids ''c3'' (ScopeTenant ''t'') ''admin'' ''ok'' 1 ''2026-02-02T00:00:00Z'' demo_later
     of Ok x \<Rightarrow> x | _ \<Rightarrow> (kill_demo, 0, []))"

theorem clear_lifts_exactly_its_scope_witness:
  "ActiveKill demo_later ''b'' \<and> \<not> scope_active (fst demo_cleared) (ScopeTenant ''t'')
     \<and> \<not> ActiveKill (fst demo_cleared) ''b'' \<and> snd demo_cleared = (1, [''k1''])"
proof -
  obtain d m ids where d: "demo_cleared = (d, m, ids)" by (cases demo_cleared)
  have "case appendKillClear demo_ids ''c3'' (ScopeTenant ''t'') ''admin'' ''ok'' 1 ''2026-02-02T00:00:00Z'' demo_later
     of Ok x \<Rightarrow> True | _ \<Rightarrow> False" by code_simp
  then have ok: "appendKillClear demo_ids ''c3'' (ScopeTenant ''t'') ''admin'' ''ok'' 1 ''2026-02-02T00:00:00Z'' demo_later
      = Ok (d, m, ids)"
    using d by (simp add: demo_cleared_def split: outcome.splits)
  have inv: "kill_inv demo_later"
    by (rule kill_machine.run_inv [OF kill_step_inv [OF kill_demo_inv demo_killed] demo_later])
  have "ActiveKill demo_later ''b''" "\<not> ActiveKill (fst demo_cleared) ''b''" "snd demo_cleared = (1, [''k1''])"
    by code_simp+
  moreover have "\<not> scope_active (fst demo_cleared) (ScopeTenant ''t'')"
    unfolding d fst_conv using clear_lifts_exactly_its_scope [OF inv ok] by simp
  ultimately show ?thesis by simp
qed

end
