(* ===== verification/LifecycleStore.thy ===== *)
theory LifecycleStore
  imports KillStore
begin

text \<open>
  Lifecycle states in the store (files \<open>store/append.go\<close>, \<open>store/lifecycle.go\<close>, \<open>store/write.go\<close>,
  \<open>store/safety.go\<close>): the transition audit rows, the compare-and-swap commit that re-checks the
  kill switch, the safety driver's lock, and the window that the paper gate counts from; then the
  machine of all writers of lifecycle states together with the kill switch.
\<close>

section \<open>Transition rows\<close>

definition set_lifecycle :: "string \<Rightarrow> string \<Rightarrow> string \<Rightarrow> store_db \<Rightarrow> store_db" where
  "set_lifecycle s to ts db = db\<lparr>db_strategies := map (\<lambda>r. if sg_StrategyID r = s
     then r\<lparr>sg_LifecycleState := to, sg_UpdatedAt := ts\<rparr> else r) (db_strategies db)\<rparr>"

text \<open>The audit row and the snapshot, in one transaction.\<close>

definition AppendLifecycleTransition :: "transition_row \<Rightarrow> store_db \<Rightarrow> (store_error, store_db) outcome" where
  "AppendLifecycleTransition t db =
     (if row_get lt_TransitionID (db_transitions db) (lt_TransitionID t) \<noteq> None
         \<or> get_strategy_row db (lt_StrategyID t) = None
      then Err ErrConstraint
      else Ok (set_lifecycle (lt_StrategyID t) (lt_ToState t) (lt_RecordedAt t)
                 (db\<lparr>db_transitions := db_transitions db @ [t]\<rparr>)))"

definition AppendLifecycleTransitionCAS ::
  "transition_row \<Rightarrow> bool \<Rightarrow> store_db \<Rightarrow> (store_error, store_db \<times> bool) outcome" where
  "AppendLifecycleTransitionCAS t liveTarget db =
     (case get_strategy_row db (lt_StrategyID t) of
        None \<Rightarrow> Err ErrNotFound
      | Some st \<Rightarrow>
          if sg_LifecycleState st \<noteq> lt_FromState t then Ok (db, False)
          else if liveTarget \<and> ActiveKill db (lt_StrategyID t) then Err ErrKillActive
          else bind_outcome (AppendLifecycleTransition t db) (\<lambda>db'. Ok (db', True)))"

text \<open>The safety driver's lock.\<close>

definition is_live_str :: "string \<Rightarrow> bool" where
  "is_live_str s \<longleftrightarrow> take 5 s = ''live_''"

definition AppendKillLifecycleLock ::
  "string \<Rightarrow> string \<Rightarrow> string \<Rightarrow> string \<Rightarrow> string \<Rightarrow> store_db \<Rightarrow> (store_error, store_db \<times> bool) outcome" where
  "AppendKillLifecycleLock tid s ev actor ts db =
     (case get_strategy_row db s of
        None \<Rightarrow> Err ErrNotFound
      | Some st \<Rightarrow>
          if \<not> is_live_str (sg_LifecycleState st) then Ok (db, False)
          else bind_outcome (AppendLifecycleTransition
            \<lparr>lt_TransitionID = tid, lt_StrategyID = s, lt_FromState = sg_LifecycleState st, lt_ToState = ''killed'',
             lt_ActorID = actor, lt_ActorRole = ''system'', lt_Reason = ''kill-switch event '' @ ev, lt_RecordedAt = ts\<rparr> db)
            (\<lambda>db'. Ok (db', True)))"

text \<open>The newest row: by time, then by insertion.\<close>

definition newest :: "('r \<Rightarrow> string) \<Rightarrow> 'r list \<Rightarrow> 'r option" where
  "newest key rs = (if rs = [] then None else Some (last (sort_key key rs)))"

definition PausedProvenance :: "store_db \<Rightarrow> string \<Rightarrow> string option" where
  "PausedProvenance db s = map_option lt_FromState
     (newest lt_RecordedAt (filter (\<lambda>t. lt_StrategyID t = s \<and> lt_ToState t = ''paused'') (db_transitions db)))"

section \<open>The paper window\<close>

definition binding_kill :: "store_db \<Rightarrow> string \<Rightarrow> string option" where
  "binding_kill db s = map_option ke_RecordedAt
     (newest ke_RecordedAt (filter (\<lambda>e. ke_Kind e = ''kill'' \<and> binds db s e) (db_kills db)))"

text \<open>One turn of the loop: the start so far, whether a qualifying row is at or after the kill, and
  where the last pause came from.\<close>

fun window_step ::
  "string option \<Rightarrow> string option \<times> bool \<times> string \<Rightarrow> transition_row \<Rightarrow> string option \<times> bool \<times> string" where
  "window_step K (start, since, lastPaused) t =
     (if lt_ToState t = ''paused'' then (start, since, lt_FromState t)
      else if lt_FromState t \<noteq> ''paused'' \<or> lastPaused = ''killed'' \<or> (K \<noteq> None \<and> \<not> since)
      then (Some (lt_RecordedAt t),
            since \<or> (case K of None \<Rightarrow> False | Some k \<Rightarrow> k \<le> lt_RecordedAt t), lastPaused)
      else (start, since, lastPaused))"

definition window_rows :: "store_db \<Rightarrow> string \<Rightarrow> transition_row list" where
  "window_rows db s = sort_key lt_RecordedAt
     (filter (\<lambda>t. lt_StrategyID t = s \<and> (lt_ToState t = ''paper'' \<or> lt_ToState t = ''paused'')) (db_transitions db))"

definition PaperWindowStart :: "store_db \<Rightarrow> string \<Rightarrow> string option" where
  "PaperWindowStart db s =
     (let K = binding_kill db s;
          (start, since, _) = fold (\<lambda>t a. window_step K a t) (window_rows db s) (None, False, [])
      in if start = None \<or> (K \<noteq> None \<and> \<not> since) then None else start)"

record gate_fill_row =
  gr_Symbol :: string
  gr_Side :: string
  gr_ReduceOnly :: bool
  gr_QtyBase :: string
  gr_FillPrice :: string
  gr_FeeQuote :: string
  gr_FillTS :: string

definition ListPaperGateFills :: "store_db \<Rightarrow> string \<Rightarrow> string \<Rightarrow> gate_fill_row list" where
  "ListPaperGateFills db s since =
     List.map_filter (\<lambda>f. case get_order_row db (fr_OrderID f) of
         None \<Rightarrow> None
       | Some r \<Rightarrow> if or_StrategyID r = s \<and> since \<le> fr_FillTS f
           then Some \<lparr>gr_Symbol = or_Symbol r, gr_Side = or_Side r, gr_ReduceOnly = or_ReduceOnly r,
                  gr_QtyBase = fr_QtyBase f, gr_FillPrice = fr_FillPrice f, gr_FeeQuote = fr_FeeQuote f,
                  gr_FillTS = fr_FillTS f\<rparr>
           else None)
       (sort_key fr_FillTS (db_fills db))"

section \<open>The window never reaches behind a kill\<close>

lemma window_fold:
  assumes "sorted (map lt_RecordedAt ts)"
    and "\<And>w t. start = Some w \<Longrightarrow> t \<in> set ts \<Longrightarrow> w \<le> lt_RecordedAt t"
    and "since \<Longrightarrow> \<exists>k w. K = Some k \<and> start = Some w \<and> k \<le> w"
    and "fold (\<lambda>t a. window_step K a t) ts (start, since, lp) = (start', since', lp')"
    and "since'"
  shows "\<exists>k w. K = Some k \<and> start' = Some w \<and> k \<le> w"
  using assms
proof (induction ts arbitrary: start since lp)
  case Nil
  then show ?case by simp
next
  case (Cons t ts)
  obtain s1 n1 l1 where st: "window_step K (start, since, lp) t = (s1, n1, l1)"
    by (cases "window_step K (start, since, lp) t") auto
  show ?case
  proof (rule Cons.IH)
    show "sorted (map lt_RecordedAt ts)" using Cons.prems(1) by simp
    show "w \<le> lt_RecordedAt u" if "s1 = Some w" "u \<in> set ts" for w u
      using that st Cons.prems(1) Cons.prems(2) [of w u] by (auto split: if_splits)
    show "\<exists>k w. K = Some k \<and> s1 = Some w \<and> k \<le> w" if "n1"
    proof (cases "s1 = start \<and> n1 = since")
      case True
      with that Cons.prems(3) show ?thesis by simp
    next
      case False
      then have s1: "s1 = Some (lt_RecordedAt t)"
        and n1: "n1 = (since \<or> (case K of None \<Rightarrow> False | Some k \<Rightarrow> k \<le> lt_RecordedAt t))"
        using st by (auto split: if_splits)
      show ?thesis
      proof (cases since)
        case True
        then obtain k w where kw: "K = Some k" "start = Some w" "k \<le> w" using Cons.prems(3) by blast
        have "w \<le> lt_RecordedAt t" using Cons.prems(2) [OF kw(2), of t] by simp
        with kw s1 show ?thesis by auto
      next
        case False
        with that n1 s1 show ?thesis by (auto split: option.splits)
      qed
    qed
    show "fold (\<lambda>t a. window_step K a t) ts (s1, n1, l1) = (start', since', lp')"
      using Cons.prems(4) st by simp
    show "since'" by (rule Cons.prems(5))
  qed
qed

lemma PaperWindowStart_after_kill:
  assumes "PaperWindowStart db s = Some w" and "binding_kill db s = Some k"
  shows "k \<le> w"
proof -
  obtain start since lp where f: "fold (\<lambda>t a. window_step (binding_kill db s) a t) (window_rows db s) (None, False, [])
      = (start, since, lp)" by (metis prod_cases3)
  have "since" "start = Some w" using assms f by (auto simp: PaperWindowStart_def split: if_splits)
  moreover have "\<exists>k w. binding_kill db s = Some k \<and> start = Some w \<and> k \<le> w"
    by (rule window_fold [OF _ _ _ f \<open>since\<close>]) (simp_all add: window_rows_def)
  ultimately show ?thesis using assms(2) by simp
qed

lemma ListPaperGateFills_since: "g \<in> set (ListPaperGateFills db s w) \<Longrightarrow> w \<le> gr_FillTS g"
  by (auto simp: ListPaperGateFills_def List.map_filter_def split: option.splits if_splits)

lemma CAS_committed:
  assumes "AppendLifecycleTransitionCAS t live db = Ok (db', True)"
  shows "(\<exists>st. get_strategy_row db (lt_StrategyID t) = Some st \<and> sg_LifecycleState st = lt_FromState t)
     \<and> (live \<longrightarrow> \<not> ActiveKill db (lt_StrategyID t))
     \<and> db' = set_lifecycle (lt_StrategyID t) (lt_ToState t) (lt_RecordedAt t) (db\<lparr>db_transitions := db_transitions db @ [t]\<rparr>)"
  using assms
  by (auto simp: AppendLifecycleTransitionCAS_def AppendLifecycleTransition_def bind_outcome_eq_Ok
      split: option.splits if_splits)

section \<open>The store as a machine\<close>

definition CreateStrategy :: "string \<Rightarrow> strategy_row \<Rightarrow> store_db \<Rightarrow> (store_error, store_db) outcome" where
  "CreateStrategy tid st db =
     (if get_strategy_row db (sg_StrategyID st) \<noteq> None then Err ErrConstraint
      else let db1 = db\<lparr>db_strategies := db_strategies db @ [st]\<rparr>
      in if sg_LifecycleState st = ''paper'' \<or> is_live_str (sg_LifecycleState st)
         then if row_get lt_TransitionID (db_transitions db) tid \<noteq> None then Err ErrConstraint
           else Ok (db1\<lparr>db_transitions := db_transitions db @
             [\<lparr>lt_TransitionID = tid, lt_StrategyID = sg_StrategyID st, lt_FromState = ''draft'',
               lt_ToState = sg_LifecycleState st, lt_ActorID = ''bootstrap'', lt_ActorRole = ''system'',
               lt_Reason = ''bootstrap'', lt_RecordedAt = sg_CreatedAt st\<rparr>]\<rparr>)
         else Ok db1)"

text \<open>Every writer of lifecycle states, and the kill switch. The handler passes whether the target is live.\<close>

datatype store_op =
    OpCreate string strategy_row
  | OpCAS transition_row
  | OpLock string string string string string
  | OpSwitch kill_op

definition store_step :: "(nat \<Rightarrow> string) \<Rightarrow> store_db \<Rightarrow> store_op \<Rightarrow> store_db option" where
  "store_step U db op = (case op of
      OpCreate tid st \<Rightarrow> (case CreateStrategy tid st db of Ok d \<Rightarrow> Some d | _ \<Rightarrow> None)
    | OpCAS t \<Rightarrow> (case AppendLifecycleTransitionCAS t (is_live_str (lt_ToState t)) db of Ok (d, _) \<Rightarrow> Some d | _ \<Rightarrow> None)
    | OpLock tid s ev a ts \<Rightarrow> (case AppendKillLifecycleLock tid s ev a ts db of Ok (d, _) \<Rightarrow> Some d | _ \<Rightarrow> None)
    | OpSwitch k \<Rightarrow> kill_step U db k)"

definition lifts :: "kscope \<Rightarrow> store_op \<Rightarrow> bool" where
  "lifts sc op = (case op of OpSwitch k \<Rightarrow> op_clears sc k | _ \<Rightarrow> False)"

lemma strategy_after_set:
  "get_strategy_row (set_lifecycle u to ts db) s = map_option (\<lambda>r. if sg_StrategyID r = u
     then r\<lparr>sg_LifecycleState := to, sg_UpdatedAt := ts\<rparr> else r) (get_strategy_row db s)"
  by (simp add: get_strategy_row_def set_lifecycle_def row_get_map)

lemma get_strategy_row_frame [simp]: "get_strategy_row (db\<lparr>db_transitions := x\<rparr>) = get_strategy_row db"
  by (simp add: get_strategy_row_def fun_eq_iff)

lemma set_lifecycle_frame [simp]:
  "db_kills (set_lifecycle u to ts db) = db_kills db"
  "db_clears (set_lifecycle u to ts db) = db_clears db"
  "db_transitions (set_lifecycle u to ts db) = db_transitions db"
  by (simp_all add: set_lifecycle_def)

lemma scope_active_frame:
  "db_kills d = db_kills db \<Longrightarrow> db_clears d = db_clears db \<Longrightarrow> scope_active d sc = scope_active db sc"
  by (simp add: scope_active_def watermark_def)

text \<open>What a lifecycle write is: nothing, or one audit row with the snapshot it names.\<close>

lemma lifecycle_write:
  assumes "AppendLifecycleTransition t db = Ok d"
  shows "\<exists>st. get_strategy_row db (lt_StrategyID t) = Some st"
    and "d = set_lifecycle (lt_StrategyID t) (lt_ToState t) (lt_RecordedAt t) (db\<lparr>db_transitions := db_transitions db @ [t]\<rparr>)"
  using assms by (auto simp: AppendLifecycleTransition_def split: if_splits)

lemma step_cases:
  assumes "store_step U db op = Some d"
  obtains (create) tid st where "op = OpCreate tid st" "get_strategy_row db (sg_StrategyID st) = None"
      "db_strategies d = db_strategies db @ [st]" "db_kills d = db_kills db" "db_clears d = db_clears db"
      "db_transitions d = db_transitions db @
         (if sg_LifecycleState st = ''paper'' \<or> is_live_str (sg_LifecycleState st)
          then [\<lparr>lt_TransitionID = tid, lt_StrategyID = sg_StrategyID st, lt_FromState = ''draft'',
                 lt_ToState = sg_LifecycleState st, lt_ActorID = ''bootstrap'', lt_ActorRole = ''system'',
                 lt_Reason = ''bootstrap'', lt_RecordedAt = sg_CreatedAt st\<rparr>] else [])"
  | (still) "d = db"
  | (moved) t st where "get_strategy_row db (lt_StrategyID t) = Some st" "sg_LifecycleState st = lt_FromState t"
      "is_live_str (lt_ToState t) \<longrightarrow> \<not> ActiveKill db (lt_StrategyID t)"
      "d = set_lifecycle (lt_StrategyID t) (lt_ToState t) (lt_RecordedAt t) (db\<lparr>db_transitions := db_transitions db @ [t]\<rparr>)"
  | (switch) k where "op = OpSwitch k" "kill_step U db k = Some d"
proof (cases op)
  case (OpCreate tid st)
  then show ?thesis using assms
    by (intro create [of tid st]) (auto simp: store_step_def CreateStrategy_def Let_def split: outcome.splits if_splits)
next
  case (OpCAS t)
  then obtain b where r: "AppendLifecycleTransitionCAS t (is_live_str (lt_ToState t)) db = Ok (d, b)"
    using assms by (auto simp: store_step_def split: outcome.splits)
  show ?thesis
  proof (cases b)
    case True
    with CAS_committed [of t "is_live_str (lt_ToState t)" db d] r show ?thesis by (auto intro: moved)
  next
    case False
    with r have "d = db"
      by (auto simp: AppendLifecycleTransitionCAS_def bind_outcome_eq_Ok split: option.splits if_splits)
    then show ?thesis by (rule still)
  qed
next
  case (OpLock tid s ev a ts)
  then obtain b where r: "AppendKillLifecycleLock tid s ev a ts db = Ok (d, b)"
    using assms by (auto simp: store_step_def split: outcome.splits)
  obtain st where st: "get_strategy_row db s = Some st"
    using r by (auto simp: AppendKillLifecycleLock_def split: option.splits)
  show ?thesis
  proof (cases "is_live_str (sg_LifecycleState st)")
    case True
    with r st obtain t where "AppendLifecycleTransition t db = Ok d" "lt_StrategyID t = s"
      "lt_FromState t = sg_LifecycleState st" "lt_ToState t = ''killed''"
      by (auto simp: AppendKillLifecycleLock_def bind_outcome_eq_Ok)
    with st lifecycle_write(2) [of t db d] show ?thesis by (intro moved [of t st]) (auto simp: is_live_str_def)
  next
    case False
    with r st have "d = db" by (simp add: AppendKillLifecycleLock_def)
    then show ?thesis by (rule still)
  qed
next
  case (OpSwitch k)
  with assms show ?thesis by (intro switch [of k]) (simp_all add: store_step_def)
qed

section \<open>A killed strategy stays down\<close>

definition fence_inv :: "kscope \<Rightarrow> string \<Rightarrow> store_db \<Rightarrow> bool" where
  "fence_inv sc s db \<longleftrightarrow> scope_active db sc \<and> sc \<in> set (scopes_of db s)
     \<and> (\<exists>st. get_strategy_row db s = Some st \<and> \<not> is_live_str (sg_LifecycleState st))"

text \<open>\<open>AppendLifecycleTransition\<close> is exported too: it compares no state and checks no kill. Only tests call
  it, but the machine of this section has it beside the operations above.\<close>

datatype store_write =
    Checked store_op
  | Append transition_row

definition write_step :: "(nat \<Rightarrow> string) \<Rightarrow> store_db \<Rightarrow> store_write \<Rightarrow> store_db option" where
  "write_step U db x = (case x of
      Checked op \<Rightarrow> store_step U db op
    | Append t \<Rightarrow> (case AppendLifecycleTransition t db of Ok d \<Rightarrow> Some d | _ \<Rightarrow> None))"

text \<open>A write that clears the scope, and an unchecked write of a live state for the strategy.\<close>

definition clears_scope :: "kscope \<Rightarrow> store_write \<Rightarrow> bool" where
  "clears_scope sc x = (case x of Checked op \<Rightarrow> lifts sc op | Append _ \<Rightarrow> False)"

definition forces_live :: "string \<Rightarrow> store_write \<Rightarrow> bool" where
  "forces_live s x = (case x of Checked _ \<Rightarrow> False | Append t \<Rightarrow> lt_StrategyID t = s \<and> is_live_str (lt_ToState t))"

definition fenced_step :: "(nat \<Rightarrow> string) \<Rightarrow> kscope \<Rightarrow> string \<Rightarrow> store_db \<Rightarrow> store_write \<Rightarrow> store_db option" where
  "fenced_step U sc s db x = (if clears_scope sc x \<or> forces_live s x then None else write_step U db x)"

lemma run_fenced:
  "list_all (\<lambda>x. \<not> clears_scope sc x \<and> \<not> forces_live s x) xs \<Longrightarrow>
     run (fenced_step U sc s) db xs = run (write_step U) db xs"
  by (induction xs arbitrary: db) (auto simp: fenced_step_def split: option.splits)

lemma scopes_of_tenant: "tenant_of d s = tenant_of db s \<Longrightarrow> scopes_of d s = scopes_of db s"
  by (simp add: scopes_of_def)

lemma row_get_id: "get_strategy_row db s = Some st \<Longrightarrow> sg_StrategyID st = s"
  by (auto simp: get_strategy_row_def dest: row_get_key)

lemma store_step_frame:
  assumes "store_step U db op = Some d" and "get_strategy_row db s = Some st"
  shows "tenant_of d s = tenant_of db s \<and> (\<exists>st'. get_strategy_row d s = Some st')"
  using assms(1)
proof (cases rule: step_cases)
  case (create tid st')
  then have "get_strategy_row d s = get_strategy_row db s"
    using assms(2) by (auto simp: get_strategy_row_def row_get_append split: option.splits)
  then show ?thesis by (simp add: tenant_of_def assms(2))
next
  case (switch k)
  then have "get_strategy_row d s = get_strategy_row db s"
    by (simp add: get_strategy_row_def kill_step_strategies)
  then show ?thesis by (simp add: tenant_of_def assms(2))
next
  case (moved t st')
  then show ?thesis using assms(2) by (simp add: tenant_of_def strategy_after_set)
qed (simp add: assms(2))

lemma store_step_active:
  assumes "store_step U db op = Some d" "\<not> lifts sc op" "scope_active db sc" shows "scope_active d sc"
  using assms(1)
proof (cases rule: step_cases)
  case (switch k)
  then show ?thesis using assms(2,3) kill_step_active by (auto simp: lifts_def)
qed (use assms(3) in \<open>simp_all add: scope_active_def watermark_def\<close>)

lemma append_write:
  assumes "AppendLifecycleTransition t db = Ok d" and "get_strategy_row db s = Some st"
  shows "tenant_of d s = tenant_of db s" "scope_active d sc = scope_active db sc"
    "get_strategy_row d s = Some (if lt_StrategyID t = s then st\<lparr>sg_LifecycleState := lt_ToState t, sg_UpdatedAt := lt_RecordedAt t\<rparr> else st)"
proof -
  have d: "d = set_lifecycle (lt_StrategyID t) (lt_ToState t) (lt_RecordedAt t) (db\<lparr>db_transitions := db_transitions db @ [t]\<rparr>)"
    using lifecycle_write(2) [OF assms(1)] by simp
  show "tenant_of d s = tenant_of db s" using assms(2) by (simp add: d tenant_of_def strategy_after_set)
  show "scope_active d sc = scope_active db sc" by (rule scope_active_frame) (simp_all add: d)
  show "get_strategy_row d s = Some (if lt_StrategyID t = s then st\<lparr>sg_LifecycleState := lt_ToState t, sg_UpdatedAt := lt_RecordedAt t\<rparr> else st)"
    using assms(2) row_get_id [OF assms(2)] by (auto simp: d strategy_after_set)
qed

lemma write_step_frame:
  assumes "write_step U db x = Some d" and "get_strategy_row db s = Some st"
  shows "tenant_of d s = tenant_of db s \<and> (\<exists>st'. get_strategy_row d s = Some st')"
  using assms store_step_frame append_write
  by (cases x) (fastforce simp: write_step_def split: outcome.splits)+

lemma write_step_active:
  assumes "write_step U db x = Some d" "get_strategy_row db s = Some st" "\<not> clears_scope sc x" "scope_active db sc"
  shows "scope_active d sc"
  using assms store_step_active append_write(2)
  by (cases x) (fastforce simp: write_step_def clears_scope_def split: outcome.splits)+

lemma store_fenced:
  assumes inv: "fence_inv sc s db" and st': "store_step U db op = Some d" and nl: "\<not> lifts sc op"
  shows "fence_inv sc s d"
proof -
  obtain r where r: "get_strategy_row db s = Some r" "\<not> is_live_str (sg_LifecycleState r)"
    using inv by (auto simp: fence_inv_def)
  have act: "ActiveKill db s" using inv by (auto simp: ActiveKill_iff fence_inv_def)
  have "\<exists>st. get_strategy_row d s = Some st \<and> \<not> is_live_str (sg_LifecycleState st)"
    using st'
  proof (cases rule: step_cases)
    case (create tid st)
    then show ?thesis using r by (simp add: get_strategy_row_def row_get_append)
  next
    case (moved t st)
    show ?thesis
    proof (cases "lt_StrategyID t = s")
      case True
      with moved(3) act have "\<not> is_live_str (lt_ToState t)" by auto
      with r True show ?thesis
        by (simp add: moved(4) strategy_after_set row_get_id)
    next
      case False
      with r show ?thesis
        by (auto simp: moved(4) strategy_after_set row_get_id)
    qed
  next
    case (switch k)
    with r show ?thesis by (simp add: get_strategy_row_def kill_step_strategies)
  qed (use r in simp)
  moreover have "scopes_of d s = scopes_of db s"
    by (rule scopes_of_tenant) (simp add: store_step_frame [OF st' r(1)])
  ultimately show ?thesis
    using store_step_active [OF st' nl] inv by (simp add: fence_inv_def)
qed

lemma fenced_step_inv:
  assumes inv: "fence_inv sc s db" and st: "fenced_step U sc s db x = Some d"
  shows "fence_inv sc s d"
proof (cases x)
  case (Checked op)
  then have "store_step U db op = Some d" "\<not> lifts sc op"
    using st by (auto simp: fenced_step_def write_step_def clears_scope_def split: if_splits)
  then show ?thesis using store_fenced [OF inv] by blast
next
  case (Append t)
  then have t: "AppendLifecycleTransition t db = Ok d" "lt_StrategyID t = s \<longrightarrow> \<not> is_live_str (lt_ToState t)"
    using st by (auto simp: fenced_step_def write_step_def clears_scope_def forces_live_def split: if_splits outcome.splits)
  obtain r where r: "get_strategy_row db s = Some r" "\<not> is_live_str (sg_LifecycleState r)"
    using inv by (auto simp: fence_inv_def)
  show ?thesis
    using inv t(2) r(2) append_write [OF t(1) r(1)] scopes_of_tenant [of d s db] by (auto simp: fence_inv_def)
qed

interpretation fence: machine "fenced_step U sc s" "fence_inv sc s" for U sc s
  by unfold_locales (rule fenced_step_inv)

lemma lock_downs:
  assumes "AppendKillLifecycleLock tid s ev a ts db = Ok (d, b)"
  shows "\<exists>st. get_strategy_row d s = Some st \<and> \<not> is_live_str (sg_LifecycleState st)"
proof -
  obtain st where st: "get_strategy_row db s = Some st"
    using assms by (auto simp: AppendKillLifecycleLock_def split: option.splits)
  show ?thesis
  proof (cases "is_live_str (sg_LifecycleState st)")
    case True
    with assms st obtain t where "AppendLifecycleTransition t db = Ok d" "lt_StrategyID t = s" "lt_ToState t = ''killed''"
      by (auto simp: AppendKillLifecycleLock_def bind_outcome_eq_Ok)
    then have d: "d = set_lifecycle s ''killed'' (lt_RecordedAt t) (db\<lparr>db_transitions := db_transitions db @ [t]\<rparr>)"
      using lifecycle_write(2) [of t db d] by simp
    show ?thesis using st
      by (simp add: d strategy_after_set row_get_id is_live_str_def)
  next
    case False
    with assms st show ?thesis by (simp add: AppendKillLifecycleLock_def)
  qed
qed

lemma run_write_frame:
  "run (write_step U) db xs = Some d \<Longrightarrow> get_strategy_row db s = Some st \<Longrightarrow> list_all (\<lambda>x. \<not> clears_scope sc x) xs \<Longrightarrow>
     scope_active db sc \<Longrightarrow> scope_active d sc \<and> tenant_of d s = tenant_of db s"
proof (induction xs arbitrary: db st)
  case (Cons x xs)
  then obtain c where c: "write_step U db x = Some c" "run (write_step U) c xs = Some d" by (auto split: option.splits)
  obtain st' where st': "get_strategy_row c s = Some st'" "tenant_of c s = tenant_of db s"
    using write_step_frame [OF c(1) Cons.prems(2)] by blast
  have "scope_active c sc" using write_step_active [OF c(1) Cons.prems(2)] Cons.prems(3,4) by simp
  with Cons.IH [OF c(2) st'(1)] Cons.prems(3) st'(2) show ?case by simp
qed simp

text \<open>C14: a killed strategy stays down: once a kill of a scope that binds a strategy was followed by the
  safety driver's lock of the strategy, with any writes between them, no sequence of creations,
  lifecycle commits, locks, further kills, clears of other scopes and unchecked appends ever makes the
  strategy live again, unless one of them clears this scope or is an unchecked append of a live state
  for this strategy.\<close>

theorem killed_strategy_stays_down:
  assumes "kill_inv db" and "kill_step U db op = Some db1" and "kills_scope sc op"
    and "get_strategy_row db s = Some st" and "sc \<in> set (scopes_of db s)"
    and "run (write_step U) db1 mid = Some db2" and "list_all (\<lambda>x. \<not> clears_scope sc x) mid"
    and "AppendKillLifecycleLock tid s ev a ts db2 = Ok (db3, b)"
    and "run (write_step U) db3 post = Some db4" and "list_all (\<lambda>x. \<not> clears_scope sc x \<and> \<not> forces_live s x) post"
  shows "\<exists>st. get_strategy_row db4 s = Some st \<and> \<not> is_live_str (sg_LifecycleState st)"
proof -
  have s1: "get_strategy_row db1 s = Some st" "tenant_of db1 s = tenant_of db s"
    using assms(4) kill_step_strategies [OF assms(2)] by (simp_all add: get_strategy_row_def tenant_of_def)
  have a2: "scope_active db2 sc \<and> tenant_of db2 s = tenant_of db s"
    using run_write_frame [OF assms(6) s1(1) assms(7) kill_step_kill(1) [OF assms(1-3)]] s1(2) by simp
  have lk: "run (write_step U) db2 [Checked (OpLock tid s ev a ts)] = Some db3"
    by (simp add: write_step_def store_step_def assms(8))
  obtain st2 where st2: "get_strategy_row db2 s = Some st2"
    using assms(8) by (auto simp: AppendKillLifecycleLock_def split: option.splits)
  have a3: "scope_active db3 sc \<and> tenant_of db3 s = tenant_of db s"
    using run_write_frame [OF lk st2, of sc] a2 by (simp add: clears_scope_def lifts_def)
  then have "scopes_of db3 s = scopes_of db s" by (intro scopes_of_tenant) simp
  then have inv3: "fence_inv sc s db3"
    using a3 lock_downs [OF assms(8)] assms(5) by (simp add: fence_inv_def)
  have "run (fenced_step U sc s) db3 post = Some db4" by (simp add: run_fenced [OF assms(10)] assms(9))
  then have "fence_inv sc s db4" by (rule fence.run_inv [OF inv3])
  then show ?thesis by (simp add: fence_inv_def)
qed

section \<open>The audit trail explains the state\<close>

text \<open>Replaying a strategy's audit rows from a state: each row has to leave the state reached so far.\<close>

fun audit_replay :: "string \<Rightarrow> transition_row list \<Rightarrow> string option" where
  "audit_replay s [] = Some s"
| "audit_replay s (t # ts) = (if lt_FromState t = s then audit_replay (lt_ToState t) ts else None)"

definition rows_of :: "store_db \<Rightarrow> string \<Rightarrow> transition_row list" where
  "rows_of db s = filter (\<lambda>t. lt_StrategyID t = s) (db_transitions db)"

definition audit_inv :: "store_db \<Rightarrow> bool" where
  "audit_inv db \<longleftrightarrow> distinct (map sg_StrategyID (db_strategies db))
     \<and> (\<forall>t \<in> set (db_transitions db). lt_StrategyID t \<in> sg_StrategyID ` set (db_strategies db))
     \<and> (\<forall>st \<in> set (db_strategies db). \<exists>init. audit_replay init (rows_of db (sg_StrategyID st)) = Some (sg_LifecycleState st))"

lemma audit_replay_snoc:
  "audit_replay s (ts @ [t]) =
     (case audit_replay s ts of None \<Rightarrow> None | Some u \<Rightarrow> if lt_FromState t = u then Some (lt_ToState t) else None)"
  by (induction ts arbitrary: s) auto

lemma audit_write:
  assumes inv: "audit_inv db" and st: "get_strategy_row db (lt_StrategyID t) = Some st"
    and frm: "sg_LifecycleState st = lt_FromState t"
  shows "audit_inv (set_lifecycle (lt_StrategyID t) (lt_ToState t) ts (db\<lparr>db_transitions := db_transitions db @ [t]\<rparr>))"
    (is "audit_inv ?d")
proof -
  let ?f = "\<lambda>r. if sg_StrategyID r = lt_StrategyID t
     then r\<lparr>sg_LifecycleState := lt_ToState t, sg_UpdatedAt := ts\<rparr> else r"
  have ids: "map sg_StrategyID (map ?f (db_strategies db)) = map sg_StrategyID (db_strategies db)" by (simp add: map_idI)
  have d: "db_strategies ?d = map ?f (db_strategies db)" "db_transitions ?d = db_transitions db @ [t]"
    by (simp_all add: set_lifecycle_def)
  have stin: "st \<in> set (db_strategies db)" "sg_StrategyID st = lt_StrategyID t"
    using st by (auto simp: get_strategy_row_def dest: row_get_key)
  have dist: "distinct (map sg_StrategyID (db_strategies db))" using inv by (simp add: audit_inv_def)
  have rep: "\<exists>init. audit_replay init (rows_of ?d (sg_StrategyID (?f r))) = Some (sg_LifecycleState (?f r))"
    if r: "r \<in> set (db_strategies db)" for r
  proof -
    obtain init where i: "audit_replay init (rows_of db (sg_StrategyID r)) = Some (sg_LifecycleState r)"
      using inv r by (auto simp: audit_inv_def)
    show ?thesis
    proof (cases "sg_StrategyID r = lt_StrategyID t")
      case True
      have "row_get sg_StrategyID (db_strategies db) (sg_StrategyID r) = Some r" by (rule row_get_in [OF dist r])
      then have "r = st" using st True by (simp add: get_strategy_row_def)
      then have "audit_replay init (rows_of ?d (lt_StrategyID t)) = Some (lt_ToState t)"
        using i True frm by (simp add: rows_of_def d(2) audit_replay_snoc)
      with True show ?thesis by auto
    next
      case False
      then have "rows_of ?d (sg_StrategyID r) = rows_of db (sg_StrategyID r)" by (auto simp: rows_of_def d(2))
      with False i show ?thesis by auto
    qed
  qed
  have sub: "\<forall>u \<in> set (db_transitions ?d). lt_StrategyID u \<in> sg_StrategyID ` set (db_strategies ?d)"
  proof -
    have "sg_StrategyID ` set (db_strategies ?d) = sg_StrategyID ` set (db_strategies db)"
      by (simp only: d(1) set_map [symmetric] ids)
    moreover have "lt_StrategyID t \<in> sg_StrategyID ` set (db_strategies db)"
      using stin by (metis imageI)
    ultimately show ?thesis using inv by (auto simp: d(2) audit_inv_def)
  qed
  have "\<forall>st \<in> set (db_strategies ?d). \<exists>init. audit_replay init (rows_of ?d (sg_StrategyID st)) = Some (sg_LifecycleState st)"
    unfolding d(1) set_map using rep by blast
  moreover have "distinct (map sg_StrategyID (db_strategies ?d))" unfolding d(1) ids by (rule dist)
  ultimately show ?thesis using sub by (simp only: audit_inv_def simp_thms)
qed

lemma audit_frame:
  "audit_inv db \<Longrightarrow> db_strategies d = db_strategies db \<Longrightarrow> db_transitions d = db_transitions db \<Longrightarrow> audit_inv d"
  by (simp add: audit_inv_def rows_of_def)

lemma kill_step_transitions: "kill_step U db k = Some d \<Longrightarrow> db_transitions d = db_transitions db"
proof (cases k)
  case (OpClear i sc a r n ts)
  moreover have "db_transitions d = db_transitions db" if "fold_ok (supersede_one U i ts) es db = Ok d" for es db d
    by (rule fold_ok_inv [where P = "\<lambda>x. db_transitions x = db_transitions db", OF _ refl that])
      (auto simp: supersede_one_def AppendSafetyAlert_def split: if_splits)
  ultimately show "kill_step U db k = Some d \<Longrightarrow> ?thesis"
    by (fastforce simp: kill_step_def appendKillClear_def supersedeUnserved_def bind_outcome_eq_Ok Let_def
        split: outcome.splits if_splits)
qed (auto simp: kill_op_defs split: outcome.splits option.splits if_splits)

lemma audit_step:
  assumes inv: "audit_inv db" and st: "store_step U db op = Some d"
  shows "audit_inv d"
  using st
proof (cases rule: step_cases)
  case (create tid st)
  have fresh: "sg_StrategyID st \<notin> sg_StrategyID ` set (db_strategies db)"
    using create(2) by (simp add: get_strategy_row_def row_get_None_iff)
  have none: "rows_of db (sg_StrategyID st) = []"
    unfolding rows_of_def filter_empty_conv
  proof
    fix t assume "t \<in> set (db_transitions db)"
    then have "lt_StrategyID t \<in> sg_StrategyID ` set (db_strategies db)" using inv by (simp add: audit_inv_def)
    with fresh show "lt_StrategyID t \<noteq> sg_StrategyID st" by auto
  qed
  have other: "rows_of d (sg_StrategyID r) = rows_of db (sg_StrategyID r)" if "r \<in> set (db_strategies db)" for r
  proof -
    have "sg_StrategyID r \<noteq> sg_StrategyID st" using fresh that by (metis imageI)
    then show ?thesis by (simp add: rows_of_def create(6))
  qed
  have "\<exists>init. audit_replay init (rows_of d (sg_StrategyID st)) = Some (sg_LifecycleState st)"
  proof (cases "sg_LifecycleState st = ''paper'' \<or> is_live_str (sg_LifecycleState st)")
    case True
    with none show ?thesis by (intro exI [of _ "''draft''"]) (auto simp: rows_of_def create(6))
  next
    case False
    with none show ?thesis by (intro exI [of _ "sg_LifecycleState st"]) (auto simp: rows_of_def create(6))
  qed
  then show ?thesis
    using inv fresh other by (auto simp: audit_inv_def create(3,6) split: if_splits)
next
  case (moved t st)
  show ?thesis unfolding moved(4) by (rule audit_write [OF inv moved(1,2)])
next
  case (switch k)
  show ?thesis by (rule audit_frame [OF inv kill_step_strategies [OF switch(2)] kill_step_transitions [OF switch(2)]])
qed (use inv in simp)

interpretation audit: machine "store_step U" audit_inv for U
  by unfold_locales (rule audit_step)

text \<open>the audit trail explains every state: from an empty store, after any sequence of strategy
  creations, lifecycle commits, driver locks and kill-switch operations, the transition rows of each
  strategy, in insertion order, form one chain (every row leaves the state the previous one
  reached) that ends in the strategy's current state.\<close>

theorem audit_trail_explains_state:
  assumes "run (store_step U) empty_db ops = Some db" and "get_strategy_row db s = Some st"
  shows "\<exists>init. audit_replay init (filter (\<lambda>t. lt_StrategyID t = s) (db_transitions db)) = Some (sg_LifecycleState st)"
proof -
  have "audit_inv empty_db" by (simp add: audit_inv_def empty_db_def)
  then have "audit_inv db" using assms(1) by (rule audit.run_inv)
  moreover have "st \<in> set (db_strategies db)" "sg_StrategyID st = s"
    using assms(2) by (auto simp: get_strategy_row_def dest: row_get_key)
  ultimately show ?thesis by (auto simp: audit_inv_def rows_of_def)
qed

section \<open>Applications\<close>

text \<open>A strategy that the watchdog killed while live.\<close>

definition demo_live_kill :: kill_op where
  "demo_live_kill = OpStrategyKill ''k9'' ''a'' ''watchdog'' ''2026-02-01T00:00:00Z'' False"

definition demo_mid :: "store_op list" where
  "demo_mid = [OpSwitch (OpPlatformKill ''k10'' ''root'' ''2026-02-01T00:00:01Z'' True)]"

definition demo_post :: "store_op list" where
  "demo_post = [OpSwitch (OpClear ''c1'' ScopePlatform ''root'' ''done'' 2 ''2026-02-01T00:00:02Z''),
     OpCAS \<lparr>lt_TransitionID = ''t5'', lt_StrategyID = ''a'', lt_FromState = ''killed'', lt_ToState = ''paper'',
       lt_ActorID = ''op'', lt_ActorRole = ''owner'', lt_Reason = ''r'', lt_RecordedAt = ''2026-02-01T00:00:03Z''\<rparr>]"

definition demo_s1 :: store_db where "demo_s1 = the (kill_step demo_ids kill_demo demo_live_kill)"
definition demo_append :: store_write where
  "demo_append = Append \<lparr>lt_TransitionID = ''t6'', lt_StrategyID = ''a'', lt_FromState = ''killed'', lt_ToState = ''paused'',
     lt_ActorID = ''op'', lt_ActorRole = ''owner'', lt_Reason = ''r'', lt_RecordedAt = ''2026-02-01T00:00:04Z''\<rparr>"

definition demo_s2 :: store_db where "demo_s2 = the (run (write_step demo_ids) demo_s1 (map Checked demo_mid))"
definition demo_s3 :: "store_db \<times> bool" where
  "demo_s3 = (case AppendKillLifecycleLock ''t4'' ''a'' ''k9'' ''safety-engine'' ''2026-02-01T00:00:01Z'' demo_s2 of
     Ok x \<Rightarrow> x | _ \<Rightarrow> (kill_demo, False))"
definition demo_s4 :: store_db where "demo_s4 = the (run (write_step demo_ids) (fst demo_s3) (map Checked demo_post @ [demo_append]))"

theorem killed_strategy_stays_down_witness:
  "get_strategy_row kill_demo ''a'' \<noteq> None \<and> ActiveKill demo_s1 ''a''
     \<and> (\<exists>st. get_strategy_row demo_s4 ''a'' = Some st \<and> \<not> is_live_str (sg_LifecycleState st))"
proof -
  have "kill_step demo_ids kill_demo demo_live_kill \<noteq> None" by code_simp
  then have 1: "kill_step demo_ids kill_demo demo_live_kill = Some demo_s1" by (simp add: demo_s1_def)
  have k: "kills_scope (ScopeStrategy ''a'') demo_live_kill" by code_simp
  have s: "get_strategy_row kill_demo ''a'' \<noteq> None" by code_simp
  then obtain st where st: "get_strategy_row kill_demo ''a'' = Some st" by blast
  have b: "ScopeStrategy ''a'' \<in> set (scopes_of kill_demo ''a'')" by code_simp
  have "run (write_step demo_ids) demo_s1 (map Checked demo_mid) \<noteq> None" by code_simp
  then have 2: "run (write_step demo_ids) demo_s1 (map Checked demo_mid) = Some demo_s2" by (simp add: demo_s2_def)
  let ?lock = "AppendKillLifecycleLock ''t4'' ''a'' ''k9'' ''safety-engine'' ''2026-02-01T00:00:01Z'' demo_s2"
  have "case ?lock of Ok x \<Rightarrow> True | _ \<Rightarrow> False" by code_simp
  then have 3: "?lock = Ok (fst demo_s3, snd demo_s3)" by (cases ?lock) (auto simp: demo_s3_def)
  have "run (write_step demo_ids) (fst demo_s3) (map Checked demo_post @ [demo_append]) \<noteq> None" by code_simp
  then have 4: "run (write_step demo_ids) (fst demo_s3) (map Checked demo_post @ [demo_append]) = Some demo_s4" by (simp add: demo_s4_def)
  have m: "list_all (\<lambda>x. \<not> clears_scope (ScopeStrategy ''a'') x) (map Checked demo_mid)" by code_simp
  have p: "list_all (\<lambda>x. \<not> clears_scope (ScopeStrategy ''a'') x \<and> \<not> forces_live ''a'' x) (map Checked demo_post @ [demo_append])"
    by code_simp
  have "ActiveKill demo_s1 ''a''" by code_simp
  then show ?thesis
    using killed_strategy_stays_down [OF kill_demo_inv 1 k st b 2 m 3 4 p] s by simp
qed

definition demo_history :: "store_op list" where
  "demo_history = map (OpCreate ''t0'') (take 1 (db_strategies kill_demo)) @ demo_mid @
     [OpLock ''t4'' ''a'' ''k10'' ''safety-engine'' ''2026-02-01T00:00:01Z''] @
     [OpSwitch (OpClear ''c1'' ScopePlatform ''root'' ''done'' 1 ''2026-02-01T00:00:02Z'')] @ drop 1 demo_post"

definition demo_end :: store_db where "demo_end = the (run (store_step demo_ids) empty_db demo_history)"

theorem audit_trail_explains_state_witness:
  "map lt_ToState (db_transitions demo_end) = [''live_l1'', ''killed'', ''paper'']
     \<and> (\<exists>st init. get_strategy_row demo_end ''a'' = Some st
          \<and> audit_replay init (filter (\<lambda>t. lt_StrategyID t = ''a'') (db_transitions demo_end)) = Some (sg_LifecycleState st))"
proof -
  have "run (store_step demo_ids) empty_db demo_history \<noteq> None" by code_simp
  then have r: "run (store_step demo_ids) empty_db demo_history = Some demo_end" by (simp add: demo_end_def)
  have "get_strategy_row demo_end ''a'' \<noteq> None" by code_simp
  then obtain st where st: "get_strategy_row demo_end ''a'' = Some st" by blast
  have "map lt_ToState (db_transitions demo_end) = [''live_l1'', ''killed'', ''paper'']" by code_simp
  with audit_trail_explains_state [OF r st] st show ?thesis by blast
qed

end
