(* ===== verification/LifecycleAPI.thy ===== *)
theory LifecycleAPI
  imports LifecycleStore Lifecycle PaperGate RiskGate
begin

text \<open>
  The lifecycle endpoint (file \<open>internal/api/lifecycle.go\<close>): the handler that rebuilds the state
  machine from persisted rows, derives the guard inputs, evaluates the paper gate and commits. Its
  reads and its commit are separate database steps, so it takes the tables it read (\<open>rd\<close>) and the
  tables at the commit (\<open>wr\<close>). HTTP decoding, rate limits and authentication are outside.
\<close>

section \<open>The handler\<close>

record principal =
  pr_class :: string
  pr_role :: string
  pr_tenantID :: string
  pr_tokenID :: string
  pr_userID :: string

definition tenantBound :: "principal \<Rightarrow> bool" where
  "tenantBound p \<longleftrightarrow> pr_tenantID p \<noteq> []"

definition machineRole :: "principal \<Rightarrow> role" where
  "machineRole p =
     (if pr_class p = ''env-admin'' then RoleOwner
      else if pr_role p = ''trader'' then RoleTrader
      else if pr_role p = ''admin'' then RoleAdmin
      else if pr_role p = ''owner'' then RoleOwner
      else RoleViewer)"

definition auditRole :: "principal \<Rightarrow> string" where
  "auditRole p = (if pr_class p = ''env-admin'' then ''env-admin'' else pr_role p)"

definition actorID :: "string \<Rightarrow> principal \<Rightarrow> string" where
  "actorID operator p =
     (if pr_tokenID p \<noteq> [] then pr_tokenID p else if pr_userID p \<noteq> [] then pr_userID p
      else if pr_class p = ''env-admin'' then ''env-admin'' else operator)"

text \<open>A foreign tenant's strategy is indistinguishable from none.\<close>

definition rootStrategy :: "store_db \<Rightarrow> principal \<Rightarrow> string \<Rightarrow> strategy_row option" where
  "rootStrategy db p s = (case get_strategy_row db s of
      None \<Rightarrow> None
    | Some st \<Rightarrow> if tenantBound p \<and> sg_TenantID st \<noteq> pr_tenantID p then None else Some st)"

definition lifecycleStates :: "(string \<times> state) list" where
  "lifecycleStates = [(''draft'', StateDraft), (''paper'', StatePaper), (''live_l1'', StateLiveL1),
     (''live_l2'', StateLiveL2), (''live_l3'', StateLiveL3), (''paused'', StatePaused), (''killed'', StateKilled)]"

text \<open>Go's cast of a stored string to a state, and back.\<close>

definition state_of :: "string \<Rightarrow> state" where
  "state_of s = (if s = [] then NoState
     else case map_of lifecycleStates s of Some t \<Rightarrow> t | None \<Rightarrow> UnknownState s)"

fun state_str :: "state \<Rightarrow> string" where
  "state_str NoState = []"
| "state_str StateDraft = ''draft''"
| "state_str StatePaper = ''paper''"
| "state_str StateLiveL1 = ''live_l1''"
| "state_str StateLiveL2 = ''live_l2''"
| "state_str StateLiveL3 = ''live_l3''"
| "state_str StatePaused = ''paused''"
| "state_str StateKilled = ''killed''"
| "state_str (UnknownState s) = s"

fun all_flat :: "'d::linordered_field dlib \<Rightarrow> position_row list \<Rightarrow> (store_error, bool) outcome" where
  "all_flat L [] = Ok True"
| "all_flat L (p # ps) = bind_outcome (parse_dec L (pr_QtyBase p)) (\<lambda>q. if q \<noteq> 0 then Ok False else all_flat L ps)"

definition positionsFlat :: "'d::linordered_field dlib \<Rightarrow> store_db \<Rightarrow> string \<Rightarrow> (store_error, bool) outcome" where
  "positionsFlat L db s = all_flat L (ListPositions db s)"

text \<open>The wiring: whether exchange keys are configured, the seed, the limits of a strategy, if there
  is a limits source, the operator's name, and the identifiers of rows.\<close>

record 'd api_config =
  ac_ExchangeKeys :: bool
  ac_Seed :: 'd
  ac_Limits :: "(string \<Rightarrow> 'd risk_limits) option"
  ac_Operator :: string

definition lifecycleContext ::
  "'d::linordered_field dlib \<Rightarrow> 'd api_config \<Rightarrow> store_db \<Rightarrow> principal \<Rightarrow> string \<Rightarrow> string \<Rightarrow>
     (store_error, lcontext) outcome" where
  "lifecycleContext L cfg db p s reason =
     (let actor = machineRole p;
          lim = map_option (\<lambda>f. f s) (ac_Limits cfg)
      in bind_outcome (positionsFlat L db s) (\<lambda>flat.
           Ok \<lparr>cx_Actor = actor,
               cx_ConfigValid = (case lim of None \<Rightarrow> False | Some l \<Rightarrow> lim_SymbolWhitelist l \<noteq> [] \<and>
                  0 < lim_PerPositionNotionalCapQuote l \<and> 0 < lim_DailyLossLimitQuote l \<and> 0 < lim_MaxDrawdownPct l),
               cx_ExchangeKeysConfigured = ac_ExchangeKeys cfg,
               cx_PaperGatePassed = False,
               cx_L2EnvelopeConfigured = (case lim of None \<Rightarrow> False | Some l \<Rightarrow> lim_L2Envelope l \<noteq> None),
               cx_AdminApproval = (actor = RoleAdmin \<or> actor = RoleOwner),
               cx_PositionsFlat = flat,
               cx_KillCleared = (\<not> ActiveKill db s),
               cx_CountersReset = True,
               cx_Reason = reason\<rparr>))"

definition parse_gate_fill :: "'d dlib \<Rightarrow> gate_fill_row \<Rightarrow> (store_error, 'd pg_fill) outcome" where
  "parse_gate_fill L w =
     bind_outcome (parse_dec L (gr_QtyBase w)) (\<lambda>q.
     bind_outcome (parse_dec L (gr_FillPrice w)) (\<lambda>p.
     bind_outcome (parse_dec L (gr_FeeQuote w)) (\<lambda>f.
       Ok \<lparr>gf_Symbol = gr_Symbol w, gf_Side = gr_Side w, gf_ReduceOnly = gr_ReduceOnly w, gf_QtyBase = q,
           gf_FillPrice = p, gf_FeeQuote = f, gf_FillTS = []\<rparr>)))"

fun map_ok :: "('a \<Rightarrow> ('e, 'b) outcome) \<Rightarrow> 'a list \<Rightarrow> ('e, 'b list) outcome" where
  "map_ok f [] = Ok []"
| "map_ok f (x # xs) = bind_outcome (f x) (\<lambda>y. bind_outcome (map_ok f xs) (\<lambda>ys. Ok (y # ys)))"

text \<open>The gate is pure; it cannot fail, so its error type is free.\<close>

definition lift_unit :: "(unit, 'a) outcome \<Rightarrow> (store_error, 'a) outcome" where
  "lift_unit r = (case r of Ok a \<Rightarrow> Ok a | Err _ \<Rightarrow> Err ErrColumn | Panic \<Rightarrow> Panic | Diverge \<Rightarrow> Diverge)"

definition gate_input_of ::
  "'d::linordered_field dlib \<Rightarrow> 'd api_config \<Rightarrow> store_db \<Rightarrow> string \<Rightarrow> instant \<Rightarrow> (store_error, 'd gate_input) outcome" where
  "gate_input_of L cfg db s now =
     (let lim = map_option (\<lambda>f. f s) (ac_Limits cfg);
          inp = \<lparr>gi_WindowOK = False, gi_WindowStart = 0, gi_Now = now, gi_Fills = [], gi_LimitsOK = lim \<noteq> None,
                 gi_NotionalCap = (case lim of None \<Rightarrow> 0 | Some l \<Rightarrow> lim_PerPositionNotionalCapQuote l),
                 gi_MaxDrawdownPct = (case lim of None \<Rightarrow> 0 | Some l \<Rightarrow> lim_MaxDrawdownPct l),
                 gi_Seed = ac_Seed cfg\<rparr>
      in (case PaperWindowStart db s of
            None \<Rightarrow> Ok inp
          | Some w \<Rightarrow> (case parse_rfc3339 w of
              None \<Rightarrow> Err ErrColumn
            | Some start \<Rightarrow> bind_outcome (map_ok (parse_gate_fill L) (ListPaperGateFills db s w)) (\<lambda>fills.
                Ok (inp\<lparr>gi_WindowOK := True, gi_WindowStart := start, gi_Fills := fills\<rparr>)))))"

definition paperGateReport ::
  "'d::linordered_field dlib \<Rightarrow> 'd api_config \<Rightarrow> store_db \<Rightarrow> string \<Rightarrow> instant \<Rightarrow> (store_error, report) outcome" where
  "paperGateReport L cfg db s now =
     bind_outcome (gate_input_of L cfg db s now) (\<lambda>inp. lift_unit (gate_Evaluate L inp))"

datatype lc_response =
    RespOK string string string string
  | RespUnknownStrategy | RespInvalidState | RespReasonRequired | RespUseKillEndpoint
  | RespKillTierActive | RespGateFailed report | RespIllegal | RespConflict | RespInternal

text \<open>Everything before the commit: a response, or the row to commit with its effects.\<close>

definition rehydrate :: "store_db \<Rightarrow> strategy_row \<Rightarrow> lc_instance" where
  "rehydrate db st = (let frm = state_of (sg_LifecycleState st)
     in if frm = StatePaused
        then NewPausedFrom (state_of (case PausedProvenance db (sg_StrategyID st) of None \<Rightarrow> [] | Some p \<Rightarrow> p))
        else NewAt frm)"

definition lc_row ::
  "'d api_config \<Rightarrow> string \<Rightarrow> principal \<Rightarrow> string \<Rightarrow> state \<Rightarrow> state \<Rightarrow> string \<Rightarrow> instant \<Rightarrow> transition_row" where
  "lc_row cfg tid p s frm to reason now =
     \<lparr>lt_TransitionID = tid, lt_StrategyID = s, lt_FromState = state_str frm, lt_ToState = state_str to,
      lt_ActorID = actorID (ac_Operator cfg) p, lt_ActorRole = auditRole p, lt_Reason = reason,
      lt_RecordedAt = format_seconds now\<rparr>"

text \<open>The machine's answer: a refusal is the gate's alone when a fresh machine with the gate forced
  open would move.\<close>

definition lc_answer ::
  "lc_instance \<Rightarrow> state \<Rightarrow> state \<Rightarrow> lcontext \<Rightarrow> report option \<Rightarrow> transition_row \<Rightarrow> lc_response + transition_row \<times> effect list" where
  "lc_answer m frm to cx rep row =
     (case Transition m to cx of
        Inr (_, effects) \<Rightarrow> Inr (row, effects)
      | Inl _ \<Rightarrow>
          (case rep of
             None \<Rightarrow> Inl RespIllegal
           | Some r \<Rightarrow>
               if \<not> rep_Passed r
                  \<and> (case Transition (NewAt frm) to (cx\<lparr>cx_PaperGatePassed := True\<rparr>) of Inl _ \<Rightarrow> False | Inr _ \<Rightarrow> True)
               then Inl (RespGateFailed r) else Inl RespIllegal))"

definition with_report :: "lcontext \<Rightarrow> report option \<Rightarrow> lcontext" where
  "with_report cx rep = (case rep of None \<Rightarrow> cx | Some r \<Rightarrow> cx\<lparr>cx_PaperGatePassed := rep_Passed r\<rparr>)"

definition lc_decide ::
  "'d::linordered_field dlib \<Rightarrow> 'd api_config \<Rightarrow> string \<Rightarrow> store_db \<Rightarrow> principal \<Rightarrow> strategy_row \<Rightarrow> state \<Rightarrow> string \<Rightarrow>
     instant \<Rightarrow> (store_error, lc_response + transition_row \<times> effect list) outcome" where
  "lc_decide L cfg tid db p st to reason now =
     (let s = sg_StrategyID st; frm = state_of (sg_LifecycleState st)
      in bind_outcome (lifecycleContext L cfg db p s reason) (\<lambda>cx.
         if IsLive to \<and> \<not> cx_KillCleared cx then Ok (Inl RespKillTierActive)
         else bind_outcome
           (if frm = StatePaper \<and> IsLive to
            then bind_outcome (paperGateReport L cfg db s now) (\<lambda>r. Ok (Some r)) else Ok None)
           (\<lambda>rep. Ok (lc_answer (rehydrate db st) frm to (with_report cx rep) rep
              (lc_row cfg tid p s frm to reason now)))))"

text \<open>The cancellation seam returns the tables and, possibly, an error text; without a seam, or on
  an error, an alert is appended, and a failing alert only logs.\<close>

definition cancelEntryOrders ::
  "(string \<Rightarrow> store_db \<Rightarrow> store_db \<times> string option) option \<Rightarrow> string \<Rightarrow> string \<Rightarrow> string \<Rightarrow> instant \<Rightarrow> store_db \<Rightarrow> store_db" where
  "cancelEntryOrders canc aid s tid now db =
     (let (db1, err) = (case canc of None \<Rightarrow> (db, Some ''no EntryCanceler wired'') | Some f \<Rightarrow> f s db)
      in (case err of
            None \<Rightarrow> db1
          | Some e \<Rightarrow> (case AppendSafetyAlert
              \<lparr>sa_AlertID = aid, sa_Kind = ''lifecycle_entry_cancel_failed'', sa_StrategyID = Some s, sa_RefID = Some tid,
               sa_DetailsJSON = ''{'' @ go_quote ''error'' @ '':'' @ go_quote e @ ''}'', sa_RecordedAt = format_seconds now\<rparr> db1 of
              Ok db2 \<Rightarrow> db2 | _ \<Rightarrow> db1)))"

definition lc_commit ::
  "(string \<Rightarrow> store_db \<Rightarrow> store_db \<times> string option) option \<Rightarrow> string \<Rightarrow> transition_row \<Rightarrow> effect list \<Rightarrow> state \<Rightarrow> instant \<Rightarrow>
     store_db \<Rightarrow> store_db \<times> lc_response" where
  "lc_commit canc aid row effects to now db =
     (case AppendLifecycleTransitionCAS row (IsLive to) db of
        Err ErrNotFound \<Rightarrow> (db, RespUnknownStrategy)
      | Err ErrKillActive \<Rightarrow> (db, RespKillTierActive)
      | Ok (db', True) \<Rightarrow>
          (if EffectCancelEntryOrders \<in> set effects
           then cancelEntryOrders canc aid (lt_StrategyID row) (lt_TransitionID row) now db' else db',
           RespOK (lt_FromState row) (lt_ToState row) (lt_TransitionID row) (lt_RecordedAt row))
      | Ok (db', False) \<Rightarrow> (db', RespConflict)
      | _ \<Rightarrow> (db, RespInternal))"

text \<open>\<open>runLifecycleTransition\<close>: \<open>rd\<close> are the tables its reads saw, \<open>wr\<close> the tables at the commit.\<close>

definition runLifecycleTransition ::
  "'d::linordered_field dlib \<Rightarrow> 'd api_config \<Rightarrow> (string \<Rightarrow> store_db \<Rightarrow> store_db \<times> string option) option \<Rightarrow> string \<Rightarrow> string \<Rightarrow>
     principal \<Rightarrow> strategy_row \<Rightarrow> state \<Rightarrow> string \<Rightarrow> instant \<Rightarrow> store_db \<Rightarrow> store_db \<Rightarrow> (unit, store_db \<times> lc_response) outcome" where
  "runLifecycleTransition L cfg canc tid aid p st to reason now rd wr =
     (case lc_decide L cfg tid rd p st to reason now of
        Ok (Inl r) \<Rightarrow> Ok (wr, r)
      | Ok (Inr (row, effects)) \<Rightarrow> Ok (lc_commit canc aid row effects to now wr)
      | Err _ \<Rightarrow> Ok (wr, RespInternal)
      | Panic \<Rightarrow> Panic | Diverge \<Rightarrow> Diverge)"

definition handlePostLifecycle ::
  "'d::linordered_field dlib \<Rightarrow> 'd api_config \<Rightarrow> (string \<Rightarrow> store_db \<Rightarrow> store_db \<times> string option) option \<Rightarrow> string \<Rightarrow> string \<Rightarrow>
     principal \<Rightarrow> string \<Rightarrow> string \<Rightarrow> string \<Rightarrow> instant \<Rightarrow> store_db \<Rightarrow> store_db \<Rightarrow> (unit, store_db \<times> lc_response) outcome" where
  "handlePostLifecycle L cfg canc tid aid p s to reason now rd wr =
     (case rootStrategy rd p s of
        None \<Rightarrow> Ok (wr, RespUnknownStrategy)
      | Some st \<Rightarrow>
          (case map_of lifecycleStates to of
             None \<Rightarrow> Ok (wr, RespInvalidState)
           | Some t \<Rightarrow>
               if reason = [] then Ok (wr, RespReasonRequired)
               else if t = StateKilled then Ok (wr, RespUseKillEndpoint)
               else runLifecycleTransition L cfg canc tid aid p st t reason now rd wr))"

section \<open>What a committed promotion means\<close>

lemma state_str_of: "state_of u = t \<Longrightarrow> state_str t = u"
  by (auto simp: state_of_def lifecycleStates_def split: if_splits)

lemma state_str_live: "IsLive t \<Longrightarrow> state_str t = ''live_l1'' \<or> state_str t = ''live_l2'' \<or> state_str t = ''live_l3''"
  by (auto simp: IsLive_def)

lemma lc_answer_row:
  "lc_answer m frm to cx rep row = Inr (row', effects) \<longleftrightarrow>
     row' = row \<and> (\<exists>j. Transition m to cx = Inr (j, effects))"
  by (auto simp: lc_answer_def split: sum.splits option.splits)

lemma lc_decide_Inr:
  assumes "lc_decide L cfg tid db p st to reason now = Ok (Inr (row, effects))"
  shows "row = lc_row cfg tid p (sg_StrategyID st) (state_of (sg_LifecycleState st)) to reason now
     \<and> (\<exists>cx rep j. lifecycleContext L cfg db p (sg_StrategyID st) reason = Ok cx
          \<and> (IsLive to \<longrightarrow> cx_KillCleared cx)
          \<and> (if state_of (sg_LifecycleState st) = StatePaper \<and> IsLive to
             then \<exists>r. paperGateReport L cfg db (sg_StrategyID st) now = Ok r \<and> rep = Some r else rep = None)
          \<and> Transition (rehydrate db st) to (with_report cx rep) = Inr (j, effects))"
  using assms unfolding lc_decide_def Let_def
  by (auto simp: bind_outcome_eq_Ok lc_answer_row split: if_splits)

lemma lc_decide_row:
  assumes "lc_decide L cfg tid db p st to reason now = Ok (Inr (row, effects))"
  shows "lt_StrategyID row = sg_StrategyID st" "lt_FromState row = sg_LifecycleState st"
    "lt_ToState row = state_str to"
  using lc_decide_Inr [OF assms] state_str_of [OF refl, of "sg_LifecycleState st"] by (simp_all add: lc_row_def)

lemma lc_decide_paper:
  assumes "lc_decide L cfg tid db p st to reason now = Ok (Inr (row, effects))"
    and "sg_LifecycleState st = ''paper''" and "IsLive to"
  shows "\<exists>inp rep w. gate_input_of L cfg db (sg_StrategyID st) now = Ok inp \<and> gate_Evaluate L inp = Ok rep
     \<and> rep_Passed rep \<and> PaperWindowStart db (sg_StrategyID st) = Some w"
proof -
  have frm: "state_of (sg_LifecycleState st) = StatePaper" by (simp add: assms(2) state_of_def lifecycleStates_def)
  then have m: "rehydrate db st = NewAt StatePaper" by (simp add: rehydrate_def)
  obtain cx rep t where r: "paperGateReport L cfg db (sg_StrategyID st) now = Ok rep"
    and t: "Transition (NewAt StatePaper) to (cx\<lparr>cx_PaperGatePassed := rep_Passed rep\<rparr>) = Inr t"
    using lc_decide_Inr [OF assms(1)] assms(3) by (auto simp: frm m with_report_def)
  have p: "rep_Passed rep"
    using t assms(3) by (auto simp: lifecycle_defs NewAt_def IsLive_def split: if_splits)
  obtain inp where i: "gate_input_of L cfg db (sg_StrategyID st) now = Ok inp" "lift_unit (gate_Evaluate L inp) = Ok rep"
    using r by (auto simp: paperGateReport_def bind_outcome_eq_Ok)
  then have g: "gate_Evaluate L inp = Ok rep" by (auto simp: lift_unit_def split: outcome.splits)
  have "gi_WindowOK inp" using g p by (auto simp: gate_Evaluate_def split: if_splits)
  then obtain w where "PaperWindowStart db (sg_StrategyID st) = Some w"
    using i(1) by (auto simp: gate_input_of_def Let_def split: option.splits)
  with i g p show ?thesis by blast
qed

lemma lc_commit_OK:
  assumes "lc_commit canc aid row effects to now wr = (wr', RespOK f t i ts)"
  shows "\<exists>db'. AppendLifecycleTransitionCAS row (IsLive to) wr = Ok (db', True)
     \<and> f = lt_FromState row \<and> t = lt_ToState row \<and> i = lt_TransitionID row \<and> ts = lt_RecordedAt row
     \<and> (EffectCancelEntryOrders \<notin> set effects \<longrightarrow> wr' = db')"
  using assms by (auto simp: lc_commit_def split: outcome.splits store_error.splits bool.splits)

lemma lc_answer_not_OK: "lc_answer m frm to cx rep row = Inl r \<Longrightarrow> r \<noteq> RespOK f t i ts"
  by (auto simp: lc_answer_def split: sum.splits option.splits if_splits)

lemma lc_decide_not_OK: "lc_decide L cfg tid db p st to reason now = Ok (Inl r) \<Longrightarrow> r \<noteq> RespOK f t i ts"
  unfolding lc_decide_def Let_def
  by (auto simp: bind_outcome_eq_Ok dest: lc_answer_not_OK split: if_splits)

lemma handle_committed:
  assumes "handlePostLifecycle L cfg canc tid aid p s to reason now rd wr = Ok (wr', RespOK f t i ts)"
  shows "\<exists>st t' row effects db'. rootStrategy rd p s = Some st \<and> map_of lifecycleStates to = Some t' \<and> t' \<noteq> StateKilled
     \<and> lc_decide L cfg tid rd p st t' reason now = Ok (Inr (row, effects))
     \<and> AppendLifecycleTransitionCAS row (IsLive t') wr = Ok (db', True)
     \<and> f = lt_FromState row \<and> t = lt_ToState row \<and> i = lt_TransitionID row \<and> ts = lt_RecordedAt row
     \<and> (EffectCancelEntryOrders \<notin> set effects \<longrightarrow> wr' = db')"
proof -
  obtain st t' where st: "rootStrategy rd p s = Some st" "map_of lifecycleStates to = Some t'" "t' \<noteq> StateKilled"
    and r: "runLifecycleTransition L cfg canc tid aid p st t' reason now rd wr = Ok (wr', RespOK f t i ts)"
    using assms by (auto simp: handlePostLifecycle_def split: option.splits if_splits)
  obtain row effects where d: "lc_decide L cfg tid rd p st t' reason now = Ok (Inr (row, effects))"
    and c: "lc_commit canc aid row effects t' now wr = (wr', RespOK f t i ts)"
    using r by (auto simp: runLifecycleTransition_def dest: lc_decide_not_OK split: outcome.splits sum.splits)
  show ?thesis using st d lc_commit_OK [OF c] by blast
qed

lemma rootStrategy_Some:
  "rootStrategy db p s = Some st \<Longrightarrow> get_strategy_row db s = Some st \<and> sg_StrategyID st = s"
  by (auto simp: rootStrategy_def get_strategy_row_def split: option.splits if_splits dest: row_get_key)

lemma state_str_lifecycle: "map_of lifecycleStates to = Some t \<Longrightarrow> state_str t = to"
  by (auto simp: lifecycleStates_def split: if_splits)

lemma table_live_trader:
  assumes "table u pf t cx pf'" and "IsLive t" shows "traderPlus (cx_Actor cx)"
  using assms by (induction rule: table.induct) (auto simp: IsLive_def unlock_to_paper_def unlock_common_def)

lemma live_no_cancel: "Transition m t cx = Inr (j, effects) \<Longrightarrow> IsLive t \<Longrightarrow> EffectCancelEntryOrders \<notin> set effects"
  by (cases "i_state m"; cases t) (auto simp: lifecycle_defs IsLive_def split: if_splits)

text \<open>C15: the end-to-end guard of a promotion: whatever the handler read and however the tables moved
  before its commit, a 200 answer for a live target means that at the commit no kill bound the
  strategy and the strategy was still in the state the guards were evaluated in; the acting role may
  trade and, where bound to a tenant, to this strategy's; and the tables after the commit are those
  before it with the audit row of the answer appended and the snapshot moved to the target.\<close>

theorem live_commit_checked:
  assumes "handlePostLifecycle L cfg canc tid aid p s to reason now rd wr = Ok (wr', RespOK f t i ts)"
    and "is_live_str to"
  shows "\<not> ActiveKill wr s \<and> t = to
     \<and> (\<exists>st st' row. get_strategy_row rd s = Some st \<and> get_strategy_row wr s = Some st'
          \<and> sg_LifecycleState st = f \<and> sg_LifecycleState st' = f
          \<and> (tenantBound p \<longrightarrow> sg_TenantID st = pr_tenantID p)
          \<and> traderPlus (machineRole p)
          \<and> lt_TransitionID row = i \<and> lt_StrategyID row = s \<and> lt_FromState row = f \<and> lt_ToState row = to
          \<and> lt_Reason row = reason \<and> lt_RecordedAt row = ts
          \<and> wr' = set_lifecycle s to ts (wr\<lparr>db_transitions := db_transitions wr @ [row]\<rparr>))"
proof -
  obtain st t' row effects db' where h: "rootStrategy rd p s = Some st" "map_of lifecycleStates to = Some t'"
    "lc_decide L cfg tid rd p st t' reason now = Ok (Inr (row, effects))"
    "AppendLifecycleTransitionCAS row (IsLive t') wr = Ok (db', True)" "f = lt_FromState row" "t = lt_ToState row"
    "i = lt_TransitionID row" "ts = lt_RecordedAt row" "EffectCancelEntryOrders \<notin> set effects \<longrightarrow> wr' = db'"
    using handle_committed [OF assms(1)] by blast
  have live: "IsLive t'" using h(2) assms(2) by (auto simp: lifecycleStates_def is_live_str_def IsLive_def split: if_splits)
  note row = lc_decide_row [OF h(3)] and root = rootStrategy_Some [OF h(1)]
  obtain cx rep j where cx: "lifecycleContext L cfg rd p (sg_StrategyID st) reason = Ok cx"
    "Transition (rehydrate rd st) t' (with_report cx rep) = Inr (j, effects)"
    using lc_decide_Inr [OF h(3)] by blast
  have wr': "wr' = db'" using h(9) live_no_cancel [OF cx(2) live] by blast
  have reason: "lt_Reason row = reason" using lc_decide_Inr [OF h(3)] by (simp add: lc_row_def)
  have "tenantBound p \<longrightarrow> sg_TenantID st = pr_tenantID p"
    using h(1) by (auto simp: rootStrategy_def split: option.splits if_splits)
  moreover have "traderPlus (machineRole p)"
  proof -
    let ?cx = "with_report cx rep"
    have "cx_Actor cx = machineRole p" using cx(1) by (auto simp: lifecycleContext_def Let_def bind_outcome_eq_Ok)
    then have a: "cx_Actor ?cx = machineRole p" by (simp add: with_report_def split: option.splits)
    have "traderPlus (cx_Actor ?cx)"
      using cx(2) live table_live_trader unfolding Transition_rows by blast
    then show ?thesis by (simp add: a)
  qed
  ultimately show ?thesis
    using CAS_committed [OF h(4)] live row root h(5-8) wr' reason state_str_lifecycle [OF h(2)] by auto
qed

text \<open>C16: a promotion out of paper counted no fill from before a kill: when the handler commits a live
  target for a strategy it read in paper, the paper gate passed on the fills since the window start,
  the window starts no earlier than the newest kill that binds the strategy, and every fill the
  replay counted is dated at or after that kill.\<close>

theorem promotion_counts_no_prekill_fill:
  assumes "handlePostLifecycle L cfg canc tid aid p s to reason now rd wr = Ok (wr', RespOK f t i ts)"
    and "is_live_str to" and "f = ''paper''" and "binding_kill rd s = Some k"
  shows "\<exists>inp rep w. gate_input_of L cfg rd s now = Ok inp \<and> gate_Evaluate L inp = Ok rep \<and> rep_Passed rep
     \<and> PaperWindowStart rd s = Some w \<and> k \<le> w
     \<and> map_ok (parse_gate_fill L) (ListPaperGateFills rd s w) = Ok (gi_Fills inp)
     \<and> (\<forall>g \<in> set (ListPaperGateFills rd s w). k \<le> gr_FillTS g)"
proof -
  obtain st t' row effects db' where h: "rootStrategy rd p s = Some st" "map_of lifecycleStates to = Some t'"
    "lc_decide L cfg tid rd p st t' reason now = Ok (Inr (row, effects))" "f = lt_FromState row"
    using handle_committed [OF assms(1)] by blast
  have live: "IsLive t'" using h(2) assms(2) by (auto simp: lifecycleStates_def is_live_str_def IsLive_def split: if_splits)
  have st: "sg_LifecycleState st = ''paper''" "sg_StrategyID st = s"
    using lc_decide_row [OF h(3)] rootStrategy_Some [OF h(1)] h(4) assms(3) by simp_all
  obtain inp rep w where g: "gate_input_of L cfg rd s now = Ok inp" "gate_Evaluate L inp = Ok rep" "rep_Passed rep"
    "PaperWindowStart rd s = Some w"
    using lc_decide_paper [OF h(3) st(1) live] st(2) by auto
  have kw: "k \<le> w" by (rule PaperWindowStart_after_kill [OF g(4) assms(4)])
  have "map_ok (parse_gate_fill L) (ListPaperGateFills rd s w) = Ok (gi_Fills inp)"
    using g(1,4) by (auto simp: gate_input_of_def Let_def bind_outcome_eq_Ok split: option.splits)
  moreover have "\<forall>g \<in> set (ListPaperGateFills rd s w). k \<le> gr_FillTS g"
    using kw ListPaperGateFills_since order_trans by blast
  ultimately show ?thesis using g kw by blast
qed

section \<open>Applications\<close>

definition demo_limits :: "string \<Rightarrow> rat risk_limits" where
  "demo_limits s = \<lparr>lim_SymbolWhitelist = [''BTCUSDT''], lim_MaxOpenPositions = 3, lim_PerPositionNotionalCapQuote = 100,
     lim_DailyLossLimitQuote = 50, lim_MaxDrawdownPct = 20, lim_MaxLossAtStopQuote = 10, lim_MinStopDistancePct = 1,
     lim_MaxStopDistancePct = 10, lim_MaxOrdersPerMinute = 5, lim_RequireStopLoss = True,
     lim_AllocatedCapitalQuote = 1000, lim_AccountingQuote = ''USDT'', lim_StalenessThresholdSeconds = 60,
     lim_L1ApprovalTimeoutSeconds = 60,
     lim_L2Envelope = Some \<lparr>l2_MaxSizeQuote = 100, l2_AllowedSymbols = [''BTCUSDT'']\<rparr>\<rparr>"

definition demo_config :: "rat api_config" where
  "demo_config = \<lparr>ac_ExchangeKeys = True, ac_Seed = 1000, ac_Limits = Some demo_limits, ac_Operator = ''op''\<rparr>"

definition demo_owner :: principal where
  "demo_owner = \<lparr>pr_class = ''user'', pr_role = ''owner'', pr_tenantID = ''t'', pr_tokenID = ''tok'', pr_userID = []\<rparr>"

text \<open>Strategy \<open>b\<close> was killed, unlocked into paper after the kill, and closed thirty trades since
  by flipping its book; its tenant's kill is cleared.\<close>

definition demo_fills :: "fill_row list" where
  "demo_fills = map (\<lambda>n.
     \<lparr>fr_FillID = replicate n CHR ''f'', fr_OrderID = (if even n then ''buy'' else ''sell''),
      fr_QtyBase = (if n = 0 then ''1'' else ''2''), fr_FillPrice = (if even n then ''30'' else ''31''), fr_FeeQuote = ''0'',
      fr_FillTS = ''2026-03-02T00:00:00Z'', fr_VenueSymbol = None, fr_ExchangeTradeID = None, fr_VenueEpoch = 0\<rparr>) [0..<31]"

definition demo_order :: "string \<Rightarrow> string \<Rightarrow> order_row" where
  "demo_order i sd = \<lparr>or_OrderID = i, or_ProposalID = None, or_Origin = ''proposal'', or_StrategyID = ''b'',
     or_Symbol = ''BTCUSDT'', or_Class = ''ENTRY'', or_Side = sd, or_Type = ''market'', or_ReduceOnly = False,
     or_QtyBase = ''30'', or_LimitPrice = None, or_StopPrice = None, or_TakeProfit = None, or_FillPrice = None,
     or_KillEpoch = 1, or_Status = ''filled'', or_SubmittedAt = ''2026-03-02T00:00:00Z'', or_FilledAt = None,
     or_ClientOrderID = None, or_ExchangeOrderID = None\<rparr>"

definition demo_ready :: store_db where
  "demo_ready = (fst demo_cleared)\<lparr>
     db_clears := db_clears (fst demo_cleared), db_fills := demo_fills,
     db_orders := [demo_order ''buy'' ''buy'', demo_order ''sell'' ''sell''],
     db_transitions :=
       [\<lparr>lt_TransitionID = ''t1'', lt_StrategyID = ''b'', lt_FromState = ''killed'', lt_ToState = ''paper'', lt_ActorID = ''op'',
         lt_ActorRole = ''owner'', lt_Reason = ''unlock'', lt_RecordedAt = ''2026-03-01T00:00:00Z''\<rparr>]\<rparr>"

definition demo_now :: instant where
  "demo_now = (case parse_rfc3339 ''2026-04-01T00:00:00Z'' of Some t \<Rightarrow> t | None \<Rightarrow> 0)"

definition demo_raise :: "store_db \<times> lc_response" where
  "demo_raise = (case handlePostLifecycle rat_plain_lib demo_config None ''t2'' ''al'' demo_owner ''a'' ''live_l2'' ''go''
     demo_now kill_demo kill_demo of Ok x \<Rightarrow> x | _ \<Rightarrow> (kill_demo, RespInternal))"

theorem live_commit_checked_witness:
  "\<not> ActiveKill kill_demo ''a'' \<and> snd demo_raise = RespOK ''live_l1'' ''live_l2'' ''t2'' ''2026-04-01T00:00:00Z''"
proof -
  let ?r = "handlePostLifecycle rat_plain_lib demo_config None ''t2'' ''al'' demo_owner ''a'' ''live_l2'' ''go''
     demo_now kill_demo kill_demo"
  have "case ?r of Ok (_, r) \<Rightarrow> r = RespOK ''live_l1'' ''live_l2'' ''t2'' ''2026-04-01T00:00:00Z'' | _ \<Rightarrow> False"
    by code_simp
  then obtain w where r: "?r = Ok (w, RespOK ''live_l1'' ''live_l2'' ''t2'' ''2026-04-01T00:00:00Z'')"
    by (cases ?r) auto
  have l: "is_live_str ''live_l2''" by code_simp
  have "snd demo_raise = RespOK ''live_l1'' ''live_l2'' ''t2'' ''2026-04-01T00:00:00Z''"
    unfolding demo_raise_def r by simp
  with live_commit_checked [OF r l] show ?thesis by simp
qed

text \<open>The replay of the flips, in closed form: every fill after the first closes a trade of one.\<close>

definition flip_fill :: "nat \<Rightarrow> rat pg_fill" where
  "flip_fill n = \<lparr>gf_Symbol = ''BTCUSDT'', gf_Side = (if even n then ''buy'' else ''sell''), gf_ReduceOnly = False,
     gf_QtyBase = (if n = 0 then 1 else 2), gf_FillPrice = (if even n then 30 else 31), gf_FeeQuote = 0, gf_FillTS = []\<rparr>"

definition flip_state :: "nat \<Rightarrow> rat replay_state" where
  "flip_state n = \<lparr>rs_books = [(''BTCUSDT'', if even n then \<lparr>gb_qty = 1, gb_avg = 30, gb_pnl = 0, gb_notional = 0\<rparr>
       else \<lparr>gb_qty = - 1, gb_avg = 31, gb_pnl = 0, gb_notional = 0\<rparr>)],
     rs_trades = map (\<lambda>i. \<lparr>tr_pnl = 1, tr_closingNotional = (if even i then 31 else 30)\<rparr>) [0..<n],
     rs_equity = 1000 + of_nat n, rs_peak = 1000 + of_nat n, rs_maxDD = 0,
     rs_curve = map (\<lambda>i. 1000 + of_nat i) [0..<Suc n]\<rparr>"

lemma demo_lib: "dDiv rat_plain_lib 0 p = 0" "dRound rat_plain_lib 1 8 = 1" "dRound rat_plain_lib 0 8 = 0"
  by (simp_all add: rat_plain_lib_def rat_lib_def) (code_simp)+

lemma flip_first: "walk_step rat_plain_lib 1000 (replay_start 1000) (flip_fill 0) = Ok (flip_state 0)"
  by code_simp

lemma flip_next: "walk_step rat_plain_lib 1000 (flip_state n) (flip_fill (Suc n)) = Ok (flip_state (Suc n))"
proof -
  have p: "(1000 :: rat) + of_nat n \<noteq> 0" "0 < (1000 :: rat) + of_nat n" by (simp_all add: add_nonneg_eq_0_iff add_pos_nonneg)
  show ?thesis
    by (cases "even n")
      (simp_all add: walk_step_def book_step_def flip_state_def flip_fill_def get_book_def clamped_qty_def fill_sign_def
        gate_round8_def Let_def demo_lib ddiv_def p max_def algebra_simps)
qed

lemma flips: "walk_from rat_plain_lib 1000 (flip_state n) (map flip_fill [Suc n..<Suc n + m]) = Ok (flip_state (n + m))"
proof (induction m arbitrary: n)
  case (Suc m)
  have "[Suc n..<Suc n + Suc m] = Suc n # [Suc (Suc n)..<Suc (Suc n) + m]" by (simp add: upt_conv_Cons)
  then show ?case using Suc [of "Suc n"] by (simp add: flip_next)
qed simp

lemma flip_replay:
  "replay rat_plain_lib (map flip_fill [0..<31]) 1000 = Ok (rs_trades (flip_state 30), 0)"
proof -
  have "map flip_fill [0..<31] = flip_fill 0 # map flip_fill [Suc 0..<Suc 0 + 30]" by (simp add: upt_conv_Cons)
  then have "walk rat_plain_lib (map flip_fill [0..<31]) 1000 = Ok (flip_state 30)"
    using flips [of 0 30] by (simp only: walk_def walk_from.simps flip_first bind_outcome_simps add_0)
  then show ?thesis by (simp add: replay_def flip_state_def)
qed

definition demo_window :: instant where
  "demo_window = (case parse_rfc3339 ''2026-03-01T00:00:00Z'' of Some t \<Rightarrow> t | None \<Rightarrow> 0)"

definition demo_input :: "rat gate_input" where
  "demo_input = \<lparr>gi_WindowOK = True, gi_WindowStart = demo_window, gi_Now = demo_now, gi_Fills = map flip_fill [0..<31],
     gi_LimitsOK = True, gi_NotionalCap = 100, gi_MaxDrawdownPct = 20, gi_Seed = 1000\<rparr>"

lemma demo_gate: "\<exists>rep. gate_Evaluate rat_plain_lib demo_input = Ok rep \<and> rep_Passed rep"
proof -
  let ?ts = "rs_trades (flip_state 30)"
  have len: "length ?ts = 30" by (simp add: flip_state_def)
  then have ne: "?ts \<noteq> []" by auto
  have t: "minWindow \<le> time_sub demo_now demo_window" by code_simp
  then have "0 \<le> time_sub demo_now demo_window" by (simp add: minWindow_def second_def)
  with t have c1: "case condMinDays rat_plain_lib demo_input of Ok c \<Rightarrow> c_Passed c | _ \<Rightarrow> False"
    by (simp add: condMinDays_def demo_input_def ddiv_def Let_def)
  have c2: "c_Passed (condMinClosedTrades rat_plain_lib ?ts)" by (simp add: condMinClosedTrades_def len minTrades_def)
  have sum: "sum_list (map tr_closingNotional ?ts) = 915" by code_simp
  have avg: "25 \<le> dDiv rat_plain_lib 915 30" by code_simp
  have c3: "case condMinAvgNotional rat_plain_lib demo_input ?ts of Ok c \<Rightarrow> c_Passed c | _ \<Rightarrow> False"
    using avg by (simp add: condMinAvgNotional_def sum len ne ddiv_def demo_input_def quarter_def Let_def)
  have c4: "c_Passed (condMaxDrawdown rat_plain_lib demo_input ?ts 0)"
    by (simp add: condMaxDrawdown_def demo_input_def ne Let_def)
  have "gross_loss ?ts = 0" "gross_profit ?ts = 30" by code_simp+
  then have c5: "case condProfitFactor rat_plain_lib ?ts of Ok c \<Rightarrow> c_Passed c | _ \<Rightarrow> False"
    by (simp add: condProfitFactor_def ne Let_def)
  have r: "replay rat_plain_lib (gi_Fills demo_input) (gi_Seed demo_input) = Ok (?ts, 0)"
    using flip_replay by (simp add: demo_input_def)
  have w: "gi_WindowOK demo_input" by (simp add: demo_input_def)
  show ?thesis
    using c1 c2 c3 c4 c5
    by (auto simp: gate_Evaluate_def w r Let_def split: outcome.splits)
qed

lemma demo_gate_input: "gate_input_of rat_plain_lib demo_config demo_ready ''b'' demo_now = Ok demo_input"
proof -
  have w: "PaperWindowStart demo_ready ''b'' = Some ''2026-03-01T00:00:00Z''" by code_simp
  have p: "parse_rfc3339 ''2026-03-01T00:00:00Z'' = Some demo_window" by code_simp
  have f: "map_ok (parse_gate_fill rat_plain_lib) (ListPaperGateFills demo_ready ''b'' ''2026-03-01T00:00:00Z'')
      = Ok (map flip_fill [0..<31])" by code_simp
  show ?thesis
    by (simp add: gate_input_of_def w p f demo_input_def demo_config_def demo_limits_def)
qed

definition demo_b :: strategy_row where "demo_b = the (get_strategy_row demo_ready ''b'')"

definition demo_row :: transition_row where
  "demo_row = lc_row demo_config ''t2'' demo_owner ''b'' StatePaper StateLiveL1 ''go'' demo_now"

lemma demo_decide:
  "lc_decide rat_plain_lib demo_config ''t2'' demo_ready demo_owner demo_b StateLiveL1 ''go'' demo_now
     = Ok (Inr (demo_row, []))"
proof -
  have b: "sg_StrategyID demo_b = ''b''" "state_of (sg_LifecycleState demo_b) = StatePaper" by code_simp+
  obtain cx where cx: "lifecycleContext rat_plain_lib demo_config demo_ready demo_owner ''b'' ''go'' = Ok cx"
    and c: "cx_KillCleared cx \<and> cx_Actor cx = RoleOwner \<and> cx_ExchangeKeysConfigured cx"
  proof -
    have "case lifecycleContext rat_plain_lib demo_config demo_ready demo_owner ''b'' ''go'' of
        Ok cx \<Rightarrow> cx_KillCleared cx \<and> cx_Actor cx = RoleOwner \<and> cx_ExchangeKeysConfigured cx | _ \<Rightarrow> False"
      by code_simp
    then show ?thesis using that by (cases "lifecycleContext rat_plain_lib demo_config demo_ready demo_owner ''b'' ''go''") auto
  qed
  obtain rep where g: "gate_Evaluate rat_plain_lib demo_input = Ok rep" "rep_Passed rep" using demo_gate by blast
  have m: "rehydrate demo_ready demo_b = NewAt StatePaper" by (simp add: rehydrate_def b)
  show ?thesis
    using c g(2)
    by (simp add: lc_decide_def b cx IsLive_def paperGateReport_def demo_gate_input lift_unit_def g(1) m lc_answer_def
        with_report_def lifecycle_defs NewAt_def traderPlus_def demo_row_def)
qed

lemma demo_promotion:
  "\<exists>wr. handlePostLifecycle rat_plain_lib demo_config None ''t2'' ''al'' demo_owner ''b'' ''live_l1'' ''go''
     demo_now demo_ready demo_ready = Ok (wr, RespOK ''paper'' ''live_l1'' ''t2'' ''2026-04-01T00:00:00Z'')"
proof -
  have root: "rootStrategy demo_ready demo_owner ''b'' = Some demo_b"
  proof -
    have "rootStrategy demo_ready demo_owner ''b'' \<noteq> None" by code_simp
    then show ?thesis by (auto simp: rootStrategy_def demo_b_def split: option.splits if_splits)
  qed
  have st: "map_of lifecycleStates ''live_l1'' = Some StateLiveL1" by code_simp
  have "snd (lc_commit None ''al'' demo_row [] StateLiveL1 demo_now demo_ready)
      = RespOK ''paper'' ''live_l1'' ''t2'' ''2026-04-01T00:00:00Z''" by code_simp
  then show ?thesis
    by (cases "lc_commit None ''al'' demo_row [] StateLiveL1 demo_now demo_ready")
      (simp add: handlePostLifecycle_def root st runLifecycleTransition_def demo_decide)
qed

theorem promotion_counts_no_prekill_fill_witness:
  "binding_kill demo_ready ''b'' = Some ''2026-02-01T00:00:01Z''
     \<and> (\<exists>inp rep w. gate_input_of rat_plain_lib demo_config demo_ready ''b'' demo_now = Ok inp
          \<and> gate_Evaluate rat_plain_lib inp = Ok rep \<and> rep_Passed rep \<and> PaperWindowStart demo_ready ''b'' = Some w)"
proof -
  obtain wr where h: "handlePostLifecycle rat_plain_lib demo_config None ''t2'' ''al'' demo_owner ''b'' ''live_l1'' ''go''
     demo_now demo_ready demo_ready = Ok (wr, RespOK ''paper'' ''live_l1'' ''t2'' ''2026-04-01T00:00:00Z'')"
    using demo_promotion by blast
  have l: "is_live_str ''live_l1''" by code_simp
  have k: "binding_kill demo_ready ''b'' = Some ''2026-02-01T00:00:01Z''" by code_simp
  show ?thesis
    using promotion_counts_no_prekill_fill [OF h l refl k] k by blast
qed

end
