(* ===== verification/Runstate.thy ===== *)
theory Runstate
  imports KillStore RiskGate
begin

text \<open>
  The last-tick cache (file \<open>internal/marketdata/store.go\<close>) and the hydration of the risk gate's
  runtime state from the store and that cache (package \<open>internal/runstate\<close>): equity, peak and the
  daily figure with unrealized profit at fresh marks, the kill predicate, slots and rate tokens.
\<close>

section \<open>Marks\<close>

record 'd tick =
  tk_Symbol :: string
  tk_Mark :: 'd
  tk_TS :: instant

record 'd mark_store =
  ms_maxAge :: duration
  ms_ticks :: "(string \<times> 'd tick) list"

definition futureSkewTolerance :: duration where
  "futureSkewTolerance = 5 * second"

definition NewMarkStore :: "duration \<Rightarrow> 'd mark_store option" where
  "NewMarkStore maxAge = (if maxAge \<le> 0 then None else Some \<lparr>ms_maxAge = maxAge, ms_ticks = []\<rparr>)"

definition Put :: "'d tick \<Rightarrow> 'd mark_store \<Rightarrow> 'd mark_store" where
  "Put t m = m\<lparr>ms_ticks := al_put (tk_Symbol t) t (ms_ticks m)\<rparr>"

text \<open>\<open>Mark\<close>: the price and the tick's time, and whether it is usable.\<close>

definition Mark :: "'d::zero mark_store \<Rightarrow> string \<Rightarrow> instant \<Rightarrow> 'd \<times> instant option \<times> bool" where
  "Mark m sy now =
     (case al_get (ms_ticks m) sy of
        None \<Rightarrow> (0, None, False)
      | Some t \<Rightarrow> let age = time_sub now (tk_TS t)
          in if age < - futureSkewTolerance \<or> age > ms_maxAge m then (0, Some (tk_TS t), False)
             else (tk_Mark t, Some (tk_TS t), True))"

definition fresh_mark :: "'d::zero mark_store \<Rightarrow> string \<Rightarrow> instant \<Rightarrow> 'd option" where
  "fresh_mark m sy now = (case Mark m sy now of (p, _, ok) \<Rightarrow> if ok then Some p else None)"

lemma Mark_put_other: "sy \<noteq> tk_Symbol t \<Longrightarrow> Mark (Put t m) sy now = Mark m sy now"
  by (simp add: Mark_def Put_def al.get_put_other split: option.split)

lemma Mark_put_same:
  "fresh_mark (Put t m) (tk_Symbol t) now =
     (if - futureSkewTolerance \<le> time_sub now (tk_TS t) \<and> time_sub now (tk_TS t) \<le> ms_maxAge m
      then Some (tk_Mark t) else None)"
  by (simp add: fresh_mark_def Mark_def Put_def al.get_put_same Let_def)

section \<open>Hydration\<close>

definition AutonomyFor :: "string \<Rightarrow> autonomy" where
  "AutonomyFor s = (if s = ''live_l1'' then AutonomyL1 else if s = ''live_l2'' then AutonomyL2
     else if s = ''live_l3'' then AutonomyL3 else AutonomyL0)"

text \<open>Open positions and their unrealized profit; a position without a fresh mark counts and
  contributes zero.\<close>

fun foldPositions ::
  "'d::linordered_field dlib \<Rightarrow> (string \<Rightarrow> 'd option) \<Rightarrow> position_row list \<Rightarrow> (store_error, int \<times> 'd) outcome" where
  "foldPositions L mk [] = Ok (0, 0)"
| "foldPositions L mk (p # ps) =
     bind_outcome (parse_dec L (pr_QtyBase p)) (\<lambda>q.
       if q = 0 then foldPositions L mk ps
       else case mk (pr_Symbol p) of
         None \<Rightarrow> bind_outcome (foldPositions L mk ps) (\<lambda>(n, u). Ok (n + 1, u))
       | Some m \<Rightarrow> bind_outcome (parse_dec L (pr_EntryPrice p)) (\<lambda>e.
           bind_outcome (foldPositions L mk ps) (\<lambda>(n, u). Ok (n + 1, (m - e) * q + u))))"

text \<open>The snapshot of realized figures: equity, peak, and the daily figure after rollover.\<close>

definition realized ::
  "'d::linordered_field dlib \<Rightarrow> 'd \<Rightarrow> store_db \<Rightarrow> string \<Rightarrow> instant \<Rightarrow> (store_error, 'd \<times> 'd \<times> 'd) outcome" where
  "realized L alloc db s now =
     (case GetStrategyState db s of
        None \<Rightarrow> Ok (alloc, alloc, 0)
      | Some w \<Rightarrow>
          bind_outcome (parse_dec L (sr_EquityQuote w)) (\<lambda>e.
          bind_outcome (parse_dec L (sr_PeakEquityQuote w)) (\<lambda>p.
          bind_outcome (if sr_UTCDate w = utcDate now then parse_dec L (sr_DailyRealizedPnLQuote w) else Ok 0)
            (\<lambda>d. Ok (e, p, d)))))"

definition State ::
  "'d::linordered_field dlib \<Rightarrow> 'd \<Rightarrow> 'd mark_store \<Rightarrow> store_db \<Rightarrow> string \<Rightarrow> string \<Rightarrow> string \<Rightarrow> instant \<Rightarrow>
     (store_error, 'd runtime_state) outcome" where
  "State L alloc marks db s lifecycle sy now =
     bind_outcome (foldPositions L (\<lambda>y. fresh_mark marks y now) (ListPositions db s)) (\<lambda>(n, unrealized).
     bind_outcome (realized L alloc db s now) (\<lambda>(equity, peak, daily).
       Ok \<lparr>st_KillActive = (ActiveKill db s \<or> lifecycle = ''killed''),
           st_KillEpoch = GlobalMaxKillEpoch db s,
           st_BreakerActive = False,
           st_Autonomy = AutonomyFor lifecycle,
           st_EquityQuote = equity + unrealized,
           st_PeakEquityQuote = max peak (equity + unrealized),
           st_DailyRealizedPnLQuote = daily + unrealized,
           st_ReservedWorstCaseQuote = 0,
           st_OpenPositionsCount = n,
           st_PendingEntryOrdersCount = int (length (filter (\<lambda>r. or_Class r = ''ENTRY'') (ListOpenOrders db s))),
           st_EntryOrdersInLastMinute = CountRateVerdictsSince db s (format_seconds (now - 60 * second)),
           st_MarkPrice = (case fresh_mark marks sy now of None \<Rightarrow> 0 | Some m \<Rightarrow> m),
           st_EstTakerFeeRate = 0\<rparr>))"

definition DailyPnL ::
  "'d::linordered_field dlib \<Rightarrow> 'd mark_store \<Rightarrow> store_db \<Rightarrow> string \<Rightarrow> instant \<Rightarrow> (store_error, 'd) outcome" where
  "DailyPnL L marks db s now =
     bind_outcome (foldPositions L (\<lambda>y. fresh_mark marks y now) (ListPositions db s)) (\<lambda>(_, unrealized).
     bind_outcome
       (case GetStrategyState db s of
          None \<Rightarrow> Ok 0
        | Some w \<Rightarrow> if sr_UTCDate w = utcDate now then parse_dec L (sr_DailyRealizedPnLQuote w) else Ok 0)
       (\<lambda>daily. Ok (daily + unrealized)))"

section \<open>What the gate sees\<close>

lemma State_fields:
  assumes "State L alloc marks db s lc sy now = Ok st"
  shows "st_KillActive st \<longleftrightarrow> ActiveKill db s \<or> lc = ''killed''"
    and "st_KillEpoch st = GlobalMaxKillEpoch db s"
    and "\<not> st_BreakerActive st" and "st_ReservedWorstCaseQuote st = 0"
    and "DailyPnL L marks db s now = Ok (st_DailyRealizedPnLQuote st)"
    and "st_EquityQuote st \<le> st_PeakEquityQuote st"
  using assms
  by (auto simp: State_def DailyPnL_def realized_def bind_outcome_eq_Ok split: option.splits if_splits)

text \<open>C20: a kill reaches the gate end to end: after a kill of a scope that binds a strategy, and any
  operations of the kill switch that do not clear this scope, the runtime state hydrated for any
  proposal of the strategy makes the risk gate reject it, opens, closes and holds alike, in every
  lifecycle state and at every time.\<close>

theorem killed_strategy_gets_rejects:
  assumes "kill_inv db" and "kill_step U db op = Some db1" and "kills_scope sc op"
    and "sc \<in> set (scopes_of db s)"
    and "run (kill_step U) db1 ops = Some db2" and "list_all (\<lambda>x. \<not> op_clears sc x) ops"
    and "State L alloc marks db2 s lc sy now = Ok st"
  shows "\<exists>v. Evaluate L vid p lims st now = Ok v \<and> v_Decision v = DecisionReject"
proof -
  have "ActiveKill db2 s" by (rule kill_binds [OF assms(1-6)])
  then show ?thesis using State_fields(1) [OF assms(7)] Evaluate_kill_rejects by blast
qed

text \<open>the breaker, the reservations and the fee estimate never reach the gate: whatever the tables
  hold, a breaker row of today included, the hydrated state has no active breaker, no reserved
  exposure and no fee, so the gate's breaker check decides by the folded daily figure alone; the
  daily figure it sees is the one the breaker monitor fires on.\<close>

theorem State_ignores_breaker_rows:
  assumes "State L alloc marks db s lc sy now = Ok st"
  shows "State L alloc marks (db\<lparr>db_kills := db_kills db @ [e]\<rparr>) s lc sy now =
      Ok (st\<lparr>st_KillActive := (ActiveKill (db\<lparr>db_kills := db_kills db @ [e]\<rparr>) s \<or> lc = ''killed''),
             st_KillEpoch := GlobalMaxKillEpoch (db\<lparr>db_kills := db_kills db @ [e]\<rparr>) s\<rparr>)
     \<and> \<not> st_BreakerActive st \<and> DailyPnL L marks db s now = Ok (st_DailyRealizedPnLQuote st)"
proof -
  have "State L alloc marks (db\<lparr>db_kills := db_kills db @ [e]\<rparr>) s lc sy now =
      Ok (st\<lparr>st_KillActive := (ActiveKill (db\<lparr>db_kills := db_kills db @ [e]\<rparr>) s \<or> lc = ''killed''),
             st_KillEpoch := GlobalMaxKillEpoch (db\<lparr>db_kills := db_kills db @ [e]\<rparr>) s\<rparr>)"
    using assms
    by (auto simp: State_def realized_def bind_outcome_eq_Ok ListPositions_def ListOpenOrders_def GetStrategyState_def
        CountRateVerdictsSince_def split: option.splits if_splits)
  then show ?thesis using State_fields [OF assms] by blast
qed

definition demo_marks :: "rat mark_store" where
  "demo_marks = Put \<lparr>tk_Symbol = ''BTCUSDT'', tk_Mark = 100, tk_TS = 0\<rparr> \<lparr>ms_maxAge = 60 * second, ms_ticks = []\<rparr>"

definition demo_state :: "rat runtime_state" where
  "demo_state = (case State rat_plain_lib 1000 demo_marks demo_later ''b'' ''paper'' ''BTCUSDT'' second of
     Ok st \<Rightarrow> st | _ \<Rightarrow> sample_state)"

lemma demo_state: "State rat_plain_lib 1000 demo_marks demo_later ''b'' ''paper'' ''BTCUSDT'' second = Ok demo_state"
proof -
  let ?r = "State rat_plain_lib 1000 demo_marks demo_later ''b'' ''paper'' ''BTCUSDT'' second"
  have "case ?r of Ok _ \<Rightarrow> True | _ \<Rightarrow> False" by code_simp
  then show ?thesis by (cases ?r) (simp_all add: demo_state_def)
qed

theorem killed_strategy_gets_rejects_witness:
  "st_MarkPrice demo_state = 100
     \<and> (\<exists>v. Evaluate rat_plain_lib ''v'' sample_close sample_limits demo_state second = Ok v \<and> v_Decision v = DecisionReject)"
proof -
  have k: "kills_scope (ScopeTenant ''t'') demo_kill" by code_simp
  have b: "ScopeTenant ''t'' \<in> set (scopes_of kill_demo ''b'')" by code_simp
  have c: "list_all (\<lambda>x. \<not> op_clears (ScopeTenant ''t'') x) demo_more" by code_simp
  have "st_MarkPrice demo_state = 100" by code_simp
  with killed_strategy_gets_rejects [OF kill_demo_inv demo_killed k b demo_later c demo_state] show ?thesis by blast
qed

definition demo_breaker :: kill_row where
  "demo_breaker = \<lparr>ke_EventID = ''br'', ke_Kind = ''breaker'', ke_Scope = ''strategy'', ke_StrategyID = Some ''b'',
     ke_TenantID = Some ''t'', ke_KillEpoch = None, ke_Flatten = Some True, ke_TriggerRef = None,
     ke_ActorID = ''breaker-monitor'', ke_RecordedAt = ''1970-01-01T00:00:01Z''\<rparr>"

theorem State_ignores_breaker_rows_witness:
  "BreakerActiveToday (demo_later\<lparr>db_kills := db_kills demo_later @ [demo_breaker]\<rparr>) ''b'' (utcDate second)
     \<and> (\<exists>st. State rat_plain_lib 1000 demo_marks (demo_later\<lparr>db_kills := db_kills demo_later @ [demo_breaker]\<rparr>)
            ''b'' ''paper'' ''BTCUSDT'' second = Ok st \<and> \<not> st_BreakerActive st)"
proof -
  have "BreakerActiveToday (demo_later\<lparr>db_kills := db_kills demo_later @ [demo_breaker]\<rparr>) ''b'' (utcDate second)"
    by code_simp
  with State_ignores_breaker_rows [OF demo_state, of demo_breaker] show ?thesis by auto
qed

end
