(* ===== verification/Monitor.thy ===== *)
theory Monitor
  imports Runstate
begin

text \<open>
  The safety monitor (package \<open>internal/safety\<close>): each tick evaluates the daily-loss breaker of
  every monitored strategy, runs the heartbeat watchdog's ladder on the live ones and scans for
  stalled effects. Starting a drive of the effects is recorded, the drive itself runs elsewhere.
  Text in JSON details is printable.
\<close>

section \<open>State\<close>

definition DefaultActiveInterval :: duration where "DefaultActiveInterval = 5 * second"
definition DefaultIdleInterval :: duration where "DefaultIdleInterval = 60 * second"
definition DefaultStallThreshold :: duration where "DefaultStallThreshold = 600 * second"
definition WatchdogSilenceThreshold :: duration where "WatchdogSilenceThreshold = 90 * second"
definition WatchdogEscalationThreshold :: duration where "WatchdogEscalationThreshold = 600 * second"

record monitor =
  mo_watchdogOff :: bool
  mo_active :: duration
  mo_idle :: duration
  mo_stall :: duration
  mo_startedAt :: instant
  mo_lastSeen :: "(string \<times> instant) list"
  mo_firstWatched :: "(string \<times> instant) list"

definition NewMonitor :: "bool \<Rightarrow> duration \<Rightarrow> duration \<Rightarrow> duration \<Rightarrow> instant \<Rightarrow> monitor" where
  "NewMonitor off act idl stall now =
     \<lparr>mo_watchdogOff = off, mo_active = (if act \<le> 0 then DefaultActiveInterval else act),
      mo_idle = (if idl \<le> 0 then DefaultIdleInterval else idl),
      mo_stall = (if stall \<le> 0 then DefaultStallThreshold else stall),
      mo_startedAt = now, mo_lastSeen = [], mo_firstWatched = []\<rparr>"

definition Beat :: "string \<Rightarrow> instant \<Rightarrow> monitor \<Rightarrow> monitor" where
  "Beat s t m = (case al_get (mo_lastSeen m) s of
      Some prev \<Rightarrow> if prev < t then m\<lparr>mo_lastSeen := al_put s t (mo_lastSeen m)\<rparr> else m
    | None \<Rightarrow> m\<lparr>mo_lastSeen := al_put s t (mo_lastSeen m)\<rparr>)"

definition LastBeat :: "monitor \<Rightarrow> string \<Rightarrow> instant option" where
  "LastBeat m s = al_get (mo_lastSeen m) s"

text \<open>What a tick reads besides the store: whether the order manager is reconciled, the loss limits,
  the mark cache at its four reads (freshness, fold, re-check, watchdog), the venue minimums, and
  the entry sweep of the order manager, which rewrites statuses of orders and claims of intents.\<close>

record 'd mon_env =
  me_reconciled :: bool
  me_limit :: "string \<Rightarrow> 'd"
  me_marks :: "nat \<Rightarrow> 'd mark_store"
  me_filters :: "string \<Rightarrow> ('d \<times> 'd) option"
  me_sweep :: "string \<Rightarrow> store_db \<Rightarrow> order_row list \<times> intent_row list"

text \<open>The tables and the events whose drive was started, in order. Fresh identifiers of alerts and
  events are the parameters \<open>U\<close> and \<open>E\<close>, read at the number of rows.\<close>

record mon_run =
  mr_db :: store_db
  mr_drives :: "string list"

record candidate =
  ca_row :: strategy_row
  ca_open :: "position_row list"

definition monitored_live :: "candidate \<Rightarrow> bool" where
  "monitored_live c \<longleftrightarrow> take 5 (sg_LifecycleState (ca_row c)) = ''live_''"

section \<open>Alerts\<close>

definition opt_key :: "string \<Rightarrow> string option" where
  "opt_key s = (if s = [] then None else Some s)"

definition appendAlert ::
  "(nat \<Rightarrow> string) \<Rightarrow> string \<Rightarrow> string \<Rightarrow> string \<Rightarrow> string \<Rightarrow> instant \<Rightarrow> store_db \<Rightarrow> (store_error, store_db) outcome" where
  "appendAlert U kind s rf details now db = AppendSafetyAlert
     \<lparr>sa_AlertID = U (length (db_alerts db)), sa_Kind = kind, sa_StrategyID = opt_key s, sa_RefID = opt_key rf,
      sa_DetailsJSON = details, sa_RecordedAt = format_seconds now\<rparr> db"

definition append_or_log ::
  "(nat \<Rightarrow> string) \<Rightarrow> string \<Rightarrow> string \<Rightarrow> string \<Rightarrow> string \<Rightarrow> instant \<Rightarrow> store_db \<Rightarrow> store_db" where
  "append_or_log U kind s rf details now db =
     (case appendAlert U kind s rf details now db of Ok d \<Rightarrow> d | _ \<Rightarrow> db)"

definition alertDaily ::
  "(nat \<Rightarrow> string) \<Rightarrow> string \<Rightarrow> string \<Rightarrow> string \<Rightarrow> string \<Rightarrow> instant \<Rightarrow> store_db \<Rightarrow> store_db" where
  "alertDaily U kind s rf details now db =
     (if HasSafetyAlertToday db kind s rf (utcDate now) then db else append_or_log U kind s rf details now db)"

definition json_field :: "string \<Rightarrow> string \<Rightarrow> string" where
  "json_field k v = go_quote k @ '':'' @ v"

definition alertStaleMark :: "(nat \<Rightarrow> string) \<Rightarrow> string \<Rightarrow> string \<Rightarrow> instant \<Rightarrow> store_db \<Rightarrow> store_db" where
  "alertStaleMark U s sy now = alertDaily U ''breaker_mark_stale'' s ''stale_mark''
     (''{'' @ json_field ''cause'' (go_quote ''stale_mark'') @ '','' @ json_field ''symbol'' (go_quote sy) @ ''}'') now"

text \<open>The text of a column error is not modelled.\<close>

definition alertPnLError :: "(nat \<Rightarrow> string) \<Rightarrow> string \<Rightarrow> instant \<Rightarrow> store_db \<Rightarrow> store_db" where
  "alertPnLError U s now = alertDaily U ''breaker_mark_stale'' s ''pnl_error''
     (''{'' @ json_field ''cause'' (go_quote ''pnl_error'') @ ''}'') now"

definition stall_one ::
  "(nat \<Rightarrow> string) \<Rightarrow> duration \<Rightarrow> instant \<Rightarrow> kill_row \<Rightarrow> store_db \<Rightarrow> store_db" where
  "stall_one U stall now e db =
     (case parse_rfc3339 (ke_RecordedAt e) of
        None \<Rightarrow> db
      | Some t \<Rightarrow> let age = time_sub now t
          in if age \<le> stall then db
             else alertDaily U ''safety_effect_stalled'' [] (ke_EventID e)
               (''{'' @ json_field ''kind'' (go_quote (ke_Kind e)) @ '','' @
                json_field ''age_seconds'' (int_string (age div second)) @ ''}'') now db)"

definition stallScan :: "(nat \<Rightarrow> string) \<Rightarrow> monitor \<Rightarrow> instant \<Rightarrow> store_db \<Rightarrow> store_db" where
  "stallScan U m now db = fold (stall_one U (mo_stall m) now) (ListUnservedSafetyEvents db) db"

section \<open>The breaker\<close>

fun open_positions :: "'d::linordered_field dlib \<Rightarrow> position_row list \<Rightarrow> (store_error, position_row list) outcome" where
  "open_positions L [] = Ok []"
| "open_positions L (p # ps) = bind_outcome (parse_dec L (pr_QtyBase p)) (\<lambda>q.
     bind_outcome (open_positions L ps) (\<lambda>r. Ok (if q \<noteq> 0 then p # r else r)))"

fun monitored_rows ::
  "'d::linordered_field dlib \<Rightarrow> store_db \<Rightarrow> strategy_row list \<Rightarrow> (store_error, candidate list) outcome" where
  "monitored_rows L db [] = Ok []"
| "monitored_rows L db (r # rs) = bind_outcome (open_positions L (ListPositions db (sg_StrategyID r))) (\<lambda>op.
     bind_outcome (monitored_rows L db rs) (\<lambda>cs.
       let c = \<lparr>ca_row = r, ca_open = op\<rparr>
       in Ok (if op \<noteq> [] \<or> monitored_live c then c # cs else cs)))"

definition monitored :: "'d::linordered_field dlib \<Rightarrow> store_db \<Rightarrow> (store_error, candidate list) outcome" where
  "monitored L db = monitored_rows L db (ListStrategies db)"

text \<open>The first open position without a fresh mark; the empty symbol when there is none.\<close>

fun stale_of ::
  "'d::linordered_field dlib \<Rightarrow> (string \<Rightarrow> 'd option) \<Rightarrow> position_row list \<Rightarrow> (store_error, string) outcome" where
  "stale_of L mk [] = Ok []"
| "stale_of L mk (p # ps) = bind_outcome (parse_dec L (pr_QtyBase p)) (\<lambda>q.
     if q \<noteq> 0 \<and> mk (pr_Symbol p) = None then Ok (pr_Symbol p) else stale_of L mk ps)"

definition staleSymbol ::
  "'d::linordered_field dlib \<Rightarrow> 'd mark_store \<Rightarrow> store_db \<Rightarrow> string \<Rightarrow> instant \<Rightarrow> (store_error, string) outcome" where
  "staleSymbol L marks db s now = stale_of L (\<lambda>y. fresh_mark marks y now) (ListPositions db s)"

definition breaker_row ::
  "'d dlib \<Rightarrow> string \<Rightarrow> strategy_row \<Rightarrow> 'd \<Rightarrow> 'd \<Rightarrow> instant \<Rightarrow> kill_row" where
  "breaker_row L ev r pnl limit now =
     \<lparr>ke_EventID = ev, ke_Kind = ''breaker'', ke_Scope = ''strategy'', ke_StrategyID = Some (sg_StrategyID r),
      ke_TenantID = Some (sg_TenantID r), ke_KillEpoch = None, ke_Flatten = Some True,
      ke_TriggerRef = Some (''{'' @ json_field ''daily_pnl'' (go_quote (dString L pnl)) @ '','' @
        json_field ''evaluated_at'' (go_quote (format_seconds now)) @ '','' @
        json_field ''limit'' (go_quote (dString L limit)) @ ''}''),
      ke_ActorID = ''breaker-monitor'', ke_RecordedAt = format_seconds now\<rparr>"

definition fire ::
  "'d dlib \<Rightarrow> (nat \<Rightarrow> string) \<Rightarrow> strategy_row \<Rightarrow> 'd \<Rightarrow> 'd \<Rightarrow> instant \<Rightarrow> mon_run \<Rightarrow> mon_run" where
  "fire L E r pnl limit now x =
     (let ev = E (length (db_kills (mr_db x)))
      in (case AppendKillBreakerEvent (breaker_row L ev r pnl limit now) (mr_db x) of
            Ok d \<Rightarrow> \<lparr>mr_db = d, mr_drives = mr_drives x @ [ev]\<rparr> | _ \<Rightarrow> x))"

definition set_db :: "(store_db \<Rightarrow> store_db) \<Rightarrow> mon_run \<Rightarrow> mon_run" where
  "set_db f x = x\<lparr>mr_db := f (mr_db x)\<rparr>"

definition evaluatePnL ::
  "'d::linordered_field dlib \<Rightarrow> (nat \<Rightarrow> string) \<Rightarrow> (nat \<Rightarrow> string) \<Rightarrow> 'd mon_env \<Rightarrow> candidate \<Rightarrow> 'd \<Rightarrow> instant \<Rightarrow>
     mon_run \<Rightarrow> mon_run" where
  "evaluatePnL L U E env c limit now x =
     (let s = sg_StrategyID (ca_row c); db = mr_db x
      in (case staleSymbol L (me_marks env 0) db s now of
            Ok stale \<Rightarrow>
              if stale \<noteq> [] then set_db (alertStaleMark U s stale now) x
              else (case DailyPnL L (me_marks env 1) db s now of
                  Ok pnl \<Rightarrow>
                    (case staleSymbol L (me_marks env 2) db s now of
                       Ok stale2 \<Rightarrow>
                         if stale2 \<noteq> [] then set_db (alertStaleMark U s stale2 now) x
                         else if pnl > - limit then x
                         else fire L E (ca_row c) pnl limit now x
                     | _ \<Rightarrow> set_db (alertPnLError U s now) x)
                | _ \<Rightarrow> set_db (alertPnLError U s now) x)
          | _ \<Rightarrow> set_db (alertPnLError U s now) x))"

definition mon_evaluate ::
  "'d::linordered_field dlib \<Rightarrow> (nat \<Rightarrow> string) \<Rightarrow> (nat \<Rightarrow> string) \<Rightarrow> 'd mon_env \<Rightarrow> instant \<Rightarrow> candidate \<Rightarrow>
     mon_run \<Rightarrow> mon_run" where
  "mon_evaluate L U E env now c x =
     (let s = sg_StrategyID (ca_row c); limit = me_limit env s
      in if BreakerActiveToday (mr_db x) s (utcDate now) then x
         else if limit \<le> 0 then set_db (alertDaily U ''breaker_limit_unset'' s []
             (''{'' @ json_field ''daily_loss_limit_quote'' (go_quote (dString L limit)) @ ''}'') now) x
         else evaluatePnL L U E env c limit now x)"

section \<open>The watchdog\<close>

definition pruneWatchSet :: "(string \<Rightarrow> bool) \<Rightarrow> monitor \<Rightarrow> monitor" where
  "pruneWatchSet watched m =
     (let gone = filter (\<lambda>s. \<not> watched s) (map fst (mo_firstWatched m))
      in m\<lparr>mo_firstWatched := filter (\<lambda>(s, _). s \<notin> set gone) (mo_firstWatched m),
            mo_lastSeen := filter (\<lambda>(s, _). s \<notin> set gone) (mo_lastSeen m)\<rparr>)"

definition observe :: "string \<Rightarrow> instant \<Rightarrow> monitor \<Rightarrow> monitor \<times> instant option" where
  "observe s now m =
     (case al_get (mo_firstWatched m) s of
        None \<Rightarrow> (m\<lparr>mo_firstWatched := al_put s now (mo_firstWatched m),
                  mo_lastSeen := AList.delete s (mo_lastSeen m)\<rparr>, None)
      | Some _ \<Rightarrow> (m, al_get (mo_lastSeen m) s))"

text \<open>Go's zero time.\<close>

definition zero_time :: instant where
  "zero_time = - 62135596800 * second"

definition silenceAge :: "monitor \<Rightarrow> string \<Rightarrow> instant option \<Rightarrow> instant \<Rightarrow> duration \<times> bool" where
  "silenceAge m s lastSeen now =
     (let b = (case al_get (mo_firstWatched m) s of None \<Rightarrow> zero_time | Some t \<Rightarrow> t);
          base = (if mo_startedAt m > b then mo_startedAt m else b)
      in (case lastSeen of
            Some l \<Rightarrow> if l > base then (time_sub now l, True) else (time_sub now base, False)
          | None \<Rightarrow> (time_sub now base, False)))"

definition watchdogDetails :: "string \<Rightarrow> instant option \<Rightarrow> bool \<Rightarrow> duration \<Rightarrow> string" where
  "watchdogDetails cause lastSeen seen age =
     (''{'' @ json_field ''cause'' (go_quote cause) @ '','' @
      json_field ''last_seen'' (go_quote (if seen then (case lastSeen of None \<Rightarrow> [] | Some l \<Rightarrow> format_seconds l) else [])) @
      '','' @ json_field ''silence_seconds'' (int_string (age div second)) @ ''}'')"

definition backfillEscalationAlert :: "(nat \<Rightarrow> string) \<Rightarrow> string \<Rightarrow> instant \<Rightarrow> store_db \<Rightarrow> store_db" where
  "backfillEscalationAlert U s now db =
     (case LatestStrategyKillEvent db s of
        None \<Rightarrow> db
      | Some (ev, actor) \<Rightarrow>
          if actor \<noteq> ''watchdog'' \<or> HasSafetyAlert db ''watchdog_kill_escalation'' s ev then db
          else append_or_log U ''watchdog_kill_escalation'' s ev
                 (''{'' @ json_field ''cause'' (go_quote ''backfill'') @ ''}'') now db)"

definition escalate ::
  "(nat \<Rightarrow> string) \<Rightarrow> (nat \<Rightarrow> string) \<Rightarrow> string \<Rightarrow> string \<Rightarrow> instant option \<Rightarrow> bool \<Rightarrow> duration \<Rightarrow> instant \<Rightarrow>
     mon_run \<Rightarrow> mon_run" where
  "escalate U E s cause lastSeen seen age now x =
     (let ev = E (length (db_kills (mr_db x)))
      in (case AppendStrategyKill ev s ''watchdog'' (format_seconds now) False (mr_db x) of
            Ok (d, _) \<Rightarrow> \<lparr>mr_db = append_or_log U ''watchdog_kill_escalation'' s ev
                 (watchdogDetails cause lastSeen seen age) now d, mr_drives = mr_drives x @ [ev]\<rparr>
          | _ \<Rightarrow> x))"

definition apply_sweep :: "'d mon_env \<Rightarrow> string \<Rightarrow> store_db \<Rightarrow> store_db" where
  "apply_sweep env s d = (case me_sweep env s d of (orders, intents) \<Rightarrow> d\<lparr>db_orders := orders, db_intents := intents\<rparr>)"

definition rungOneSilence ::
  "(nat \<Rightarrow> string) \<Rightarrow> 'd mon_env \<Rightarrow> string \<Rightarrow> instant option \<Rightarrow> bool \<Rightarrow> duration \<Rightarrow> instant \<Rightarrow> store_db \<Rightarrow> store_db" where
  "rungOneSilence U env s lastSeen seen age now db =
     (case (if HasSafetyAlertToday db ''watchdog_silence'' s ''silence'' (utcDate now) then Ok db
            else appendAlert U ''watchdog_silence'' s ''silence'' (watchdogDetails ''silence'' lastSeen seen age) now db) of
        Ok d \<Rightarrow> if me_reconciled env then apply_sweep env s d else d
      | _ \<Rightarrow> db)"

definition hasProtective :: "order_row list \<Rightarrow> string \<Rightarrow> string \<Rightarrow> bool" where
  "hasProtective live s sy \<longleftrightarrow>
     list_ex (\<lambda>w. or_StrategyID w = s \<and> or_Symbol w = sy \<and> or_Class w = ''PROTECTIVE'') live"

definition unprotectedExposure ::
  "'d::linordered_field dlib \<Rightarrow> 'd mon_env \<Rightarrow> candidate \<Rightarrow> instant \<Rightarrow> store_db \<Rightarrow> bool" where
  "unprotectedExposure L env c now db \<longleftrightarrow> list_ex (\<lambda>p.
     (case dFromString L (pr_QtyBase p) of
        None \<Rightarrow> False
      | Some q \<Rightarrow> (case me_filters env (pr_Symbol p) of
          None \<Rightarrow> False
        | Some (minQty, minNotional) \<Rightarrow> minQty \<le> \<bar>q\<bar> \<and>
            (case fresh_mark (me_marks env 3) (pr_Symbol p) now of
               None \<Rightarrow> False
             | Some m \<Rightarrow> minNotional \<le> \<bar>q\<bar> * m \<and>
                 \<not> hasProtective (ListNonTerminalLiveOrders db) (sg_StrategyID (ca_row c)) (pr_Symbol p)))))
     (ca_open c)"

definition watchOne ::
  "'d::linordered_field dlib \<Rightarrow> (nat \<Rightarrow> string) \<Rightarrow> (nat \<Rightarrow> string) \<Rightarrow> 'd mon_env \<Rightarrow> instant \<Rightarrow> candidate \<Rightarrow>
     monitor \<times> mon_run \<Rightarrow> monitor \<times> mon_run" where
  "watchOne L U E env now c = (\<lambda>(m, x).
     let s = sg_StrategyID (ca_row c);
         (m1, lastSeen) = observe s now m;
         x1 = set_db (backfillEscalationAlert U s now) x
     in if ActiveKill (mr_db x1) s then (m1, x1)
        else let (age, fromBeat) = silenceAge m1 s lastSeen now
        in if age \<le> WatchdogSilenceThreshold then (m1, x1)
           else if age > WatchdogEscalationThreshold
             then (m1, escalate U E s ''silence_10m'' lastSeen fromBeat age now x1)
           else if me_reconciled env \<and> unprotectedExposure L env c now (mr_db x1)
             then (m1, escalate U E s ''unprotected_exposure'' lastSeen fromBeat age now x1)
           else (m1, set_db (rungOneSilence U env s lastSeen fromBeat age now) x1))"

definition watchdogPass ::
  "'d::linordered_field dlib \<Rightarrow> (nat \<Rightarrow> string) \<Rightarrow> (nat \<Rightarrow> string) \<Rightarrow> 'd mon_env \<Rightarrow> candidate list \<Rightarrow> instant \<Rightarrow>
     monitor \<times> mon_run \<Rightarrow> monitor \<times> mon_run" where
  "watchdogPass L U E env cs now = (\<lambda>(m, x).
     if mo_watchdogOff m then (m, x)
     else let live = filter monitored_live cs
       in fold (watchOne L U E env now) live
            (pruneWatchSet (\<lambda>s. s \<in> sg_StrategyID ` ca_row ` set live) m, x))"

section \<open>A tick\<close>

definition interval :: "monitor \<Rightarrow> candidate list \<Rightarrow> store_db \<Rightarrow> duration" where
  "interval m cs db =
     (if list_ex (\<lambda>c. ca_open c \<noteq> []) cs then mo_active m
      else if list_ex (\<lambda>w. or_StrategyID w \<in> sg_StrategyID ` ca_row ` set cs) (ListNonTerminalLiveOrders db)
      then mo_active m else mo_idle m)"

definition not_reconciled :: "(nat \<Rightarrow> string) \<Rightarrow> instant \<Rightarrow> candidate \<Rightarrow> mon_run \<Rightarrow> mon_run" where
  "not_reconciled U now c = set_db (alertDaily U ''breaker_mark_stale'' (sg_StrategyID (ca_row c)) ''not_reconciled''
     (''{'' @ json_field ''cause'' (go_quote ''not_reconciled'') @ ''}'') now)"

definition tick ::
  "'d::linordered_field dlib \<Rightarrow> (nat \<Rightarrow> string) \<Rightarrow> (nat \<Rightarrow> string) \<Rightarrow> 'd mon_env \<Rightarrow> instant \<Rightarrow> monitor \<Rightarrow> store_db \<Rightarrow>
     monitor \<times> mon_run \<times> duration" where
  "tick L U E env now m db =
     (let x0 = \<lparr>mr_db = db, mr_drives = []\<rparr>
      in (case monitored L db of
            Ok cs \<Rightarrow>
              let x1 = (if me_reconciled env then fold (mon_evaluate L U E env now) cs x0
                        else fold (not_reconciled U now) cs x0);
                  (m2, x2) = watchdogPass L U E env cs now (m, x1)
              in (m2, set_db (stallScan U m now) x2, interval m cs (mr_db x2))
          | _ \<Rightarrow> (m, set_db (stallScan U m now) x0, mo_active m)))"


section \<open>The ledger of events\<close>

text \<open>What the kill predicates and the breaker latch read.\<close>

definition ledger :: "store_db \<Rightarrow> kill_row list \<times> clear_row list \<times> strategy_row list" where
  "ledger db = (db_kills db, db_clears db, db_strategies db)"

lemma ledger_cong:
  assumes "ledger d = ledger db"
  shows "db_kills d = db_kills db" and "db_strategies d = db_strategies db" and "kill_inv d = kill_inv db"
    and "ActiveKill d s = ActiveKill db s" and "BreakerActiveToday d s u = BreakerActiveToday db s u"
    and "tenant_of d s = tenant_of db s" and "next_epoch d = next_epoch db"
  using assms
  by (auto simp: ledger_def kill_inv_def ActiveKill_def BreakerActiveToday_def binds_def watermark_def scopes_of_def
      tenant_of_def get_strategy_row_def next_epoch_def)

lemma ledger_update [simp]:
  "ledger (db\<lparr>db_alerts := a\<rparr>) = ledger db" "ledger (db\<lparr>db_orders := os\<rparr>) = ledger db"
  "ledger (db\<lparr>db_orders := os, db_intents := is\<rparr>) = ledger db"
  by (simp_all add: ledger_def)

lemma append_or_log_ledger [simp]: "ledger (append_or_log U k s rf d now db) = ledger db"
  by (simp add: append_or_log_def appendAlert_def AppendSafetyAlert_def)

lemma alertDaily_ledger [simp]: "ledger (alertDaily U k s rf d now db) = ledger db"
  by (simp add: alertDaily_def)

lemma alert_ledgers [simp]:
  "ledger (alertStaleMark U s sy now db) = ledger db"
  "ledger (alertPnLError U s now db) = ledger db"
  "ledger (backfillEscalationAlert U s now db) = ledger db"
  "ledger (apply_sweep env s db) = ledger db"
  by (simp_all add: alertStaleMark_def alertPnLError_def backfillEscalationAlert_def apply_sweep_def
      split: option.split prod.split)

lemma rungOneSilence_ledger [simp]: "ledger (rungOneSilence U env s ls b a now db) = ledger db"
  by (simp add: rungOneSilence_def appendAlert_def AppendSafetyAlert_def)

lemma stallScan_ledger [simp]: "ledger (stallScan U m now db) = ledger db"
proof -
  have "ledger (stall_one U t now e db) = ledger db" for t e db
    by (simp add: stall_one_def Let_def split: option.split)
  then have "ledger (fold (stall_one U t now) es db) = ledger db" for t es db
    by (induction es arbitrary: db) simp_all
  then show ?thesis by (simp add: stallScan_def)
qed

lemma set_db_simps [simp]: "mr_db (set_db f x) = f (mr_db x)" "mr_drives (set_db f x) = mr_drives x"
  by (simp_all add: set_db_def)

section \<open>When the breaker fires\<close>

text \<open>Every open position of the strategy has a fresh mark in the cache.\<close>

definition priced :: "'d::linordered_field dlib \<Rightarrow> 'd mark_store \<Rightarrow> store_db \<Rightarrow> string \<Rightarrow> instant \<Rightarrow> bool" where
  "priced L marks db s now \<longleftrightarrow> list_all (\<lambda>p. case dFromString L (pr_QtyBase p) of
      None \<Rightarrow> False | Some q \<Rightarrow> q = 0 \<or> fresh_mark marks (pr_Symbol p) now \<noteq> None) (ListPositions db s)"

text \<open>The breaker is due: not fired today, a limit is set, every mark is fresh before and after the
  fold, and the daily figure is at or under the limit.\<close>

definition breaker_due ::
  "'d::linordered_field dlib \<Rightarrow> 'd mon_env \<Rightarrow> store_db \<Rightarrow> string \<Rightarrow> instant \<Rightarrow> 'd option" where
  "breaker_due L env db s now =
     (if \<not> BreakerActiveToday db s (utcDate now) \<and> 0 < me_limit env s
         \<and> priced L (me_marks env 0) db s now \<and> priced L (me_marks env 2) db s now
      then (case DailyPnL L (me_marks env 1) db s now of
              Ok pnl \<Rightarrow> if pnl \<le> - me_limit env s then Some pnl else None
            | _ \<Rightarrow> None)
      else None)"

lemma stale_of_none:
  "list_all (\<lambda>p. pr_Symbol p \<noteq> []) ps \<Longrightarrow> stale_of L mk ps = Ok [] \<longleftrightarrow>
     list_all (\<lambda>p. case dFromString L (pr_QtyBase p) of None \<Rightarrow> False | Some q \<Rightarrow> q = 0 \<or> mk (pr_Symbol p) \<noteq> None) ps"
  by (induction ps) (auto simp: parse_dec_def split: option.splits)

lemma staleSymbol_none:
  "list_all (\<lambda>p. pr_Symbol p \<noteq> []) (ListPositions db s) \<Longrightarrow>
     staleSymbol L marks db s now = Ok [] \<longleftrightarrow> priced L marks db s now"
  by (simp add: staleSymbol_def priced_def stale_of_none)

definition fired :: "'d dlib \<Rightarrow> (nat \<Rightarrow> string) \<Rightarrow> 'd mon_env \<Rightarrow> candidate \<Rightarrow> instant \<Rightarrow> 'd \<Rightarrow> mon_run \<Rightarrow> kill_row" where
  "fired L E env c now pnl x = breaker_row L (E (length (db_kills (mr_db x)))) (ca_row c) pnl
     (me_limit env (sg_StrategyID (ca_row c))) now"

lemma mon_evaluate_cases:
  "(ledger (mr_db (mon_evaluate L U E env now c x)) = ledger (mr_db x) \<and> mr_drives (mon_evaluate L U E env now c x) = mr_drives x)
   \<or> (\<exists>pnl. \<not> BreakerActiveToday (mr_db x) (sg_StrategyID (ca_row c)) (utcDate now)
        \<and> mon_evaluate L U E env now c x = fire L E (ca_row c) pnl (me_limit env (sg_StrategyID (ca_row c))) now x)"
  unfolding mon_evaluate_def evaluatePnL_def Let_def
  by (auto split: outcome.split)

lemma fire_kills:
  "db_kills (mr_db (fire L E r pnl limit now x)) = db_kills (mr_db x) \<or>
   db_kills (mr_db (fire L E r pnl limit now x)) =
     db_kills (mr_db x) @ [breaker_row L (E (length (db_kills (mr_db x)))) r pnl limit now]"
  by (simp add: fire_def Let_def AppendKillBreakerEvent_def)

lemma kill_row_step:
  "AppendKillBreakerEvent e db = Ok d \<Longrightarrow> d = db\<lparr>db_kills := db_kills db @ [e]\<rparr>"
  by (auto simp: AppendKillBreakerEvent_def split: if_splits)

section \<open>One breaker a day\<close>

definition own_breaker :: "string \<Rightarrow> string \<Rightarrow> kill_row \<Rightarrow> bool" where
  "own_breaker s date e \<longleftrightarrow> ke_Kind e = ''breaker'' \<and> ke_StrategyID e = Some s \<and> take 10 (ke_RecordedAt e) = date"

definition breakers :: "store_db \<Rightarrow> string \<Rightarrow> string \<Rightarrow> kill_row list" where
  "breakers db s date = filter (own_breaker s date) (db_kills db)"

definition one_a_day :: "store_db \<Rightarrow> bool" where
  "one_a_day db \<longleftrightarrow> (\<forall>s date. length (breakers db s date) \<le> 1)"

lemma breakers_active: "breakers db s date \<noteq> [] \<Longrightarrow> BreakerActiveToday db s date"
  by (auto simp: breakers_def filter_empty_conv own_breaker_def BreakerActiveToday_def list_ex_iff binds_def
      scopes_of_def in_scope_def)

lemma breakers_cong: "db_kills d = db_kills db \<Longrightarrow> breakers d = breakers db"
  by (rule ext)+ (simp add: breakers_def)

lemma one_a_day_cong: "db_kills d = db_kills db \<Longrightarrow> one_a_day d = one_a_day db"
  by (simp add: one_a_day_def breakers_def)

lemma one_a_day_other:
  "one_a_day db \<Longrightarrow> db_kills d = db_kills db @ es \<Longrightarrow> list_all (\<lambda>e. ke_Kind e \<noteq> ''breaker'') es \<Longrightarrow> one_a_day d"
proof -
  assume a: "one_a_day db" "db_kills d = db_kills db @ es" "list_all (\<lambda>e. ke_Kind e \<noteq> ''breaker'') es"
  have "filter (own_breaker s date) es = []" for s date
    using a(3) by (auto simp: filter_empty_conv own_breaker_def list_all_iff)
  with a show ?thesis by (simp add: one_a_day_def breakers_def)
qed

lemma one_a_day_fire:
  assumes "one_a_day db" and "\<not> BreakerActiveToday db (sg_StrategyID r) (utcDate now)" and "four_digit_year now"
    and "db_kills d = db_kills db @ [breaker_row L ev r pnl limit now]"
  shows "one_a_day d"
proof -
  have "length (breakers d s date) \<le> 1" for s date
  proof (cases "s = sg_StrategyID r \<and> date = utcDate now")
    case True
    then have "breakers db s date = []" using assms(2) breakers_active by blast
    then show ?thesis by (simp add: breakers_def assms(4))
  next
    case False
    then have "\<not> own_breaker s date (breaker_row L ev r pnl limit now)"
      by (auto simp: own_breaker_def breaker_row_def take_format_seconds [OF assms(3)])
    then have "breakers d s date = breakers db s date" by (simp add: breakers_def assms(4))
    then show ?thesis using assms(1) by (simp add: one_a_day_def)
  qed
  then show ?thesis by (simp add: one_a_day_def)
qed

lemma evaluate_one_a_day:
  assumes "one_a_day (mr_db x)" and "four_digit_year now"
  shows "one_a_day (mr_db (mon_evaluate L U E env now c x))"
  using mon_evaluate_cases [of L U E env now c x]
proof
  assume "ledger (mr_db (mon_evaluate L U E env now c x)) = ledger (mr_db x) \<and> mr_drives (mon_evaluate L U E env now c x) = mr_drives x"
  then show ?thesis using one_a_day_cong ledger_cong(1) assms(1) by blast
next
  assume "\<exists>pnl. \<not> BreakerActiveToday (mr_db x) (sg_StrategyID (ca_row c)) (utcDate now)
        \<and> mon_evaluate L U E env now c x = fire L E (ca_row c) pnl (me_limit env (sg_StrategyID (ca_row c))) now x"
  then obtain pnl where b: "\<not> BreakerActiveToday (mr_db x) (sg_StrategyID (ca_row c)) (utcDate now)"
    and e: "mon_evaluate L U E env now c x = fire L E (ca_row c) pnl (me_limit env (sg_StrategyID (ca_row c))) now x"
    by blast
  show ?thesis unfolding e
    using fire_kills [of L E "ca_row c" pnl "me_limit env (sg_StrategyID (ca_row c))" now x]
  proof
    assume "db_kills (mr_db (fire L E (ca_row c) pnl (me_limit env (sg_StrategyID (ca_row c))) now x)) = db_kills (mr_db x)"
    from one_a_day_cong [OF this] show "one_a_day (mr_db (fire L E (ca_row c) pnl (me_limit env (sg_StrategyID (ca_row c))) now x))"
      using assms(1) by simp
  qed (rule one_a_day_fire [OF assms(1) b assms(2)])
qed

text \<open>The state of the monitor's process: its memory and the tables.\<close>

datatype 'd mon_op = OpTick instant "'d mon_env" | OpBeat string instant | OpElsewhere kill_op

text \<open>Ticks and heartbeats, and what the rest of the control plane does to the ledger in between:
  kills, clears, served markers and alerts. The clock shows years of four digits.\<close>

definition mon_step ::
  "'d::linordered_field dlib \<Rightarrow> (nat \<Rightarrow> string) \<Rightarrow> (nat \<Rightarrow> string) \<Rightarrow> monitor \<times> store_db \<Rightarrow> 'd mon_op \<Rightarrow>
     (monitor \<times> store_db) option" where
  "mon_step L U E = (\<lambda>(m, db) op. case op of
      OpTick now env \<Rightarrow> if four_digit_year now
        then (case tick L U E env now m db of (m', x, _) \<Rightarrow> Some (m', mr_db x)) else None
    | OpBeat s t \<Rightarrow> Some (Beat s t m, db)
    | OpElsewhere k \<Rightarrow> (case k of OpBreaker _ \<Rightarrow> None | _ \<Rightarrow> map_option (Pair m) (kill_step U db k)))"

definition day_inv :: "monitor \<times> store_db \<Rightarrow> bool" where
  "day_inv = (\<lambda>(_, db). one_a_day db)"

lemma escalate_kills:
  "db_kills (mr_db (escalate U E s cause ls b a now x)) = db_kills (mr_db x) \<or>
   (\<exists>e. db_kills (mr_db (escalate U E s cause ls b a now x)) = db_kills (mr_db x) @ [e] \<and> ke_Kind e = ''kill'')"
proof (cases "AppendStrategyKill (E (length (db_kills (mr_db x)))) s ''watchdog'' (format_seconds now) False (mr_db x)")
  case (Ok p)
  obtain d k where p: "p = (d, k)" by (cases p)
  have "db_kills d = db_kills (mr_db x) \<or> (\<exists>e. db_kills d = db_kills (mr_db x) @ [e] \<and> ke_Kind e = ''kill'')"
    using Ok p by (auto simp: AppendStrategyKill_def bind_outcome_eq_Ok dest!: kill_row_step split: option.splits)
  then show ?thesis using ledger_cong(1) [OF append_or_log_ledger] by (simp add: escalate_def Let_def Ok p)
qed (simp_all add: escalate_def Let_def)

lemma watchOne_one_a_day:
  assumes "one_a_day (mr_db x)"
  shows "one_a_day (mr_db (snd (watchOne L U E env now c (m, x))))"
proof -
  obtain m1 ls where o: "observe (sg_StrategyID (ca_row c)) now m = (m1, ls)" by fastforce
  obtain a b where a: "silenceAge m1 (sg_StrategyID (ca_row c)) ls now = (a, b)" by fastforce
  let ?x1 = "set_db (backfillEscalationAlert U (sg_StrategyID (ca_row c)) now) x"
  have "db_kills (mr_db ?x1) = db_kills (mr_db x)" by (rule ledger_cong(1)) simp
  from one_a_day_cong [OF this] have i: "one_a_day (mr_db ?x1)" using assms by simp
  have e: "one_a_day (mr_db (escalate U E s cause l f g now ?x1))" for s cause l f g
    using escalate_kills [of U E s cause l f g now ?x1]
  proof
    assume "db_kills (mr_db (escalate U E s cause l f g now ?x1)) = db_kills (mr_db ?x1)"
    from one_a_day_cong [OF this] i show ?thesis by simp
  next
    assume "\<exists>e. db_kills (mr_db (escalate U E s cause l f g now ?x1)) = db_kills (mr_db ?x1) @ [e] \<and> ke_Kind e = ''kill''"
    then show ?thesis using one_a_day_other [OF i] by fastforce
  qed
  have r: "one_a_day (rungOneSilence U env s l f g now (mr_db ?x1))" for s l f g
    using i one_a_day_cong [OF ledger_cong(1) [OF rungOneSilence_ledger [of U env s l f g now "mr_db ?x1"]]] by simp
  show ?thesis using i e r by (simp add: watchOne_def o a Let_def)
qed

lemma watchdogPass_one_a_day:
  "one_a_day (mr_db x) \<Longrightarrow> one_a_day (mr_db (snd (watchdogPass L U E env cs now (m, x))))"
proof -
  have "one_a_day (mr_db (snd y)) \<Longrightarrow> one_a_day (mr_db (snd (fold (watchOne L U E env now) ds y)))" for ds y
  proof (induction ds arbitrary: y)
    case (Cons d ds)
    then show ?case using watchOne_one_a_day [of "snd y" L U E env now d "fst y"] by simp
  qed simp
  from this [of "(_, x)"] show "one_a_day (mr_db x) \<Longrightarrow> ?thesis" by (simp add: watchdogPass_def Let_def)
qed

lemma evaluate_all_one_a_day:
  "one_a_day (mr_db x) \<Longrightarrow> four_digit_year now \<Longrightarrow> one_a_day (mr_db (fold (mon_evaluate L U E env now) cs x))"
  by (induction cs arbitrary: x) (simp_all add: evaluate_one_a_day)

lemma not_reconciled_ledger: "ledger (mr_db (fold (not_reconciled U now) cs x)) = ledger (mr_db x)"
  by (induction cs arbitrary: x) (simp_all add: not_reconciled_def)

lemma tick_one_a_day:
  assumes "one_a_day db" and "four_digit_year now" and "tick L U E env now m db = (m', x, w)"
  shows "one_a_day (mr_db x)"
proof -
  let ?x0 = "\<lparr>mr_db = db, mr_drives = []\<rparr>"
  have scan: "one_a_day (stallScan U m now d) = one_a_day d" for d m
    by (rule one_a_day_cong [OF ledger_cong(1) [OF stallScan_ledger]])
  have x0: "one_a_day (mr_db ?x0)" using assms(1) by simp
  have nr: "one_a_day (mr_db (fold (not_reconciled U now) cs ?x0))" for cs
    using x0 one_a_day_cong [OF ledger_cong(1) [OF not_reconciled_ledger [of U now cs ?x0]]] by simp
  have x1: "one_a_day (mr_db (if me_reconciled env then fold (mon_evaluate L U E env now) cs ?x0
                        else fold (not_reconciled U now) cs ?x0))" for cs
    using evaluate_all_one_a_day [OF x0 assms(2), of L U E env cs] nr [of cs] by simp
  show ?thesis
  proof (cases "monitored L db")
    case (Ok cs)
    let ?x1 = "if me_reconciled env then fold (mon_evaluate L U E env now) cs ?x0 else fold (not_reconciled U now) cs ?x0"
    obtain m2 x2 where w: "watchdogPass L U E env cs now (m, ?x1) = (m2, x2)" by fastforce
    have "one_a_day (mr_db x2)" using watchdogPass_one_a_day [OF x1, of L U E env cs now m cs] unfolding w by simp
    moreover have "x = set_db (stallScan U m now) x2"
      using assms(3) by (simp only: tick_def Let_def Ok outcome.case w prod.case prod.inject)
    ultimately show ?thesis by (simp add: scan)
  qed (use assms(3) x0 in \<open>auto simp: tick_def scan\<close>)
qed

lemma mon_step_day:
  assumes "day_inv y" and "mon_step L U E y op = Some z"
  shows "day_inv z"
proof (cases op)
  case (OpElsewhere k)
  obtain m db where y: "y = (m, db)" by (cases y)
  obtain d where k: "kill_step U db k = Some d" "z = (m, d)" "\<And>e. k \<noteq> OpBreaker e"
    using assms(2) OpElsewhere y by (auto simp: mon_step_def split: kill_op.splits)
  have "list_all (\<lambda>e. ke_Kind e \<noteq> ''breaker'') (op_row db k)"
    using op_row_breaker [OF k(1)] k(3) by (auto simp: list_all_iff op_row_def split: kill_op.splits)
  then show ?thesis using one_a_day_other kill_step_kills [OF k(1)] assms(1) by (simp add: day_inv_def y k(2))
qed (use assms tick_one_a_day in \<open>auto simp: day_inv_def mon_step_def split: if_splits prod.splits\<close>)

interpretation mon_machine: machine "mon_step L U E" day_inv
  for L :: "'d::linordered_field dlib" and U E
  by unfold_locales (rule mon_step_day)

text \<open>C23: one breaker a day: whatever ticks, heartbeats, kills, clears and alerts happen, with whatever
  marks, limits and identifiers, a strategy whose rows show at most one breaker per UTC day never
  gets a second one for the same day.\<close>

theorem one_breaker_per_day:
  assumes "run (mon_step L U E) (m, db) ops = Some (m', db')" and "one_a_day db"
  shows "length (filter (\<lambda>e. ke_Kind e = ''breaker'' \<and> ke_StrategyID e = Some s \<and> take 10 (ke_RecordedAt e) = date)
     (db_kills db')) \<le> 1"
proof -
  have "one_a_day db'" using mon_machine.run_inv [of "(m, db)" L U E ops] assms by (simp add: day_inv_def)
  then have "length (breakers db' s date) \<le> 1" by (simp add: one_a_day_def)
  then show ?thesis by (simp add: breakers_def own_breaker_def [abs_def])
qed

section \<open>The watchdog's verdicts\<close>

text \<open>What one watched strategy leaves in the monitor's memory.\<close>

definition view :: "monitor \<Rightarrow> string \<Rightarrow> instant \<times> instant option \<times> instant option" where
  "view m s = (mo_startedAt m, al_get (mo_firstWatched m) s, al_get (mo_lastSeen m) s)"

definition silence :: "monitor \<Rightarrow> string \<Rightarrow> instant \<Rightarrow> duration" where
  "silence m s now = fst (silenceAge m s (al_get (mo_lastSeen m) s) now)"

lemma view_silence: "view m s = view n s \<Longrightarrow> silenceAge m s l now = silenceAge n s l now \<and> silence m s now = silence n s now"
  by (simp add: view_def silence_def silenceAge_def Let_def split: option.split)

lemma observe_own:
  "observe s now m = (m1, l) \<Longrightarrow> l = al_get (mo_lastSeen m1) s \<and> al_get (mo_firstWatched m1) s \<noteq> None"
  by (auto simp: observe_def al.get_put_same delete_conv' split: option.splits)

lemma observe_keeps:
  "observe t now m = (m1, l) \<Longrightarrow> al_get (mo_firstWatched m) s \<noteq> None \<Longrightarrow> view m1 s = view m s"
  by (auto simp: observe_def view_def al.get_put delete_conv' split: option.splits)

text \<open>The ladder for one strategy when the monitor's memory is \<open>M\<close>.\<close>

definition watch_run ::
  "'d::linordered_field dlib \<Rightarrow> (nat \<Rightarrow> string) \<Rightarrow> (nat \<Rightarrow> string) \<Rightarrow> 'd mon_env \<Rightarrow> instant \<Rightarrow> monitor \<Rightarrow> candidate \<Rightarrow>
     mon_run \<Rightarrow> mon_run" where
  "watch_run L U E env now M c x =
     (let s = sg_StrategyID (ca_row c); l = al_get (mo_lastSeen M) s;
          x1 = set_db (backfillEscalationAlert U s now) x; (age, fromBeat) = silenceAge M s l now
      in if ActiveKill (mr_db x1) s \<or> age \<le> WatchdogSilenceThreshold then x1
         else if age > WatchdogEscalationThreshold then escalate U E s ''silence_10m'' l fromBeat age now x1
         else if me_reconciled env \<and> unprotectedExposure L env c now (mr_db x1)
           then escalate U E s ''unprotected_exposure'' l fromBeat age now x1
         else set_db (rungOneSilence U env s l fromBeat age now) x1)"

lemma watchOne_run:
  assumes "watchOne L U E env now c (m, x) = (m1, y)" and "view M (sg_StrategyID (ca_row c)) = view m1 (sg_StrategyID (ca_row c))"
  shows "y = watch_run L U E env now M c x"
proof -
  obtain a l where o: "observe (sg_StrategyID (ca_row c)) now m = (a, l)" by fastforce
  have a: "a = m1" using assms(1) by (auto simp: watchOne_def o Let_def split: if_splits prod.splits)
  have l: "l = al_get (mo_lastSeen m1) (sg_StrategyID (ca_row c))" using observe_own [OF o] a by simp
  have v: "al_get (mo_lastSeen M) (sg_StrategyID (ca_row c)) = l" using assms(2) l by (simp add: view_def)
  have s: "silenceAge M (sg_StrategyID (ca_row c)) l now = silenceAge m1 (sg_StrategyID (ca_row c)) l now"
    using view_silence [OF assms(2)] by blast
  obtain g b where g: "silenceAge m1 (sg_StrategyID (ca_row c)) l now = (g, b)" by fastforce
  show ?thesis using assms(1)
    by (auto simp: watchOne_def watch_run_def o a Let_def v s g split: if_splits)
qed

lemma watchOne_memory:
  "watchOne L U E env now c (m, x) = (m1, y) \<Longrightarrow> \<exists>l. observe (sg_StrategyID (ca_row c)) now m = (m1, l)"
  by (auto simp: watchOne_def Let_def split: if_splits prod.splits)

lemma watch_fold:
  "fold (watchOne L U E env now) cs (m, x) = (M, y) \<Longrightarrow>
     y = fold (watch_run L U E env now M) cs x \<and> (\<forall>s. al_get (mo_firstWatched m) s \<noteq> None \<longrightarrow> view M s = view m s)"
proof (induction cs arbitrary: m x)
  case (Cons c cs)
  obtain m1 x1 where w: "watchOne L U E env now c (m, x) = (m1, x1)" by fastforce
  then have f: "fold (watchOne L U E env now) cs (m1, x1) = (M, y)" using Cons.prems by simp
  note ih = Cons.IH [OF f]
  obtain l where o: "observe (sg_StrategyID (ca_row c)) now m = (m1, l)" using watchOne_memory [OF w] by blast
  have "view M (sg_StrategyID (ca_row c)) = view m1 (sg_StrategyID (ca_row c))" using ih observe_own [OF o] by blast
  then have "x1 = watch_run L U E env now M c x" by (rule watchOne_run [OF w])
  moreover have "view M s = view m s" if "al_get (mo_firstWatched m) s \<noteq> None" for s
  proof -
    have "view m1 s = view m s" by (rule observe_keeps [OF o that])
    moreover from this have "al_get (mo_firstWatched m1) s \<noteq> None" using that by (simp add: view_def)
    ultimately show ?thesis using ih by simp
  qed
  ultimately show ?case using ih by simp
qed simp

text \<open>The ledger only grows within a tick.\<close>

definition grows :: "store_db \<Rightarrow> store_db \<Rightarrow> bool" where
  "grows db d \<longleftrightarrow> (\<exists>es. db_kills d = db_kills db @ es) \<and> db_clears d = db_clears db \<and> db_strategies d = db_strategies db"

lemma grows_refl: "ledger d = ledger db \<Longrightarrow> grows db d"
  by (simp add: grows_def ledger_def)

lemma grows_trans: "grows a b \<Longrightarrow> grows b c \<Longrightarrow> grows a c"
  by (auto simp: grows_def)

lemma grows_active: "grows db d \<Longrightarrow> ActiveKill db s \<Longrightarrow> ActiveKill d s"
  using scopes_of_frame [of d db s] by (auto simp: grows_def ActiveKill_iff scope_active_def watermark_def)

lemma grows_tenant: "grows db d \<Longrightarrow> tenant_of d s = tenant_of db s"
  by (simp add: grows_def tenant_of_def get_strategy_row_def)

text \<open>Identifiers of later events are unused.\<close>

definition fresh_events :: "(nat \<Rightarrow> string) \<Rightarrow> store_db \<Rightarrow> bool" where
  "fresh_events E db \<longleftrightarrow> inj E \<and> (\<forall>n \<ge> length (db_kills db). E n \<notin> ke_EventID ` set (db_kills db))"

definition sound :: "(nat \<Rightarrow> string) \<Rightarrow> store_db \<Rightarrow> bool" where
  "sound E db \<longleftrightarrow> kill_inv db \<and> fresh_events E db"

lemma sound_cong: "ledger d = ledger db \<Longrightarrow> sound E d = sound E db"
  using ledger_cong(1,3) [of d db] by (simp add: sound_def fresh_events_def)

lemma sound_append:
  assumes "sound E db" and "kill_step U db op = Some d" and "op_row db op = [e]" and "ke_EventID e = E (length (db_kills db))"
  shows "sound E d"
proof -
  have k: "db_kills d = db_kills db @ [e]" using kill_step_kills [OF assms(2)] assms(3) by simp
  have "E n \<noteq> E (length (db_kills db))" if "n \<ge> Suc (length (db_kills db))" for n
    using assms(1) that by (auto simp: sound_def fresh_events_def dest: injD)
  then have "fresh_events E d" using assms(1,4) by (auto simp: sound_def fresh_events_def k)
  moreover have "kill_inv d" using assms(1) kill_step_inv [OF _ assms(2)] by (simp add: sound_def)
  ultimately show ?thesis by (simp add: sound_def)
qed

lemma fire_sound_step:
  assumes "sound E (mr_db x)"
  shows "sound E (mr_db (fire L E r pnl limit now x)) \<and> grows (mr_db x) (mr_db (fire L E r pnl limit now x))"
proof (cases "AppendKillBreakerEvent (breaker_row L (E (length (db_kills (mr_db x)))) r pnl limit now) (mr_db x)")
  case (Ok d)
  let ?e = "breaker_row L (E (length (db_kills (mr_db x)))) r pnl limit now"
  have "kill_step E (mr_db x) (OpBreaker ?e) = Some d" by (simp add: kill_step_def Ok) (simp add: breaker_row_def)
  from sound_append [OF assms this] have "sound E d" by (simp add: op_row_def breaker_row_def)
  moreover have "grows (mr_db x) d" using kill_row_step [OF Ok] by (simp add: grows_def)
  ultimately show ?thesis by (simp add: fire_def Let_def Ok)
qed (use assms in \<open>auto simp: fire_def Let_def grows_def\<close>)

lemma escalate_step:
  assumes "sound E (mr_db x)" and "tenant_of (mr_db x) s = Some t"
  shows "sound E (mr_db (escalate U E s cause l b a now x)) \<and> ActiveKill (mr_db (escalate U E s cause l b a now x)) s"
proof -
  let ?ev = "E (length (db_kills (mr_db x)))" and ?db = "mr_db x"
  have free: "row_get ke_EventID (db_kills ?db) ?ev = None"
    using assms(1) by (auto simp: sound_def fresh_events_def row_get_None_iff)
  obtain d where d: "AppendStrategyKill ?ev s ''watchdog'' (format_seconds now) False ?db = Ok (d, next_epoch ?db)"
    using free assms(2) by (simp add: AppendStrategyKill_def AppendKillBreakerEvent_def)
  then have st: "kill_step E ?db (OpStrategyKill ?ev s ''watchdog'' (format_seconds now) False) = Some d"
    by (simp add: kill_step_def)
  have snd: "sound E d" by (rule sound_append [OF assms(1) st]) (simp add: op_row_def, simp)
  have "scope_active d (ScopeStrategy s)"
    by (rule kill_step_kill(1) [OF _ st]) (use assms(1) in \<open>simp_all add: sound_def kills_scope_def\<close>)
  then have act: "ActiveKill d s" by (auto simp: ActiveKill_iff scopes_of_def)
  have "ledger (mr_db (escalate U E s cause l b a now x)) = ledger d" by (simp add: escalate_def Let_def d)
  from sound_cong [OF this] ledger_cong(4) [OF this] snd act show ?thesis by simp
qed

lemma escalate_shape:
  "grows (mr_db x) (mr_db (escalate U E s cause l b a now x))
   \<and> (\<forall>e \<in> set (db_kills (mr_db (escalate U E s cause l b a now x))) - set (db_kills (mr_db x)).
        ke_Kind e = ''kill'' \<and> ke_StrategyID e = Some s \<and> ke_ActorID e = ''watchdog'' \<and> ke_Flatten e = Some False)"
proof (cases "AppendStrategyKill (E (length (db_kills (mr_db x)))) s ''watchdog'' (format_seconds now) False (mr_db x)")
  case (Ok p)
  obtain d k where p: "p = (d, k)" by (cases p)
  have "ledger (mr_db (escalate U E s cause l b a now x)) = ledger d" by (simp add: escalate_def Let_def Ok p)
  note f = this [unfolded ledger_def, simplified]
  show ?thesis using Ok
    by (auto simp: f p grows_def AppendStrategyKill_def bind_outcome_eq_Ok dest!: kill_row_step split: option.splits)
qed (simp_all add: escalate_def Let_def grows_def)

text \<open>One strategy: it is fenced or not silent for long; a new kill is its own and has a reason.\<close>

lemma watch_run_quiet:
  "ActiveKill (mr_db x) (sg_StrategyID (ca_row c)) \<or> silence M (sg_StrategyID (ca_row c)) now \<le> WatchdogSilenceThreshold \<Longrightarrow>
     ledger (mr_db (watch_run L U E env now M c x)) = ledger (mr_db x)"
  using ledger_cong(4) [of "backfillEscalationAlert U (sg_StrategyID (ca_row c)) now (mr_db x)" "mr_db x"]
  by (auto simp: watch_run_def silence_def Let_def split: prod.split)

lemma watch_run_cases:
  fixes x c M now U
  defines "s \<equiv> sg_StrategyID (ca_row c)"
  defines "x1 \<equiv> set_db (backfillEscalationAlert U s now) x"
  shows "ledger (mr_db (watch_run L U E env now M c x)) = ledger (mr_db x) \<and>
       (ActiveKill (mr_db x) s \<or> silence M s now \<le> WatchdogEscalationThreshold)
     \<or> (\<exists>cause l b a. watch_run L U E env now M c x = escalate U E s cause l b a now x1 \<and> \<not> ActiveKill (mr_db x) s \<and>
          WatchdogSilenceThreshold < silence M s now \<and> (WatchdogEscalationThreshold < silence M s now \<or> me_reconciled env))"
proof -
  have l: "ledger (mr_db x1) = ledger (mr_db x)" by (simp add: x1_def)
  obtain a b where a: "silenceAge M s (al_get (mo_lastSeen M) s) now = (a, b)" by fastforce
  have s: "silence M s now = a" by (simp add: silence_def a)
  have k: "ActiveKill (mr_db x1) s = ActiveKill (mr_db x) s" by (rule ledger_cong(4) [OF l])
  have e: "WatchdogSilenceThreshold \<le> WatchdogEscalationThreshold"
    by (simp add: WatchdogSilenceThreshold_def WatchdogEscalationThreshold_def second_def)
  show ?thesis
    unfolding watch_run_def Let_def s_def [symmetric] x1_def [symmetric] a prod.case s k using l e by auto
qed

lemma mon_evaluate_step:
  "grows (mr_db x) (mr_db (mon_evaluate L U E env now c x))
   \<and> (sound E (mr_db x) \<longrightarrow> sound E (mr_db (mon_evaluate L U E env now c x)))
   \<and> (\<forall>e \<in> set (db_kills (mr_db (mon_evaluate L U E env now c x))) - set (db_kills (mr_db x)). ke_Kind e = ''breaker'')"
  using mon_evaluate_cases [of L U E env now c x]
proof
  let ?y = "mon_evaluate L U E env now c x"
  assume "ledger (mr_db ?y) = ledger (mr_db x) \<and> mr_drives ?y = mr_drives x"
  then have l: "ledger (mr_db ?y) = ledger (mr_db x)" by blast
  show ?thesis using grows_refl [OF l] sound_cong [OF l] ledger_cong(1) [OF l] by simp
next
  let ?y = "mon_evaluate L U E env now c x"
  assume "\<exists>pnl. \<not> BreakerActiveToday (mr_db x) (sg_StrategyID (ca_row c)) (utcDate now)
        \<and> ?y = fire L E (ca_row c) pnl (me_limit env (sg_StrategyID (ca_row c))) now x"
  then obtain pnl where y: "?y = fire L E (ca_row c) pnl (me_limit env (sg_StrategyID (ca_row c))) now x" by blast
  have "grows (mr_db x) (mr_db ?y)"
    unfolding y by (auto simp: fire_def Let_def grows_def dest: kill_row_step split: outcome.split)
  moreover have "\<forall>e \<in> set (db_kills (mr_db ?y)) - set (db_kills (mr_db x)). ke_Kind e = ''breaker''"
    unfolding y using fire_kills [of L E "ca_row c" pnl "me_limit env (sg_StrategyID (ca_row c))" now x]
    by (auto simp: breaker_row_def)
  ultimately show ?thesis
    using fire_sound_step [of E x L "ca_row c" pnl "me_limit env (sg_StrategyID (ca_row c))" now] unfolding y by simp
qed

lemma evaluate_all_step:
  "grows (mr_db x) (mr_db (fold (mon_evaluate L U E env now) cs x))
   \<and> (sound E (mr_db x) \<longrightarrow> sound E (mr_db (fold (mon_evaluate L U E env now) cs x)))
   \<and> (\<forall>e \<in> set (db_kills (mr_db (fold (mon_evaluate L U E env now) cs x))) - set (db_kills (mr_db x)). ke_Kind e = ''breaker'')"
proof (induction cs arbitrary: x)
  case (Cons c cs)
  show ?case
    using Cons.IH [of "mon_evaluate L U E env now c x"] mon_evaluate_step [of x L U E env now c] grows_trans by auto
qed (simp add: grows_refl)

lemma watch_run_step:
  fixes x c
  defines "s \<equiv> sg_StrategyID (ca_row c)"
  assumes "sound E (mr_db x)" and "tenant_of (mr_db x) s = Some t"
  shows "sound E (mr_db (watch_run L U E env now M c x))
     \<and> (ActiveKill (mr_db (watch_run L U E env now M c x)) s \<or> silence M s now \<le> WatchdogEscalationThreshold)"
proof -
  let ?y = "watch_run L U E env now M c x" and ?x1 = "set_db (backfillEscalationAlert U s now) x"
  have l1: "ledger (mr_db ?x1) = ledger (mr_db x)" by simp
  have i1: "sound E (mr_db ?x1)" "tenant_of (mr_db ?x1) s = Some t"
    using assms(2,3) sound_cong [OF l1] ledger_cong(6) [OF l1] by simp_all
  consider (quiet) "ledger (mr_db ?y) = ledger (mr_db x)" "ActiveKill (mr_db x) s \<or> silence M s now \<le> WatchdogEscalationThreshold"
    | (kill) cause l b a where "?y = escalate U E s cause l b a now ?x1" "\<not> ActiveKill (mr_db x) s"
        "WatchdogSilenceThreshold < silence M s now" "WatchdogEscalationThreshold < silence M s now \<or> me_reconciled env"
    using watch_run_cases [of L U E env now M c x, folded s_def] by blast
  then show ?thesis
  proof cases
    case quiet
    with sound_cong [OF quiet(1)] ledger_cong(4) [OF quiet(1)] assms(2) show ?thesis by simp
  next
    case kill
    then show ?thesis using escalate_step [OF i1, of U cause l b a now] by simp
  qed
qed

lemma watch_run_shape:
  fixes x c
  defines "s \<equiv> sg_StrategyID (ca_row c)"
  shows "grows (mr_db x) (mr_db (watch_run L U E env now M c x))
     \<and> (\<forall>e \<in> set (db_kills (mr_db (watch_run L U E env now M c x))) - set (db_kills (mr_db x)).
          ke_Kind e = ''kill'' \<and> ke_StrategyID e = Some s \<and> ke_ActorID e = ''watchdog'' \<and> ke_Flatten e = Some False
          \<and> \<not> ActiveKill (mr_db x) s \<and> WatchdogSilenceThreshold < silence M s now
          \<and> (WatchdogEscalationThreshold < silence M s now \<or> me_reconciled env))"
proof -
  let ?y = "watch_run L U E env now M c x" and ?x1 = "set_db (backfillEscalationAlert U s now) x"
  have l1: "ledger (mr_db ?x1) = ledger (mr_db x)" by simp
  consider (quiet) "ledger (mr_db ?y) = ledger (mr_db x)" "ActiveKill (mr_db x) s \<or> silence M s now \<le> WatchdogEscalationThreshold"
    | (kill) cause l b a where "?y = escalate U E s cause l b a now ?x1" "\<not> ActiveKill (mr_db x) s"
        "WatchdogSilenceThreshold < silence M s now" "WatchdogEscalationThreshold < silence M s now \<or> me_reconciled env"
    using watch_run_cases [of L U E env now M c x, folded s_def] by blast
  then show ?thesis
  proof cases
    case quiet
    show ?thesis using grows_refl [OF quiet(1)] ledger_cong(1) [OF quiet(1)] by simp
  next
    case kill
    note e = escalate_shape [of ?x1 U E s cause l b a now, folded kill(1)]
    have "grows (mr_db x) (mr_db ?y)" using e grows_trans [OF grows_refl [OF l1]] by blast
    then show ?thesis using e kill ledger_cong(1) [OF l1] by simp
  qed
qed

lemma watch_all_shape:
  "grows (mr_db x) (mr_db (fold (watch_run L U E env now M) cs x))
   \<and> (\<forall>e \<in> set (db_kills (mr_db (fold (watch_run L U E env now M) cs x))) - set (db_kills (mr_db x)).
        \<exists>c \<in> set cs. ke_StrategyID e = Some (sg_StrategyID (ca_row c)) \<and> ke_ActorID e = ''watchdog''
          \<and> ke_Flatten e = Some False \<and> \<not> ActiveKill (mr_db x) (sg_StrategyID (ca_row c))
          \<and> WatchdogSilenceThreshold < silence M (sg_StrategyID (ca_row c)) now
          \<and> (WatchdogEscalationThreshold < silence M (sg_StrategyID (ca_row c)) now \<or> me_reconciled env))"
proof (induction cs arbitrary: x)
  case (Cons c cs)
  let ?y = "watch_run L U E env now M c x"
  note w = watch_run_shape [of x L U E env now M c]
  have "grows (mr_db x) (mr_db (fold (watch_run L U E env now M) cs ?y))"
    using Cons.IH [of ?y] w grows_trans by blast
  moreover have "\<exists>c \<in> set (c # cs). ke_StrategyID e = Some (sg_StrategyID (ca_row c)) \<and> ke_ActorID e = ''watchdog''
          \<and> ke_Flatten e = Some False \<and> \<not> ActiveKill (mr_db x) (sg_StrategyID (ca_row c))
          \<and> WatchdogSilenceThreshold < silence M (sg_StrategyID (ca_row c)) now
          \<and> (WatchdogEscalationThreshold < silence M (sg_StrategyID (ca_row c)) now \<or> me_reconciled env)"
    if e: "e \<in> set (db_kills (mr_db (fold (watch_run L U E env now M) cs ?y)))" "e \<notin> set (db_kills (mr_db x))" for e
  proof (cases "e \<in> set (db_kills (mr_db ?y))")
    case True
    with e(2) w show ?thesis by auto
  next
    case False
    with e(1) Cons.IH [of ?y] obtain d where d: "d \<in> set cs" "ke_StrategyID e = Some (sg_StrategyID (ca_row d))"
      "ke_ActorID e = ''watchdog''" "ke_Flatten e = Some False" "\<not> ActiveKill (mr_db ?y) (sg_StrategyID (ca_row d))"
      "WatchdogSilenceThreshold < silence M (sg_StrategyID (ca_row d)) now"
      "WatchdogEscalationThreshold < silence M (sg_StrategyID (ca_row d)) now \<or> me_reconciled env" by blast
    then have "\<not> ActiveKill (mr_db x) (sg_StrategyID (ca_row d))" using grows_active w by blast
    with d show ?thesis by auto
  qed
  ultimately show ?case by simp
qed (simp add: grows_refl)

lemma watch_all_fenced:
  assumes "sound E (mr_db x)" and "\<And>c. c \<in> set cs \<Longrightarrow> tenant_of (mr_db x) (sg_StrategyID (ca_row c)) \<noteq> None"
    and "c \<in> set cs"
  shows "ActiveKill (mr_db (fold (watch_run L U E env now M) cs x)) (sg_StrategyID (ca_row c))
     \<or> silence M (sg_StrategyID (ca_row c)) now \<le> WatchdogEscalationThreshold"
  using assms
proof (induction cs arbitrary: x)
  case (Cons d ds)
  let ?y = "watch_run L U E env now M d x"
  obtain t where t: "tenant_of (mr_db x) (sg_StrategyID (ca_row d)) = Some t" using Cons.prems(2) [of d] by auto
  note w = watch_run_step [OF Cons.prems(1) t, of L U env now M]
  have g: "grows (mr_db x) (mr_db ?y)" using watch_run_shape [of x L U E env now M d] by blast
  have h: "grows (mr_db ?y) (mr_db (fold (watch_run L U E env now M) ds ?y))" using watch_all_shape by blast
  show ?case
  proof (cases "c = d")
    case True
    with w h grows_active show ?thesis by auto
  next
    case False
    have "tenant_of (mr_db ?y) (sg_StrategyID (ca_row e)) \<noteq> None" if "e \<in> set ds" for e
      using Cons.prems(2) [of e] that grows_tenant [OF g] by simp
    with Cons.IH [of ?y] w Cons.prems(3) False show ?thesis by simp
  qed
qed simp

section \<open>What a tick guarantees\<close>

lemma tick_Ok:
  assumes "tick L U E env now m db = (m', x, w)" and "monitored L db = Ok cs" and "\<not> mo_watchdogOff m"
  shows "\<exists>x1. grows db (mr_db x1) \<and> (sound E db \<longrightarrow> sound E (mr_db x1))
     \<and> (\<forall>e \<in> set (db_kills (mr_db x1)) - set (db_kills db). ke_Kind e = ''breaker'')
     \<and> ledger (mr_db x) = ledger (mr_db (fold (watch_run L U E env now m') (filter monitored_live cs) x1))"
proof -
  let ?x0 = "\<lparr>mr_db = db, mr_drives = []\<rparr>"
  let ?x1 = "if me_reconciled env then fold (mon_evaluate L U E env now) cs ?x0 else fold (not_reconciled U now) cs ?x0"
  let ?m0 = "pruneWatchSet (\<lambda>s. s \<in> sg_StrategyID ` ca_row ` set (filter monitored_live cs)) m"
  obtain m2 x2 where w: "fold (watchOne L U E env now) (filter monitored_live cs) (?m0, ?x1) = (m2, x2)" by fastforce
  then have wp: "watchdogPass L U E env cs now (m, ?x1) = (m2, x2)" using assms(3) by (simp add: watchdogPass_def Let_def)
  have x: "x = set_db (stallScan U m now) x2" "m' = m2"
    using assms(1) by (simp_all only: tick_def Let_def assms(2) outcome.case wp prod.case prod.inject)
  have x2: "x2 = fold (watch_run L U E env now m2) (filter monitored_live cs) ?x1" using watch_fold [OF w] by blast
  have l: "ledger (mr_db (fold (not_reconciled U now) cs ?x0)) = ledger db" by (simp add: not_reconciled_ledger)
  have "grows db (mr_db ?x1) \<and> (sound E db \<longrightarrow> sound E (mr_db ?x1))
     \<and> (\<forall>e \<in> set (db_kills (mr_db ?x1)) - set (db_kills db). ke_Kind e = ''breaker'')"
    using evaluate_all_step [of ?x0 L U E env now cs] grows_refl [OF l] sound_cong [OF l, of E] ledger_cong(1) [OF l] by simp
  then show ?thesis by (intro exI [of _ ?x1]) (simp add: x x2)
qed

lemma monitored_rows:
  "monitored_rows L db rs = Ok cs \<Longrightarrow> (\<forall>c \<in> set cs. ca_row c \<in> set rs) \<and>
     (\<forall>r \<in> set rs. take 5 (sg_LifecycleState r) = ''live_'' \<longrightarrow> (\<exists>c \<in> set cs. ca_row c = r))"
  by (induction rs arbitrary: cs) (auto simp: bind_outcome_eq_Ok Let_def monitored_live_def split: if_splits)

lemma monitored_set:
  assumes "monitored L db = Ok cs"
  shows "ca_row ` set cs \<subseteq> set (db_strategies db)"
    and "r \<in> set (db_strategies db) \<Longrightarrow> take 5 (sg_LifecycleState r) = ''live_'' \<Longrightarrow>
       \<exists>c \<in> set (filter monitored_live cs). ca_row c = r"
proof -
  note m = monitored_rows [OF assms [unfolded monitored_def]]
  show "ca_row ` set cs \<subseteq> set (db_strategies db)" using m by auto
  assume "r \<in> set (db_strategies db)" "take 5 (sg_LifecycleState r) = ''live_''"
  with m obtain c where "c \<in> set cs" "ca_row c = r" by auto
  with \<open>take 5 (sg_LifecycleState r) = ''live_''\<close> show "\<exists>c \<in> set (filter monitored_live cs). ca_row c = r"
    by (auto simp: monitored_live_def)
qed

lemma tenant_of_row: "r \<in> set (db_strategies db) \<Longrightarrow> tenant_of db (sg_StrategyID r) \<noteq> None"
  using row_get_None_iff [of sg_StrategyID "db_strategies db" "sg_StrategyID r"]
  by (auto simp: tenant_of_def get_strategy_row_def)

text \<open>C10: no live strategy stays silent: after a tick with the watchdog on, every strategy in a live
  state is fenced by an active kill, or it was heard from (or first watched, or the process
  started) within the last ten minutes; reconciliation is not needed.\<close>

theorem silent_strategy_is_killed:
  assumes "tick L U E env now m db = (m', x, w)" and "monitored L db = Ok cs" and "\<not> mo_watchdogOff m"
    and "kill_inv db" and "fresh_events E db"
    and "r \<in> set (db_strategies db)" and "take 5 (sg_LifecycleState r) = ''live_''"
  shows "ActiveKill (mr_db x) (sg_StrategyID r) \<or> silence m' (sg_StrategyID r) now \<le> 600 * second"
proof -
  obtain x1 where g: "grows db (mr_db x1)" and s: "sound E (mr_db x1)"
    and l: "ledger (mr_db x) = ledger (mr_db (fold (watch_run L U E env now m') (filter monitored_live cs) x1))"
    using tick_Ok [OF assms(1-3)] assms(4,5) by (auto simp: sound_def)
  obtain c where c: "c \<in> set (filter monitored_live cs)" "ca_row c = r" using monitored_set(2) [OF assms(2,6,7)] by blast
  have t: "tenant_of (mr_db x1) (sg_StrategyID (ca_row d)) \<noteq> None" if "d \<in> set (filter monitored_live cs)" for d
    using monitored_set(1) [OF assms(2)] that tenant_of_row [of "ca_row d" db] grows_tenant [OF g] by auto
  show ?thesis
    using watch_all_fenced [OF s t c(1), of L U env now m'] ledger_cong(4) [OF l]
    by (simp add: c(2) WatchdogEscalationThreshold_def)
qed

text \<open>C21: the watchdog kills only the silent: every kill that a tick appends is a strategy-scope kill
  by the watchdog, without flattening, of a live strategy that no kill bound, that has been silent for
  more than ninety seconds, and, before ten minutes of silence, only when the order manager is
  reconciled.\<close>

theorem watchdog_kills_only_the_silent:
  assumes "tick L U E env now m db = (m', x, w)" and "monitored L db = Ok cs" and "\<not> mo_watchdogOff m"
    and "e \<in> set (db_kills (mr_db x))" and "e \<notin> set (db_kills db)" and "ke_Kind e = ''kill''"
  shows "\<exists>r \<in> set (db_strategies db). take 5 (sg_LifecycleState r) = ''live_'' \<and> ke_StrategyID e = Some (sg_StrategyID r)
     \<and> ke_ActorID e = ''watchdog'' \<and> ke_Flatten e = Some False \<and> \<not> ActiveKill db (sg_StrategyID r)
     \<and> 90 * second < silence m' (sg_StrategyID r) now
     \<and> (600 * second < silence m' (sg_StrategyID r) now \<or> me_reconciled env)"
proof -
  let ?y = "\<lambda>x1. fold (watch_run L U E env now m') (filter monitored_live cs) x1"
  obtain x1 where g: "grows db (mr_db x1)" and b: "\<forall>e \<in> set (db_kills (mr_db x1)) - set (db_kills db). ke_Kind e = ''breaker''"
    and l: "ledger (mr_db x) = ledger (mr_db (?y x1))"
    using tick_Ok [OF assms(1-3)] by blast
  have "e \<in> set (db_kills (mr_db (?y x1)))" using assms(4) ledger_cong(1) [OF l] by simp
  moreover have "e \<notin> set (db_kills (mr_db x1))" using b assms(5,6) by auto
  ultimately obtain c where c: "c \<in> set (filter monitored_live cs)" "ke_StrategyID e = Some (sg_StrategyID (ca_row c))"
    "ke_ActorID e = ''watchdog''" "ke_Flatten e = Some False" "\<not> ActiveKill (mr_db x1) (sg_StrategyID (ca_row c))"
    "WatchdogSilenceThreshold < silence m' (sg_StrategyID (ca_row c)) now"
    "WatchdogEscalationThreshold < silence m' (sg_StrategyID (ca_row c)) now \<or> me_reconciled env"
    using watch_all_shape [of x1 L U E env now m' "filter monitored_live cs"] by blast
  moreover have "\<not> ActiveKill db (sg_StrategyID (ca_row c))" using c(5) grows_active [OF g] by blast
  moreover have "ca_row c \<in> set (db_strategies db)" "take 5 (sg_LifecycleState (ca_row c)) = ''live_''"
    using c(1) monitored_set(1) [OF assms(2)] by (auto simp: monitored_live_def)
  ultimately show ?thesis
    by (intro bexI [of _ "ca_row c"]) (auto simp: WatchdogSilenceThreshold_def WatchdogEscalationThreshold_def)
qed

text \<open>C36: the breaker fires exactly on a true loss: for one monitored strategy, an evaluation appends
  its breaker row and starts a drive exactly when no breaker of today binds it, its loss limit is
  positive, every open position has a fresh mark before and after the fold, and the daily figure has
  reached the limit; otherwise the ledger stays as it was.\<close>

theorem breaker_fires_iff:
  assumes "row_get ke_EventID (db_kills (mr_db x)) (E (length (db_kills (mr_db x)))) = None"
    and "list_all (\<lambda>p. pr_Symbol p \<noteq> []) (ListPositions (mr_db x) (sg_StrategyID (ca_row c)))"
  shows "case breaker_due L env (mr_db x) (sg_StrategyID (ca_row c)) now of
      None \<Rightarrow> ledger (mr_db (mon_evaluate L U E env now c x)) = ledger (mr_db x)
         \<and> mr_drives (mon_evaluate L U E env now c x) = mr_drives x
    | Some pnl \<Rightarrow> db_kills (mr_db (mon_evaluate L U E env now c x)) = db_kills (mr_db x) @ [fired L E env c now pnl x]
         \<and> mr_drives (mon_evaluate L U E env now c x) = mr_drives x @ [E (length (db_kills (mr_db x)))]"
proof -
  have fire: "fire L E (ca_row c) pnl l now x =
      \<lparr>mr_db = mr_db x\<lparr>db_kills := db_kills (mr_db x) @ [breaker_row L (E (length (db_kills (mr_db x)))) (ca_row c) pnl l now]\<rparr>,
       mr_drives = mr_drives x @ [E (length (db_kills (mr_db x)))]\<rparr>" for pnl l
    using assms(1) by (simp add: fire_def Let_def AppendKillBreakerEvent_def breaker_row_def)
  note st = staleSymbol_none [OF assms(2)]
  let ?s = "sg_StrategyID (ca_row c)"
  show ?thesis
  proof (cases "BreakerActiveToday (mr_db x) ?s (utcDate now) \<or> me_limit env ?s \<le> 0")
    case True
    then show ?thesis by (auto simp: mon_evaluate_def breaker_due_def Let_def)
  next
    case False
    then have e: "mon_evaluate L U E env now c x = evaluatePnL L U E env c (me_limit env ?s) now x"
      by (simp add: mon_evaluate_def Let_def)
    have stale: "\<not> priced L (me_marks env n) (mr_db x) ?s now \<Longrightarrow>
        staleSymbol L (me_marks env n) (mr_db x) ?s now \<noteq> Ok []" for n by (simp add: st)
    show ?thesis
    proof (cases "priced L (me_marks env 0) (mr_db x) ?s now")
      case no: False
      from stale [OF no] no show ?thesis
        by (cases "staleSymbol L (me_marks env 0) (mr_db x) ?s now")
          (simp_all add: e breaker_due_def evaluatePnL_def Let_def)
    next
      case yes: True
      then have r0: "staleSymbol L (me_marks env 0) (mr_db x) ?s now = Ok []" by (simp add: st)
      show ?thesis
      proof (cases "DailyPnL L (me_marks env 1) (mr_db x) ?s now")
        case (Ok pnl)
        show ?thesis
        proof (cases "priced L (me_marks env 2) (mr_db x) ?s now")
          case no: False
          from stale [OF no] no show ?thesis
            by (cases "staleSymbol L (me_marks env 2) (mr_db x) ?s now")
              (simp_all add: e breaker_due_def evaluatePnL_def Let_def r0 Ok [simplified])
        next
          case True
          then have "staleSymbol L (me_marks env 2) (mr_db x) ?s now = Ok []" by (simp add: st)
          with True yes False show ?thesis
            by (auto simp: e breaker_due_def evaluatePnL_def Let_def r0 Ok [simplified] fire fired_def)
        qed
      qed (simp_all add: e breaker_due_def evaluatePnL_def Let_def r0)
    qed
  qed
qed


section \<open>Examples\<close>

definition demo_watch :: monitor where
  "demo_watch = (NewMonitor False 0 0 0 0)\<lparr>mo_firstWatched := [(''a'', second)]\<rparr>"

definition demo_book :: store_db where
  "demo_book = kill_demo\<lparr>db_positions := [\<lparr>pr_StrategyID = ''a'', pr_Symbol = ''BTCUSDT'', pr_QtyBase = ''2'',
     pr_EntryPrice = ''100'', pr_FeesQuote = ''0'', pr_RealizedPnLQuote = ''0'', pr_UpdatedAt = ''1970-01-01T00:00:00Z''\<rparr>]\<rparr>"

text \<open>The mark has fallen from 100 to 40; the limit is the argument.\<close>

definition demo_env :: "rat \<Rightarrow> rat mon_env" where
  "demo_env limit = \<lparr>me_reconciled = True, me_limit = (\<lambda>_. limit),
     me_marks = (\<lambda>_. Put \<lparr>tk_Symbol = ''BTCUSDT'', tk_Mark = 40, tk_TS = second\<rparr> \<lparr>ms_maxAge = 60 * second, ms_ticks = []\<rparr>),
     me_filters = (\<lambda>_. None), me_sweep = (\<lambda>_ db. (db_orders db, db_intents db))\<rparr>"

definition demo_candidate :: candidate where
  "demo_candidate = \<lparr>ca_row = hd (db_strategies kill_demo), ca_open = db_positions demo_book\<rparr>"

definition demo_start :: mon_run where
  "demo_start = \<lparr>mr_db = demo_book, mr_drives = []\<rparr>"

theorem breaker_fires_iff_witness:
  "breaker_due rat_plain_lib (demo_env 100) demo_book ''a'' (2 * second) = Some (-120)
     \<and> mr_drives (mon_evaluate rat_plain_lib demo_ids demo_ids (demo_env 100) (2 * second) demo_candidate demo_start) = [''x'']"
proof -
  have a: "row_get ke_EventID (db_kills (mr_db demo_start)) (demo_ids (length (db_kills (mr_db demo_start)))) = None"
    by code_simp
  have b: "list_all (\<lambda>p. pr_Symbol p \<noteq> []) (ListPositions (mr_db demo_start) (sg_StrategyID (ca_row demo_candidate)))"
    by code_simp
  have c: "sg_StrategyID (ca_row demo_candidate) = ''a''" "mr_db demo_start = demo_book" by code_simp+
  have d: "breaker_due rat_plain_lib (demo_env 100) demo_book ''a'' (2 * second) = Some (-120)" by code_simp
  have e: "mr_drives demo_start @ [demo_ids (length (db_kills demo_book))] = [''x'']" by code_simp
  show ?thesis
    using breaker_fires_iff [where x = demo_start and E = demo_ids and c = demo_candidate and L = rat_plain_lib and env = "demo_env 100" and now = "2 * second" and U = demo_ids, OF a b]
      d e by (simp add: c)
qed

definition demo_ops :: "rat mon_op list" where
  "demo_ops = [OpTick (2 * second) (demo_env 100), OpBeat ''a'' (3 * second), OpTick (4 * second) (demo_env 100)]"

definition demo_day :: "monitor \<times> store_db" where
  "demo_day = the (run (mon_step rat_plain_lib demo_ids demo_ids) (demo_watch, demo_book) demo_ops)"

theorem one_breaker_per_day_witness:
  "run (mon_step rat_plain_lib demo_ids demo_ids) (demo_watch, demo_book) demo_ops = Some demo_day
     \<and> BreakerActiveToday (snd demo_day) ''a'' ''1970-01-01''
     \<and> length (filter (\<lambda>e. ke_Kind e = ''breaker'' \<and> ke_StrategyID e = Some ''a'' \<and> take 10 (ke_RecordedAt e) = ''1970-01-01'')
        (db_kills (snd demo_day))) \<le> 1"
proof -
  have "case run (mon_step rat_plain_lib demo_ids demo_ids) (demo_watch, demo_book) demo_ops of
      None \<Rightarrow> False | Some y \<Rightarrow> BreakerActiveToday (snd y) ''a'' ''1970-01-01''" by code_simp
  then have r: "run (mon_step rat_plain_lib demo_ids demo_ids) (demo_watch, demo_book) demo_ops = Some (fst demo_day, snd demo_day)"
    and b: "BreakerActiveToday (snd demo_day) ''a'' ''1970-01-01''"
    by (simp_all add: demo_day_def split: option.splits)
  have "one_a_day demo_book" by (simp add: one_a_day_def breakers_def demo_book_def kill_demo_def empty_db_def)
  with one_breaker_per_day [OF r, of "''a''" "''1970-01-01''"] r b show ?thesis by simp
qed

definition demo_tick :: "monitor \<times> mon_run \<times> duration" where
  "demo_tick = tick rat_plain_lib demo_ids demo_ids (demo_env 0) (702 * second) demo_watch kill_demo"

lemma demo_tick:
  "tick rat_plain_lib demo_ids demo_ids (demo_env 0) (702 * second) demo_watch kill_demo
     = (fst demo_tick, fst (snd demo_tick), snd (snd demo_tick))"
  by (simp add: demo_tick_def)

lemma demo_tick_facts:
  "silence (fst demo_tick) ''a'' (702 * second) = 701 * second"
  "map (\<lambda>e. (ke_Kind e, ke_StrategyID e)) (db_kills (mr_db (fst (snd demo_tick)))) = [(''kill'', Some ''a'')]"
proof -
  have "(case demo_tick of (m, x, _) \<Rightarrow>
      (silence m ''a'' (702 * second), map (\<lambda>e. (ke_Kind e, ke_StrategyID e)) (db_kills (mr_db x))))
    = (701 * second, [(''kill'', Some ''a'')])" by code_simp
  then show "silence (fst demo_tick) ''a'' (702 * second) = 701 * second"
    "map (\<lambda>e. (ke_Kind e, ke_StrategyID e)) (db_kills (mr_db (fst (snd demo_tick)))) = [(''kill'', Some ''a'')]"
    by (simp_all add: case_prod_unfold)
qed

definition demo_cands :: "candidate list" where
  "demo_cands = [\<lparr>ca_row = hd (db_strategies kill_demo), ca_open = []\<rparr>]"

lemma demo_cands: "monitored rat_plain_lib kill_demo = Ok demo_cands"
  by (simp add: monitored_def ListStrategies_def ListPositions_def kill_demo_def empty_db_def demo_cands_def
      monitored_live_def Let_def)

theorem silent_strategy_is_killed_witness:
  "silence (fst demo_tick) ''a'' (702 * second) = 701 * second \<and> ActiveKill (mr_db (fst (snd demo_tick))) ''a''"
proof -
  have off: "\<not> mo_watchdogOff demo_watch" by code_simp
  have ev: "fresh_events demo_ids kill_demo"
    by (auto simp: fresh_events_def kill_demo_def empty_db_def demo_ids_def inj_def)
  have r: "hd (db_strategies kill_demo) \<in> set (db_strategies kill_demo)" by (simp add: kill_demo_def)
  have l: "take 5 (sg_LifecycleState (hd (db_strategies kill_demo))) = ''live_''"
    and i: "sg_StrategyID (hd (db_strategies kill_demo)) = ''a''" by code_simp+
  show ?thesis
    using silent_strategy_is_killed [OF demo_tick demo_cands off kill_demo_inv ev r l] demo_tick_facts(1)
    by (simp add: i second_def)
qed

theorem watchdog_kills_only_the_silent_witness:
  "map ke_Kind (db_kills (mr_db (fst (snd demo_tick)))) = [''kill'']
     \<and> ke_StrategyID (hd (db_kills (mr_db (fst (snd demo_tick))))) = Some ''a''
     \<and> ke_Flatten (hd (db_kills (mr_db (fst (snd demo_tick))))) = Some False"
proof -
  let ?e = "hd (db_kills (mr_db (fst (snd demo_tick))))"
  have off: "\<not> mo_watchdogOff demo_watch" by code_simp
  have k: "map ke_Kind (db_kills (mr_db (fst (snd demo_tick)))) = [''kill'']" and s: "ke_StrategyID ?e = Some ''a''"
    using demo_tick_facts(2) by auto
  then have e: "?e \<in> set (db_kills (mr_db (fst (snd demo_tick))))" "ke_Kind ?e = ''kill''" by auto
  have n: "?e \<notin> set (db_kills kill_demo)" by (simp add: kill_demo_def empty_db_def)
  have "ke_Flatten ?e = Some False"
    using watchdog_kills_only_the_silent [OF demo_tick demo_cands off e(1) n e(2)] by blast
  with k s show ?thesis by simp
qed

end
