(* ===== verification/OMSBridge.thy ===== *)
theory OMSBridge
  imports KillStore PaperSafety
begin

text \<open>
  The bridge between the paper order manager and the store (package \<open>internal/omsbridge\<close>): it
  submits approved proposals, sweeps ticks, writes what changed in one transaction, and rebuilds
  the order manager from the store after a restart. Identifiers of fill rows are the parameter
  \<open>V\<close>, read at a counter of the bridge.
\<close>

section \<open>State\<close>

record 'd bridge =
  br_oms :: "'d oms"
  br_statuses :: "(string \<times> ostatus) list"
  br_books :: "(pkey \<times> 'd position) list"
  br_proposals :: "(string \<times> string) list"
  br_allocated :: 'd
  br_fills :: nat               \<comment> \<open>fill identifiers minted so far\<close>

section \<open>Columns\<close>

definition class_str :: "oclass \<Rightarrow> string" where
  "class_str c = (if c = ClassEntry then ''ENTRY'' else ''PROTECTIVE'')"

definition side_str :: "side \<Rightarrow> string" where
  "side_str s = (if s = SideBuy then ''buy'' else ''sell'')"

definition status_str :: "ostatus \<Rightarrow> string" where
  "status_str s = (case s of StatusOpen \<Rightarrow> ''open'' | StatusFilled \<Rightarrow> ''filled'' | StatusCanceled \<Rightarrow> ''canceled'')"

text \<open>Go converts the columns back by a cast; a string that is no constant of the type has no
  counterpart in the model.\<close>

definition class_of :: "string \<Rightarrow> oclass option" where
  "class_of c = (if c = ''ENTRY'' then Some ClassEntry else if c = ''PROTECTIVE'' then Some ClassProtective else None)"

definition side_of :: "string \<Rightarrow> side option" where
  "side_of s = (if s = ''buy'' then Some SideBuy else if s = ''sell'' then Some SideSell else None)"

definition status_of :: "string \<Rightarrow> ostatus option" where
  "status_of s = (if s = ''open'' then Some StatusOpen else if s = ''filled'' then Some StatusFilled
     else if s = ''canceled'' then Some StatusCanceled else None)"

definition optDec :: "'d::linordered_field dlib \<Rightarrow> 'd \<Rightarrow> string option" where
  "optDec L d = (if d \<le> 0 then None else Some (dString L d))"

definition parseOptDec :: "'d::linordered_field dlib \<Rightarrow> string option \<Rightarrow> (store_error, 'd) outcome" where
  "parseOptDec L v = (case v of None \<Rightarrow> Ok 0 | Some s \<Rightarrow> parse_dec L s)"

definition orderRow :: "'d::linordered_field dlib \<Rightarrow> 'd order \<Rightarrow> string \<Rightarrow> instant \<Rightarrow> order_row" where
  "orderRow L r pid now =
     \<lparr>or_OrderID = o_ID r, or_ProposalID = Some pid, or_Origin = ''proposal'', or_StrategyID = o_StrategyID r,
      or_Symbol = o_Symbol r, or_Class = class_str (o_Class r), or_Side = side_str (o_Side r),
      or_Type = o_Type r, or_ReduceOnly = o_ReduceOnly r, or_QtyBase = dString L (o_QtyBase r),
      or_LimitPrice = optDec L (o_LimitPrice r), or_StopPrice = optDec L (o_StopPrice r),
      or_TakeProfit = optDec L (o_TakeProfit r),
      or_FillPrice = (if o_Status r = StatusFilled then Some (dString L (o_FillPrice r)) else None),
      or_KillEpoch = o_KillEpoch r, or_Status = status_str (o_Status r), or_SubmittedAt = format_seconds now,
      or_FilledAt = (if o_Status r = StatusFilled then Some (format_seconds now) else None),
      or_ClientOrderID = None, or_ExchangeOrderID = None\<rparr>"

definition paperOrder :: "'d::linordered_field dlib \<Rightarrow> order_row \<Rightarrow> (store_error, 'd order) outcome" where
  "paperOrder L w =
     (case (class_of (or_Class w), side_of (or_Side w), status_of (or_Status w)) of
        (Some c, Some s, Some st) \<Rightarrow>
          bind_outcome (parse_dec L (or_QtyBase w)) (\<lambda>q.
          bind_outcome (parseOptDec L (or_LimitPrice w)) (\<lambda>lp.
          bind_outcome (parseOptDec L (or_StopPrice w)) (\<lambda>sp.
          bind_outcome (parseOptDec L (or_TakeProfit w)) (\<lambda>tp.
            Ok \<lparr>o_ID = or_OrderID w, o_StrategyID = or_StrategyID w, o_Symbol = or_Symbol w, o_Class = c,
                o_Side = s, o_Type = or_Type w, o_ReduceOnly = or_ReduceOnly w, o_QtyBase = q,
                o_LimitPrice = lp, o_StopPrice = sp, o_TakeProfit = tp, o_FillPrice = 0, o_FeeQuote = 0,
                o_Status = st, o_KillEpoch = or_KillEpoch w\<rparr>))))
      | _ \<Rightarrow> Err ErrColumn)"

definition positionRow :: "'d dlib \<Rightarrow> string \<Rightarrow> 'd position \<Rightarrow> instant \<Rightarrow> position_row" where
  "positionRow L s p now =
     \<lparr>pr_StrategyID = s, pr_Symbol = pos_Symbol p, pr_QtyBase = dString L (pos_QtyBase p),
      pr_EntryPrice = dString L (pos_EntryPrice p), pr_FeesQuote = dString L (pos_FeesQuote p),
      pr_RealizedPnLQuote = dString L (pos_RealizedPnLQuote p), pr_UpdatedAt = format_seconds now\<rparr>"

definition paperPosition :: "'d dlib \<Rightarrow> position_row \<Rightarrow> (store_error, 'd position) outcome" where
  "paperPosition L w =
     bind_outcome (parse_dec L (pr_QtyBase w)) (\<lambda>q.
     bind_outcome (parse_dec L (pr_EntryPrice w)) (\<lambda>e.
     bind_outcome (parse_dec L (pr_FeesQuote w)) (\<lambda>f.
     bind_outcome (parse_dec L (pr_RealizedPnLQuote w)) (\<lambda>r.
       Ok \<lparr>pos_Symbol = pr_Symbol w, pos_QtyBase = q, pos_EntryPrice = e, pos_FeesQuote = f,
           pos_RealizedPnLQuote = r\<rparr>))))"

definition samePosition :: "'d position \<Rightarrow> 'd position \<Rightarrow> bool" where
  "samePosition a b \<longleftrightarrow> pos_QtyBase a = pos_QtyBase b \<and> pos_EntryPrice a = pos_EntryPrice b \<and>
     pos_FeesQuote a = pos_FeesQuote b \<and> pos_RealizedPnLQuote a = pos_RealizedPnLQuote b"

section \<open>The equity snapshot\<close>

definition writeStrategyState ::
  "'d::linordered_field dlib \<Rightarrow> 'd \<Rightarrow> string \<Rightarrow> 'd \<Rightarrow> instant \<Rightarrow> store_db \<Rightarrow> (store_error, store_db) outcome" where
  "writeStrategyState L alloc sid delta now db =
     bind_outcome
       (case GetStrategyState db sid of
          None \<Rightarrow> Ok (alloc, alloc, 0)
        | Some w \<Rightarrow>
            bind_outcome (parse_dec L (sr_EquityQuote w)) (\<lambda>e.
            bind_outcome (parse_dec L (sr_PeakEquityQuote w)) (\<lambda>p.
            bind_outcome (if sr_UTCDate w = utcDate now then parse_dec L (sr_DailyRealizedPnLQuote w) else Ok 0)
              (\<lambda>d. Ok (e, p, d)))))
       (\<lambda>(equity, peak, daily).
          UpsertStrategyState
            \<lparr>sr_StrategyID = sid, sr_EquityQuote = dString L (equity + delta),
             sr_PeakEquityQuote = dString L (max peak (equity + delta)),
             sr_DailyRealizedPnLQuote = dString L (daily + delta), sr_UTCDate = utcDate now,
             sr_UpdatedAt = format_seconds now\<rparr> db)"

section \<open>One transaction\<close>

text \<open>What \<open>persistLocked\<close> stages: the tables, the new statuses, proposals and books, the touched
  strategies, the proposals of entries that filled, the realized deltas.\<close>

record 'd sweep_tx =
  tx_db :: store_db
  tx_statuses :: "(string \<times> ostatus) list"
  tx_proposals :: "(string \<times> string) list"
  tx_books :: "(pkey \<times> 'd position) list"
  tx_touched :: "string list"
  tx_entryFills :: "(pkey \<times> string) list"
  tx_deltas :: "(string \<times> 'd) list"
  tx_fills :: nat

definition fillRow :: "'d dlib \<Rightarrow> string \<Rightarrow> 'd order \<Rightarrow> instant \<Rightarrow> fill_row" where
  "fillRow L fid r now = \<lparr>fr_FillID = fid, fr_OrderID = o_ID r, fr_QtyBase = dString L (o_QtyBase r),
     fr_FillPrice = dString L (o_FillPrice r), fr_FeeQuote = dString L (o_FeeQuote r),
     fr_FillTS = format_seconds now, fr_VenueSymbol = None, fr_ExchangeTradeID = None, fr_VenueEpoch = 0\<rparr>"

definition insertFill ::
  "'d dlib \<Rightarrow> (nat \<Rightarrow> string) \<Rightarrow> 'd order \<Rightarrow> instant \<Rightarrow> 'd sweep_tx \<Rightarrow> (store_error, 'd sweep_tx) outcome" where
  "insertFill L V r now t =
     bind_outcome (InsertFill (fillRow L (V (tx_fills t)) r now) (tx_db t)) (\<lambda>db.
       Ok (t\<lparr>tx_db := db, tx_fills := Suc (tx_fills t), tx_touched := o_StrategyID r # tx_touched t\<rparr>))"

text \<open>The first loop, on an order the bridge knows: only a changed status writes.\<close>

definition diff_known ::
  "'d::linordered_field dlib \<Rightarrow> (nat \<Rightarrow> string) \<Rightarrow> 'd bridge \<Rightarrow> instant \<Rightarrow> 'd sweep_tx \<Rightarrow> 'd order \<Rightarrow>
     (store_error, 'd sweep_tx) outcome" where
  "diff_known L V b now t r =
     (case al_get (br_statuses b) (o_ID r) of
        None \<Rightarrow> Ok t
      | Some prev \<Rightarrow>
          if prev = o_Status r then Ok t
          else bind_outcome
            (case o_Status r of
               StatusFilled \<Rightarrow>
                 bind_outcome (RecordOrderFill (o_ID r) (dString L (o_FillPrice r)) (format_seconds now) (tx_db t))
                   (\<lambda>db. bind_outcome (insertFill L V r now (t\<lparr>tx_db := db\<rparr>)) (\<lambda>t'.
                      Ok (if o_Class r = ClassEntry
                          then t'\<lparr>tx_entryFills := al_put (order_key r)
                                   (case al_get (br_proposals b) (o_ID r) of None \<Rightarrow> [] | Some p \<Rightarrow> p)
                                   (tx_entryFills t')\<rparr>
                          else t')))
             | StatusCanceled \<Rightarrow>
                 bind_outcome (RecordOrderCancel (o_ID r) (tx_db t)) (\<lambda>db. Ok (t\<lparr>tx_db := db\<rparr>))
             | StatusOpen \<Rightarrow> Ok t)
            (\<lambda>t'. Ok (t'\<lparr>tx_statuses := al_put (o_ID r) (o_Status r) (tx_statuses t')\<rparr>)))"

text \<open>The second loop, on the orders it does not know.\<close>

definition insert_created ::
  "'d::linordered_field dlib \<Rightarrow> (nat \<Rightarrow> string) \<Rightarrow> string option \<Rightarrow> instant \<Rightarrow> 'd sweep_tx \<Rightarrow> 'd order \<Rightarrow>
     (store_error, 'd sweep_tx) outcome" where
  "insert_created L V proposal now t r =
     (let inherited = (case al_get (tx_entryFills t) (order_key r) of None \<Rightarrow> [] | Some p \<Rightarrow> p);
          pid = (case proposal of None \<Rightarrow> inherited | Some p \<Rightarrow> p)
      in if pid = [] then Err ErrNoProposal
         else bind_outcome (InsertOrder (orderRow L r pid now) (tx_db t)) (\<lambda>db.
           bind_outcome
             (if o_Status r = StatusFilled then insertFill L V r now (t\<lparr>tx_db := db\<rparr>) else Ok (t\<lparr>tx_db := db\<rparr>))
             (\<lambda>t'. Ok (t'\<lparr>tx_statuses := al_put (o_ID r) (o_Status r) (tx_statuses t'),
                          tx_proposals := al_put (o_ID r) pid (tx_proposals t')\<rparr>))))"

text \<open>\<open>persistBooksTx\<close>: changed books, then the equity of every touched strategy.\<close>

definition persist_book ::
  "'d::linordered_field dlib \<Rightarrow> 'd bridge \<Rightarrow> instant \<Rightarrow> 'd sweep_tx \<Rightarrow> string \<times> 'd position \<Rightarrow>
     (store_error, 'd sweep_tx) outcome" where
  "persist_book L b now t = (\<lambda>(s, p).
     let key = (s, pos_Symbol p); prev = al_get (br_books b) key
     in if (case prev of None \<Rightarrow> False | Some q \<Rightarrow> samePosition q p) then Ok t
        else let d = pos_RealizedPnLQuote p - (case prev of None \<Rightarrow> 0 | Some q \<Rightarrow> pos_RealizedPnLQuote q);
                 t1 = t\<lparr>tx_db := UpsertPosition (positionRow L s p now) (tx_db t)\<rparr>;
                 t2 = (if d \<noteq> 0
                       then t1\<lparr>tx_deltas := al_put s ((case al_get (tx_deltas t1) s of None \<Rightarrow> 0 | Some x \<Rightarrow> x) + d)
                                 (tx_deltas t1), tx_touched := s # tx_touched t1\<rparr>
                       else t1)
        in Ok (t2\<lparr>tx_books := al_put key p (tx_books t2)\<rparr>))"

definition persistBooksTx ::
  "'d::linordered_field dlib \<Rightarrow> 'd bridge \<Rightarrow> instant \<Rightarrow> 'd sweep_tx \<Rightarrow> (store_error, 'd sweep_tx) outcome" where
  "persistBooksTx L b now t =
     bind_outcome (fold_ok (persist_book L b now) (Books (br_oms b)) t) (\<lambda>t1.
       fold_ok (\<lambda>t sid. bind_outcome
           (writeStrategyState L (br_allocated b) sid
              (case al_get (tx_deltas t) sid of None \<Rightarrow> 0 | Some d \<Rightarrow> d) now (tx_db t))
           (\<lambda>db. Ok (t\<lparr>tx_db := db\<rparr>)))
         (sort (remdups (tx_touched t1))) t1)"

definition merge_maps :: "('k \<times> 'v) list \<Rightarrow> ('k \<times> 'v) list \<Rightarrow> ('k \<times> 'v) list" where
  "merge_maps staged m = fold (\<lambda>(k, v). al_put k v) staged m"

definition run_tx ::
  "'d::linordered_field dlib \<Rightarrow> (nat \<Rightarrow> string) \<Rightarrow> 'd bridge \<Rightarrow> store_db \<Rightarrow> string option \<Rightarrow> instant \<Rightarrow>
     (store_error, 'd sweep_tx) outcome" where
  "run_tx L V b db proposal now =
     (let orders = sort_key o_ID (Orders (br_oms b));
          created = filter (\<lambda>r. al_get (br_statuses b) (o_ID r) = None) orders;
          t0 = \<lparr>tx_db = db, tx_statuses = [], tx_proposals = [], tx_books = [], tx_touched = [],
                tx_entryFills = [], tx_deltas = [], tx_fills = br_fills b\<rparr>
      in bind_outcome (fold_ok (diff_known L V b now) orders t0) (\<lambda>t1.
         bind_outcome (fold_ok (insert_created L V proposal now) created t1) (\<lambda>t2.
           persistBooksTx L b now t2)))"

text \<open>\<open>persistLocked\<close>: commit and merge, or roll back and report.\<close>

definition persistLocked ::
  "'d::linordered_field dlib \<Rightarrow> (nat \<Rightarrow> string) \<Rightarrow> 'd bridge \<Rightarrow> store_db \<Rightarrow> string option \<Rightarrow> instant \<Rightarrow>
     (store_error, 'd bridge \<times> store_db) outcome" where
  "persistLocked L V b db proposal now =
     bind_outcome (run_tx L V b db proposal now) (\<lambda>t.
       Ok (b\<lparr>br_statuses := merge_maps (tx_statuses t) (br_statuses b),
             br_proposals := merge_maps (tx_proposals t) (br_proposals b),
             br_books := merge_maps (tx_books t) (br_books b), br_fills := tx_fills t\<rparr>, tx_db t))"

section \<open>The bridge's calls\<close>

datatype bridge_error = ErrPaper paper_error | ErrPaperMany "paper_error list" | ErrStore store_error | ErrAction

text \<open>The bridge and the tables after a call, and Go's error. A failed transaction keeps the order
  manager's new state in memory and writes nothing.\<close>

type_synonym 'd bridge_result = "(unit, 'd bridge \<times> store_db \<times> bridge_error option) outcome"

definition persist_then ::
  "'d::linordered_field dlib \<Rightarrow> (nat \<Rightarrow> string) \<Rightarrow> 'd bridge \<Rightarrow> store_db \<Rightarrow> string option \<Rightarrow> instant \<Rightarrow>
     bridge_error option \<Rightarrow> 'd bridge_result" where
  "persist_then L V b db proposal now err =
     (case persistLocked L V b db proposal now of
        Ok (b', db') \<Rightarrow> Ok (b', db', err)
      | Err e \<Rightarrow> Ok (b, db, Some (ErrStore e))
      | Panic \<Rightarrow> Panic | Diverge \<Rightarrow> Diverge)"

definition entry_request_of ::
  "'d::linordered_field proposal \<Rightarrow> 'd verdict \<Rightarrow> 'd \<Rightarrow> int \<Rightarrow> 'd entry_request" where
  "entry_request_of p v mark epoch =
     \<lparr>rq_StrategyID = p_StrategyID p, rq_Symbol = p_Symbol p,
      rq_Side = (if p_Action p = ActionOpenShort then SideSell else SideBuy),
      rq_Type = en_Type (p_Entry p),
      rq_LimitPrice = (case en_LimitPrice (p_Entry p) of None \<Rightarrow> 0 | Some d \<Rightarrow> cd_dec d),
      rq_SizeQuote = (case v_ClippedSizeQuote v of Some c \<Rightarrow> cd_dec c | None \<Rightarrow> cd_dec (p_SizeQuote p)),
      rq_MarkPrice = mark,
      rq_StopPrice = (case p_StopLoss p of None \<Rightarrow> 0 | Some d \<Rightarrow> cd_dec d),
      rq_TakeProfit = (case p_TakeProfit p of None \<Rightarrow> 0 | Some d \<Rightarrow> cd_dec d),
      rq_KillEpoch = epoch\<rparr>"

text \<open>\<open>SubmitApproved\<close>, with what it reads from the store and the mark cache as arguments: the
  proposal and verdict payloads, the strategy of the verdict, the binding kill epoch, the fresh
  mark if there is one.\<close>

definition SubmitApproved ::
  "'d::linordered_field dlib \<Rightarrow> (nat \<Rightarrow> string) \<Rightarrow> (nat \<Rightarrow> string) \<Rightarrow> 'd bridge \<Rightarrow> store_db \<Rightarrow> 'd proposal \<Rightarrow>
     'd verdict \<Rightarrow> string \<Rightarrow> int \<Rightarrow> 'd option \<Rightarrow> instant \<Rightarrow> 'd bridge_result" where
  "SubmitApproved L U V b db p v strategy epoch fresh now =
     (let mark = (case fresh of None \<Rightarrow> 0 | Some m \<Rightarrow> m)
      in if p_Action p = ActionOpenLong \<or> p_Action p = ActionOpenShort then
           bind_outcome (SubmitEntry L U (br_oms b) (entry_request_of p v mark epoch)) (\<lambda>(m, _, e).
             persist_then L V (b\<lparr>br_oms := m\<rparr>) db (Some (p_ProposalID p)) now (map_option ErrPaper e))
         else if p_Action p = ActionClose then
           bind_outcome (Flatten L U (br_oms b) strategy (p_Symbol p) mark) (\<lambda>(m, _, e).
             persist_then L V (b\<lparr>br_oms := m\<rparr>) db (Some (p_ProposalID p)) now (map_option ErrPaper e))
         else Ok (b, db, Some ErrAction))"

definition BridgeCancelOpenEntries ::
  "'d::linordered_field dlib \<Rightarrow> (nat \<Rightarrow> string) \<Rightarrow> 'd bridge \<Rightarrow> store_db \<Rightarrow> string \<Rightarrow> instant \<Rightarrow> 'd bridge_result" where
  "BridgeCancelOpenEntries L V b db s now =
     persist_then L V (b\<lparr>br_oms := CancelOpenEntries s (br_oms b)\<rparr>) db None now None"

definition Sweep ::
  "'d::linordered_field dlib \<Rightarrow> (nat \<Rightarrow> string) \<Rightarrow> (nat \<Rightarrow> string) \<Rightarrow> 'd bridge \<Rightarrow> store_db \<Rightarrow> (string \<times> 'd) list \<Rightarrow>
     instant \<Rightarrow> 'd bridge_result" where
  "Sweep L U V b db marks now =
     bind_outcome (ProcessTick L U (br_oms b) marks) (\<lambda>(m, _, es).
       persist_then L V (b\<lparr>br_oms := m\<rparr>) db None now (if es = [] then None else Some (ErrPaperMany es)))"

section \<open>Restart\<close>

definition hydrate_position ::
  "'d::linordered_field dlib \<Rightarrow> 'd bridge \<Rightarrow> position_row \<Rightarrow> (store_error, 'd bridge) outcome" where
  "hydrate_position L b w = bind_outcome (paperPosition L w) (\<lambda>p.
     Ok (b\<lparr>br_oms := RestorePosition (br_oms b) (pr_StrategyID w) p,
           br_books := al_put (pr_StrategyID w, pr_Symbol w) p (br_books b)\<rparr>))"

definition hydrate_order ::
  "'d::linordered_field dlib \<Rightarrow> 'd bridge \<Rightarrow> order_row \<Rightarrow> (store_error, 'd bridge) outcome" where
  "hydrate_order L b w = bind_outcome (paperOrder L w) (\<lambda>r.
     case RestoreOrder (br_oms b) r of
       Inl _ \<Rightarrow> Err ErrConstraint
     | Inr m \<Rightarrow> Ok (b\<lparr>br_oms := m, br_statuses := al_put (or_OrderID w) StatusOpen (br_statuses b),
                      br_proposals := (case or_ProposalID w of None \<Rightarrow> br_proposals b
                                       | Some p \<Rightarrow> al_put (or_OrderID w) p (br_proposals b))\<rparr>))"

definition hydrateStrategy ::
  "'d::linordered_field dlib \<Rightarrow> store_db \<Rightarrow> 'd bridge \<Rightarrow> string \<Rightarrow> (store_error, 'd bridge) outcome" where
  "hydrateStrategy L db b s =
     bind_outcome (fold_ok (hydrate_position L) (ListPositions db s) b)
       (\<lambda>b1. fold_ok (hydrate_order L) (ListOpenOrders db s) b1)"

definition hydrate :: "'d::linordered_field dlib \<Rightarrow> store_db \<Rightarrow> 'd bridge \<Rightarrow> (store_error, 'd bridge) outcome" where
  "hydrate L db b =
     fold_ok (\<lambda>b r. bind_outcome (hydrateStrategy L db b (sg_StrategyID r)) (\<lambda>b1.
         Ok (b1\<lparr>br_oms := RestoreKillEpoch (sg_StrategyID r) (GlobalMaxKillEpoch db (sg_StrategyID r)) (br_oms b1)\<rparr>)))
       (ListStrategies db) b"

datatype new_error = ErrAllocated | ErrModel paper_error | ErrHydrate store_error

definition NewBridge ::
  "'d::linordered_field dlib \<Rightarrow> fill_model_cfg \<Rightarrow> 'd \<Rightarrow> store_db \<Rightarrow> (new_error, 'd bridge) outcome" where
  "NewBridge L fm alloc db =
     (if alloc \<le> 0 then Err ErrAllocated
      else case NewOMS L fm of
        Err e \<Rightarrow> Err (ErrModel e) | Panic \<Rightarrow> Panic | Diverge \<Rightarrow> Diverge
      | Ok m \<Rightarrow>
          (case hydrate L db \<lparr>br_oms = m, br_statuses = [], br_books = [], br_proposals = [],
                                     br_allocated = alloc, br_fills = 0\<rparr> of
             Ok b \<Rightarrow> Ok b | Err e \<Rightarrow> Err (ErrHydrate e) | Panic \<Rightarrow> Panic | Diverge \<Rightarrow> Diverge))"

end
