(* ===== verification/DecimalText.thy ===== *)
theory DecimalText
  imports Contract GoTime
begin

text \<open>
  Decimals as text: what the store relies on when it writes a decimal column and reads it back,
  and a package over the rationals that has these properties, for the witnesses.
\<close>

text \<open>What the package documents: rendering a decimal and parsing it back.\<close>

definition string_documented :: "'d dlib \<Rightarrow> bool" where
  "string_documented L \<longleftrightarrow> (\<forall>d. dFromString L (dString L d) = Some d)"

text \<open>A package over the rationals that prints a number as a fraction and reads it back, next to
  the plain decimals.\<close>

definition fraction_text :: "rat \<Rightarrow> string" where
  "fraction_text r = (let (a, b) = quotient_of r in (if a < 0 then ''-'' else []) @ int_digits \<bar>a\<bar> @ ''/'' @ int_digits b)"

definition fraction_value :: "string \<Rightarrow> rat" where
  "fraction_value s =
     (let neg = take 1 s = ''-''; t = (if neg then tl s else s);
          q = of_int (digits_value 0 (takeWhile is_digit t)) / of_int (digits_value 0 (tl (dropWhile is_digit t)))
      in if neg then - q else q)"

definition rat_text_lib :: "rat dlib" where
  "rat_text_lib = rat_lib\<lparr>dDiv := (\<lambda>a b. a / b), dString := fraction_text,
     dFromString := (\<lambda>s. Some (if decimalPattern s then plain_value s else fraction_value s))\<rparr>"

lemma digits_value_snoc: "digits_value acc (cs @ [c]) = 10 * digits_value acc cs + (int (byte_of c) - 48)"
  by (induction cs arbitrary: acc) auto

lemma digit_char: "0 \<le> k \<Longrightarrow> k < 10 \<Longrightarrow> is_digit (char_of (48 + k :: int)) \<and> int (byte_of (char_of (48 + k))) = 48 + k"
proof -
  assume k: "0 \<le> k" "k < 10"
  have "of_char (char_of (48 + k) :: char) = (48 + k :: int)" using k by (simp add: of_char_of)
  then have "int (of_char (char_of (48 + k) :: char)) = 48 + k" by (simp add: of_char_def)
  then show ?thesis using k by (simp add: is_digit_def byte_of_def)
qed

lemma int_digits_read: "0 \<le> n \<Longrightarrow> digits_value 0 (int_digits n) = n \<and> list_all is_digit (int_digits n) \<and> int_digits n \<noteq> []"
proof (induction n rule: int_digits.induct)
  case (1 n)
  show ?case
  proof (cases "n < 10")
    case True
    then show ?thesis using digit_char [of n] 1(2) by (simp add: int_digits.simps [of n])
  next
    case False
    then show ?thesis using 1(1) digit_char [of "n mod 10"] by (simp add: int_digits.simps [of n] digits_value_snoc)
  qed
qed

lemma slash_not_decimal: "CHR ''/'' \<in> set s \<Longrightarrow> \<not> decimalPattern s"
proof
  assume "CHR ''/'' \<in> set s" and "decimalPattern s"
  moreover have "\<not> is_digit (CHR ''/'')" by (simp add: is_digit_def byte_of_def)
  ultimately show False
    by (auto simp: decimalPattern_iff plain_decimal_def canonical_int_def list_all_iff split: if_splits)
qed

lemma string_documented_text: "string_documented rat_text_lib"
proof -
  have "dFromString rat_text_lib (fraction_text r) = Some r" for r
  proof -
    obtain a b where q: "quotient_of r = (a, b)" by (cases "quotient_of r")
    then have b: "0 < b" by (rule quotient_of_denom_pos)
    have r: "r = of_int a / of_int b" by (rule quotient_of_div [OF q])
    have slash: "\<not> is_digit (CHR ''/'')" by (simp add: is_digit_def byte_of_def)
    have minus: "take 1 (int_digits \<bar>a\<bar> @ t) \<noteq> ''-''" for t
      using int_digits_read [of "\<bar>a\<bar>"] by (cases "int_digits \<bar>a\<bar>") (auto simp: is_digit_def byte_of_def)
    let ?t = "int_digits \<bar>a\<bar> @ ''/'' @ int_digits b"
    have tx: "fraction_text r = (if a < 0 then ''-'' else []) @ ?t" by (simp add: fraction_text_def q)
    have parts: "takeWhile is_digit ?t = int_digits \<bar>a\<bar>" "dropWhile is_digit ?t = ''/'' @ int_digits b"
      using int_digits_read [of "\<bar>a\<bar>"] slash
      by (simp_all add: list_all_iff takeWhile_append2 dropWhile_append2)
    have vals: "digits_value 0 (int_digits \<bar>a\<bar>) = \<bar>a\<bar>" "digits_value 0 (int_digits b) = b"
      using int_digits_read [of "\<bar>a\<bar>"] int_digits_read [of b] b by simp_all
    have "fraction_value (fraction_text r) = r"
    proof (cases "a < 0")
      case True
      have "fraction_value (''-'' @ ?t) = - (of_int \<bar>a\<bar> / of_int b)"
        unfolding fraction_value_def Let_def using parts vals by simp
      then show ?thesis unfolding tx using True by (simp add: r)
    next
      case False
      have "fraction_value ?t = of_int \<bar>a\<bar> / of_int b"
        unfolding fraction_value_def Let_def using minus [of "''/'' @ int_digits b"] parts vals by simp
      then show ?thesis unfolding tx using False by (simp add: r)
    qed
    then show ?thesis
      using slash_not_decimal [of "fraction_text r"] by (simp add: rat_text_lib_def fraction_text_def q)
  qed
  then show ?thesis by (simp add: string_documented_def rat_text_lib_def)
qed

lemma rat_text_lib_documented:
  "div_documented rat_text_lib" "round_documented rat_text_lib" "fromstring_documented rat_text_lib"
proof -
  have "(0::rat) \<le> unit_of 16 / 2" by (simp add: less_imp_le)
  then show "div_documented rat_text_lib" by (simp add: div_documented_def rat_text_lib_def)
  show "round_documented rat_text_lib" "fromstring_documented rat_text_lib"
    using rat_lib_round by (simp_all add: round_documented_def fromstring_documented_def rat_text_lib_def)
qed

end
