(* ===== verification/BridgeMirror.thy ===== *)
theory BridgeMirror
  imports OMSBridge RiskGate DecimalText
begin

text \<open>
  The bridge as a refinement: the tables mirror the order manager after every committed call, a
  restart reads back what was written, and an order whose first transaction failed blocks later
  ones. The calls and the rest of the control plane are one machine.
\<close>

section \<open>What the order manager keeps\<close>

text \<open>Orders stay in the table, keep their strategy, symbol, class and epoch, and never reopen; books
  keep their symbol.\<close>

definition row_facts :: "'d order \<Rightarrow> string \<times> string \<times> oclass \<times> int" where
  "row_facts r = (o_StrategyID r, o_Symbol r, o_Class r, o_KillEpoch r)"

definition named_books :: "'d oms \<Rightarrow> bool" where
  "named_books m \<longleftrightarrow> (\<forall>k p. al_get (oms_positions m) k = Some p \<longrightarrow> pos_Symbol p = snd k)"

lemma held_symbol: "named_books m \<Longrightarrow> pos_Symbol (held m s sy) = sy"
  by (auto simp: named_books_def held_def book_of_def flat_position_def split: option.split)

lemma named_books_upd [simp]:
  "named_books (put_order r m) = named_books m" "named_books (cancel_where P m) = named_books m"
  "named_books (m\<lparr>oms_minted := n\<rparr>) = named_books m"
  by (simp_all add: named_books_def put_order_def cancel_where_def)

lemma change_named: "oms_change U K m m' \<Longrightarrow> named_books m \<Longrightarrow> named_books m'"
proof (induction rule: oms_change.induct)
  case (change_book m1 k p)
  then have "named_books m1" by blast
  moreover have "pos_Symbol p = snd k" using change_book.hyps(3) held_symbol [OF \<open>named_books m1\<close>] by simp
  ultimately show ?case by (auto simp: named_books_def al.get_put)
qed simp_all

lemma change_keeps_order:
  "oms_change U K m m' \<Longrightarrow> oms_wf U m \<Longrightarrow> get_order m i = Some r \<Longrightarrow>
     \<exists>r'. get_order m' i = Some r' \<and> row_facts r' = row_facts r \<and> (o_Status r' = StatusOpen \<longrightarrow> o_Status r = StatusOpen)"
proof (induction rule: oms_change.induct)
  case (change_new m1 r1)
  then have "oms_wf U m1" using change_wf by blast
  then have "get_order m1 (U (oms_minted m1)) = None" by (simp add: oms_wf_def)
  with change_new show ?case by (auto simp: get_put_order)
next
  case (change_upd m1 r1 r0)
  then show ?case by (auto simp: get_put_order row_facts_def)
next
  case (change_cancel m1 P)
  then obtain r' where r': "get_order m1 i = Some r'" "row_facts r' = row_facts r"
    "o_Status r' = StatusOpen \<longrightarrow> o_Status r = StatusOpen" by blast
  then show ?case
    by (intro exI [of _ "if P r' then r'\<lparr>o_Status := StatusCanceled\<rparr> else r'"]) (auto simp: get_cancel_where row_facts_def)
qed auto

lemma clearjunk_in: "(k, v) \<in> set (AList.clearjunk al) \<longleftrightarrow> map_of al k = Some v"
  using map_of_eq_Some_iff [OF distinct_clearjunk, of al k v] by (simp add: map_of_clearjunk)

lemma Books_set: "(s, p) \<in> set (Books m) \<longleftrightarrow> (\<exists>sy. al_get (oms_positions m) (s, sy) = Some p)"
proof -
  have "(s, p) \<in> set (Books m) \<longleftrightarrow> (\<exists>k. (k, p) \<in> set (AList.clearjunk (oms_positions m)) \<and> s = fst k)"
    by (force simp: Books_def)
  then show ?thesis by (auto simp: clearjunk_in)
qed

lemma Books_distinct: "named_books m \<Longrightarrow> distinct (map (\<lambda>(s, p). (s, pos_Symbol p)) (Books m))"
proof -
  assume n: "named_books m"
  let ?c = "sort_key (\<lambda>e. fst (fst e)) (sort_key (\<lambda>e. snd (fst e)) (AList.clearjunk (oms_positions m)))"
  have "pos_Symbol p = snd k" if "(k, p) \<in> set ?c" for k p
    using that n by (simp add: named_books_def clearjunk_in del: split_paired_All)
  then have "map (\<lambda>(s, p). (s, pos_Symbol p)) (Books m) = map fst ?c"
    unfolding Books_def by (auto simp del: set_sort)
  moreover have "distinct (map fst ?c)"
    using distinct_clearjunk [of "oms_positions m"] by (simp add: distinct_map inj_on_def)
  ultimately show ?thesis by simp
qed

section \<open>Mirrors\<close>

text \<open>A row of the order table shows an order: its key, class, epoch and status.\<close>

definition shows_order :: "order_row \<Rightarrow> 'd order \<Rightarrow> bool" where
  "shows_order w r \<longleftrightarrow> or_StrategyID w = o_StrategyID r \<and> or_Symbol w = o_Symbol r
     \<and> or_Class w = class_str (o_Class r) \<and> or_KillEpoch w = o_KillEpoch r \<and> or_Status w = status_str (o_Status r)"

text \<open>A row of the position table holds a book.\<close>

definition shows_book :: "'d dlib \<Rightarrow> position_row \<Rightarrow> 'd position \<Rightarrow> bool" where
  "shows_book L w p \<longleftrightarrow> dFromString L (pr_QtyBase w) = Some (pos_QtyBase p)
     \<and> dFromString L (pr_EntryPrice w) = Some (pos_EntryPrice p)
     \<and> dFromString L (pr_FeesQuote w) = Some (pos_FeesQuote p)
     \<and> dFromString L (pr_RealizedPnLQuote w) = Some (pos_RealizedPnLQuote p)"

text \<open>The tables mirror the manager.\<close>

definition mirrors :: "'d dlib \<Rightarrow> 'd oms \<Rightarrow> store_db \<Rightarrow> bool" where
  "mirrors L m db \<longleftrightarrow>
     list_all (\<lambda>r. case get_order_row db (o_ID r) of None \<Rightarrow> False | Some w \<Rightarrow> shows_order w r) (oms_orders m)
   \<and> list_all (\<lambda>(s, p). case GetPosition db s (pos_Symbol p) of None \<Rightarrow> False | Some w \<Rightarrow> shows_book L w p) (Books m)"

section \<open>One transaction mirrors\<close>

lemma update_order_get:
  "update_order i f db = Ok d \<Longrightarrow> (\<And>w. or_OrderID (f w) = or_OrderID w) \<Longrightarrow>
     get_order_row d j = (if j = i then map_option f (get_order_row db i) else get_order_row db j)"
proof -
  assume u: "update_order i f db = Ok d" and f: "\<And>w. or_OrderID (f w) = or_OrderID w"
  have "row_get or_OrderID (map (\<lambda>r. if or_OrderID r = i then f r else r) rs) j
      = (if j = i then map_option f (row_get or_OrderID rs i) else row_get or_OrderID rs j)" for rs
    by (induction rs) (auto simp: f)
  with u show ?thesis by (auto simp: update_order_def get_order_row_def split: if_splits)
qed

text \<open>The columns that neither a fill nor a cancel touches, and the status.\<close>

definition order_view :: "store_db \<Rightarrow> string \<Rightarrow> (string \<times> string \<times> string \<times> int \<times> string) option" where
  "order_view db i = map_option (\<lambda>w. (or_StrategyID w, or_Symbol w, or_Class w, or_KillEpoch w, or_Status w)) (get_order_row db i)"

definition shown :: "'d order \<Rightarrow> string \<times> string \<times> string \<times> int \<times> string" where
  "shown r = (o_StrategyID r, o_Symbol r, class_str (o_Class r), o_KillEpoch r, status_str (o_Status r))"

lemma shows_view: "(case get_order_row db i of None \<Rightarrow> False | Some w \<Rightarrow> shows_order w r) \<longleftrightarrow> order_view db i = Some (shown r)"
  by (auto simp: order_view_def shown_def shows_order_def split: option.split)

definition set_status :: "ostatus \<Rightarrow> string \<times> string \<times> string \<times> int \<times> string \<Rightarrow> string \<times> string \<times> string \<times> int \<times> string" where
  "set_status st = (\<lambda>(s, sy, c, e, _). (s, sy, c, e, status_str st))"

lemma update_order_view:
  assumes "update_order i f db = Ok d" and "\<And>w. or_OrderID (f w) = or_OrderID w"
    and "\<And>w. or_StrategyID (f w) = or_StrategyID w" "\<And>w. or_Symbol (f w) = or_Symbol w"
      "\<And>w. or_Class (f w) = or_Class w" "\<And>w. or_KillEpoch (f w) = or_KillEpoch w" "\<And>w. or_Status (f w) = status_str st"
  shows "order_view d = (order_view db)(i := map_option (set_status st) (order_view db i)) \<and> db_positions d = db_positions db"
proof -
  have "order_view d j = (if j = i then map_option (set_status st) (order_view db i) else order_view db j)" for j
    unfolding order_view_def update_order_get [OF assms(1,2)]
    by (cases "get_order_row db i") (simp_all add: assms set_status_def)
  moreover have "db_positions d = db_positions db" using assms(1) by (auto simp: update_order_def split: if_splits)
  ultimately show ?thesis by auto
qed

lemma RecordOrderFill_view:
  "RecordOrderFill i p ts db = Ok d \<Longrightarrow> order_view d = (order_view db)(i := map_option (set_status StatusFilled) (order_view db i))
     \<and> db_positions d = db_positions db"
  unfolding RecordOrderFill_def by (erule update_order_view) (simp_all add: status_str_def)

lemma RecordOrderCancel_view:
  "RecordOrderCancel i db = Ok d \<Longrightarrow> order_view d = (order_view db)(i := map_option (set_status StatusCanceled) (order_view db i))
     \<and> db_positions d = db_positions db"
  unfolding RecordOrderCancel_def by (erule update_order_view) (simp_all add: status_str_def)

lemma insertFill_view:
  "insertFill L V r now t = Ok t' \<Longrightarrow> order_view (tx_db t') = order_view (tx_db t) \<and> db_positions (tx_db t') = db_positions (tx_db t)
     \<and> tx_statuses t' = tx_statuses t \<and> tx_books t' = tx_books t"
  by (auto simp: insertFill_def InsertFill_def bind_outcome_eq_Ok order_view_def get_order_row_def fun_eq_iff split: if_splits)

text \<open>The part of a transaction the mirror depends on.\<close>

definition status_of_tx :: "'d sweep_tx \<Rightarrow> string \<Rightarrow> ostatus option" where
  "status_of_tx t = al_get (tx_statuses t)"

lemma diff_known_view:
  assumes "diff_known L V b now t r = Ok t'"
    and "al_get (br_statuses b) (o_ID r) = Some prev" and "order_view (tx_db t) (o_ID r) = Some (set_status prev (shown r))"
    and "o_Status r = StatusOpen \<longrightarrow> prev = StatusOpen"
  shows "order_view (tx_db t') = (order_view (tx_db t))(o_ID r := Some (shown r))
     \<and> status_of_tx t' = (if prev = o_Status r then status_of_tx t else (status_of_tx t)(o_ID r := Some (o_Status r)))
     \<and> db_positions (tx_db t') = db_positions (tx_db t) \<and> tx_books t' = tx_books t"
proof -
  have own: "set_status (o_Status r) (set_status prev (shown r)) = shown r" for prev
    by (simp add: set_status_def shown_def)
  show ?thesis
  proof (cases "prev = o_Status r")
    case True
    moreover have "set_status (o_Status r) (shown r) = shown r" by (simp add: set_status_def shown_def)
    ultimately show ?thesis using assms by (auto simp: diff_known_def fun_eq_iff)
  next
    case False
    show ?thesis
    proof (cases "o_Status r")
      case StatusOpen
      with False assms(4) show ?thesis by simp
    next
      case StatusFilled
      obtain db t1 where d: "RecordOrderFill (o_ID r) (dString L (o_FillPrice r)) (format_seconds now) (tx_db t) = Ok db"
        and i: "insertFill L V r now (t\<lparr>tx_db := db\<rparr>) = Ok t1"
        and t': "tx_db t' = tx_db t1" "tx_statuses t' = al_put (o_ID r) (o_Status r) (tx_statuses t1)" "tx_books t' = tx_books t1"
        using assms(1,2) False StatusFilled
        by (auto simp: diff_known_def bind_outcome_eq_Ok split: if_splits)
      show ?thesis
        using RecordOrderFill_view [OF d] insertFill_view [OF i] assms(3) False own [of prev] StatusFilled
        by (auto simp: t' status_of_tx_def fun_eq_iff al.get_put)
    next
      case StatusCanceled
      obtain db where d: "RecordOrderCancel (o_ID r) (tx_db t) = Ok db"
        and t': "tx_db t' = db" "tx_statuses t' = al_put (o_ID r) (o_Status r) (tx_statuses t)" "tx_books t' = tx_books t"
        using assms(1,2) False StatusCanceled
        by (auto simp: diff_known_def bind_outcome_eq_Ok split: if_splits)
      show ?thesis
        using RecordOrderCancel_view [OF d] assms(3) False own [of prev] StatusCanceled
        by (auto simp: t' status_of_tx_def fun_eq_iff al.get_put)
    qed
  qed
qed

lemma diff_unknown: "al_get (br_statuses b) (o_ID r) = None \<Longrightarrow> diff_known L V b now t r = Ok t' \<Longrightarrow> t' = t"
  by (simp add: diff_known_def)

lemma insert_created_cases:
  assumes "insert_created L V proposal now t r = Ok t'"
  shows "\<exists>pid db t1. pid \<noteq> [] \<and> InsertOrder (orderRow L r pid now) (tx_db t) = Ok db
     \<and> (if o_Status r = StatusFilled then insertFill L V r now (t\<lparr>tx_db := db\<rparr>) else Ok (t\<lparr>tx_db := db\<rparr>)) = Ok t1
     \<and> t' = t1\<lparr>tx_statuses := al_put (o_ID r) (o_Status r) (tx_statuses t1), tx_proposals := al_put (o_ID r) pid (tx_proposals t1)\<rparr>"
proof -
  define pid where "pid = (case proposal of None \<Rightarrow> (case al_get (tx_entryFills t) (order_key r) of None \<Rightarrow> [] | Some p \<Rightarrow> p) | Some p \<Rightarrow> p)"
  have "pid \<noteq> [] \<and> bind_outcome (InsertOrder (orderRow L r pid now) (tx_db t)) (\<lambda>db.
         bind_outcome
           (if o_Status r = StatusFilled then insertFill L V r now (t\<lparr>tx_db := db\<rparr>) else Ok (t\<lparr>tx_db := db\<rparr>))
           (\<lambda>t'. Ok (t'\<lparr>tx_statuses := al_put (o_ID r) (o_Status r) (tx_statuses t'),
                        tx_proposals := al_put (o_ID r) pid (tx_proposals t')\<rparr>))) = Ok t'"
    using assms unfolding insert_created_def Let_def pid_def [symmetric] by (cases "pid = []") simp_all
  then show ?thesis unfolding bind_outcome_eq_Ok outcome.inject by blast
qed

lemma insert_created_view:
  assumes "insert_created L V proposal now t r = Ok t'"
  shows "order_view (tx_db t) (o_ID r) = None \<and> order_view (tx_db t') = (order_view (tx_db t))(o_ID r := Some (shown r))
     \<and> status_of_tx t' = (status_of_tx t)(o_ID r := Some (o_Status r))
     \<and> db_positions (tx_db t') = db_positions (tx_db t) \<and> tx_books t' = tx_books t"
proof -
  obtain pid db t1 where o: "InsertOrder (orderRow L r pid now) (tx_db t) = Ok db"
    and i: "(if o_Status r = StatusFilled then insertFill L V r now (t\<lparr>tx_db := db\<rparr>) else Ok (t\<lparr>tx_db := db\<rparr>)) = Ok t1"
    and t': "tx_db t' = tx_db t1" "tx_statuses t' = al_put (o_ID r) (o_Status r) (tx_statuses t1)" "tx_books t' = tx_books t1"
    using insert_created_cases [OF assms] by (elim exE conjE, intro that) auto
  have n: "get_order_row (tx_db t) (o_ID r) = None" and db: "db = tx_db t\<lparr>db_orders := db_orders (tx_db t) @
      [(orderRow L r pid now)\<lparr>or_ClientOrderID := None, or_ExchangeOrderID := None\<rparr>]\<rparr>"
    using o by (auto simp: InsertOrder_def orderRow_def split: if_splits)
  have v: "order_view db = (order_view (tx_db t))(o_ID r := Some (shown r))"
    using n by (auto simp: db order_view_def get_order_row_def row_get_append orderRow_def shown_def fun_eq_iff split: option.split)
  have j: "order_view (tx_db t1) = order_view db \<and> db_positions (tx_db t1) = db_positions db
      \<and> tx_statuses t1 = tx_statuses t \<and> tx_books t1 = tx_books t"
    using i insertFill_view [of L V r now "t\<lparr>tx_db := db\<rparr>" t1] by (auto split: if_splits)
  show ?thesis
    using n v j by (auto simp: t' status_of_tx_def fun_eq_iff al.get_put db order_view_def)
qed

text \<open>The two loops over the orders.\<close>

lemma diff_fold:
  assumes "fold_ok (diff_known L V b now) rs t = Ok t'" and "distinct (map o_ID rs)"
    and "\<And>r prev. r \<in> set rs \<Longrightarrow> al_get (br_statuses b) (o_ID r) = Some prev \<Longrightarrow>
       order_view (tx_db t) (o_ID r) = Some (set_status prev (shown r)) \<and> (o_Status r = StatusOpen \<longrightarrow> prev = StatusOpen)"
  shows "(\<forall>r \<in> set rs. al_get (br_statuses b) (o_ID r) \<noteq> None \<longrightarrow> order_view (tx_db t') (o_ID r) = Some (shown r)
        \<and> (status_of_tx t' (o_ID r) = Some (o_Status r)
           \<or> status_of_tx t' (o_ID r) = status_of_tx t (o_ID r) \<and> al_get (br_statuses b) (o_ID r) = Some (o_Status r)))
     \<and> (\<forall>i. (\<forall>r \<in> set rs. o_ID r = i \<longrightarrow> al_get (br_statuses b) i = None) \<longrightarrow>
          order_view (tx_db t') i = order_view (tx_db t) i \<and> status_of_tx t' i = status_of_tx t i)
     \<and> db_positions (tx_db t') = db_positions (tx_db t) \<and> tx_books t' = tx_books t"
  using assms
proof (induction rs arbitrary: t)
  case (Cons r rs)
  obtain t1 where h: "diff_known L V b now t r = Ok t1" and f: "fold_ok (diff_known L V b now) rs t1 = Ok t'"
    using Cons.prems(1) by (auto simp: bind_outcome_eq_Ok)
  have d: "distinct (map o_ID rs)" and nin: "x \<in> set rs \<Longrightarrow> o_ID x \<noteq> o_ID r" for x
    using Cons.prems(2) by (auto simp: image_iff)
  show ?case
  proof (cases "al_get (br_statuses b) (o_ID r)")
    case None
    have "t1 = t" by (rule diff_unknown [OF None h])
    with Cons.IH [OF f d] Cons.prems(3) None nin show ?thesis by auto
  next
    case (Some prev)
    have p: "order_view (tx_db t) (o_ID r) = Some (set_status prev (shown r))" "o_Status r = StatusOpen \<longrightarrow> prev = StatusOpen"
      using Cons.prems(3) [of r prev] Some by simp_all
    note s = diff_known_view [OF h Some p]
    have "order_view (tx_db t1) (o_ID x) = Some (set_status q (shown x)) \<and> (o_Status x = StatusOpen \<longrightarrow> q = StatusOpen)"
      if "x \<in> set rs" "al_get (br_statuses b) (o_ID x) = Some q" for x q
      using Cons.prems(3) [of x q] that nin s by simp
    note ih = Cons.IH [OF f d this]
    have r: "order_view (tx_db t') (o_ID r) = Some (shown r)"
      "status_of_tx t' (o_ID r) = (if prev = o_Status r then status_of_tx t (o_ID r) else Some (o_Status r))"
      using ih s nin by fastforce+
    show ?thesis using ih s r Some nin by (auto split: if_splits)
  qed
qed simp

lemma insert_fold:
  assumes "fold_ok (insert_created L V proposal now) rs t = Ok t'" and "distinct (map o_ID rs)"
  shows "(\<forall>r \<in> set rs. order_view (tx_db t') (o_ID r) = Some (shown r) \<and> status_of_tx t' (o_ID r) = Some (o_Status r))
     \<and> (\<forall>i. i \<notin> o_ID ` set rs \<longrightarrow> order_view (tx_db t') i = order_view (tx_db t) i \<and> status_of_tx t' i = status_of_tx t i)
     \<and> db_positions (tx_db t') = db_positions (tx_db t) \<and> tx_books t' = tx_books t"
  using assms
proof (induction rs arbitrary: t)
  case (Cons r rs)
  obtain t1 where h: "insert_created L V proposal now t r = Ok t1"
    and f: "fold_ok (insert_created L V proposal now) rs t1 = Ok t'"
    using Cons.prems(1) by (auto simp: bind_outcome_eq_Ok)
  have d: "distinct (map o_ID rs)" and nin: "o_ID r \<notin> o_ID ` set rs" using Cons.prems(2) by auto
  show ?case using Cons.IH [OF f d] insert_created_view [OF h] nin by auto
qed simp

definition book_at :: "store_db \<Rightarrow> string \<times> string \<Rightarrow> position_row option" where
  "book_at db = row_get position_key (db_positions db)"

lemma GetPosition_at: "GetPosition db s sy = book_at db (s, sy)"
  by (simp add: GetPosition_def book_at_def)

lemma UpsertPosition_at: "book_at (UpsertPosition w db) = (book_at db)(position_key w := Some w)"
  by (simp add: book_at_def UpsertPosition_def rows.get_put fun_eq_iff)

lemma order_view_frame: "db_orders d = db_orders db \<Longrightarrow> order_view d = order_view db"
  by (simp add: order_view_def get_order_row_def fun_eq_iff)

text \<open>One changed book.\<close>

lemma persist_book_view:
  assumes "persist_book L b now t (s, p) = Ok t'" and "string_documented L"
    and "\<And>q. al_get (br_books b) (s, pos_Symbol p) = Some q \<Longrightarrow>
       \<exists>w. book_at (tx_db t) (s, pos_Symbol p) = Some w \<and> shows_book L w q"
  shows "(\<exists>w. book_at (tx_db t') (s, pos_Symbol p) = Some w \<and> shows_book L w p)
     \<and> (\<forall>k. k \<noteq> (s, pos_Symbol p) \<longrightarrow> book_at (tx_db t') k = book_at (tx_db t) k \<and> al_get (tx_books t') k = al_get (tx_books t) k)
     \<and> (al_get (tx_books t') (s, pos_Symbol p) = Some p
        \<or> al_get (tx_books t') (s, pos_Symbol p) = al_get (tx_books t) (s, pos_Symbol p)
          \<and> (\<exists>q. al_get (br_books b) (s, pos_Symbol p) = Some q \<and> samePosition q p))
     \<and> db_orders (tx_db t') = db_orders (tx_db t) \<and> tx_statuses t' = tx_statuses t"
proof (cases "case al_get (br_books b) (s, pos_Symbol p) of None \<Rightarrow> False | Some q \<Rightarrow> samePosition q p")
  case True
  then obtain q where q: "al_get (br_books b) (s, pos_Symbol p) = Some q" "samePosition q p" by (auto split: option.splits)
  have "t' = t" using assms(1) True by (simp add: persist_book_def Let_def)
  moreover obtain w where w: "book_at (tx_db t) (s, pos_Symbol p) = Some w" "shows_book L w q" using assms(3) q(1) by blast
  moreover have "shows_book L w p" using w(2) q(2) by (simp add: shows_book_def samePosition_def)
  ultimately show ?thesis using q by auto
next
  case False
  let ?w = "positionRow L s p now"
  have u: "tx_db t' = UpsertPosition ?w (tx_db t)" "tx_books t' = al_put (s, pos_Symbol p) p (tx_books t)"
    "tx_statuses t' = tx_statuses t"
    using assms(1) False by (auto simp: persist_book_def Let_def split: if_splits)
  have k: "position_key ?w = (s, pos_Symbol p)" by (simp add: position_key_def positionRow_def)
  have "shows_book L ?w p" using assms(2) by (simp add: shows_book_def positionRow_def string_documented_def)
  then show ?thesis by (simp add: u UpsertPosition_at k al.get_put) (simp add: UpsertPosition_def)
qed

lemma books_fold:
  assumes "fold_ok (persist_book L b now) bs t = Ok t'" and "string_documented L"
    and "distinct (map (\<lambda>(s, p). (s, pos_Symbol p)) bs)"
    and "\<And>s p q. (s, p) \<in> set bs \<Longrightarrow> al_get (br_books b) (s, pos_Symbol p) = Some q \<Longrightarrow>
       \<exists>w. book_at (tx_db t) (s, pos_Symbol p) = Some w \<and> shows_book L w q"
  shows "(\<forall>(s, p) \<in> set bs. (\<exists>w. book_at (tx_db t') (s, pos_Symbol p) = Some w \<and> shows_book L w p)
        \<and> (al_get (tx_books t') (s, pos_Symbol p) = Some p
        \<or> al_get (tx_books t') (s, pos_Symbol p) = al_get (tx_books t) (s, pos_Symbol p)
          \<and> (\<exists>q. al_get (br_books b) (s, pos_Symbol p) = Some q \<and> samePosition q p)))
     \<and> (\<forall>k. k \<notin> (\<lambda>(s, p). (s, pos_Symbol p)) ` set bs \<longrightarrow>
          book_at (tx_db t') k = book_at (tx_db t) k \<and> al_get (tx_books t') k = al_get (tx_books t) k)
     \<and> db_orders (tx_db t') = db_orders (tx_db t) \<and> tx_statuses t' = tx_statuses t"
  using assms
proof (induction bs arbitrary: t)
  case (Cons x bs)
  obtain s p where x: "x = (s, p)" by (cases x)
  obtain t1 where h: "persist_book L b now t (s, p) = Ok t1" and f: "fold_ok (persist_book L b now) bs t1 = Ok t'"
    using Cons.prems(1) by (auto simp: bind_outcome_eq_Ok x)
  have d: "distinct (map (\<lambda>(s, p). (s, pos_Symbol p)) bs)"
    and nin: "(s, pos_Symbol p) \<notin> (\<lambda>(s, p). (s, pos_Symbol p)) ` set bs" using Cons.prems(3) by (auto simp: x)
  have own: "\<exists>w. book_at (tx_db t) (s, pos_Symbol p) = Some w \<and> shows_book L w q"
    if "al_get (br_books b) (s, pos_Symbol p) = Some q" for q
    using Cons.prems(4) [of s p q] that by (simp add: x)
  note v = persist_book_view [OF h Cons.prems(2) own]
  have "\<exists>w. book_at (tx_db t1) (s', pos_Symbol p') = Some w \<and> shows_book L w q"
    if m: "(s', p') \<in> set bs" and "al_get (br_books b) (s', pos_Symbol p') = Some q" for s' p' q
  proof -
    have "(s', pos_Symbol p') \<noteq> (s, pos_Symbol p)" using m nin by (auto simp: image_iff)
    then show ?thesis using v Cons.prems(4) [of s' p' q] that by (simp add: x)
  qed
  note ih = Cons.IH [OF f Cons.prems(2) d this]
  have other: "(s', pos_Symbol p') \<noteq> (s, pos_Symbol p)" if "(s', p') \<in> set bs" for s' p'
    using that nin by (auto simp: image_iff)
  have keep: "book_at (tx_db t') (s, pos_Symbol p) = book_at (tx_db t1) (s, pos_Symbol p)"
    "al_get (tx_books t') (s, pos_Symbol p) = al_get (tx_books t1) (s, pos_Symbol p)"
    using ih nin by blast+
  have head: "(\<exists>w. book_at (tx_db t') (s, pos_Symbol p) = Some w \<and> shows_book L w p)
      \<and> (al_get (tx_books t') (s, pos_Symbol p) = Some p
        \<or> al_get (tx_books t') (s, pos_Symbol p) = al_get (tx_books t) (s, pos_Symbol p)
          \<and> (\<exists>q. al_get (br_books b) (s, pos_Symbol p) = Some q \<and> samePosition q p))"
    unfolding keep using v by blast
  have tail: "(\<exists>w. book_at (tx_db t') (s', pos_Symbol p') = Some w \<and> shows_book L w p')
      \<and> (al_get (tx_books t') (s', pos_Symbol p') = Some p'
        \<or> al_get (tx_books t') (s', pos_Symbol p') = al_get (tx_books t) (s', pos_Symbol p')
          \<and> (\<exists>q. al_get (br_books b) (s', pos_Symbol p') = Some q \<and> samePosition q p'))"
    if m: "(s', p') \<in> set bs" for s' p'
  proof -
    have "al_get (tx_books t1) (s', pos_Symbol p') = al_get (tx_books t) (s', pos_Symbol p')" using v other [OF m] by blast
    moreover have "(\<exists>w. book_at (tx_db t') (s', pos_Symbol p') = Some w \<and> shows_book L w p')
      \<and> (al_get (tx_books t') (s', pos_Symbol p') = Some p'
        \<or> al_get (tx_books t') (s', pos_Symbol p') = al_get (tx_books t1) (s', pos_Symbol p')
          \<and> (\<exists>q. al_get (br_books b) (s', pos_Symbol p') = Some q \<and> samePosition q p'))"
      using bspec [OF conjunct1 [OF ih] m] by simp
    ultimately show ?thesis by simp
  qed
  show ?case using head tail ih v by (auto simp: x)
qed simp

lemma states_fold:
  "fold_ok (\<lambda>t sid. bind_outcome (writeStrategyState L al sid (d t sid) now (tx_db t)) (\<lambda>db. Ok (t\<lparr>tx_db := db\<rparr>))) ss t = Ok t' \<Longrightarrow>
     db_orders (tx_db t') = db_orders (tx_db t) \<and> db_positions (tx_db t') = db_positions (tx_db t)
     \<and> tx_statuses t' = tx_statuses t \<and> tx_books t' = tx_books t \<and> tx_proposals t' = tx_proposals t"
proof (induction ss arbitrary: t)
  case (Cons s ss)
  obtain db where w: "writeStrategyState L al s (d t s) now (tx_db t) = Ok db"
    and f: "fold_ok (\<lambda>t sid. bind_outcome (writeStrategyState L al sid (d t sid) now (tx_db t)) (\<lambda>db. Ok (t\<lparr>tx_db := db\<rparr>))) ss
       (t\<lparr>tx_db := db\<rparr>) = Ok t'"
    using Cons.prems by (auto simp: bind_outcome_eq_Ok)
  have "db_orders db = db_orders (tx_db t) \<and> db_positions db = db_positions (tx_db t)"
    using w by (auto simp: writeStrategyState_def bind_outcome_eq_Ok UpsertStrategyState_def split: if_splits option.splits)
  with Cons.IH [OF f] show ?case by simp
qed simp

text \<open>Staged maps have distinct keys, so merging them overrides.\<close>

lemma merge_maps_get:
  "distinct (map fst staged) \<Longrightarrow>
     al_get (merge_maps staged m) k = (case al_get staged k of None \<Rightarrow> al_get m k | Some v \<Rightarrow> Some v)"
proof (induction staged arbitrary: m)
  case (Cons x xs)
  obtain j v where x: "x = (j, v)" by (cases x)
  have "al_get (merge_maps xs (al_put j v m)) k = (case al_get xs k of None \<Rightarrow> al_get (al_put j v m) k | Some u \<Rightarrow> Some u)"
    using Cons by (simp add: x)
  moreover have "al_get xs j = None" using Cons.prems by (auto simp: x map_of_eq_None_iff)
  ultimately show ?case by (auto simp: x merge_maps_def al.get_put split: option.split)
qed (simp add: merge_maps_def)

definition staged_ok :: "'d sweep_tx \<Rightarrow> bool" where
  "staged_ok t \<longleftrightarrow> distinct (map fst (tx_statuses t)) \<and> distinct (map fst (tx_books t))"

lemma insertFill_staged: "insertFill L V r now t = Ok t' \<Longrightarrow> staged_ok t' = staged_ok t"
  by (auto simp: insertFill_def bind_outcome_eq_Ok staged_ok_def)

lemma staged_status: "staged_ok t \<Longrightarrow> staged_ok (t\<lparr>tx_statuses := al_put i st (tx_statuses t)\<rparr>)"
  by (simp add: staged_ok_def distinct_update)

lemma staged_frame [simp]:
  "staged_ok (t\<lparr>tx_db := db\<rparr>) = staged_ok t" "staged_ok (t\<lparr>tx_entryFills := f\<rparr>) = staged_ok t"
  "staged_ok (t\<lparr>tx_proposals := p\<rparr>) = staged_ok t" "staged_ok (t\<lparr>tx_deltas := d\<rparr>) = staged_ok t"
  "staged_ok (t\<lparr>tx_touched := u\<rparr>) = staged_ok t" "staged_ok (t\<lparr>tx_statuses := s, tx_proposals := p\<rparr>) = staged_ok (t\<lparr>tx_statuses := s\<rparr>)"
  by (simp_all add: staged_ok_def)

lemma diff_staged: "staged_ok t \<Longrightarrow> diff_known L V b now t r = Ok t' \<Longrightarrow> staged_ok t'"
  by (auto simp: diff_known_def bind_outcome_eq_Ok Let_def dest!: insertFill_staged intro!: staged_status
      split: option.splits if_splits ostatus.splits)

lemma insert_staged: "staged_ok t \<Longrightarrow> insert_created L V p now t r = Ok t' \<Longrightarrow> staged_ok t'"
  by (auto dest!: insert_created_cases insertFill_staged intro!: staged_status split: if_splits)

lemma book_staged: "staged_ok t \<Longrightarrow> persist_book L b now t x = Ok t' \<Longrightarrow> staged_ok t'"
  by (auto simp: persist_book_def Let_def staged_ok_def distinct_update split: if_splits prod.splits)

section \<open>The bridge's invariant\<close>

definition bridge_inv :: "'d::linordered_field dlib \<Rightarrow> (nat \<Rightarrow> string) \<Rightarrow> 'd bridge \<Rightarrow> store_db \<Rightarrow> bool" where
  "bridge_inv L U b db \<longleftrightarrow> oms_wf U (br_oms b) \<and> model_ok (br_oms b) \<and> named_books (br_oms b)
   \<and> (\<forall>i st. al_get (br_statuses b) i = Some st \<longrightarrow> (\<exists>r. get_order (br_oms b) i = Some r
        \<and> order_view db i = Some (set_status st (shown r)) \<and> (o_Status r = StatusOpen \<longrightarrow> st = StatusOpen)))
   \<and> (\<forall>k q. al_get (br_books b) k = Some q \<longrightarrow> (\<exists>w. book_at db k = Some w \<and> shows_book L w q))"

lemma bridge_inv_status:
  "bridge_inv L U b db \<Longrightarrow> al_get (br_statuses b) i = Some st \<Longrightarrow> \<exists>r. get_order (br_oms b) i = Some r
     \<and> order_view db i = Some (set_status st (shown r)) \<and> (o_Status r = StatusOpen \<longrightarrow> st = StatusOpen)"
  unfolding bridge_inv_def by blast

lemma bridge_inv_book:
  "bridge_inv L U b db \<Longrightarrow> al_get (br_books b) k = Some q \<Longrightarrow> \<exists>w. book_at db k = Some w \<and> shows_book L w q"
  unfolding bridge_inv_def by blast

lemma bridge_inv_oms:
  assumes "bridge_inv L U b db" and "oms_change U K (br_oms b) m"
  shows "bridge_inv L U (b\<lparr>br_oms := m\<rparr>) db"
proof -
  have wf: "oms_wf U (br_oms b)" and nb: "named_books (br_oms b)" and mo: "model_ok (br_oms b)"
    using assms(1) by (simp_all add: bridge_inv_def)
  have "\<exists>r. get_order m i = Some r \<and> order_view db i = Some (set_status st (shown r)) \<and> (o_Status r = StatusOpen \<longrightarrow> st = StatusOpen)"
    if st: "al_get (br_statuses b) i = Some st" for i st
  proof -
    obtain r where r: "get_order (br_oms b) i = Some r" "order_view db i = Some (set_status st (shown r))"
      "o_Status r = StatusOpen \<longrightarrow> st = StatusOpen" using bridge_inv_status [OF assms(1) st] by blast
    obtain r' where "get_order m i = Some r'" "row_facts r' = row_facts r" "o_Status r' = StatusOpen \<longrightarrow> o_Status r = StatusOpen"
      using change_keeps_order [OF assms(2) wf r(1)] by blast
    with r show ?thesis by (auto simp: row_facts_def shown_def set_status_def)
  qed
  moreover have "model_ok m" using mo change_fill [OF assms(2)] by (simp add: model_ok_def)
  ultimately show ?thesis
    using assms(1) change_wf [OF assms(2) wf] change_named [OF assms(2) nb] by (simp add: bridge_inv_def)
qed

lemma bridge_inv_frame:
  "bridge_inv L U b db \<Longrightarrow> db_orders d = db_orders db \<Longrightarrow> db_positions d = db_positions db \<Longrightarrow> bridge_inv L U b d"
  using order_view_frame [of d db] by (simp add: bridge_inv_def book_at_def)

lemma persistLocked_mirrors:
  assumes inv: "bridge_inv L U b db" and doc: "string_documented L" and p: "persistLocked L V b db prop now = Ok (b', db')"
  shows "bridge_inv L U b' db' \<and> mirrors L (br_oms b') db' \<and> br_oms b' = br_oms b"
proof -
  let ?m = "br_oms b"
  let ?os = "sort_key o_ID (Orders ?m)"
  let ?cs = "filter (\<lambda>r. al_get (br_statuses b) (o_ID r) = None) ?os"
  let ?t0 = "\<lparr>tx_db = db, tx_statuses = [], tx_proposals = [], tx_books = [], tx_touched = [],
                tx_entryFills = [], tx_deltas = [], tx_fills = br_fills b\<rparr>"
  have wf: "oms_wf U ?m" and nb: "named_books ?m" using inv by (simp_all add: bridge_inv_def)
  obtain t1 t2 t3 where f1: "fold_ok (diff_known L V b now) ?os ?t0 = Ok t1"
    and f2: "fold_ok (insert_created L V prop now) ?cs t1 = Ok t2" and f3: "persistBooksTx L b now t2 = Ok t3"
    and b': "b' = b\<lparr>br_statuses := merge_maps (tx_statuses t3) (br_statuses b),
             br_proposals := merge_maps (tx_proposals t3) (br_proposals b),
             br_books := merge_maps (tx_books t3) (br_books b), br_fills := tx_fills t3\<rparr>" "db' = tx_db t3"
    using p by (auto simp: persistLocked_def run_tx_def Let_def bind_outcome_eq_Ok)
  obtain t2b where f3a: "fold_ok (persist_book L b now) (Books ?m) t2 = Ok t2b"
    and f3b: "fold_ok (\<lambda>t sid. bind_outcome
           (writeStrategyState L (br_allocated b) sid
              (case al_get (tx_deltas t) sid of None \<Rightarrow> 0 | Some d \<Rightarrow> d) now (tx_db t))
           (\<lambda>db. Ok (t\<lparr>tx_db := db\<rparr>))) (sort (remdups (tx_touched t2b))) t2b = Ok t3"
    using f3 by (auto simp: persistBooksTx_def bind_outcome_eq_Ok)
  have ids: "distinct (map o_ID (oms_orders ?m))" using wf by (simp add: oms_wf_def)
  have dos: "distinct (map o_ID ?os)"
    using ids by (simp add: Orders_def distinct_map inj_on_def)
  have dcs: "distinct (map o_ID ?cs)" using dos by (simp add: distinct_map inj_on_def)
  have set_os: "set ?os = set (oms_orders ?m)" by (simp add: Orders_def)
  have get: "get_order ?m (o_ID r) = Some r" if "r \<in> set (oms_orders ?m)" for r
    using get_order_in [OF ids that] .
  have known: "order_view (tx_db ?t0) (o_ID r) = Some (set_status prev (shown r)) \<and> (o_Status r = StatusOpen \<longrightarrow> prev = StatusOpen)"
    if r: "r \<in> set ?os" and st: "al_get (br_statuses b) (o_ID r) = Some prev" for r prev
  proof -
    have "get_order ?m (o_ID r) = Some r" using r get [of r] unfolding set_os by blast
    moreover obtain r' where "get_order ?m (o_ID r) = Some r'" "order_view db (o_ID r) = Some (set_status prev (shown r'))"
      "o_Status r' = StatusOpen \<longrightarrow> prev = StatusOpen" using bridge_inv_status [OF inv st] by blast
    ultimately show ?thesis by simp
  qed
  note d1 = diff_fold [OF f1 dos known]
  note d2 = insert_fold [OF f2 dcs]
  have key_of: "(s, p) \<in> set (Books ?m) \<Longrightarrow> al_get (oms_positions ?m) (s, pos_Symbol p) = Some p" for s p
    using nb by (auto simp: Books_set named_books_def)
  have oldbook: "\<exists>w. book_at (tx_db t2) k = Some w \<and> shows_book L w q" if "al_get (br_books b) k = Some q" for k q
  proof -
    have "db_positions (tx_db t2) = db_positions db" using d1 d2 by simp
    then have "book_at (tx_db t2) = book_at db" by (simp add: book_at_def fun_eq_iff)
    then show ?thesis using bridge_inv_book [OF inv that] by simp
  qed
  note d3 = books_fold [OF f3a doc Books_distinct [OF nb] oldbook]
  note d4 = states_fold [OF f3b]
  have ov: "order_view db' = order_view (tx_db t2)" using order_view_frame [of "tx_db t3" "tx_db t2"] d3 d4 by (simp add: b')
  have st: "status_of_tx t3 = status_of_tx t2" using d3 d4 by (simp add: status_of_tx_def)
  have sg0: "staged_ok ?t0" by (simp add: staged_ok_def)
  have sg1: "staged_ok t1" by (rule fold_ok_inv [where P = staged_ok, OF diff_staged sg0 f1])
  have sg2: "staged_ok t2" by (rule fold_ok_inv [where P = staged_ok, OF insert_staged sg1 f2])
  have sg3: "staged_ok t3"
    using fold_ok_inv [where P = staged_ok, OF book_staged sg2 f3a] d4 by (simp add: staged_ok_def)
  have merged: "al_get (br_statuses b') i = (case status_of_tx t2 i of None \<Rightarrow> al_get (br_statuses b) i | Some v \<Rightarrow> Some v)" for i
    using merge_maps_get [of "tx_statuses t3"] sg3 st by (simp add: b' staged_ok_def status_of_tx_def)
  have orders: "order_view db' (o_ID r) = Some (shown r) \<and> al_get (br_statuses b') (o_ID r) = Some (o_Status r)"
    if r: "r \<in> set (oms_orders ?m)" for r
  proof (cases "al_get (br_statuses b) (o_ID r)")
    case None
    then have "r \<in> set ?cs" using r by (simp add: set_os Orders_def)
    from bspec [OF conjunct1 [OF d2] this] show ?thesis unfolding ov merged by simp
  next
    case (Some prev)
    have "x = r" if "x \<in> set (oms_orders ?m)" "o_ID x = o_ID r" for x
      using get [OF that(1)] get [OF r] unfolding that(2) by (metis option.inject)
    then have "o_ID r \<notin> o_ID ` set ?cs" using Some by (auto simp: Orders_def)
    then have c: "order_view (tx_db t2) (o_ID r) = order_view (tx_db t1) (o_ID r)" "status_of_tx t2 (o_ID r) = status_of_tx t1 (o_ID r)"
      using d2 by blast+
    have "order_view (tx_db t1) (o_ID r) = Some (shown r)
        \<and> (status_of_tx t1 (o_ID r) = Some (o_Status r)
           \<or> status_of_tx t1 (o_ID r) = None \<and> al_get (br_statuses b) (o_ID r) = Some (o_Status r))"
      using bspec [OF conjunct1 [OF d1], of r] r Some by (simp add: Orders_def status_of_tx_def)
    then show ?thesis unfolding ov merged c by auto
  qed
  have none: "al_get (br_statuses b') i = None" if i: "i \<notin> o_ID ` set (oms_orders ?m)" for i
  proof -
    have "get_order ?m i = None" using i by (simp add: get_order_def row_get_None_iff)
    then have o: "al_get (br_statuses b) i = None"
      using bridge_inv_status [OF inv, of i] by (cases "al_get (br_statuses b) i") auto
    have "status_of_tx t2 i = status_of_tx t1 i" using d2 i by (auto simp: Orders_def)
    moreover have "status_of_tx t1 i = None" using d1 o by (simp add: status_of_tx_def)
    ultimately show ?thesis using o by (simp add: merged)
  qed
  have statuses: "\<exists>r. get_order ?m i = Some r \<and> order_view db' i = Some (set_status v (shown r)) \<and> (o_Status r = StatusOpen \<longrightarrow> v = StatusOpen)"
    if v: "al_get (br_statuses b') i = Some v" for i v
  proof -
    obtain r where r: "r \<in> set (oms_orders ?m)" "o_ID r = i" using none v by (metis image_iff option.distinct(1))
    have "set_status (o_Status r) (shown r) = shown r" by (simp add: set_status_def shown_def)
    then show ?thesis using orders [OF r(1)] get [OF r(1)] v by (auto simp: r(2))
  qed
  have bpos: "book_at db' = book_at (tx_db t2b)" using d4 by (simp add: b' book_at_def fun_eq_iff)
  have books: "\<exists>w. book_at db' k = Some w \<and> shows_book L w q" if q: "al_get (br_books b') k = Some q" for k q
  proof -
    have mg: "al_get (br_books b') k = (case al_get (tx_books t2b) k of None \<Rightarrow> al_get (br_books b) k | Some v \<Rightarrow> Some v)"
      using merge_maps_get [of "tx_books t3"] sg3 d4 by (simp add: b' staged_ok_def)
    have e: "al_get (tx_books t2) k = None" using d1 d2 by simp
    show ?thesis
    proof (cases "k \<in> (\<lambda>(s, p). (s, pos_Symbol p)) ` set (Books ?m)")
      case True
      then obtain s p where sp: "(s, p) \<in> set (Books ?m)" "k = (s, pos_Symbol p)" by auto
      from bspec [OF conjunct1 [OF d3] sp(1)] obtain w where w: "book_at (tx_db t2b) k = Some w" "shows_book L w p"
        and c: "al_get (tx_books t2b) k = Some p \<or> al_get (tx_books t2b) k = None \<and> (\<exists>q. al_get (br_books b) k = Some q \<and> samePosition q p)"
        using e by (auto simp: sp(2))
      have "samePosition q p" using c mg q by (auto simp: samePosition_def)
      then have "shows_book L w q" using w(2) by (simp add: shows_book_def samePosition_def)
      then show ?thesis using w(1) by (simp add: bpos)
    next
      case False
      then have "book_at (tx_db t2b) k = book_at (tx_db t2) k" "al_get (tx_books t2b) k = None"
        unfolding e [symmetric] using conjunct1 [OF conjunct2 [OF d3]] by blast+
      then show ?thesis using mg q oldbook by (simp add: bpos)
    qed
  qed
  have mo: "list_all (\<lambda>r. case get_order_row db' (o_ID r) of None \<Rightarrow> False | Some w \<Rightarrow> shows_order w r) (oms_orders ?m)"
    unfolding shows_view using orders by (simp add: list_all_iff)
  have mb: "list_all (\<lambda>(s, p). case GetPosition db' s (pos_Symbol p) of None \<Rightarrow> False | Some w \<Rightarrow> shows_book L w p) (Books ?m)"
    using d3 by (fastforce simp: list_all_iff GetPosition_at bpos)
  have oms: "br_oms b' = ?m" by (simp add: b')
  have "bridge_inv L U b' db'" using inv statuses books unfolding bridge_inv_def oms by blast
  with mo mb oms show ?thesis by (simp add: mirrors_def)
qed

section \<open>The bridge as a machine\<close>

text \<open>A call ended without a store error.\<close>

definition stored_ok :: "bridge_error option \<Rightarrow> bool" where
  "stored_ok e = (case e of Some (ErrStore _) \<Rightarrow> False | _ \<Rightarrow> True)"

lemma persist_then_inv:
  assumes "bridge_inv L U b db" and "string_documented L" and "persist_then L V b db p now err = Ok (b', db', e)"
  shows "bridge_inv L U b' db' \<and> (stored_ok e \<longrightarrow> mirrors L (br_oms b') db')"
proof (cases "persistLocked L V b db p now")
  case (Ok y)
  then have "persistLocked L V b db p now = Ok (b', db')" using assms(3) by (cases y) (simp add: persist_then_def)
  from persistLocked_mirrors [OF assms(1,2) this] show ?thesis by blast
qed (use assms in \<open>auto simp: persist_then_def stored_ok_def\<close>)

lemma bridge_inv_laws: "bridge_inv L U b db \<Longrightarrow> oms_wf U (br_oms b) \<and> model_ok (br_oms b)"
  by (simp add: bridge_inv_def)

lemma SubmitApproved_inv:
  assumes inv: "bridge_inv L U b db" and docs: "div_documented L" "round_documented L" "string_documented L"
    and s: "SubmitApproved L U V b db p v s ep fresh now = Ok (b', db', e)"
  shows "bridge_inv L U b' db' \<and> (e \<noteq> Some ErrAction \<longrightarrow> stored_ok e \<longrightarrow> mirrors L (br_oms b') db')
     \<and> (e = Some ErrAction \<longrightarrow> b' = b \<and> db' = db)"
proof -
  let ?mark = "case fresh of None \<Rightarrow> 0 | Some m \<Rightarrow> m"
  note l = bridge_inv_laws [OF inv]
  have go: "?thesis" if c: "oms_change U (\<lambda>_. True) (br_oms b) m"
    and t: "persist_then L V (b\<lparr>br_oms := m\<rparr>) db q now (map_option ErrPaper pe) = Ok (b', db', e)" for m q pe
  proof -
    have "e \<noteq> Some ErrAction"
      using t by (auto simp: persist_then_def split: outcome.splits)
    with persist_then_inv [OF bridge_inv_oms [OF inv c] docs(3) t] show ?thesis by blast
  qed
  consider (opens) m r pe where "SubmitEntry L U (br_oms b) (entry_request_of p v ?mark ep) = Ok (m, r, pe)"
      "persist_then L V (b\<lparr>br_oms := m\<rparr>) db (Some (p_ProposalID p)) now (map_option ErrPaper pe) = Ok (b', db', e)"
    | (closes) m r pe where "Flatten L U (br_oms b) s (p_Symbol p) ?mark = Ok (m, r, pe)"
      "persist_then L V (b\<lparr>br_oms := m\<rparr>) db (Some (p_ProposalID p)) now (map_option ErrPaper pe) = Ok (b', db', e)"
    | (other) "b' = b" "db' = db" "e = Some ErrAction"
    using s by (auto simp: SubmitApproved_def Let_def bind_outcome_eq_Ok split: if_splits)
  then show ?thesis
  proof cases
    case opens
    then show ?thesis using go SubmitEntry_change_base [OF docs(1,2) _ _ opens(1)] l by blast
  next
    case closes
    have "oms_change U (\<lambda>_. True) (br_oms b) m"
      using flatten_change [of U "br_oms b" "\<lambda>_. True" "br_oms b" s "p_Symbol p" L ?mark] l closes(1)
      by (auto simp: Flatten_def change_refl)
    with closes(2) go show ?thesis by blast
  next
    case other
    then show ?thesis using inv by simp
  qed
qed

text \<open>The calls, and what the rest of the control plane does: it rewrites the other tables.\<close>

datatype 'd bridge_op =
    BSubmit "'d proposal" "'d verdict" string int "'d option" instant
  | BCancel string instant
  | BSweep "(string \<times> 'd) list" instant
  | BOther store_db

definition other_tables :: "store_db \<Rightarrow> store_db \<Rightarrow> store_db" where
  "other_tables d db = d\<lparr>db_orders := db_orders db, db_fills := db_fills db, db_positions := db_positions db,
     db_states := db_states db\<rparr>"

text \<open>The flag says whether the last call's transaction committed.\<close>

definition bridge_step ::
  "'d::linordered_field dlib \<Rightarrow> (nat \<Rightarrow> string) \<Rightarrow> (nat \<Rightarrow> string) \<Rightarrow> 'd bridge \<times> store_db \<times> bool \<Rightarrow> 'd bridge_op \<Rightarrow>
     ('d bridge \<times> store_db \<times> bool) option" where
  "bridge_step L U V = (\<lambda>(b, db, ok) op. case op of
      BSubmit p v s ep fresh now \<Rightarrow> (case SubmitApproved L U V b db p v s ep fresh now of
        Ok (b', db', e) \<Rightarrow> Some (b', db', if e = Some ErrAction then ok else stored_ok e) | _ \<Rightarrow> None)
    | BCancel s now \<Rightarrow> (case BridgeCancelOpenEntries L V b db s now of
        Ok (b', db', e) \<Rightarrow> Some (b', db', stored_ok e) | _ \<Rightarrow> None)
    | BSweep marks now \<Rightarrow> (case Sweep L U V b db marks now of
        Ok (b', db', e) \<Rightarrow> Some (b', db', stored_ok e) | _ \<Rightarrow> None)
    | BOther d \<Rightarrow> Some (b, other_tables d db, ok))"

definition synced :: "'d::linordered_field dlib \<Rightarrow> (nat \<Rightarrow> string) \<Rightarrow> 'd bridge \<times> store_db \<times> bool \<Rightarrow> bool" where
  "synced L U = (\<lambda>(b, db, ok). div_documented L \<and> round_documented L \<and> string_documented L \<and> bridge_inv L U b db
     \<and> (ok \<longrightarrow> mirrors L (br_oms b) db))"

lemma bridge_step_synced:
  assumes "synced L U y" and "bridge_step L U V y op = Some z"
  shows "synced L U z"
proof -
  obtain b db ok where y: "y = (b, db, ok)" by (cases y)
  have inv: "bridge_inv L U b db" and docs: "div_documented L" "round_documented L" "string_documented L"
    and m: "ok \<longrightarrow> mirrors L (br_oms b) db" using assms(1) by (simp_all add: synced_def y)
  show ?thesis
  proof (cases op)
    case (BSubmit p v s ep fresh now)
    then obtain b' db' e where r: "SubmitApproved L U V b db p v s ep fresh now = Ok (b', db', e)"
      "z = (b', db', if e = Some ErrAction then ok else stored_ok e)"
      using assms(2) by (auto simp: bridge_step_def y split: outcome.splits prod.splits)
    show ?thesis using SubmitApproved_inv [OF inv docs r(1)] docs m by (simp add: synced_def r(2))
  next
    case (BCancel s now)
    then obtain b' db' e where r: "BridgeCancelOpenEntries L V b db s now = Ok (b', db', e)" "z = (b', db', stored_ok e)"
      using assms(2) by (auto simp: bridge_step_def y split: outcome.splits prod.splits)
    have "bridge_inv L U (b\<lparr>br_oms := CancelOpenEntries s (br_oms b)\<rparr>) db"
      by (rule bridge_inv_oms [OF inv CancelOpenEntries_change])
    from persist_then_inv [OF this docs(3) r(1) [unfolded BridgeCancelOpenEntries_def]] docs show ?thesis
      by (simp add: synced_def r(2))
  next
    case (BSweep marks now)
    then obtain b' db' e where r: "Sweep L U V b db marks now = Ok (b', db', e)" "z = (b', db', stored_ok e)"
      using assms(2) by (auto simp: bridge_step_def y split: outcome.splits prod.splits)
    obtain m1 fs es where t: "ProcessTick L U (br_oms b) marks = Ok (m1, fs, es)"
      "persist_then L V (b\<lparr>br_oms := m1\<rparr>) db None now (if es = [] then None else Some (ErrPaperMany es)) = Ok (b', db', e)"
      using r(1) by (auto simp: Sweep_def bind_outcome_eq_Ok)
    have "oms_change U (\<lambda>_. True) (br_oms b) m1"
      using ProcessTick_tick [of U "br_oms b" L marks] bridge_inv_laws [OF inv] t(1)
      by (auto simp: tick_outcome_def intro: oms_change_mono)
    from persist_then_inv [OF bridge_inv_oms [OF inv this] docs(3) t(2)] docs show ?thesis by (simp add: synced_def r(2))
  next
    case (BOther d)
    have z: "z = (b, other_tables d db, ok)" using assms(2) BOther by (simp add: bridge_step_def y)
    have "bridge_inv L U b (other_tables d db)"
      by (rule bridge_inv_frame [OF inv]) (simp_all add: other_tables_def)
    moreover have "mirrors L (br_oms b) (other_tables d db) = mirrors L (br_oms b) db"
      by (simp add: mirrors_def other_tables_def get_order_row_def GetPosition_def)
    ultimately show ?thesis using docs m by (simp add: synced_def z)
  qed
qed

interpretation bridge_machine: machine "bridge_step L U V" "synced L U"
  for L :: "'d::linordered_field dlib" and U V
  by unfold_locales (rule bridge_step_synced)

section \<open>Restart\<close>

text \<open>The tables a bridge starts from: primary keys, open paper orders of positive size, and
  identifiers of later orders unused.\<close>

definition good_rows :: "'d::linordered_field dlib \<Rightarrow> (nat \<Rightarrow> string) \<Rightarrow> store_db \<Rightarrow> bool" where
  "good_rows L U db \<longleftrightarrow> inj U \<and> (\<forall>n. get_order_row db (U n) = None)
     \<and> distinct (map or_OrderID (db_orders db)) \<and> distinct (map position_key (db_positions db))
     \<and> list_all (\<lambda>w. or_Status w = ''open'' \<longrightarrow> (case dFromString L (or_QtyBase w) of None \<Rightarrow> True | Some q \<Rightarrow> 0 < q)) (db_orders db)"

text \<open>While hydrating, the bridge knows every order and book of its manager.\<close>

definition hydrated :: "'d::linordered_field dlib \<Rightarrow> (nat \<Rightarrow> string) \<Rightarrow> store_db \<Rightarrow> 'd bridge \<Rightarrow> bool" where
  "hydrated L U db b \<longleftrightarrow> bridge_inv L U b db \<and> list_all (\<lambda>r. al_get (br_statuses b) (o_ID r) = Some (o_Status r)) (oms_orders (br_oms b))
     \<and> br_books b = oms_positions (br_oms b)"

lemma hydrated_mirrors:
  assumes "hydrated L U db b" shows "mirrors L (br_oms b) db"
proof -
  have inv: "bridge_inv L U b db" and st: "\<And>r. r \<in> set (oms_orders (br_oms b)) \<Longrightarrow> al_get (br_statuses b) (o_ID r) = Some (o_Status r)"
    and bk: "br_books b = oms_positions (br_oms b)"
    using assms by (simp_all add: hydrated_def list_all_iff)
  have "order_view db (o_ID r) = Some (shown r)" if r: "r \<in> set (oms_orders (br_oms b))" for r
  proof -
    have "distinct (map o_ID (oms_orders (br_oms b)))" using inv by (simp add: bridge_inv_def oms_wf_def)
    from get_order_in [OF this r] have g: "get_order (br_oms b) (o_ID r) = Some r" .
    have "order_view db (o_ID r) = Some (set_status (o_Status r) (shown r))"
      using bridge_inv_status [OF inv st [OF r]] g by auto
    then show ?thesis by (simp add: set_status_def shown_def)
  qed
  moreover have "\<exists>w. book_at db (s, pos_Symbol p) = Some w \<and> shows_book L w p" if "(s, p) \<in> set (Books (br_oms b))" for s p
  proof -
    have "al_get (oms_positions (br_oms b)) (s, pos_Symbol p) = Some p"
      using that inv by (auto simp: Books_set bridge_inv_def named_books_def)
    then show ?thesis using bridge_inv_book [OF inv, of "(s, pos_Symbol p)" p] by (simp add: bk)
  qed
  ultimately show ?thesis
    unfolding mirrors_def shows_view by (fastforce simp: list_all_iff GetPosition_at)
qed

lemma class_of_str: "class_of c = Some x \<Longrightarrow> class_str x = c"
  by (auto simp: class_of_def class_str_def split: if_splits)

lemma paperOrder_row:
  "paperOrder L w = Ok r \<Longrightarrow> o_ID r = or_OrderID w \<and> o_StrategyID r = or_StrategyID w \<and> o_Symbol r = or_Symbol w
     \<and> class_str (o_Class r) = or_Class w \<and> o_KillEpoch r = or_KillEpoch w \<and> status_of (or_Status w) = Some (o_Status r)
     \<and> dFromString L (or_QtyBase w) = Some (o_QtyBase r)"
  by (auto simp: paperOrder_def bind_outcome_eq_Ok parse_dec_def class_of_str split: option.splits)

lemma paperPosition_row:
  "paperPosition L w = Ok p \<Longrightarrow> pos_Symbol p = pr_Symbol w \<and> shows_book L w p"
  by (auto simp: paperPosition_def bind_outcome_eq_Ok parse_dec_def shows_book_def split: option.splits)

lemma hydrate_position_step:
  assumes h: "hydrated L U db b" and g: "good_rows L U db" and w: "w \<in> set (ListPositions db s)"
    and st: "hydrate_position L b w = Ok b'"
  shows "hydrated L U db b'"
proof -
  obtain p where p: "paperPosition L w = Ok p"
    and b': "b' = b\<lparr>br_oms := RestorePosition (br_oms b) (pr_StrategyID w) p,
           br_books := al_put (pr_StrategyID w, pr_Symbol w) p (br_books b)\<rparr>"
    using st by (auto simp: hydrate_position_def bind_outcome_eq_Ok)
  note r = paperPosition_row [OF p]
  have at: "book_at db (pr_StrategyID w, pr_Symbol w) = Some w"
    using row_get_in [of position_key "db_positions db" w] g w by (simp add: good_rows_def book_at_def position_key_def)
  have inv: "bridge_inv L U b db" using h by (simp add: hydrated_def)
  have "named_books (br_oms b')" using inv r by (auto simp: b' bridge_inv_def named_books_def RestorePosition_def al.get_put)
  moreover have "oms_wf U (br_oms b')" "model_ok (br_oms b')"
    using inv by (simp_all add: b' bridge_inv_def oms_wf_def model_ok_def RestorePosition_def get_order_def)
  moreover have "\<exists>x. book_at db k = Some x \<and> shows_book L x q" if "al_get (br_books b') k = Some q" for k q
    using that bridge_inv_book [OF inv, of k q] at r by (auto simp: b' al.get_put split: if_splits)
  moreover have "\<exists>x. get_order (br_oms b') i = Some x \<and> order_view db i = Some (set_status u (shown x)) \<and> (o_Status x = StatusOpen \<longrightarrow> u = StatusOpen)"
    if "al_get (br_statuses b') i = Some u" for i u
    using that bridge_inv_status [OF inv, of i u] by (simp add: b' RestorePosition_def get_order_def)
  ultimately have "bridge_inv L U b' db" unfolding bridge_inv_def by blast
  moreover have "br_books b' = oms_positions (br_oms b')" using h r by (simp add: hydrated_def b' RestorePosition_def)
  ultimately show ?thesis using h by (simp add: hydrated_def b' RestorePosition_def)
qed

lemma hydrate_order_step:
  assumes h: "hydrated L U db b" and g: "good_rows L U db" and w: "w \<in> set (ListOpenOrders db s)"
    and st: "hydrate_order L b w = Ok b'"
  shows "hydrated L U db b'"
proof -
  have wd: "w \<in> set (db_orders db)" "or_Status w = ''open''" using w by simp_all
  obtain r m where p: "paperOrder L w = Ok r" and m: "RestoreOrder (br_oms b) r = Inr m"
    and b': "b' = b\<lparr>br_oms := m, br_statuses := al_put (or_OrderID w) StatusOpen (br_statuses b),
                      br_proposals := (case or_ProposalID w of None \<Rightarrow> br_proposals b
                                       | Some p \<Rightarrow> al_put (or_OrderID w) p (br_proposals b))\<rparr>"
  proof -
    obtain r where r: "paperOrder L w = Ok r" using st by (auto simp: hydrate_order_def bind_outcome_eq_Ok)
    with st that show ?thesis by (cases "RestoreOrder (br_oms b) r") (auto simp: hydrate_order_def)
  qed
  have m': "m = put_order r (br_oms b)" and free: "get_order (br_oms b) (o_ID r) = None" and o: "o_Status r = StatusOpen"
    using m by (auto simp: RestoreOrder_def split: if_splits)
  note r = paperOrder_row [OF p]
  have at: "get_order_row db (o_ID r) = Some w"
    using row_get_in [of or_OrderID "db_orders db" w] g wd(1) r by (simp add: good_rows_def get_order_row_def)
  have view: "order_view db (o_ID r) = Some (set_status StatusOpen (shown r))"
    using at r o wd(2) by (simp add: order_view_def set_status_def shown_def status_str_def)
  have inv: "bridge_inv L U b db" using h by (simp add: hydrated_def)
  have "order_ok r" using g wd r by (auto simp: good_rows_def list_all_iff order_ok_def)
  moreover have "U n \<noteq> o_ID r" for n
  proof
    assume "U n = o_ID r"
    then have "get_order_row db (o_ID r) = None" using g by (metis good_rows_def)
    with at show False by simp
  qed
  ultimately have "oms_wf U m" using inv unfolding m' bridge_inv_def oms_wf_def list_all_iff
    by (auto simp: get_put_order distinct_put dest: orders_put)
  moreover have "named_books m" "model_ok m" using inv by (simp_all add: m' bridge_inv_def model_ok_def)
  moreover have "\<exists>x. get_order m i = Some x \<and> order_view db i = Some (set_status u (shown x)) \<and> (o_Status x = StatusOpen \<longrightarrow> u = StatusOpen)"
    if "al_get (br_statuses b') i = Some u" for i u
  proof (cases "i = o_ID r")
    case True
    then show ?thesis using that view o r by (simp add: b' m' get_put_order al.get_put)
  next
    case False
    then show ?thesis using that bridge_inv_status [OF inv, of i u] r by (auto simp: b' m' get_put_order al.get_put)
  qed
  moreover have "\<exists>x. book_at db k = Some x \<and> shows_book L x q" if "al_get (br_books b') k = Some q" for k q
    using that bridge_inv_book [OF inv, of k q] by (simp add: b')
  moreover have oms: "br_oms b' = m" by (simp add: b')
  ultimately have "bridge_inv L U b' db" unfolding bridge_inv_def by blast
  moreover have "al_get (br_statuses b') (o_ID x) = Some (o_Status x)" if "x \<in> set (oms_orders m)" for x
  proof (cases "x = r")
    case True
    then show ?thesis using o r by (simp add: b' al.get_put)
  next
    case False
    then have x: "x \<in> set (oms_orders (br_oms b))" using that orders_put [of x r] by (auto simp: m')
    then have "o_ID x \<noteq> o_ID r" using free by (metis get_order_def row_get_None_iff imageI)
    then show ?thesis using h x r by (simp add: hydrated_def list_all_iff b' al.get_put)
  qed
  ultimately show ?thesis using h by (simp add: hydrated_def list_all_iff oms) (simp add: b' m')
qed

lemma RestoreKillEpoch_hydrated:
  "hydrated L U db b \<Longrightarrow> hydrated L U db (b\<lparr>br_oms := RestoreKillEpoch s e (br_oms b)\<rparr>)"
  by (simp add: hydrated_def bridge_inv_def RestoreKillEpoch_def oms_wf_def model_ok_def named_books_def get_order_def)

lemma hydrate_hydrated:
  assumes "hydrated L U db b" and "good_rows L U db" and "hydrate L db b = Ok b'"
  shows "hydrated L U db b'"
proof -
  have strategy: "hydrated L U db c'" if c: "hydrated L U db c" and h: "hydrateStrategy L db c s = Ok c'" for c c' s
  proof -
    obtain c1 where p: "fold_ok (hydrate_position L) (ListPositions db s) c = Ok c1"
      and o: "fold_ok (hydrate_order L) (ListOpenOrders db s) c1 = Ok c'"
      using h by (auto simp: hydrateStrategy_def bind_outcome_eq_Ok)
    have c1: "hydrated L U db c1"
      by (rule fold_ok_inv [where P = "hydrated L U db", OF _ c p]) (rule hydrate_position_step [OF _ assms(2)])
    show ?thesis
      by (rule fold_ok_inv [where P = "hydrated L U db", OF _ c1 o]) (rule hydrate_order_step [OF _ assms(2)])
  qed
  have one: "hydrated L U db c'"
    if c: "hydrated L U db c" and h: "bind_outcome (hydrateStrategy L db c s) (\<lambda>b1.
       Ok (b1\<lparr>br_oms := RestoreKillEpoch s (GlobalMaxKillEpoch db s) (br_oms b1)\<rparr>)) = Ok c'" for c c' s
  proof -
    obtain b1 where b1: "hydrateStrategy L db c s = Ok b1"
      and c': "c' = b1\<lparr>br_oms := RestoreKillEpoch s (GlobalMaxKillEpoch db s) (br_oms b1)\<rparr>"
      using h by (cases "hydrateStrategy L db c s") simp_all
    show ?thesis unfolding c' by (rule RestoreKillEpoch_hydrated [OF strategy [OF c b1]])
  qed
  show ?thesis
    by (rule fold_ok_inv [where P = "hydrated L U db", OF _ assms(1) assms(3) [unfolded hydrate_def]]) (rule one)
qed

lemma parse_bps_nonneg:
  assumes "fromstring_documented L" and "parse_bps L s = Ok d" shows "0 \<le> d"
  using ParseDecimal_spec [OF assms(1), of s] assms(2) by (auto simp: parse_bps_def split: outcome.splits)

lemma NewBridge_hydrated:
  assumes "fromstring_documented L" and "good_rows L U db" and "NewBridge L fm alloc db = Ok b"
  shows "hydrated L U db b"
proof -
  obtain m where m: "NewOMS L fm = Ok m"
    and h: "hydrate L db \<lparr>br_oms = m, br_statuses = [], br_books = [], br_proposals = [], br_allocated = alloc, br_fills = 0\<rparr> = Ok b"
    using assms(3) by (auto simp: NewBridge_def split: if_splits outcome.splits)
  obtain f where f: "parseFillModel L fm = Ok f" and mf: "m = \<lparr>oms_killEpochs = [], oms_fill = f, oms_orders = [],
      oms_positions = [], oms_place = (\<lambda>_. True), oms_minted = 0\<rparr>"
    using m by (auto simp: NewOMS_def bind_outcome_eq_Ok)
  have "0 \<le> fl_slippageBps f \<and> fl_slippageBps f < 10000"
    using f parse_bps_nonneg [OF assms(1)] by (auto simp: parseFillModel_def bind_outcome_eq_Ok split: if_splits)
  then have "hydrated L U db \<lparr>br_oms = m, br_statuses = [], br_books = [], br_proposals = [], br_allocated = alloc, br_fills = 0\<rparr>"
    using assms(2) by (simp add: hydrated_def bridge_inv_def mf model_ok_def oms_wf_def get_order_def named_books_def good_rows_def)
  from hydrate_hydrated [OF this assms(2) h] show ?thesis .
qed

text \<open>C31: the store mirrors the paper book: start the bridge on any well-formed tables and let
  submissions, cancels and sweeps run in any order, with the rest of the control plane rewriting the
  other tables in between and transactions failing now and then; whenever the last transaction
  committed, every order of the manager has its row with the same key, class, epoch and status, and
  every book has its row with the same figures.\<close>

theorem bridge_mirrors_store:
  assumes "div_documented L" and "round_documented L" and "string_documented L" and "fromstring_documented L"
    and "good_rows L U db0" and "NewBridge L fm alloc db0 = Ok b0"
    and "run (bridge_step L U V) (b0, db0, True) ops = Some (b, db, True)"
  shows "mirrors L (br_oms b) db"
proof -
  have "synced L U (b0, db0, True)"
    using NewBridge_hydrated [OF assms(4-6)] hydrated_mirrors [OF NewBridge_hydrated [OF assms(4-6)]] assms(1-3)
    by (simp add: synced_def hydrated_def)
  from bridge_machine.run_inv [OF this assms(7)] show ?thesis by (simp add: synced_def)
qed

section \<open>Witness\<close>

text \<open>A strategy that held two units with a stop and a resting entry before the restart submits
  another entry that rests, a kill is written elsewhere, and its entries are cancelled.\<close>

definition demo_fill_model :: fill_model_cfg where
  "demo_fill_model = \<lparr>fm_MarketSlippageBps = ''10'', fm_TakerFeeBps = ''5'', fm_MakerFeeBps = ''2''\<rparr>"

definition demo_open :: "rat proposal" where
  "demo_open = sample_proposal\<lparr>p_StrategyID := ''a''\<rparr>"

definition demo_rest :: "string \<Rightarrow> oclass \<Rightarrow> rat order" where
  "demo_rest i c = (blank_order i ''a'' ''ETH/USDT'' c (if c = ClassEntry then SideBuy else SideSell)
     (if c = ClassEntry then ''limit'' else ''stop'') 0)\<lparr>o_QtyBase := 2, o_StopPrice := 90,
      o_LimitPrice := (if c = ClassEntry then 95 else 0)\<rparr>"

definition demo_rests :: "(rat order \<times> string \<times> instant) list" where
  "demo_rests = [(demo_rest ''e'' ClassEntry, sample_uuid, 0), (demo_rest ''s'' ClassProtective, sample_uuid, 0)]"

definition demo_held :: "rat position" where
  "demo_held = \<lparr>pos_Symbol = ''ETH/USDT'', pos_QtyBase = 2, pos_EntryPrice = 100, pos_FeesQuote = 0, pos_RealizedPnLQuote = 0\<rparr>"

definition demo_tables :: store_db where
  "demo_tables = kill_demo\<lparr>
     db_proposals := [\<lparr>pp_ProposalID = sample_uuid, pp_StrategyID = ''a'', pp_Action = ''open_long''\<rparr>],
     db_orders := map (\<lambda>(r, pid, t). orderRow rat_text_lib r pid t) demo_rests,
     db_positions := map (\<lambda>(p, t). positionRow rat_text_lib ''a'' p t) [(demo_held, 0)]\<rparr>"

definition demo_bridge_ops :: "rat bridge_op list" where
  "demo_bridge_ops = [BSubmit demo_open sample_verdict ''a'' 0 (Some 101) 0, BOther kill_demo, BCancel ''a'' second]"

definition demo_bridge_run :: "(rat bridge \<times> store_db \<times> bool) option" where
  "demo_bridge_run = (case NewBridge rat_text_lib demo_fill_model 10000 demo_tables of
     Ok b \<Rightarrow> run (bridge_step rat_text_lib sample_ids (\<lambda>n. replicate (Suc n) CHR ''f'')) (b, demo_tables, True) demo_bridge_ops
   | _ \<Rightarrow> None)"

lemma demo_bridge_result:
  "case demo_bridge_run of None \<Rightarrow> False | Some (b, db, ok) \<Rightarrow>
     (ok, map (\<lambda>w. (or_OrderID w, or_Status w)) (db_orders db), length (Books (br_oms b)))
       = (True, [(''e'', ''canceled''), (''s'', ''open''), (''a'', ''canceled'')], 1)"
  by code_simp

lemma demo_tables_good: "good_rows rat_text_lib sample_ids demo_tables"
proof -
  have "dFromString rat_text_lib (dString rat_text_lib 2) = Some 2"
    using string_documented_text by (simp add: string_documented_def)
  then show ?thesis
    by (auto simp: good_rows_def demo_tables_def demo_rests_def demo_rest_def demo_held_def orderRow_def blank_order_def get_order_row_def
        sample_ids_def inj_def positionRow_def kill_demo_def empty_db_def Cons_replicate_eq)
qed

theorem bridge_mirrors_store_witness:
  "case demo_bridge_run of None \<Rightarrow> False | Some (b, db, ok) \<Rightarrow>
     mirrors rat_text_lib (br_oms b) db
     \<and> map (\<lambda>w. (or_OrderID w, or_Status w)) (db_orders db) = [(''e'', ''canceled''), (''s'', ''open''), (''a'', ''canceled'')]
     \<and> length (Books (br_oms b)) = 1"
proof -
  obtain b db where r: "demo_bridge_run = Some (b, db, True)"
    and rows: "map (\<lambda>w. (or_OrderID w, or_Status w)) (db_orders db) = [(''e'', ''canceled''), (''s'', ''open''), (''a'', ''canceled'')]"
      "length (Books (br_oms b)) = 1"
    using demo_bridge_result by (auto split: option.splits)
  obtain b0 where n: "NewBridge rat_text_lib demo_fill_model 10000 demo_tables = Ok b0"
    and s: "run (bridge_step rat_text_lib sample_ids (\<lambda>n. replicate (Suc n) CHR ''f'')) (b0, demo_tables, True) demo_bridge_ops
      = Some (b, db, True)"
    using r by (auto simp: demo_bridge_run_def split: outcome.splits)
  note m = bridge_mirrors_store [OF rat_text_lib_documented(1,2) string_documented_text rat_text_lib_documented(3) demo_tables_good n s]
  show ?thesis unfolding r using m rows by simp
qed

section \<open>The restart reads back what was written\<close>

text \<open>An order at rest: open, nothing filled, its prices set or zero.\<close>

definition resting :: "'d::linordered_field order \<Rightarrow> bool" where
  "resting r \<longleftrightarrow> o_ID r \<noteq> [] \<and> o_Status r = StatusOpen \<and> o_FillPrice r = 0 \<and> o_FeeQuote r = 0
     \<and> 0 \<le> o_LimitPrice r \<and> 0 \<le> o_StopPrice r \<and> 0 \<le> o_TakeProfit r"

lemma optDec_round: "string_documented L \<Longrightarrow> 0 \<le> d \<Longrightarrow> parseOptDec L (optDec L d) = Ok d"
  by (auto simp: optDec_def parseOptDec_def parse_dec_def string_documented_def)

lemma columns_round [simp]: "class_of (class_str c) = Some c" "side_of (side_str sd) = Some sd" "status_of (status_str st) = Some st"
proof -
  show "class_of (class_str c) = Some c" by (cases c) (simp_all add: class_of_def class_str_def)
  show "side_of (side_str sd) = Some sd" by (cases sd) (simp_all add: side_of_def side_str_def)
  show "status_of (status_str st) = Some st" by (cases st) (simp_all add: status_of_def status_str_def)
qed

lemma order_round_trip: "string_documented L \<Longrightarrow> resting r \<Longrightarrow> paperOrder L (orderRow L r pid now) = Ok r"
  by (cases r) (simp add: paperOrder_def orderRow_def resting_def optDec_round parse_dec_def string_documented_def)

lemma position_round_trip: "string_documented L \<Longrightarrow> paperPosition L (positionRow L s p now) = Ok p"
  by (cases p) (simp add: paperPosition_def positionRow_def parse_dec_def string_documented_def)

lemma hydrate_positions_round:
  assumes "string_documented L"
  shows "fold_ok (hydrate_position L) (map (\<lambda>(p, t). positionRow L s p t) ps) b
    = Ok (b\<lparr>br_oms := (br_oms b)\<lparr>oms_positions := fold (\<lambda>(p, t). al_put (s, pos_Symbol p) p) ps (oms_positions (br_oms b))\<rparr>,
            br_books := fold (\<lambda>(p, t). al_put (s, pos_Symbol p) p) ps (br_books b)\<rparr>)"
proof (induction ps arbitrary: b)
  case (Cons x ps)
  obtain p t where x: "x = (p, t)" by (cases x)
  have "pr_StrategyID (positionRow L s p t) = s" "pr_Symbol (positionRow L s p t) = pos_Symbol p"
    by (simp_all add: positionRow_def)
  with Cons x position_round_trip [OF assms] show ?case by (simp add: hydrate_position_def RestorePosition_def)
qed simp

lemma hydrate_orders_round:
  assumes "string_documented L" and "list_all (\<lambda>(r, pid, t). resting r \<and> get_order (br_oms b) (o_ID r) = None) rs"
    and "distinct (map (\<lambda>(r, _). o_ID r) rs)"
  shows "\<exists>b'. fold_ok (hydrate_order L) (map (\<lambda>(r, pid, t). orderRow L r pid t) rs) b = Ok b'
     \<and> br_oms b' = fold (\<lambda>(r, _). put_order r) rs (br_oms b)
     \<and> br_books b' = br_books b"
  using assms(2,3)
proof (induction rs arbitrary: b)
  case (Cons x rs)
  obtain r pid t where x: "x = (r, pid, t)" by (cases x)
  let ?b = "b\<lparr>br_oms := put_order r (br_oms b), br_statuses := al_put (o_ID r) StatusOpen (br_statuses b),
              br_proposals := al_put (o_ID r) pid (br_proposals b)\<rparr>"
  have "hydrate_order L b (orderRow L r pid t) = Ok ?b"
    using Cons.prems order_round_trip [OF assms(1), of r pid t]
    by (simp add: x hydrate_order_def RestoreOrder_def resting_def) (simp add: orderRow_def)
  moreover have "list_all (\<lambda>(r, pid, t). resting r \<and> get_order (br_oms ?b) (o_ID r) = None) rs"
    using Cons.prems by (force simp: x list_all_iff get_put_order)
  ultimately show ?case using Cons.IH [of ?b] Cons.prems(2) by (simp add: x)
qed simp

lemma get_put_fold:
  "distinct (map (\<lambda>(r, _). o_ID r) rs) \<Longrightarrow> get_order (fold (\<lambda>(r, _). put_order r) rs m) i
     = (case List.find (\<lambda>(r, _). o_ID r = i) rs of Some (r, _) \<Rightarrow> Some r | None \<Rightarrow> get_order m i)"
proof (induction rs arbitrary: m)
  case (Cons x rs)
  obtain r y where x: "x = (r, y)" by (cases x)
  have "List.find (\<lambda>(q, _). o_ID q = o_ID r) rs = None"
    using Cons.prems by (force simp: x find_None_iff)
  with Cons show ?case by (auto simp: x get_put_order cong: option.case_cong)
qed simp

lemma al_put_fold:
  "distinct (map (\<lambda>(p, _). pos_Symbol p) ps) \<Longrightarrow> al_get (fold (\<lambda>(p, t). al_put (s, pos_Symbol p) p) ps m) (s, sy)
     = (case List.find (\<lambda>(p, _). pos_Symbol p = sy) ps of Some (p, _) \<Rightarrow> Some p | None \<Rightarrow> al_get m (s, sy))"
proof (induction ps arbitrary: m)
  case (Cons x ps)
  obtain p y where x: "x = (p, y)" by (cases x)
  have "List.find (\<lambda>(q, _). pos_Symbol q = pos_Symbol p) ps = None"
    using Cons.prems by (force simp: x find_None_iff)
  with Cons show ?case by (auto simp: x al.get_put cong: option.case_cong)
qed simp

text \<open>C38: a restart reads back exactly what was written: when the rows of a strategy are the ones the
  bridge writes for a list of resting orders and a list of books, hydrating it succeeds, puts each of
  those orders and books into the manager with every field as it was, and touches nothing else.\<close>

theorem restart_round_trip:
  assumes "string_documented L"
    and "ListOpenOrders db s = map (\<lambda>(r, pid, t). orderRow L r pid t) rs"
    and "ListPositions db s = map (\<lambda>(p, t). positionRow L s p t) ps"
    and "list_all (\<lambda>(r, pid, t). resting r \<and> get_order (br_oms b) (o_ID r) = None) rs"
    and "distinct (map (\<lambda>(r, _). o_ID r) rs)" and "distinct (map (\<lambda>(p, _). pos_Symbol p) ps)"
  shows "\<exists>b'. hydrateStrategy L db b s = Ok b'
     \<and> (\<forall>i. get_order (br_oms b') i = (case List.find (\<lambda>(r, _). o_ID r = i) rs of
              Some (r, _) \<Rightarrow> Some r | None \<Rightarrow> get_order (br_oms b) i))
     \<and> (\<forall>sy. book_of (br_oms b') s sy = (case List.find (\<lambda>(p, _). pos_Symbol p = sy) ps of
              Some (p, _) \<Rightarrow> Some p | None \<Rightarrow> book_of (br_oms b) s sy))"
proof -
  let ?m = "(br_oms b)\<lparr>oms_positions := fold (\<lambda>(p, t). al_put (s, pos_Symbol p) p) ps (oms_positions (br_oms b))\<rparr>"
  let ?b = "b\<lparr>br_oms := ?m, br_books := fold (\<lambda>(p, t). al_put (s, pos_Symbol p) p) ps (br_books b)\<rparr>"
  have "list_all (\<lambda>(r, pid, t). resting r \<and> get_order (br_oms ?b) (o_ID r) = None) rs"
    using assms(4) by (simp add: get_order_def)
  from hydrate_orders_round [OF assms(1) this assms(5)] obtain b' where
    o: "fold_ok (hydrate_order L) (map (\<lambda>(r, pid, t). orderRow L r pid t) rs) ?b = Ok b'"
      "br_oms b' = fold (\<lambda>(r, _). put_order r) rs ?m" by auto
  have pos: "oms_positions (fold (\<lambda>(r, _). put_order r) rs m) = oms_positions m" for m
    by (induction rs arbitrary: m) (auto simp: put_order_def)
  have "hydrateStrategy L db b s = Ok b'"
    using o(1) by (simp add: hydrateStrategy_def assms(2,3) hydrate_positions_round [OF assms(1)])
  moreover have "get_order ?m i = get_order (br_oms b) i" for i by (simp add: get_order_def)
  ultimately show ?thesis
    by (simp add: o(2) get_put_fold [OF assms(5)] book_of_def pos al_put_fold [OF assms(6)] cong: option.case_cong)
qed

definition demo_fresh :: "rat bridge" where
  "demo_fresh = \<lparr>br_oms = \<lparr>oms_killEpochs = [], oms_fill = \<lparr>fl_slippageBps = 10, fl_takerBps = 5, fl_makerBps = 2\<rparr>,
     oms_orders = [], oms_positions = [], oms_place = (\<lambda>_. True), oms_minted = 0\<rparr>,
     br_statuses = [], br_books = [], br_proposals = [], br_allocated = 10000, br_fills = 0\<rparr>"

theorem restart_round_trip_witness:
  "case hydrateStrategy rat_text_lib demo_tables demo_fresh ''a'' of
     Ok b \<Rightarrow> get_order (br_oms b) ''e'' = Some (demo_rest ''e'' ClassEntry)
       \<and> get_order (br_oms b) ''s'' = Some (demo_rest ''s'' ClassProtective)
       \<and> book_of (br_oms b) ''a'' ''ETH/USDT'' = Some demo_held
   | _ \<Rightarrow> False"
proof -
  have o: "ListOpenOrders demo_tables ''a'' = map (\<lambda>(r, pid, t). orderRow rat_text_lib r pid t) demo_rests"
    by (simp add: ListOpenOrders_def demo_tables_def demo_rests_def demo_rest_def blank_order_def orderRow_def status_str_def)
  have p: "ListPositions demo_tables ''a'' = map (\<lambda>(p, t). positionRow rat_text_lib ''a'' p t) [(demo_held, 0)]"
    by (simp add: ListPositions_def demo_tables_def positionRow_def)
  have r: "list_all (\<lambda>(r, pid, t). resting r \<and> get_order (br_oms demo_fresh) (o_ID r) = None) demo_rests"
    by (simp add: demo_rests_def demo_rest_def blank_order_def resting_def demo_fresh_def get_order_def)
  have d: "distinct (map (\<lambda>(r, _). o_ID r) demo_rests)" "distinct (map (\<lambda>(p, _). pos_Symbol p) [(demo_held, 0 :: instant)])"
    by (simp_all add: demo_rests_def demo_rest_def blank_order_def)
  from restart_round_trip [OF string_documented_text o p r d]
  show ?thesis by (auto simp: demo_rests_def demo_rest_def blank_order_def demo_held_def)
qed

section \<open>An order the tables never got\<close>

text \<open>A result that is a value or an error, never a panic.\<close>

definition settled :: "('e, 'a) outcome \<Rightarrow> bool" where
  "settled x \<longleftrightarrow> (case x of Ok _ \<Rightarrow> True | Err _ \<Rightarrow> True | _ \<Rightarrow> False)"

lemma settled_simps [simp]: "settled (Ok a)" "settled (Err e)" "settled (if P then x else y) \<longleftrightarrow> (if P then settled x else settled y)"
  by (simp_all add: settled_def)

lemma settled_bind: "settled x \<Longrightarrow> (\<And>a. x = Ok a \<Longrightarrow> settled (f a)) \<Longrightarrow> settled (bind_outcome x f)"
  by (cases x) (simp_all add: settled_def)

lemma settled_fold: "(\<And>a y. settled (f a y)) \<Longrightarrow> settled (fold_ok f ys a)"
  by (induction ys arbitrary: a) (simp_all add: settled_bind)

lemma fold_blocks:
  assumes "x \<in> set xs" and "P a" and "\<And>c y d. y \<in> set xs \<Longrightarrow> P c \<Longrightarrow> f c y = Ok d \<Longrightarrow> P d" and "\<And>c d. P c \<Longrightarrow> f c x \<noteq> Ok d"
  shows "fold_ok f xs a \<noteq> Ok b"
  using assms
proof (induction xs arbitrary: a)
  case (Cons y ys)
  show ?case
  proof (cases "f a y")
    case (Ok c)
    then have "x \<noteq> y" using Cons.prems(2,4) by blast
    moreover have "P c" using Cons.prems(2,3) Ok by (meson list.set_intros(1))
    ultimately have "fold_ok f ys c \<noteq> Ok b" using Cons.prems by (intro Cons.IH) auto
    then show ?thesis using Ok by simp
  qed simp_all
qed simp

lemma InsertFill_settled: "settled (InsertFill w db)"
  by (simp add: InsertFill_def)

lemma insertFill_settled: "settled (insertFill L V r now t)"
  unfolding insertFill_def by (rule settled_bind [OF InsertFill_settled]) simp

lemma diff_known_settled: "settled (diff_known L V b now t r)"
  unfolding diff_known_def
  by (auto simp: RecordOrderFill_def RecordOrderCancel_def update_order_def insertFill_settled
      intro!: settled_bind split: option.split ostatus.split)

lemma insert_created_settled: "settled (insert_created L V p now t r)"
  unfolding insert_created_def Let_def
  by (auto simp: InsertOrder_def insertFill_settled intro!: settled_bind split: option.split)

lemma diff_known_entryFills:
  assumes "diff_known L V b now t q = Ok t'"
    and "order_key q \<noteq> k \<or> o_Class q \<noteq> ClassEntry \<or> o_Status q \<noteq> StatusFilled
       \<or> al_get (br_statuses b) (o_ID q) \<in> {None, Some StatusFilled}"
    and "al_get (tx_entryFills t) k = None"
  shows "al_get (tx_entryFills t') k = None"
  using assms
  by (auto simp: diff_known_def insertFill_def bind_outcome_eq_Ok al.get_put split: option.splits if_splits ostatus.splits)

lemma insert_created_entryFills:
  "insert_created L V p now t q = Ok t' \<Longrightarrow> tx_entryFills t' = tx_entryFills t"
  using insert_created_cases [of L V p now t q t'] by (auto simp: insertFill_def bind_outcome_eq_Ok split: if_splits)

text \<open>C40: an order the manager holds but the tables never got (its first transaction failed) blocks
  the bridge: unless an entry of its strategy and symbol fills in the same call, every persist without
  a proposal (each tick's sweep, each cancellation) reports a store error and writes nothing for any
  strategy.\<close>

theorem orphan_order_blocks_sweeps:
  assumes "r \<in> set (Orders (br_oms b))" and "al_get (br_statuses b) (o_ID r) = None"
    and "list_all (\<lambda>q. order_key q \<noteq> order_key r \<or> o_Class q \<noteq> ClassEntry \<or> o_Status q \<noteq> StatusFilled
       \<or> al_get (br_statuses b) (o_ID q) \<in> {None, Some StatusFilled}) (Orders (br_oms b))"
  shows "\<exists>e. persist_then L V b db None now err = Ok (b, db, Some (ErrStore e))"
proof -
  let ?os = "sort_key o_ID (Orders (br_oms b))"
  let ?c = "filter (\<lambda>r. al_get (br_statuses b) (o_ID r) = None) ?os"
  let ?P = "\<lambda>t :: 'a sweep_tx. al_get (tx_entryFills t) (order_key r) = None"
  let ?t0 = "\<lparr>tx_db = db, tx_statuses = [], tx_proposals = [], tx_books = [], tx_touched = [],
                tx_entryFills = [], tx_deltas = [], tx_fills = br_fills b\<rparr>"
  have diff: "?P t1" if "fold_ok (diff_known L V b now) ?os ?t0 = Ok t1" for t1
    by (rule fold_ok_inv [where P = ?P, OF _ _ that]) (use assms(3) diff_known_entryFills in \<open>fastforce simp: list_all_iff\<close>)+
  have no: "insert_created L V None now t r \<noteq> Ok d" if "?P t" for t d
    using that by (simp add: insert_created_def)
  have ins: "fold_ok (insert_created L V None now) ?c t1 \<noteq> Ok t2" if P: "?P t1" for t1 t2
  proof (rule fold_blocks [where x = r and P = ?P])
    show "r \<in> set ?c" using assms(1,2) by simp
    show "?P t'" if "?P t" "insert_created L V None now t q = Ok t'" for t q t'
      using that insert_created_entryFills by metis
  qed (use P no in blast)+
  obtain e where "run_tx L V b db None now = Err e"
  proof (cases "fold_ok (diff_known L V b now) ?os ?t0")
    case (Ok t1)
    moreover obtain e where "fold_ok (insert_created L V None now) ?c t1 = Err e"
      using ins [OF diff [OF Ok]] settled_fold [of "insert_created L V None now" ?c t1, OF insert_created_settled]
      by (cases "fold_ok (insert_created L V None now) ?c t1") (auto simp: settled_def)
    ultimately show ?thesis using that by (simp add: run_tx_def Let_def)
  qed (use that settled_fold [of "diff_known L V b now" ?os ?t0, OF diff_known_settled] in \<open>auto simp: run_tx_def Let_def settled_def\<close>)
  then show ?thesis by (simp add: persist_then_def persistLocked_def)
qed

text \<open>In the demo tables without the proposal row the entry cannot be stored, and the next sweep
  reports the orphan.\<close>

definition demo_orphan :: "rat bridge" where
  "demo_orphan = demo_fresh\<lparr>br_oms := put_order (demo_rest ''e'' ClassEntry) (br_oms demo_fresh)\<rparr>"

theorem orphan_order_blocks_sweeps_witness:
  "al_get (br_statuses demo_orphan) ''e'' = None
   \<and> (\<exists>e. persist_then rat_text_lib sample_ids demo_orphan kill_demo None 0 None = Ok (demo_orphan, kill_demo, Some (ErrStore e)))"
proof -
  have o: "Orders (br_oms demo_orphan) = [demo_rest ''e'' ClassEntry]"
    by (simp add: demo_orphan_def demo_fresh_def put_order_def Orders_def demo_rest_def blank_order_def)
  have n: "al_get (br_statuses demo_orphan) (o_ID (demo_rest ''e'' ClassEntry)) = None"
    by (simp add: demo_orphan_def demo_fresh_def)
  have l: "list_all (\<lambda>q. order_key q \<noteq> order_key (demo_rest ''e'' ClassEntry) \<or> o_Class q \<noteq> ClassEntry \<or> o_Status q \<noteq> StatusFilled
       \<or> al_get (br_statuses demo_orphan) (o_ID q) \<in> {None, Some StatusFilled}) (Orders (br_oms demo_orphan))"
    unfolding o by (simp add: demo_orphan_def demo_fresh_def)
  have "demo_rest ''e'' ClassEntry \<in> set (Orders (br_oms demo_orphan))" unfolding o by simp
  from orphan_order_blocks_sweeps [OF this n l, of rat_text_lib sample_ids kill_demo 0 None] show ?thesis
    by (simp add: demo_orphan_def demo_fresh_def)
qed

end
