(* ===== verification/LiveStore.thy ===== *)
theory LiveStore
  imports KillStore DecimalText
begin

text \<open>
  The live order journal in the store (\<open>internal/store/liveoms.go\<close>): order intents and their
  claims, the status ladder, venue fills, obligations, pending fees, venue epochs and the
  reconciliation log. Each operation is one transaction. The lemmas follow any run of them:
  a status only climbs, a claim and a trade happen once, and the tables stay well typed.
\<close>

section \<open>Insertions\<close>

definition get_intent :: "store_db \<Rightarrow> string \<Rightarrow> intent_row option" where
  "get_intent db = row_get oi_ClientOrderID (db_intents db)"

definition GetOrderIntent :: "store_db \<Rightarrow> string \<Rightarrow> (store_error, intent_row) outcome" where
  "GetOrderIntent db c = (case get_intent db c of None \<Rightarrow> Err ErrNotFound | Some i \<Rightarrow> Ok i)"

definition InsertOrderIntent :: "intent_row \<Rightarrow> store_db \<Rightarrow> (store_error, store_db) outcome" where
  "InsertOrderIntent i db =
     (if get_intent db (oi_ClientOrderID i) \<noteq> None
         \<or> get_order_row db (oi_OrderID i) = None
         \<or> list_ex (\<lambda>j. oi_IntentToken j = oi_IntentToken i \<and> oi_Attempt j = oi_Attempt i) (db_intents db)
      then Err ErrConstraint
      else Ok (db\<lparr>db_intents := db_intents db @ [i]\<rparr>))"

text \<open>The statement \<open>UPDATE orders SET client_order_id\<close>, under the unique index on that column.\<close>

definition set_client_order_id :: "string \<Rightarrow> string \<Rightarrow> store_db \<Rightarrow> (store_error, store_db) outcome" where
  "set_client_order_id c i db =
     (if list_ex (\<lambda>r. or_OrderID r \<noteq> i \<and> or_ClientOrderID r = Some c) (db_orders db) then Err ErrConstraint
      else update_order i (\<lambda>r. r\<lparr>or_ClientOrderID := Some c\<rparr>) db)"

definition InsertJournaledOrder :: "order_row \<Rightarrow> intent_row \<Rightarrow> store_db \<Rightarrow> (store_error, store_db) outcome" where
  "InsertJournaledOrder r i db =
     bind_outcome (InsertOrder r db) (\<lambda>d1.
     bind_outcome (set_client_order_id (oi_ClientOrderID i) (or_OrderID r) d1) (InsertOrderIntent i))"

text \<open>\<open>RecordIntentAttempt\<close>: no such order is reported before the index and the journal are looked at.\<close>

definition RecordIntentAttempt :: "intent_row \<Rightarrow> store_db \<Rightarrow> (store_error, store_db) outcome" where
  "RecordIntentAttempt i db =
     (if get_order_row db (oi_OrderID i) = None then Err ErrNotFound
      else bind_outcome (set_client_order_id (oi_ClientOrderID i) (oi_OrderID i) db) (InsertOrderIntent i))"

definition recon_kinds :: "string list" where
  "recon_kinds = [''run_started'', ''run_completed'', ''run_failed'', ''intent_resolved_present'', ''intent_resolved_absent'',
     ''orphan_canceled'', ''orphan_protective_left'', ''foreign_order_ignored'', ''order_terminalized'', ''fill_backfilled'',
     ''fill_after_terminal'', ''stale_update_dropped'', ''cum_qty_mismatch'', ''balance_drift'', ''commission_asset_anomaly'',
     ''duplicate_exposure'', ''flatten_dust'', ''flatten_short_balance'', ''stream_reconnect'', ''venue_reset'',
     ''recon_blocked_safety'', ''protective_resized'', ''sl_deadline_contingency'', ''tp_deadline_missed'', ''fee_conversion_applied'']"

definition AppendOMSReconEvent :: "recon_row \<Rightarrow> store_db \<Rightarrow> (store_error, store_db) outcome" where
  "AppendOMSReconEvent e db =
     (if re_Kind e \<notin> set recon_kinds \<or> row_get re_EventID (db_recon db) (re_EventID e) \<noteq> None then Err ErrConstraint
      else Ok (db\<lparr>db_recon := db_recon db @ [e]\<rparr>))"

definition InsertProtectiveObligation :: "obligation_row \<Rightarrow> store_db \<Rightarrow> (store_error, store_db) outcome" where
  "InsertProtectiveObligation b db =
     (if row_get po_ObligationID (db_obligations db) (po_ObligationID b) \<noteq> None
         \<or> get_order_row db (po_EntryOrderID b) = None \<or> po_Kind b \<notin> {''sl'', ''tp''}
      then Err ErrConstraint
      else Ok (db\<lparr>db_obligations := db_obligations db @ [b]\<rparr>))"

definition InsertPendingFillFee :: "fee_row \<Rightarrow> store_db \<Rightarrow> (store_error, store_db) outcome" where
  "InsertPendingFillFee f db =
     (if row_get pf_FillID (db_fees db) (pf_FillID f) \<noteq> None \<or> row_get fr_FillID (db_fills db) (pf_FillID f) = None
      then Err ErrConstraint
      else Ok (db\<lparr>db_fees := db_fees db @ [f]\<rparr>))"

definition InsertVenueEpoch :: "epoch_row \<Rightarrow> store_db \<Rightarrow> (store_error, store_db) outcome" where
  "InsertVenueEpoch e db =
     (if list_ex (\<lambda>x. ve_VenueEpoch x = ve_VenueEpoch e) (db_epochs db)
         \<or> ve_Reason e \<notin> {''initial'', ''venue_reset_accepted''}
      then Err ErrConstraint
      else Ok (db\<lparr>db_epochs := db_epochs db @ [e]\<rparr>))"

section \<open>One-shot columns\<close>

text \<open>\<open>RecordIntentClaim\<close>: the flag says whether this call took the claim.\<close>

definition claimable :: "intent_row \<Rightarrow> bool" where
  "claimable i \<longleftrightarrow> oi_ClaimedAt i = None \<and> oi_ClaimRevokedAt i = None"

definition RecordIntentClaim :: "string \<Rightarrow> string \<Rightarrow> store_db \<Rightarrow> (store_error, store_db \<times> bool) outcome" where
  "RecordIntentClaim c ts db =
     (case get_intent db c of
        None \<Rightarrow> Err ErrNotFound
      | Some i \<Rightarrow>
          if claimable i
          then Ok (db\<lparr>db_intents := map (\<lambda>j. if oi_ClientOrderID j = c \<and> claimable j then j\<lparr>oi_ClaimedAt := Some ts\<rparr> else j)
                                     (db_intents db)\<rparr>, True)
          else Ok (db, False))"

text \<open>\<open>resolveOnce\<close> on a table with its key, the guard and the assignment of the statement.\<close>

definition resolveOnce ::
  "('r \<Rightarrow> string) \<Rightarrow> ('r \<Rightarrow> bool) \<Rightarrow> ('r \<Rightarrow> 'r) \<Rightarrow> string \<Rightarrow> 'r list \<Rightarrow> (store_error, 'r list) outcome" where
  "resolveOnce key pending resolve i rows =
     (if row_get key rows i = None then Err ErrNotFound
      else Ok (map (\<lambda>r. if key r = i \<and> pending r then resolve r else r) rows))"

definition RecordIntentClaimRevoked :: "string \<Rightarrow> string \<Rightarrow> store_db \<Rightarrow> (store_error, store_db) outcome" where
  "RecordIntentClaimRevoked c ts db =
     bind_outcome (resolveOnce oi_ClientOrderID (\<lambda>i. oi_ClaimRevokedAt i = None) (\<lambda>i. i\<lparr>oi_ClaimRevokedAt := Some ts\<rparr>) c
         (db_intents db)) (\<lambda>rows. Ok (db\<lparr>db_intents := rows\<rparr>))"

definition RecordProtectiveSatisfied :: "string \<Rightarrow> string \<Rightarrow> store_db \<Rightarrow> (store_error, store_db) outcome" where
  "RecordProtectiveSatisfied b ts db =
     bind_outcome (resolveOnce po_ObligationID (\<lambda>r. po_SatisfiedAt r = None) (\<lambda>r. r\<lparr>po_SatisfiedAt := Some ts\<rparr>) b
         (db_obligations db)) (\<lambda>rows. Ok (db\<lparr>db_obligations := rows\<rparr>))"

definition RecordFeeConverted :: "string \<Rightarrow> string \<Rightarrow> store_db \<Rightarrow> (store_error, store_db) outcome" where
  "RecordFeeConverted f ts db =
     bind_outcome (resolveOnce pf_FillID (\<lambda>r. pf_ConvertedAt r = None) (\<lambda>r. r\<lparr>pf_ConvertedAt := Some ts\<rparr>) f
         (db_fees db)) (\<lambda>rows. Ok (db\<lparr>db_fees := rows\<rparr>))"

definition RecordExchangeAck :: "string \<Rightarrow> string \<Rightarrow> store_db \<Rightarrow> (store_error, store_db) outcome" where
  "RecordExchangeAck i e = update_order i (\<lambda>r. r\<lparr>or_ExchangeOrderID := Some e\<rparr>)"

section \<open>The order status ladder\<close>

definition statusRank :: "string \<Rightarrow> nat option" where
  "statusRank = map_of [(''pending_new'', 0), (''open'', 1), (''partially_filled'', 2), (''filled'', 3),
     (''canceled'', 3), (''rejected'', 3), (''expired'', 3)]"

text \<open>Go reads a missing key of the map as rank 0.\<close>

definition rank_of :: "string \<Rightarrow> nat" where
  "rank_of st = (case statusRank st of None \<Rightarrow> 0 | Some n \<Rightarrow> n)"

text \<open>The tables, and the status now on the row.\<close>

definition RecordOrderStatus :: "string \<Rightarrow> string \<Rightarrow> store_db \<Rightarrow> (store_error, store_db \<times> string) outcome" where
  "RecordOrderStatus i status db =
     (case statusRank status of
        None \<Rightarrow> Err ErrUnknownStatus
      | Some newRank \<Rightarrow>
          (case get_order_row db i of
             None \<Rightarrow> Err ErrNotFound
           | Some r \<Rightarrow>
               if newRank \<le> rank_of (or_Status r) then Ok (db, or_Status r)
               else bind_outcome (update_order i (\<lambda>r. r\<lparr>or_Status := status\<rparr>) db) (\<lambda>d. Ok (d, status))))"

section \<open>Venue fills\<close>

text \<open>A fill is known by epoch, venue symbol and trade id.\<close>

type_synonym trade_key = "int \<times> string option \<times> int"

definition trade_key :: "fill_row \<Rightarrow> trade_key option" where
  "trade_key f = map_option (\<lambda>t. (fr_VenueEpoch f, fr_VenueSymbol f, t)) (fr_ExchangeTradeID f)"

definition booked_key :: "store_db \<Rightarrow> trade_key \<Rightarrow> bool" where
  "booked_key db k \<longleftrightarrow> list_ex (\<lambda>f. trade_key f = Some k) (db_fills db)"

definition fills_of :: "store_db \<Rightarrow> string \<Rightarrow> fill_row list" where
  "fills_of db i = filter (\<lambda>f. fr_OrderID f = i) (db_fills db)"

text \<open>\<open>fillVWAP\<close>: the sums of quantity and notional, then the rounded quotient.\<close>

definition fillVWAP :: "'d::linordered_field dlib \<Rightarrow> store_db \<Rightarrow> string \<Rightarrow> (store_error, string) outcome" where
  "fillVWAP L db i =
     bind_outcome (fold_ok (\<lambda>(q, n) f.
         bind_outcome (parse_dec L (fr_QtyBase f)) (\<lambda>qd.
         bind_outcome (parse_dec L (fr_FillPrice f)) (\<lambda>pd. Ok (q + qd, n + qd * pd)))) (fills_of db i) (0, 0))
       (\<lambda>(sumQty, sumNotional).
          if sumQty \<le> 0 then Err ErrColumn
          else bind_outcome (ddiv L sumNotional sumQty) (\<lambda>v. Ok (dString L (dRound L v 8))))"

text \<open>\<open>RecordVenueFill\<close>, with the caller's accounting as a statement of the same transaction. The flag
  says whether the fill was new.\<close>

definition RecordVenueFill ::
  "'d::linordered_field dlib \<Rightarrow> fill_row \<Rightarrow> string \<Rightarrow> (store_db \<Rightarrow> (store_error, store_db) outcome) \<Rightarrow> store_db \<Rightarrow>
     (store_error, store_db \<times> bool) outcome" where
  "RecordVenueFill L f status book db =
     (if statusRank status = None then Err ErrUnknownStatus
      else if (case trade_key f of None \<Rightarrow> False | Some k \<Rightarrow> booked_key db k) then Ok (db, False)
      else if row_get fr_FillID (db_fills db) (fr_FillID f) \<noteq> None \<or> get_order_row db (fr_OrderID f) = None
      then Err ErrConstraint
      else let d1 = db\<lparr>db_fills := db_fills db @ [f]\<rparr>
           in bind_outcome (fillVWAP L d1 (fr_OrderID f)) (\<lambda>vwap.
              bind_outcome (update_order (fr_OrderID f)
                  (\<lambda>r. r\<lparr>or_FillPrice := Some vwap, or_FilledAt := Some (fr_FillTS f)\<rparr>) d1) (\<lambda>d2.
              bind_outcome (RecordOrderStatus (fr_OrderID f) status d2) (\<lambda>(d3, _).
              bind_outcome (book d3) (\<lambda>d4. Ok (d4, True))))))"

section \<open>Reads\<close>

definition ListPendingNewIntents :: "store_db \<Rightarrow> intent_row list" where
  "ListPendingNewIntents db = sort_key oi_JournaledAt (sort_key oi_ClientOrderID
     (filter (\<lambda>i. list_ex (\<lambda>r. or_Status r = ''pending_new'' \<and> or_ClientOrderID r = Some (oi_ClientOrderID i)) (db_orders db))
       (db_intents db)))"

definition ListOpenProtectiveObligations :: "store_db \<Rightarrow> obligation_row list" where
  "ListOpenProtectiveObligations db = sort_key po_DueAt (sort_key po_ObligationID
     (filter (\<lambda>b. po_SatisfiedAt b = None) (db_obligations db)))"

definition ListUnconvertedPendingFillFees :: "store_db \<Rightarrow> fee_row list" where
  "ListUnconvertedPendingFillFees db = sort_key pf_RecordedAt (sort_key pf_FillID
     (filter (\<lambda>f. pf_ConvertedAt f = None) (db_fees db)))"

text \<open>The row with the highest epoch.\<close>

definition CurrentVenueEpoch :: "store_db \<Rightarrow> epoch_row option" where
  "CurrentVenueEpoch db = (case rev (sort_key ve_VenueEpoch (db_epochs db)) of [] \<Rightarrow> None | e # _ \<Rightarrow> Some e)"

definition FillWatermark :: "store_db \<Rightarrow> int \<Rightarrow> string \<Rightarrow> int option" where
  "FillWatermark db e sy =
     (case List.map_filter (\<lambda>f. if fr_VenueEpoch f = e \<and> fr_VenueSymbol f = Some sy then fr_ExchangeTradeID f else None)
             (db_fills db) of [] \<Rightarrow> None | t # ts \<Rightarrow> Some (foldl max t ts))"

definition GetLiveOrderByClientOrderID :: "store_db \<Rightarrow> string \<Rightarrow> (store_error, order_row) outcome" where
  "GetLiveOrderByClientOrderID db c =
     (case find (\<lambda>r. or_ClientOrderID r = Some c) (db_orders db) of None \<Rightarrow> Err ErrNotFound | Some r \<Rightarrow> Ok r)"

definition GetLiveOrderByExchangeOrderID :: "store_db \<Rightarrow> string \<Rightarrow> string \<Rightarrow> (store_error, order_row) outcome" where
  "GetLiveOrderByExchangeOrderID db sy e =
     (case find (\<lambda>r. or_Symbol r = sy \<and> or_ExchangeOrderID r = Some e) (db_orders db) of
        None \<Rightarrow> Err ErrNotFound | Some r \<Rightarrow> Ok r)"

definition ListFilledProtectiveEntries :: "store_db \<Rightarrow> order_row list" where
  "ListFilledProtectiveEntries db = sort_key or_SubmittedAt (sort_key or_OrderID
     (filter (\<lambda>r. or_Class r = ''ENTRY'' \<and> or_ClientOrderID r \<noteq> None
         \<and> (or_StopPrice r \<noteq> None \<or> or_TakeProfit r \<noteq> None)
         \<and> list_ex (\<lambda>f. fr_OrderID f = or_OrderID r) (db_fills db)) (db_orders db)))"

definition GetLiveOrderForFill :: "store_db \<Rightarrow> string \<Rightarrow> (store_error, order_row) outcome" where
  "GetLiveOrderForFill db f =
     (case row_get fr_FillID (db_fills db) f of
        None \<Rightarrow> Err ErrNotFound
      | Some w \<Rightarrow> (case get_order_row db (fr_OrderID w) of None \<Rightarrow> Err ErrNotFound | Some r \<Rightarrow> Ok r))"

definition ListFillsByOrder :: "store_db \<Rightarrow> string \<Rightarrow> fill_row list" where
  "ListFillsByOrder db i = fills_of db i"

text \<open>\<open>ListOMSReconEvents\<close>: an empty field of the filter does not constrain.\<close>

record recon_filter =
  rf_RunID :: string
  rf_Kind :: string
  rf_StrategyID :: string
  rf_Limit :: int

definition ListOMSReconEvents :: "store_db \<Rightarrow> recon_filter \<Rightarrow> recon_row list" where
  "ListOMSReconEvents db f =
     (let rows = filter (\<lambda>e. (rf_RunID f = [] \<or> re_RunID e = Some (rf_RunID f))
                 \<and> (rf_Kind f = [] \<or> re_Kind e = rf_Kind f)
                 \<and> (rf_StrategyID f = [] \<or> re_StrategyID e = Some (rf_StrategyID f))) (db_recon db)
      in if rf_Limit f > 0 then take (nat (rf_Limit f)) rows else rows)"


section \<open>The journal as a machine\<close>

text \<open>What the accounting of a fill may write in its transaction.\<close>

datatype book_stmt =
    SPosition position_row
  | SState state_row
  | SObligation obligation_row
  | SFee fee_row

definition book_stmt :: "store_db \<Rightarrow> book_stmt \<Rightarrow> (store_error, store_db) outcome" where
  "book_stmt db st = (case st of
      SPosition r \<Rightarrow> Ok (UpsertPosition r db)
    | SState r \<Rightarrow> UpsertStrategyState r db
    | SObligation r \<Rightarrow> InsertProtectiveObligation r db
    | SFee r \<Rightarrow> InsertPendingFillFee r db)"

text \<open>The calls on the live tables, and a step of the rest of the control plane, which leaves them alone.\<close>

datatype live_op =
    LJournal order_row intent_row
  | LAttempt intent_row
  | LRecon recon_row
  | LObligation obligation_row
  | LFee fee_row
  | LEpoch epoch_row
  | LClaim string string
  | LRevoke string string
  | LAck string string
  | LStatus string string
  | LSatisfied string string
  | LConverted string string
  | LVenueFill fill_row string "book_stmt list"
  | LOther store_db

definition live_tables :: "store_db \<Rightarrow> store_db \<Rightarrow> store_db" where
  "live_tables d db = d\<lparr>db_orders := db_orders db, db_fills := db_fills db, db_intents := db_intents db,
     db_obligations := db_obligations db, db_fees := db_fees db, db_epochs := db_epochs db, db_recon := db_recon db\<rparr>"

definition live_op :: "'d::linordered_field dlib \<Rightarrow> live_op \<Rightarrow> store_db \<Rightarrow> (store_error, store_db) outcome" where
  "live_op L op db = (case op of
      LJournal r i \<Rightarrow> InsertJournaledOrder r i db
    | LAttempt i \<Rightarrow> RecordIntentAttempt i db
    | LRecon e \<Rightarrow> AppendOMSReconEvent e db
    | LObligation b \<Rightarrow> InsertProtectiveObligation b db
    | LFee f \<Rightarrow> InsertPendingFillFee f db
    | LEpoch e \<Rightarrow> InsertVenueEpoch e db
    | LClaim c ts \<Rightarrow> bind_outcome (RecordIntentClaim c ts db) (\<lambda>(d, _). Ok d)
    | LRevoke c ts \<Rightarrow> RecordIntentClaimRevoked c ts db
    | LAck i e \<Rightarrow> RecordExchangeAck i e db
    | LStatus i st \<Rightarrow> bind_outcome (RecordOrderStatus i st db) (\<lambda>(d, _). Ok d)
    | LSatisfied b ts \<Rightarrow> RecordProtectiveSatisfied b ts db
    | LConverted f ts \<Rightarrow> RecordFeeConverted f ts db
    | LVenueFill f st bs \<Rightarrow>
        bind_outcome (RecordVenueFill L f st (fold_ok book_stmt bs) db) (\<lambda>(d, _). Ok d)
    | LOther d \<Rightarrow> Ok (live_tables d db))"

definition live_step :: "'d::linordered_field dlib \<Rightarrow> store_db \<Rightarrow> live_op \<Rightarrow> store_db option" where
  "live_step L db op = (case live_op L op db of Ok d \<Rightarrow> Some d | _ \<Rightarrow> None)"

lemma live_step_iff: "live_step L db op = Some d \<longleftrightarrow> live_op L op db = Ok d"
  by (simp add: live_step_def split: outcome.split)

section \<open>What a statement changes\<close>

text \<open>An order row keeps everything but its acknowledgement, fill and status columns.\<close>

definition identity :: "order_row \<Rightarrow> order_row" where
  "identity r = r\<lparr>or_FillPrice := None, or_FilledAt := None, or_Status := [], or_ClientOrderID := None, or_ExchangeOrderID := None\<rparr>"

text \<open>One order from one table to the next: it stays, keeps its identity, and its status only climbs.\<close>

definition climbs :: "store_db \<Rightarrow> store_db \<Rightarrow> bool" where
  "climbs db d \<longleftrightarrow> (\<forall>i r. get_order_row db i = Some r \<longrightarrow> (\<exists>r'. get_order_row d i = Some r' \<and> identity r' = identity r
     \<and> (or_Status r' = or_Status r \<or> rank_of (or_Status r) < rank_of (or_Status r'))))"

text \<open>How the journal moves: attempts stay with their parameters, and a claim column once set keeps its value.\<close>

definition attempt_of :: "intent_row \<Rightarrow> intent_row" where
  "attempt_of i = i\<lparr>oi_ClaimedAt := None, oi_ClaimRevokedAt := None\<rparr>"

definition grows :: "intent_row \<Rightarrow> intent_row \<Rightarrow> bool" where
  "grows i j \<longleftrightarrow> attempt_of j = attempt_of i
     \<and> (oi_ClaimedAt i = None \<or> oi_ClaimedAt j = oi_ClaimedAt i)
     \<and> (oi_ClaimRevokedAt i = None \<or> oi_ClaimRevokedAt j = oi_ClaimRevokedAt i)"

definition evolves :: "store_db \<Rightarrow> store_db \<Rightarrow> bool" where
  "evolves db d \<longleftrightarrow> climbs db d
     \<and> (\<forall>c i. get_intent db c = Some i \<longrightarrow> (\<exists>j. get_intent d c = Some j \<and> grows i j))
     \<and> (\<exists>fs. db_fills d = db_fills db @ fs)"

lemma climbsD:
  "climbs db d \<Longrightarrow> get_order_row db i = Some r \<Longrightarrow> \<exists>r'. get_order_row d i = Some r' \<and> identity r' = identity r
     \<and> (or_Status r' = or_Status r \<or> rank_of (or_Status r) < rank_of (or_Status r'))"
  unfolding climbs_def by blast

lemma evolves_intent: "evolves db d \<Longrightarrow> get_intent db c = Some i \<Longrightarrow> \<exists>j. get_intent d c = Some j \<and> grows i j"
  unfolding evolves_def by blast

lemma intent_grows_refl: "grows i i"
  by (simp add: grows_def)

lemma intent_grows_trans: "grows i j \<Longrightarrow> grows j k \<Longrightarrow> grows i k"
  unfolding grows_def by metis

lemma climbs_refl: "db_orders d = db_orders db \<Longrightarrow> climbs db d"
  by (simp add: climbs_def get_order_row_def)

lemma climbs_trans: "climbs a b \<Longrightarrow> climbs b c \<Longrightarrow> climbs a c"
proof -
  assume ab: "climbs a b" and bc: "climbs b c"
  show ?thesis
    unfolding climbs_def
  proof (intro allI impI)
    fix i r
    assume "get_order_row a i = Some r"
    then obtain q where q: "get_order_row b i = Some q" "identity q = identity r"
      "or_Status q = or_Status r \<or> rank_of (or_Status r) < rank_of (or_Status q)" using climbsD [OF ab] by blast
    then obtain p where "get_order_row c i = Some p" "identity p = identity q"
      "or_Status p = or_Status q \<or> rank_of (or_Status q) < rank_of (or_Status p)" using climbsD [OF bc] by blast
    with q show "\<exists>r'. get_order_row c i = Some r' \<and> identity r' = identity r
       \<and> (or_Status r' = or_Status r \<or> rank_of (or_Status r) < rank_of (or_Status r'))"
      by (intro exI [of _ p]) auto
  qed
qed

lemma evolves_trans:
  assumes ab: "evolves a b" and bc: "evolves b c" shows "evolves a c"
proof -
  have "\<exists>j. get_intent c x = Some j \<and> grows i j" if i: "get_intent a x = Some i" for x i
  proof -
    obtain j where "get_intent b x = Some j" "grows i j" using evolves_intent [OF ab i] by blast
    moreover obtain k where "get_intent c x = Some k" "grows j k" using evolves_intent [OF bc \<open>get_intent b x = Some j\<close>] by blast
    ultimately show ?thesis using intent_grows_trans by blast
  qed
  moreover obtain fs gs where "db_fills b = db_fills a @ fs" "db_fills c = db_fills b @ gs" using ab bc by (auto simp: evolves_def)
  ultimately show ?thesis using climbs_trans [of a b c] ab bc by (simp add: evolves_def)
qed

lemma evolves_orders:
  "climbs db d \<Longrightarrow> db_intents d = db_intents db \<Longrightarrow> db_fills d = db_fills db \<Longrightarrow> evolves db d"
  by (simp add: evolves_def get_intent_def intent_grows_refl)

lemma evolves_frame:
  "db_orders d = db_orders db \<Longrightarrow> db_intents d = db_intents db \<Longrightarrow> db_fills d = db_fills db \<Longrightarrow> evolves db d"
  by (simp add: evolves_orders climbs_refl)

lemma evolves_fill: "evolves db (db\<lparr>db_fills := db_fills db @ [f]\<rparr>)"
  by (simp add: evolves_def climbs_refl get_intent_def intent_grows_refl)

lemma evolves_journal: "evolves db (db\<lparr>db_intents := db_intents db @ [i]\<rparr>)"
  by (auto simp: evolves_def climbs_refl get_intent_def row_get_append intent_grows_refl)

lemma evolves_map:
  assumes "\<And>i. oi_ClientOrderID (f i) = oi_ClientOrderID i" and "\<And>i. grows i (f i)"
  shows "evolves db (db\<lparr>db_intents := map f (db_intents db)\<rparr>)"
  using assms(2) by (auto simp: evolves_def climbs_refl get_intent_def row_get_map [of oi_ClientOrderID f, OF assms(1)])

text \<open>Each statement.\<close>

lemma update_order_row:
  "update_order i f db = Ok d \<Longrightarrow> (\<And>w. or_OrderID (f w) = or_OrderID w) \<Longrightarrow>
     (\<exists>r. get_order_row db i = Some r) \<and>
     (\<forall>j. get_order_row d j = (if j = i then map_option f (get_order_row db i) else get_order_row db j))"
proof -
  assume u: "update_order i f db = Ok d" and f: "\<And>w. or_OrderID (f w) = or_OrderID w"
  have "row_get or_OrderID (map (\<lambda>r. if or_OrderID r = i then f r else r) rs) j
      = (if j = i then map_option f (row_get or_OrderID rs i) else row_get or_OrderID rs j)" for rs j
    by (induction rs) (auto simp: f)
  with u show ?thesis by (auto simp: update_order_def get_order_row_def split: if_splits)
qed

lemma update_order_evolves:
  assumes "update_order i f db = Ok d" and "\<And>w. or_OrderID (f w) = or_OrderID w"
    and "\<And>r. get_order_row db i = Some r \<Longrightarrow> identity (f r) = identity r
      \<and> (or_Status (f r) = or_Status r \<or> rank_of (or_Status r) < rank_of (or_Status (f r)))"
  shows "evolves db d"
proof (rule evolves_orders)
  show "climbs db d" using update_order_row [OF assms(1,2)] assms(3) by (auto simp: climbs_def)
  show "db_intents d = db_intents db" "db_fills d = db_fills db"
    using assms(1) by (auto simp: update_order_def split: if_splits)
qed

lemma statusRank_rank: "statusRank st = Some n \<Longrightarrow> rank_of st = n"
  by (simp add: rank_of_def)

lemma RecordOrderStatus_evolves: "RecordOrderStatus i st db = Ok (d, now) \<Longrightarrow> evolves db d"
proof -
  assume r: "RecordOrderStatus i st db = Ok (d, now)"
  then obtain n r0 where n: "statusRank st = Some n" and r0: "get_order_row db i = Some r0"
    by (auto simp: RecordOrderStatus_def split: option.splits)
  show ?thesis
  proof (cases "n \<le> rank_of (or_Status r0)")
    case True
    with r n r0 show ?thesis by (simp add: RecordOrderStatus_def evolves_frame)
  next
    case False
    with r n r0 have "update_order i (\<lambda>r. r\<lparr>or_Status := st\<rparr>) db = Ok d"
      by (auto simp: RecordOrderStatus_def bind_outcome_eq_Ok)
    then show ?thesis
      by (rule update_order_evolves) (use False n r0 in \<open>auto simp: identity_def statusRank_rank\<close>)
  qed
qed

lemma InsertOrder_evolves: "InsertOrder r db = Ok d \<Longrightarrow> evolves db d"
  by (rule evolves_orders) (auto simp: InsertOrder_def climbs_def get_order_row_def row_get_append split: if_splits)

lemma set_client_evolves: "set_client_order_id c i db = Ok d \<Longrightarrow> evolves db d"
proof -
  assume "set_client_order_id c i db = Ok d"
  then have u: "update_order i (\<lambda>r. r\<lparr>or_ClientOrderID := Some c\<rparr>) db = Ok d"
    by (simp add: set_client_order_id_def split: if_splits)
  show ?thesis by (rule update_order_evolves [OF u]) (simp_all add: identity_def)
qed

lemma InsertOrderIntent_Ok: "InsertOrderIntent i db = Ok d \<Longrightarrow> d = db\<lparr>db_intents := db_intents db @ [i]\<rparr>"
  by (simp add: InsertOrderIntent_def split: if_splits)

lemma InsertOrderIntent_evolves: "InsertOrderIntent i db = Ok d \<Longrightarrow> evolves db d"
  using InsertOrderIntent_Ok evolves_journal by blast

lemma claim_grows: "grows i (if P i \<and> claimable i then i\<lparr>oi_ClaimedAt := Some ts\<rparr> else i)"
  by (simp add: grows_def attempt_of_def claimable_def)

lemma revoke_grows: "grows i (if P i \<and> oi_ClaimRevokedAt i = None then i\<lparr>oi_ClaimRevokedAt := Some ts\<rparr> else i)"
  by (simp add: grows_def attempt_of_def)

lemma RecordIntentClaim_evolves: "RecordIntentClaim c ts db = Ok (d, t) \<Longrightarrow> evolves db d"
proof -
  assume r: "RecordIntentClaim c ts db = Ok (d, t)"
  then have "d = db \<or> d = db\<lparr>db_intents := map (\<lambda>j. if oi_ClientOrderID j = c \<and> claimable j then j\<lparr>oi_ClaimedAt := Some ts\<rparr> else j)
      (db_intents db)\<rparr>"
    by (simp add: RecordIntentClaim_def split: option.splits if_splits)
  then show ?thesis
  proof
    assume "d = db" then show ?thesis by (simp add: evolves_frame)
  next
    assume d: "d = db\<lparr>db_intents := map (\<lambda>j. if oi_ClientOrderID j = c \<and> claimable j then j\<lparr>oi_ClaimedAt := Some ts\<rparr> else j)
      (db_intents db)\<rparr>"
    show ?thesis unfolding d by (rule evolves_map) (simp, rule claim_grows)
  qed
qed

lemma RecordIntentClaimRevoked_evolves: "RecordIntentClaimRevoked c ts db = Ok d \<Longrightarrow> evolves db d"
proof -
  assume "RecordIntentClaimRevoked c ts db = Ok d"
  then have d: "d = db\<lparr>db_intents := map (\<lambda>j. if oi_ClientOrderID j = c \<and> oi_ClaimRevokedAt j = None
      then j\<lparr>oi_ClaimRevokedAt := Some ts\<rparr> else j) (db_intents db)\<rparr>"
    by (simp add: RecordIntentClaimRevoked_def resolveOnce_def split: if_splits)
  show ?thesis unfolding d by (rule evolves_map) (simp, rule revoke_grows)
qed

lemma book_stmt_frame:
  "book_stmt db b = Ok d \<Longrightarrow> db_orders d = db_orders db \<and> db_fills d = db_fills db \<and> db_intents d = db_intents db"
  by (cases b) (auto simp: book_stmt_def UpsertPosition_def UpsertStrategyState_def InsertProtectiveObligation_def
      InsertPendingFillFee_def split: if_splits)

lemma book_stmts_frame:
  "fold_ok book_stmt bs db = Ok d \<Longrightarrow> db_orders d = db_orders db \<and> db_fills d = db_fills db \<and> db_intents d = db_intents db"
  by (rule fold_ok_inv [where P = "\<lambda>x. db_orders x = db_orders db \<and> db_fills x = db_fills db \<and> db_intents x = db_intents db"])
    (auto dest: book_stmt_frame)

lemma RecordVenueFill_new:
  assumes "RecordVenueFill L f st book db = Ok (d, True)"
  shows "\<exists>v d2 d3 now. statusRank st \<noteq> None \<and> (\<forall>k. trade_key f = Some k \<longrightarrow> \<not> booked_key db k)
     \<and> row_get fr_FillID (db_fills db) (fr_FillID f) = None \<and> get_order_row db (fr_OrderID f) \<noteq> None
     \<and> fillVWAP L (db\<lparr>db_fills := db_fills db @ [f]\<rparr>) (fr_OrderID f) = Ok v
     \<and> update_order (fr_OrderID f) (\<lambda>r. r\<lparr>or_FillPrice := Some v, or_FilledAt := Some (fr_FillTS f)\<rparr>)
         (db\<lparr>db_fills := db_fills db @ [f]\<rparr>) = Ok d2
     \<and> RecordOrderStatus (fr_OrderID f) st d2 = Ok (d3, now) \<and> book d3 = Ok d"
  using assms unfolding RecordVenueFill_def Let_def
  by (simp split: if_splits) (auto simp: bind_outcome_eq_Ok split: option.splits)

lemma RecordVenueFill_replay: "RecordVenueFill L f st book db = Ok (d, False) \<Longrightarrow> d = db"
  unfolding RecordVenueFill_def Let_def by (auto simp: bind_outcome_eq_Ok split: if_splits)

lemma RecordVenueFill_fills:
  assumes "RecordVenueFill L f st (fold_ok book_stmt bs) db = Ok (d, True)"
  shows "evolves db d \<and> db_fills d = db_fills db @ [f]"
proof -
  let ?d1 = "db\<lparr>db_fills := db_fills db @ [f]\<rparr>"
  obtain v d2 d3 now where u: "update_order (fr_OrderID f) (\<lambda>r. r\<lparr>or_FillPrice := Some v, or_FilledAt := Some (fr_FillTS f)\<rparr>) ?d1 = Ok d2"
    and s: "RecordOrderStatus (fr_OrderID f) st d2 = Ok (d3, now)" and b: "fold_ok book_stmt bs d3 = Ok d"
    using RecordVenueFill_new [OF assms] by blast
  have "evolves ?d1 d2" by (rule update_order_evolves [OF u]) (simp_all add: identity_def)
  moreover have "evolves d2 d3" by (rule RecordOrderStatus_evolves [OF s])
  moreover have "evolves d3 d" using book_stmts_frame [OF b] by (simp add: evolves_frame)
  ultimately have "evolves db d" using evolves_fill [of db f] evolves_trans by blast
  moreover have "db_fills d2 = db_fills ?d1" using u by (auto simp: update_order_def split: if_splits)
  moreover have "db_fills d3 = db_fills d2"
    using s by (auto simp: RecordOrderStatus_def update_order_def bind_outcome_eq_Ok split: option.splits if_splits)
  ultimately show ?thesis using book_stmts_frame [OF b] by simp
qed

lemma RecordVenueFill_evolves:
  "RecordVenueFill L f st (fold_ok book_stmt bs) db = Ok (d, new) \<Longrightarrow> evolves db d"
  using RecordVenueFill_fills [of L f st bs db d] RecordVenueFill_replay [of L f st "fold_ok book_stmt bs" db d]
  by (cases new) (auto simp: evolves_frame)

lemma live_op_evolves:
  assumes "live_op L op db = Ok d" shows "evolves db d"
proof (cases op)
  case (LJournal r i)
  then obtain d1 d2 where "InsertOrder r db = Ok d1" "set_client_order_id (oi_ClientOrderID i) (or_OrderID r) d1 = Ok d2"
    "InsertOrderIntent i d2 = Ok d"
    using assms by (simp add: live_op_def InsertJournaledOrder_def bind_outcome_eq_Ok) blast
  then show ?thesis using InsertOrder_evolves set_client_evolves InsertOrderIntent_evolves evolves_trans by metis
next
  case (LAttempt i)
  then obtain d2 where "set_client_order_id (oi_ClientOrderID i) (oi_OrderID i) db = Ok d2" "InsertOrderIntent i d2 = Ok d"
    using assms by (simp add: live_op_def RecordIntentAttempt_def bind_outcome_eq_Ok split: if_splits) blast
  then show ?thesis using set_client_evolves InsertOrderIntent_evolves evolves_trans by metis
next
  case (LAck i e)
  then have u: "update_order i (\<lambda>r. r\<lparr>or_ExchangeOrderID := Some e\<rparr>) db = Ok d" using assms by (simp add: live_op_def RecordExchangeAck_def)
  show ?thesis by (rule update_order_evolves [OF u]) (simp_all add: identity_def)
next
  case (LStatus i st)
  then obtain now where "RecordOrderStatus i st db = Ok (d, now)" using assms by (auto simp: live_op_def bind_outcome_eq_Ok)
  then show ?thesis by (rule RecordOrderStatus_evolves)
next
  case (LVenueFill f st bs)
  then obtain n where "RecordVenueFill L f st (fold_ok book_stmt bs) db = Ok (d, n)"
    using assms by (auto simp: live_op_def bind_outcome_eq_Ok)
  then show ?thesis by (rule RecordVenueFill_evolves)
next
  case (LClaim c ts)
  then obtain t where "RecordIntentClaim c ts db = Ok (d, t)" using assms by (auto simp: live_op_def bind_outcome_eq_Ok)
  then show ?thesis by (rule RecordIntentClaim_evolves)
next
  case (LRevoke c ts)
  then show ?thesis using assms by (simp add: live_op_def RecordIntentClaimRevoked_evolves)
qed (use assms in \<open>auto simp: live_op_def AppendOMSReconEvent_def InsertProtectiveObligation_def InsertPendingFillFee_def
    InsertVenueEpoch_def RecordProtectiveSatisfied_def RecordFeeConverted_def live_tables_def bind_outcome_eq_Ok
    intro!: evolves_frame split: if_splits\<close>)

interpretation journal: machine "live_step L" "evolves db0"
  for L :: "'d::linordered_field dlib" and db0
  by unfold_locales (auto simp: live_step_iff intro: evolves_trans live_op_evolves)

lemma run_evolves: "run (live_step L) db ops = Some d \<Longrightarrow> evolves db d"
  by (rule journal.run_inv [of db db]) (simp_all add: evolves_frame)


lemma rank_le_3: "rank_of st \<le> 3"
  by (auto simp: rank_of_def statusRank_def split: option.split if_splits)

text \<open>C28: an order's status only climbs: through any run of the live store's operations, in any order
  and with any arguments, an order row stays, keeps its identity (strategy, symbol, side, size, prices,
  epoch, origin), its status rank never falls, a status of the same rank never replaces another, and a
  terminal status never changes.\<close>

theorem order_status_ladder:
  assumes "run (live_step L) db ops = Some d" and "get_order_row db i = Some r"
  shows "\<exists>r'. get_order_row d i = Some r' \<and> identity r' = identity r
     \<and> rank_of (or_Status r) \<le> rank_of (or_Status r')
     \<and> (rank_of (or_Status r) = rank_of (or_Status r') \<or> rank_of (or_Status r) = 3 \<longrightarrow> or_Status r' = or_Status r)"
proof -
  have "climbs db d" using run_evolves [OF assms(1)] by (simp add: evolves_def)
  with assms(2) obtain r' where r': "get_order_row d i = Some r'" "identity r' = identity r"
    "or_Status r' = or_Status r \<or> rank_of (or_Status r) < rank_of (or_Status r')" by (auto simp: climbs_def)
  then show ?thesis using rank_le_3 [of "or_Status r'"] by (intro exI [of _ r']) auto
qed

section \<open>Claims and trades happen once\<close>

text \<open>Whether a call takes the claim of an attempt; whether it books a trade.\<close>

definition takes_claim :: "string \<Rightarrow> store_db \<Rightarrow> live_op \<Rightarrow> bool" where
  "takes_claim c db op = (case op of
      LClaim c' ts \<Rightarrow> c' = c \<and> (case RecordIntentClaim c ts db of Ok (_, t) \<Rightarrow> t | _ \<Rightarrow> False)
    | _ \<Rightarrow> False)"

definition books_trade :: "'d::linordered_field dlib \<Rightarrow> trade_key \<Rightarrow> store_db \<Rightarrow> live_op \<Rightarrow> bool" where
  "books_trade L k db op = (case op of
      LVenueFill f st bs \<Rightarrow> trade_key f = Some k
        \<and> (case RecordVenueFill L f st (fold_ok book_stmt bs) db of Ok (_, new) \<Rightarrow> new | _ \<Rightarrow> False)
    | _ \<Rightarrow> False)"

text \<open>The claim of an attempt is gone: taken or revoked.\<close>

definition claim_spent :: "string \<Rightarrow> store_db \<Rightarrow> bool" where
  "claim_spent c db \<longleftrightarrow> (case get_intent db c of None \<Rightarrow> False | Some i \<Rightarrow> \<not> claimable i)"

lemma spent_evolves: "evolves db d \<Longrightarrow> claim_spent c db \<Longrightarrow> claim_spent c d"
  unfolding evolves_def claim_spent_def claimable_def grows_def by (fastforce split: option.splits)


lemma claim_row:
  assumes "RecordIntentClaim c ts db = Ok (d, True)"
  shows "\<exists>i. get_intent db c = Some i \<and> claimable i \<and> get_intent d c = Some (i\<lparr>oi_ClaimedAt := Some ts\<rparr>)"
proof -
  obtain i where i: "get_intent db c = Some i" "claimable i"
    using assms by (auto simp: RecordIntentClaim_def split: option.splits if_splits)
  let ?f = "\<lambda>j. if oi_ClientOrderID j = c \<and> claimable j then j\<lparr>oi_ClaimedAt := Some ts\<rparr> else j"
  have "db_intents d = map ?f (db_intents db)" using assms i by (auto simp: RecordIntentClaim_def)
  moreover have "row_get oi_ClientOrderID (map ?f rs) c = map_option ?f (row_get oi_ClientOrderID rs c)" for rs
    by (rule row_get_map) auto
  moreover have "oi_ClientOrderID i = c" using i(1) row_get_key by (fastforce simp: get_intent_def)
  ultimately show ?thesis using i by (simp add: get_intent_def)
qed

lemma take_marks:
  assumes "takes_claim c db op" and "live_step L db op = Some d" shows "claim_spent c d"
proof -
  obtain ts d' where op: "op = LClaim c ts" and r: "RecordIntentClaim c ts db = Ok (d', True)"
    using assms(1) by (auto simp: takes_claim_def split: live_op.splits outcome.splits prod.splits)
  have "d' = d" using assms(2) op r by (simp add: live_step_iff live_op_def)
  then show ?thesis using claim_row [OF r] by (auto simp: claim_spent_def claimable_def)
qed

interpretation claims: one_shot "live_step L" "claim_spent c" "takes_claim c"
  for L :: "'d::linordered_field dlib" and c
proof unfold_locales
  show "\<not> claim_spent c db" if "takes_claim c db op" for db op
    using that by (auto simp: takes_claim_def claim_spent_def RecordIntentClaim_def split: live_op.splits outcome.splits option.splits if_splits)
  show "claim_spent c d" if "takes_claim c db op" "live_step L db op = Some d" for db op d
    using take_marks that by blast
  show "claim_spent c d" if "claim_spent c db" "live_step L db op = Some d" for db op d
    using spent_evolves [OF live_op_evolves that(1)] that(2) by (simp add: live_step_iff)
qed

lemma booked_evolves: "evolves db d \<Longrightarrow> booked_key db k \<Longrightarrow> booked_key d k"
  by (auto simp: evolves_def booked_key_def)

interpretation trades: one_shot "live_step L" "\<lambda>db. booked_key db k" "books_trade L k"
  for L :: "'d::linordered_field dlib" and k
proof unfold_locales
  show "\<not> booked_key db k" if b: "books_trade L k db op" for db op
  proof -
    obtain f st bs d where f: "trade_key f = Some k" "RecordVenueFill L f st (fold_ok book_stmt bs) db = Ok (d, True)"
      using b by (auto simp: books_trade_def split: live_op.splits outcome.splits prod.splits)
    show ?thesis using RecordVenueFill_new [OF f(2)] f(1) by blast
  qed
  show "booked_key d k" if b: "books_trade L k db op" and s: "live_step L db op = Some d" for db op d
  proof -
    obtain f st bs d' where f: "op = LVenueFill f st bs" "trade_key f = Some k"
        "RecordVenueFill L f st (fold_ok book_stmt bs) db = Ok (d', True)"
      using b by (auto simp: books_trade_def split: live_op.splits outcome.splits prod.splits)
    then have "d' = d" using s by (simp add: live_step_iff live_op_def)
    then show ?thesis using RecordVenueFill_fills [OF f(3)] f(2) by (simp add: booked_key_def)
  qed
  show "booked_key d k" if "booked_key db k" "live_step L db op = Some d" for db op d
    using booked_evolves [OF live_op_evolves that(1)] that(2) by (simp add: live_step_iff)
qed

text \<open>C26: an attempt is claimed once: in any run of the live store's operations at most one call takes
  the claim of a client order id, and none does once the claim was taken or revoked.\<close>

theorem claim_taken_once:
  "fired (live_step L) (takes_claim c) db ops \<le> (if claim_spent c db then 0 else 1)"
  using claims.at_most_once [of L c db ops] claims.marked_never [of c db L ops] by simp

text \<open>C27: a trade is booked once: in any run at most one call books a venue trade (an epoch, symbol and
  trade id), and none does once a fill of it is in the table, with whatever fill id, quantity, status
  and accounting it is reported.\<close>

theorem trade_booked_once:
  "fired (live_step L) (books_trade L k) db ops \<le> (if booked_key db k then 0 else 1)"
  using trades.at_most_once [of L k db ops] trades.marked_never [of db k L ops] by simp

lemma booked_replay:
  "trade_key f = Some k \<Longrightarrow> statusRank st \<noteq> None \<Longrightarrow> booked_key db k \<Longrightarrow> RecordVenueFill L f st book db = Ok (db, False)"
  by (simp add: RecordVenueFill_def)

section \<open>The schema holds\<close>

text \<open>What the keys, foreign keys, checks and indexes of the live tables say, and what no constraint of
  the database says but the code relies on: statuses are words of the ladder, and the attempt id on an
  order is journaled for that order.\<close>

definition order_typed :: "order_row \<Rightarrow> bool" where
  "order_typed r \<longleftrightarrow> statusRank (or_Status r) \<noteq> None \<and> or_Class r \<in> {''ENTRY'', ''PROTECTIVE''}
     \<and> or_Origin r \<in> {''proposal'', ''breaker'', ''kill'', ''watchdog'', ''sl_contingency''}"

definition same_client :: "order_row \<Rightarrow> order_row \<Rightarrow> bool" where
  "same_client r w \<longleftrightarrow> or_ClientOrderID r \<noteq> None \<and> or_ClientOrderID r = or_ClientOrderID w"

lemma same_client_sym: "same_client r w \<Longrightarrow> same_client w r"
  by (metis same_client_def)

definition orders_ok :: "order_row list \<Rightarrow> bool" where
  "orders_ok rs \<longleftrightarrow> distinct (map or_OrderID rs) \<and> list_all order_typed rs
     \<and> (\<forall>r \<in> set rs. \<forall>w \<in> set rs. same_client r w \<longrightarrow> or_OrderID r = or_OrderID w)"

lemma orders_ok_mapI:
  assumes "distinct (map or_OrderID rs)" and id: "\<And>r. or_OrderID (g r) = or_OrderID r" and "list_all order_typed (map g rs)"
    and uniq: "\<And>r w. r \<in> set rs \<Longrightarrow> w \<in> set rs \<Longrightarrow> same_client (g r) (g w) \<Longrightarrow> or_OrderID r = or_OrderID w"
  shows "orders_ok (map g rs)"
proof -
  have "map or_OrderID (map g rs) = map or_OrderID rs" by (simp add: id)
  moreover have "\<forall>r \<in> set (map g rs). \<forall>w \<in> set (map g rs). same_client r w \<longrightarrow> or_OrderID r = or_OrderID w"
    using uniq id by fastforce
  ultimately show ?thesis using assms(1,3) unfolding orders_ok_def by metis
qed

lemma list_ex_key: "list_ex (\<lambda>x. f x = k) xs \<longleftrightarrow> k \<in> f ` set xs"
  by (induction xs) auto

definition intents_ok :: "store_db \<Rightarrow> bool" where
  "intents_ok db \<longleftrightarrow> distinct (map oi_ClientOrderID (db_intents db))
     \<and> distinct (map (\<lambda>i. (oi_IntentToken i, oi_Attempt i)) (db_intents db))
     \<and> (\<forall>i \<in> set (db_intents db). get_order_row db (oi_OrderID i) \<noteq> None)"

definition fills_ok :: "store_db \<Rightarrow> bool" where
  "fills_ok db \<longleftrightarrow> distinct (map fr_FillID (db_fills db)) \<and> distinct (List.map_filter trade_key (db_fills db))
     \<and> (\<forall>f \<in> set (db_fills db). get_order_row db (fr_OrderID f) \<noteq> None)"

definition timers_ok :: "store_db \<Rightarrow> bool" where
  "timers_ok db \<longleftrightarrow> distinct (map po_ObligationID (db_obligations db))
     \<and> (\<forall>b \<in> set (db_obligations db). get_order_row db (po_EntryOrderID b) \<noteq> None \<and> po_Kind b \<in> {''sl'', ''tp''})
     \<and> distinct (map pf_FillID (db_fees db))
     \<and> (\<forall>f \<in> set (db_fees db). row_get fr_FillID (db_fills db) (pf_FillID f) \<noteq> None)"

definition log_ok :: "epoch_row list \<Rightarrow> recon_row list \<Rightarrow> bool" where
  "log_ok ves res \<longleftrightarrow> distinct (map ve_VenueEpoch ves) \<and> distinct (map re_EventID res) \<and> list_all (\<lambda>e. re_Kind e \<in> set recon_kinds) res"

definition journaled :: "store_db \<Rightarrow> bool" where
  "journaled db \<longleftrightarrow> (\<forall>r \<in> set (db_orders db). \<forall>c. or_ClientOrderID r = Some c \<longrightarrow>
     (\<exists>i. get_intent db c = Some i \<and> oi_OrderID i = or_OrderID r))"

definition schema_ok :: "store_db \<Rightarrow> bool" where
  "schema_ok db \<longleftrightarrow> orders_ok (db_orders db) \<and> intents_ok db \<and> fills_ok db \<and> timers_ok db \<and> log_ok (db_epochs db) (db_recon db)"

text \<open>What the callers of \<open>InsertJournaledOrder\<close> pass: a status of the ladder, and an attempt of the order.\<close>

definition typed_op :: "live_op \<Rightarrow> bool" where
  "typed_op op \<longleftrightarrow> (case op of LJournal r i \<Rightarrow> statusRank (or_Status r) \<noteq> None \<and> oi_OrderID i = or_OrderID r | _ \<Rightarrow> True)"

lemma evolves_order: "evolves db d \<Longrightarrow> get_order_row db i \<noteq> None \<Longrightarrow> get_order_row d i \<noteq> None"
  using climbsD [of db d i] by (auto simp: evolves_def)

lemma evolves_fill_row: "evolves db d \<Longrightarrow> row_get fr_FillID (db_fills db) i \<noteq> None \<Longrightarrow> row_get fr_FillID (db_fills d) i \<noteq> None"
  by (auto simp: evolves_def row_get_append)

lemma frame_intents_ok:
  assumes "evolves db d" and "db_intents d = db_intents db" and "intents_ok db" shows "intents_ok d"
  using assms(3) evolves_order [OF assms(1)] unfolding intents_ok_def assms(2) by blast

lemma frame_fills_ok:
  assumes "evolves db d" and "db_fills d = db_fills db" and "fills_ok db" shows "fills_ok d"
  using assms(3) evolves_order [OF assms(1)] unfolding fills_ok_def assms(2) by blast

lemma frame_timers_ok:
  assumes "evolves db d" and "db_obligations d = db_obligations db" and "db_fees d = db_fees db" and "timers_ok db" shows "timers_ok d"
  using assms(4) evolves_order [OF assms(1)] evolves_fill_row [OF assms(1)] unfolding timers_ok_def assms(2,3) by blast

text \<open>A statement on the order table alone.\<close>

lemma orders_schema:
  assumes "evolves db d" and "d = db\<lparr>db_orders := rs\<rparr>" and "schema_ok db" and "orders_ok rs" shows "schema_ok d"
  using assms frame_intents_ok [OF assms(1)] frame_fills_ok [OF assms(1)] frame_timers_ok [OF assms(1)] by (simp add: schema_ok_def)

lemma InsertOrder_schema:
  assumes "InsertOrder r db = Ok d" and "schema_ok db" and "statusRank (or_Status r) \<noteq> None"
  shows "schema_ok d"
proof -
  let ?r = "r\<lparr>or_ClientOrderID := None, or_ExchangeOrderID := None\<rparr>"
  have d: "d = db\<lparr>db_orders := db_orders db @ [?r]\<rparr>"
    and n: "get_order_row db (or_OrderID r) = None"
    and c: "or_Class r \<in> {''ENTRY'', ''PROTECTIVE''}" "or_Origin r \<in> {''proposal'', ''breaker'', ''kill'', ''watchdog'', ''sl_contingency''}"
    using assms(1) by (simp_all add: InsertOrder_def split: if_splits)
  have "or_OrderID r \<notin> or_OrderID ` set (db_orders db)" using n by (simp add: get_order_row_def row_get_None_iff)
  moreover have "order_typed ?r" using assms(3) c by (simp add: order_typed_def)
  moreover have "\<not> same_client w ?r" "\<not> same_client ?r w" for w by (auto simp: same_client_def)
  ultimately have "orders_ok (db_orders db @ [?r])" using assms(2) unfolding orders_ok_def schema_ok_def
    by (simp add: ball_Un)
  then show ?thesis by (rule orders_schema [OF InsertOrder_evolves [OF assms(1)] d assms(2)])
qed

lemma update_order_Ok:
  "update_order i f db = Ok d \<Longrightarrow> d = db\<lparr>db_orders := map (\<lambda>r. if or_OrderID r = i then f r else r) (db_orders db)\<rparr>"
  by (simp add: update_order_def split: if_splits)

lemma update_order_schema:
  assumes "update_order i f db = Ok d" and "evolves db d" and "schema_ok db"
    and id: "\<And>r. or_OrderID (f r) = or_OrderID r" and typed: "\<And>r. order_typed r \<Longrightarrow> order_typed (f r)"
    and fresh: "\<And>r w. r \<in> set (db_orders db) \<Longrightarrow> w \<in> set (db_orders db) \<Longrightarrow> or_OrderID r = i \<Longrightarrow> same_client (f r) w \<Longrightarrow> or_OrderID w = i"
  shows "schema_ok d"
proof -
  let ?g = "\<lambda>r. if or_OrderID r = i then f r else r"
  have o: "orders_ok (db_orders db)" using assms(3) by (simp add: schema_ok_def)
  have ids: "or_OrderID (?g r) = or_OrderID r" for r by (simp add: id)
  have "or_OrderID r = or_OrderID w"
    if rw: "r \<in> set (db_orders db)" "w \<in> set (db_orders db)" and s: "same_client (?g r) (?g w)" for r w
  proof (cases "or_OrderID r = i"; cases "or_OrderID w = i")
    assume "or_OrderID r = i" "or_OrderID w \<noteq> i"
    then show ?thesis using fresh [OF rw] s by simp
  next
    assume "or_OrderID r \<noteq> i" "or_OrderID w = i"
    then have "same_client (f w) r" using same_client_sym [OF s] by simp
    then show ?thesis using fresh [OF rw(2,1)] \<open>or_OrderID w = i\<close> by simp
  next
    assume "or_OrderID r \<noteq> i" "or_OrderID w \<noteq> i"
    then have "same_client r w" using s by simp
    then show ?thesis using o rw unfolding orders_ok_def by blast
  qed simp
  moreover have "list_all order_typed (map ?g (db_orders db))"
    using o typed by (auto simp: orders_ok_def list_all_iff)
  moreover have "distinct (map or_OrderID (db_orders db))" using o by (simp add: orders_ok_def)
  ultimately have "orders_ok (map ?g (db_orders db))" using orders_ok_mapI [of "db_orders db" ?g, OF _ ids] by blast
  then show ?thesis by (rule orders_schema [OF assms(2) update_order_Ok [OF assms(1)] assms(3)])
qed

lemma set_client_schema:
  assumes "set_client_order_id c i db = Ok d" and "schema_ok db" shows "schema_ok d"
proof -
  have u: "update_order i (\<lambda>r. r\<lparr>or_ClientOrderID := Some c\<rparr>) db = Ok d"
    and f: "list_all (\<lambda>r. or_OrderID r = i \<or> or_ClientOrderID r \<noteq> Some c) (db_orders db)"
    using assms(1) by (auto simp: set_client_order_id_def list_all_iff list_ex_iff split: if_splits)
  show ?thesis
    by (rule update_order_schema [OF u set_client_evolves [OF assms(1)] assms(2)])
      (use f in \<open>auto simp: order_typed_def same_client_def list_all_iff\<close>)
qed

lemma RecordOrderStatus_schema:
  assumes "RecordOrderStatus i st db = Ok (d, now)" and "schema_ok db" shows "schema_ok d"
proof -
  obtain n r where n: "statusRank st = Some n" "get_order_row db i = Some r"
    using assms(1) by (auto simp: RecordOrderStatus_def split: option.splits)
  show ?thesis
  proof (cases "n \<le> rank_of (or_Status r)")
    case True
    then show ?thesis using assms n by (simp add: RecordOrderStatus_def)
  next
    case False
    then have u: "update_order i (\<lambda>r. r\<lparr>or_Status := st\<rparr>) db = Ok d"
      using assms(1) n by (auto simp: RecordOrderStatus_def bind_outcome_eq_Ok)
    show ?thesis
    proof (rule update_order_schema [OF u RecordOrderStatus_evolves [OF assms(1)] assms(2)])
      show "or_OrderID w = i" if "r \<in> set (db_orders db)" "w \<in> set (db_orders db)" "or_OrderID r = i"
        "same_client (r\<lparr>or_Status := st\<rparr>) w" for r w
        using that assms(2) unfolding schema_ok_def orders_ok_def same_client_def by simp metis
    qed (use n in \<open>simp_all add: order_typed_def\<close>)
  qed
qed

lemma InsertOrderIntent_schema:
  assumes "InsertOrderIntent i db = Ok d" and "schema_ok db" shows "schema_ok d"
proof -
  note d = InsertOrderIntent_Ok [OF assms(1)]
  have c: "get_intent db (oi_ClientOrderID i) = None" "get_order_row db (oi_OrderID i) \<noteq> None"
    "\<not> list_ex (\<lambda>j. oi_IntentToken j = oi_IntentToken i \<and> oi_Attempt j = oi_Attempt i) (db_intents db)"
    using assms(1) by (simp_all add: InsertOrderIntent_def split: if_splits)
  have "oi_ClientOrderID i \<notin> oi_ClientOrderID ` set (db_intents db)" using c(1) by (simp add: get_intent_def row_get_None_iff)
  moreover have "(oi_IntentToken i, oi_Attempt i) \<notin> (\<lambda>i. (oi_IntentToken i, oi_Attempt i)) ` set (db_intents db)"
    using c(3) by (auto simp: list_ex_iff)
  ultimately have "intents_ok d"
    using assms(2) c(2) unfolding intents_ok_def schema_ok_def d by (simp add: get_order_row_def)
  moreover note e = InsertOrderIntent_evolves [OF assms(1)]
  ultimately show ?thesis
    using assms(2) frame_fills_ok [OF e] frame_timers_ok [OF e] by (simp add: schema_ok_def d)
qed

lemma intents_map_schema:
  assumes "d = db\<lparr>db_intents := map g (db_intents db)\<rparr>" and "evolves db d" and "schema_ok db"
    and "\<And>i. oi_ClientOrderID (g i) = oi_ClientOrderID i \<and> oi_IntentToken (g i) = oi_IntentToken i
      \<and> oi_Attempt (g i) = oi_Attempt i \<and> oi_OrderID (g i) = oi_OrderID i"
  shows "schema_ok d"
proof -
  have "intents_ok d" using assms(3,4) unfolding intents_ok_def schema_ok_def assms(1) by (simp add: comp_def get_order_row_def)
  then show ?thesis
    using assms(3) frame_fills_ok [OF assms(2)] frame_timers_ok [OF assms(2)] by (simp add: schema_ok_def assms(1))
qed

lemma obligation_schema:
  assumes "InsertProtectiveObligation b db = Ok d" and "schema_ok db" shows "schema_ok d"
proof -
  have d: "d = db\<lparr>db_obligations := db_obligations db @ [b]\<rparr>" and c: "row_get po_ObligationID (db_obligations db) (po_ObligationID b) = None"
    "get_order_row db (po_EntryOrderID b) \<noteq> None" "po_Kind b \<in> {''sl'', ''tp''}"
    using assms(1) by (simp_all add: InsertProtectiveObligation_def split: if_splits)
  have e: "evolves db d" by (rule evolves_frame) (simp_all add: d)
  have "timers_ok d" using assms(2) c unfolding timers_ok_def schema_ok_def d by (simp add: row_get_None_iff get_order_row_def)
  then show ?thesis using assms(2) frame_intents_ok [OF e] frame_fills_ok [OF e] by (simp add: schema_ok_def d)
qed

lemma fee_schema:
  assumes "InsertPendingFillFee f db = Ok d" and "schema_ok db" shows "schema_ok d"
proof -
  have d: "d = db\<lparr>db_fees := db_fees db @ [f]\<rparr>" and c: "row_get pf_FillID (db_fees db) (pf_FillID f) = None"
    "row_get fr_FillID (db_fills db) (pf_FillID f) \<noteq> None"
    using assms(1) by (simp_all add: InsertPendingFillFee_def split: if_splits)
  have e: "evolves db d" by (rule evolves_frame) (simp_all add: d)
  have "timers_ok d" using assms(2) c unfolding timers_ok_def schema_ok_def d by (simp add: row_get_None_iff get_order_row_def)
  then show ?thesis using assms(2) frame_intents_ok [OF e] frame_fills_ok [OF e] by (simp add: schema_ok_def d)
qed

text \<open>A statement on other tables.\<close>

lemma other_schema:
  assumes "db_orders d = db_orders db" "db_intents d = db_intents db" "db_fills d = db_fills db"
    "db_obligations d = db_obligations db" "db_fees d = db_fees db" "log_ok (db_epochs d) (db_recon d)" "schema_ok db"
  shows "schema_ok d"
  using assms unfolding schema_ok_def intents_ok_def fills_ok_def timers_ok_def get_order_row_def by simp

lemma schema_log: "schema_ok db \<Longrightarrow> log_ok (db_epochs db) (db_recon db)"
  by (simp add: schema_ok_def)

lemma book_stmt_schema: "book_stmt db b = Ok d \<Longrightarrow> schema_ok db \<Longrightarrow> schema_ok d"
proof (cases b)
  case (SPosition r)
  assume s: "book_stmt db b = Ok d" "schema_ok db"
  show ?thesis
    by (rule other_schema [of d db]) (use s SPosition schema_log [OF s(2)] in \<open>auto simp: book_stmt_def UpsertPosition_def\<close>)
next
  case (SState r)
  assume s: "book_stmt db b = Ok d" "schema_ok db"
  show ?thesis
    by (rule other_schema [of d db])
      (use s SState schema_log [OF s(2)] in \<open>auto simp: book_stmt_def UpsertStrategyState_def split: if_splits\<close>)
qed (simp_all add: book_stmt_def obligation_schema fee_schema)

lemma book_stmts_schema: "fold_ok book_stmt bs db = Ok d \<Longrightarrow> schema_ok db \<Longrightarrow> schema_ok d"
  by (rule fold_ok_inv [where P = schema_ok]) (rule book_stmt_schema)

lemma RecordVenueFill_schema:
  assumes "RecordVenueFill L f st (fold_ok book_stmt bs) db = Ok (d, new)" and "schema_ok db" shows "schema_ok d"
proof (cases new)
  case True
  let ?d1 = "db\<lparr>db_fills := db_fills db @ [f]\<rparr>"
  obtain v d2 d3 now where n: "\<forall>k. trade_key f = Some k \<longrightarrow> \<not> booked_key db k" "row_get fr_FillID (db_fills db) (fr_FillID f) = None"
      "get_order_row db (fr_OrderID f) \<noteq> None"
    and u: "update_order (fr_OrderID f) (\<lambda>r. r\<lparr>or_FillPrice := Some v, or_FilledAt := Some (fr_FillTS f)\<rparr>) ?d1 = Ok d2"
    and s: "RecordOrderStatus (fr_OrderID f) st d2 = Ok (d3, now)" and b: "fold_ok book_stmt bs d3 = Ok d"
    using RecordVenueFill_new [OF assms(1) [unfolded True [THEN eqTrueI]]] by blast
  have "set (List.map_filter trade_key (db_fills db)) \<inter> set (List.map_filter trade_key [f]) = {}"
    using n(1) by (auto simp: map_filter_def booked_key_def list_ex_iff)
  moreover have "distinct (List.map_filter trade_key [f])" by (simp add: map_filter_def)
  ultimately have "fills_ok ?d1" using assms(2) n(2,3) unfolding fills_ok_def schema_ok_def
    by (simp add: row_get_None_iff get_order_row_def map_filter_def)
  moreover note e = evolves_fill [of db f]
  ultimately have s1: "schema_ok ?d1"
    using assms(2) frame_intents_ok [OF e] frame_timers_ok [OF e] by (simp add: schema_ok_def)
  have e2: "evolves ?d1 d2" by (rule update_order_evolves [OF u]) (simp_all add: identity_def)
  have "schema_ok d2"
  proof (rule update_order_schema [OF u e2 s1])
    show "or_OrderID w = fr_OrderID f" if "r \<in> set (db_orders ?d1)" "w \<in> set (db_orders ?d1)" "or_OrderID r = fr_OrderID f"
      "same_client (r\<lparr>or_FillPrice := Some v, or_FilledAt := Some (fr_FillTS f)\<rparr>) w" for r w
      using that assms(2) unfolding schema_ok_def orders_ok_def same_client_def by simp metis
  qed (simp_all add: order_typed_def)
  then show ?thesis using RecordOrderStatus_schema [OF s] book_stmts_schema [OF b] by blast
next
  case False
  then have "d = db" using RecordVenueFill_replay [of L f st "fold_ok book_stmt bs" db d] assms(1) by simp
  then show ?thesis using assms(2) by simp
qed

lemma live_op_schema:
  assumes "live_op L op db = Ok d" and "typed_op op" and "schema_ok db" shows "schema_ok d"
proof (cases op)
  case (LJournal r i)
  then obtain d1 d2 where s: "InsertOrder r db = Ok d1" "set_client_order_id (oi_ClientOrderID i) (or_OrderID r) d1 = Ok d2"
    "InsertOrderIntent i d2 = Ok d"
    using assms(1) by (simp add: live_op_def InsertJournaledOrder_def bind_outcome_eq_Ok) blast
  have "schema_ok d1" using InsertOrder_schema [OF s(1) assms(3)] assms(2) LJournal by (simp add: typed_op_def)
  then show ?thesis using set_client_schema [OF s(2)] InsertOrderIntent_schema [OF s(3)] by blast
next
  case (LAttempt i)
  then obtain d2 where s: "set_client_order_id (oi_ClientOrderID i) (oi_OrderID i) db = Ok d2" "InsertOrderIntent i d2 = Ok d"
    using assms(1) by (simp add: live_op_def RecordIntentAttempt_def bind_outcome_eq_Ok split: if_splits) blast
  then show ?thesis using set_client_schema [OF s(1) assms(3)] InsertOrderIntent_schema by blast
next
  case (LAck i e)
  then have u: "update_order i (\<lambda>r. r\<lparr>or_ExchangeOrderID := Some e\<rparr>) db = Ok d" using assms(1) by (simp add: live_op_def RecordExchangeAck_def)
  show ?thesis
  proof (rule update_order_schema [OF u live_op_evolves [OF assms(1)] assms(3)])
    show "or_OrderID w = i" if "r \<in> set (db_orders db)" "w \<in> set (db_orders db)" "or_OrderID r = i"
      "same_client (r\<lparr>or_ExchangeOrderID := Some e\<rparr>) w" for r w
      using that assms(3) unfolding schema_ok_def orders_ok_def same_client_def by simp metis
  qed (simp_all add: order_typed_def)
next
  case (LStatus i st)
  then obtain now where "RecordOrderStatus i st db = Ok (d, now)" using assms(1) by (auto simp: live_op_def bind_outcome_eq_Ok)
  then show ?thesis by (rule RecordOrderStatus_schema [OF _ assms(3)])
next
  case (LVenueFill f st bs)
  then obtain n where "RecordVenueFill L f st (fold_ok book_stmt bs) db = Ok (d, n)"
    using assms(1) by (auto simp: live_op_def bind_outcome_eq_Ok)
  then show ?thesis by (rule RecordVenueFill_schema [OF _ assms(3)])
next
  case (LClaim c ts)
  then obtain t where "RecordIntentClaim c ts db = Ok (d, t)" using assms(1) by (auto simp: live_op_def bind_outcome_eq_Ok)
  then have "d = db \<or> d = db\<lparr>db_intents := map (\<lambda>j. if oi_ClientOrderID j = c \<and> claimable j then j\<lparr>oi_ClaimedAt := Some ts\<rparr> else j)
      (db_intents db)\<rparr>"
    by (simp add: RecordIntentClaim_def split: option.splits if_splits)
  then show ?thesis using intents_map_schema [OF _ live_op_evolves [OF assms(1)] assms(3)] assms(3) by auto
next
  case (LRevoke c ts)
  then have "d = db\<lparr>db_intents := map (\<lambda>j. if oi_ClientOrderID j = c \<and> oi_ClaimRevokedAt j = None
      then j\<lparr>oi_ClaimRevokedAt := Some ts\<rparr> else j) (db_intents db)\<rparr>"
    using assms(1) by (simp add: live_op_def RecordIntentClaimRevoked_def resolveOnce_def split: if_splits)
  then show ?thesis by (rule intents_map_schema [OF _ live_op_evolves [OF assms(1)] assms(3)]) simp
next
  case (LRecon e)
  show ?thesis
    by (rule other_schema [OF _ _ _ _ _ _ assms(3)])
      (use assms(1) LRecon schema_log [OF assms(3)] in \<open>auto simp: live_op_def AppendOMSReconEvent_def log_ok_def row_get_None_iff split: if_splits\<close>)
next
  case (LEpoch e)
  then have d: "d = db\<lparr>db_epochs := db_epochs db @ [e]\<rparr>" and "\<not> list_ex (\<lambda>x. ve_VenueEpoch x = ve_VenueEpoch e) (db_epochs db)"
    using assms(1) by (simp_all add: live_op_def InsertVenueEpoch_def split: if_splits)
  then have "ve_VenueEpoch e \<notin> ve_VenueEpoch ` set (db_epochs db)" by (simp add: list_ex_key)
  then have "log_ok (db_epochs d) (db_recon d)" using schema_log [OF assms(3)] by (simp add: d log_ok_def)
  then show ?thesis by (intro other_schema [OF _ _ _ _ _ _ assms(3)]) (simp_all add: d)
next
  case (LSatisfied b ts)
  then have d: "d = db\<lparr>db_obligations := map (\<lambda>r. if po_ObligationID r = b \<and> po_SatisfiedAt r = None then r\<lparr>po_SatisfiedAt := Some ts\<rparr> else r)
      (db_obligations db)\<rparr>"
    using assms(1) by (simp add: live_op_def RecordProtectiveSatisfied_def resolveOnce_def split: if_splits)
  have k: "map po_ObligationID (db_obligations d) = map po_ObligationID (db_obligations db)" by (auto simp: d)
  have "timers_ok d" using assms(3) unfolding timers_ok_def schema_ok_def k by (auto simp: d get_order_row_def)
  then show ?thesis using assms(3) frame_intents_ok [OF live_op_evolves [OF assms(1)]] frame_fills_ok [OF live_op_evolves [OF assms(1)]]
    by (simp add: schema_ok_def d)
next
  case (LConverted f ts)
  then have d: "d = db\<lparr>db_fees := map (\<lambda>r. if pf_FillID r = f \<and> pf_ConvertedAt r = None then r\<lparr>pf_ConvertedAt := Some ts\<rparr> else r)
      (db_fees db)\<rparr>"
    using assms(1) by (simp add: live_op_def RecordFeeConverted_def resolveOnce_def split: if_splits)
  have k: "map pf_FillID (db_fees d) = map pf_FillID (db_fees db)" by (auto simp: d)
  have "timers_ok d" using assms(3) unfolding timers_ok_def schema_ok_def k by (auto simp: d get_order_row_def)
  then show ?thesis using assms(3) frame_intents_ok [OF live_op_evolves [OF assms(1)]] frame_fills_ok [OF live_op_evolves [OF assms(1)]]
    by (simp add: schema_ok_def d)
next
  case (LOther x)
  show ?thesis
    by (rule other_schema [OF _ _ _ _ _ _ assms(3)])
      (use assms(1) LOther schema_log [OF assms(3)] in \<open>auto simp: live_op_def live_tables_def\<close>)
qed (use assms in \<open>simp_all add: live_op_def obligation_schema fee_schema\<close>)


text \<open>Statements that leave the attempt ids of the orders alone.\<close>

definition keeps_clients :: "store_db \<Rightarrow> store_db \<Rightarrow> bool" where
  "keeps_clients db d \<longleftrightarrow> (\<forall>r' \<in> set (db_orders d). or_ClientOrderID r' = None
     \<or> (\<exists>r \<in> set (db_orders db). or_OrderID r' = or_OrderID r \<and> or_ClientOrderID r' = or_ClientOrderID r))"

lemma keeps_refl: "db_orders d = db_orders db \<Longrightarrow> keeps_clients db d"
  by (auto simp: keeps_clients_def)

lemma keeps_trans: "keeps_clients a b \<Longrightarrow> keeps_clients b c \<Longrightarrow> keeps_clients a c"
  unfolding keeps_clients_def by metis

lemma update_order_keeps:
  "update_order i f db = Ok d \<Longrightarrow> (\<And>r. or_OrderID (f r) = or_OrderID r \<and> or_ClientOrderID (f r) = or_ClientOrderID r) \<Longrightarrow> keeps_clients db d"
  by (fastforce simp: keeps_clients_def update_order_def split: if_splits)

lemma RecordOrderStatus_keeps: "RecordOrderStatus i st db = Ok (d, now) \<Longrightarrow> keeps_clients db d"
  by (auto simp: RecordOrderStatus_def bind_outcome_eq_Ok intro: keeps_refl update_order_keeps split: option.splits if_splits)

lemma RecordVenueFill_keeps:
  assumes "RecordVenueFill L f st (fold_ok book_stmt bs) db = Ok (d, new)" shows "keeps_clients db d"
proof (cases new)
  case True
  let ?d1 = "db\<lparr>db_fills := db_fills db @ [f]\<rparr>"
  obtain v d2 d3 now where u: "update_order (fr_OrderID f) (\<lambda>r. r\<lparr>or_FillPrice := Some v, or_FilledAt := Some (fr_FillTS f)\<rparr>) ?d1 = Ok d2"
    and s: "RecordOrderStatus (fr_OrderID f) st d2 = Ok (d3, now)" and b: "fold_ok book_stmt bs d3 = Ok d"
    using RecordVenueFill_new [OF assms(1) [unfolded True [THEN eqTrueI]]] by blast
  have "keeps_clients ?d1 d2" by (rule update_order_keeps [OF u]) simp
  moreover have "keeps_clients d3 d" using book_stmts_frame [OF b] by (simp add: keeps_refl)
  ultimately show ?thesis
    using keeps_trans [OF keeps_trans [OF keeps_refl [of ?d1 db]]] RecordOrderStatus_keeps [OF s] keeps_trans by (metis (no_types, lifting) store_db.select_convs(9) store_db.surjective store_db.update_convs(10))
next
  case False
  then show ?thesis using RecordVenueFill_replay [of L f st "fold_ok book_stmt bs" db d] assms by (simp add: keeps_refl)
qed

lemma live_op_keeps:
  assumes "live_op L op db = Ok d" and "\<And>r i. op \<noteq> LJournal r i" and "\<And>i. op \<noteq> LAttempt i"
  shows "keeps_clients db d"
proof (cases op)
  case (LAck i e)
  then have u: "update_order i (\<lambda>r. r\<lparr>or_ExchangeOrderID := Some e\<rparr>) db = Ok d" using assms(1) by (simp add: live_op_def RecordExchangeAck_def)
  show ?thesis by (rule update_order_keeps [OF u]) simp
next
  case (LStatus i st)
  then show ?thesis using assms(1) by (auto simp: live_op_def bind_outcome_eq_Ok intro: RecordOrderStatus_keeps)
next
  case (LVenueFill f st bs)
  then show ?thesis using assms(1) RecordVenueFill_keeps by (force simp: live_op_def bind_outcome_eq_Ok)
qed (use assms in \<open>auto simp: live_op_def AppendOMSReconEvent_def InsertProtectiveObligation_def InsertPendingFillFee_def
    InsertVenueEpoch_def RecordIntentClaim_def RecordIntentClaimRevoked_def RecordProtectiveSatisfied_def RecordFeeConverted_def
    live_tables_def bind_outcome_eq_Ok intro!: keeps_refl split: if_splits option.splits\<close>)

lemma intent_order: "evolves db d \<Longrightarrow> get_intent db c = Some i \<Longrightarrow> \<exists>j. get_intent d c = Some j \<and> oi_OrderID j = oi_OrderID i"
  using evolves_intent [of db d c i] unfolding grows_def attempt_of_def by (metis intent_row.select_convs(4) intent_row.surjective intent_row.update_convs(17,18))

lemma keeps_journaled:
  assumes "keeps_clients db d" and "evolves db d" and "journaled db" shows "journaled d"
  unfolding journaled_def
proof (intro ballI allI impI)
  fix r c
  assume r: "r \<in> set (db_orders d)" "or_ClientOrderID r = Some c"
  then obtain r0 where "r0 \<in> set (db_orders db)" "or_OrderID r = or_OrderID r0" "or_ClientOrderID r0 = Some c"
    using assms(1) unfolding keeps_clients_def by fastforce
  then obtain i where "get_intent db c = Some i" "oi_OrderID i = or_OrderID r" using assms(3) unfolding journaled_def by metis
  then show "\<exists>i. get_intent d c = Some i \<and> oi_OrderID i = or_OrderID r" using intent_order [OF assms(2)] by metis
qed

lemma set_client_journaled:
  assumes s: "set_client_order_id (oi_ClientOrderID i) (oi_OrderID i) db = Ok d1" and j: "InsertOrderIntent i d1 = Ok d"
    and jd: "journaled db"
  shows "journaled d"
  unfolding journaled_def
proof (intro ballI allI impI)
  fix r c
  assume r: "r \<in> set (db_orders d)" "or_ClientOrderID r = Some c"
  have e: "evolves db d" using evolves_trans set_client_evolves [OF s] InsertOrderIntent_evolves [OF j] by blast
  have d: "d = d1\<lparr>db_intents := db_intents d1 @ [i]\<rparr>" and n: "get_intent d1 (oi_ClientOrderID i) = None"
    using j by (simp_all add: InsertOrderIntent_def split: if_splits)
  have "update_order (oi_OrderID i) (\<lambda>r. r\<lparr>or_ClientOrderID := Some (oi_ClientOrderID i)\<rparr>) db = Ok d1"
    using s by (simp add: set_client_order_id_def split: if_splits)
  from update_order_Ok [OF this] r(1) obtain r0 where r0: "r0 \<in> set (db_orders db)"
    "r = (if or_OrderID r0 = oi_OrderID i then r0\<lparr>or_ClientOrderID := Some (oi_ClientOrderID i)\<rparr> else r0)"
    by (auto simp: d)
  show "\<exists>i. get_intent d c = Some i \<and> oi_OrderID i = or_OrderID r"
  proof (cases "or_OrderID r0 = oi_OrderID i")
    case True
    then have "c = oi_ClientOrderID i" "or_OrderID r = oi_OrderID i" using r0(2) r(2) by simp_all
    then show ?thesis using n by (simp add: d get_intent_def row_get_append)
  next
    case False
    then have "or_ClientOrderID r0 = Some c" "or_OrderID r = or_OrderID r0" using r0(2) r(2) by simp_all
    then obtain k where "get_intent db c = Some k" "oi_OrderID k = or_OrderID r" using jd r0(1) unfolding journaled_def by metis
    then show ?thesis using intent_order [OF e] by metis
  qed
qed

lemma live_op_journaled:
  assumes "live_op L op db = Ok d" and "typed_op op" and "journaled db" shows "journaled d"
proof (cases op)
  case (LJournal r i)
  then obtain d1 d2 where s: "InsertOrder r db = Ok d1" "set_client_order_id (oi_ClientOrderID i) (oi_OrderID i) d1 = Ok d2"
    "InsertOrderIntent i d2 = Ok d"
    using assms(1,2) by (auto simp: live_op_def InsertJournaledOrder_def bind_outcome_eq_Ok typed_op_def)
  have "keeps_clients db d1" using s(1) by (auto simp: InsertOrder_def keeps_clients_def split: if_splits)
  then have "journaled d1" by (rule keeps_journaled [OF _ InsertOrder_evolves [OF s(1)] assms(3)])
  then show ?thesis by (rule set_client_journaled [OF s(2,3)])
next
  case (LAttempt i)
  then obtain d2 where "set_client_order_id (oi_ClientOrderID i) (oi_OrderID i) db = Ok d2" "InsertOrderIntent i d2 = Ok d"
    using assms(1) by (auto simp: live_op_def RecordIntentAttempt_def bind_outcome_eq_Ok split: if_splits)
  then show ?thesis using set_client_journaled assms(3) by blast
qed (use keeps_journaled [OF live_op_keeps [OF assms(1)] live_op_evolves [OF assms(1)] assms(3)] in simp_all)

text \<open>The machine of typed calls.\<close>

definition typed_step :: "'d::linordered_field dlib \<Rightarrow> store_db \<Rightarrow> live_op \<Rightarrow> store_db option" where
  "typed_step L db op = (if typed_op op then live_step L db op else None)"

interpretation schema: machine "typed_step L" "\<lambda>db. schema_ok db \<and> journaled db"
  for L :: "'d::linordered_field dlib"
  by unfold_locales (auto simp: typed_step_def live_step_iff split: if_splits intro: live_op_schema live_op_journaled)

lemma run_typed: "list_all typed_op ops \<Longrightarrow> run (typed_step L) db ops = run (live_step L) db ops"
  by (induction ops arbitrary: db) (auto simp: typed_step_def split: option.split)

text \<open>C29: the live tables stay well typed: through any run of the live store's operations by callers that
  journal an order with a status of the ladder and its own first attempt, keys stay unique (orders,
  attempt ids on orders, attempts, fills, venue trades, timers, epochs, events), references keep
  pointing at rows, columns keep their vocabularies, and the attempt id on an order is always journaled
  for that order.\<close>

theorem live_tables_well_typed:
  assumes "schema_ok db" and "journaled db" and "list_all typed_op ops" and "run (live_step L) db ops = Some d"
  shows "schema_ok d \<and> journaled d"
proof -
  have "run (typed_step L) db ops = Some d" using assms(4) run_typed [OF assms(3), of L db] by simp
  from schema.run_inv [OF _ this] assms(1,2) show ?thesis by blast
qed


section \<open>Witnesses\<close>

text \<open>An order is journaled, claimed, acknowledged, filled in part, reported again, and filled.\<close>

definition demo_order_row :: order_row where
  "demo_order_row = \<lparr>or_OrderID = ''o1'', or_ProposalID = None, or_Origin = ''kill'', or_StrategyID = ''a'',
     or_Symbol = ''ETH/USDT'', or_Class = ''ENTRY'', or_Side = ''buy'', or_Type = ''limit'', or_ReduceOnly = False,
     or_QtyBase = ''2'', or_LimitPrice = Some ''90'', or_StopPrice = None, or_TakeProfit = None, or_FillPrice = None,
     or_KillEpoch = 0, or_Status = ''pending_new'', or_SubmittedAt = ''t0'', or_FilledAt = None,
     or_ClientOrderID = None, or_ExchangeOrderID = None\<rparr>"

definition demo_intent_row :: intent_row where
  "demo_intent_row = \<lparr>oi_ClientOrderID = ''c0'', oi_IntentToken = ''tok'', oi_Attempt = 0, oi_OrderID = ''o1'',
     oi_StrategyID = ''a'', oi_Symbol = ''ETH/USDT'', oi_VenueSymbol = ''ETHUSDT'', oi_Side = ''buy'', oi_Type = ''limit'',
     oi_QtyBase = ''2'', oi_LimitPrice = Some ''90'', oi_StopPrice = None, oi_Origin = ''kill'', oi_ProposalID = None,
     oi_KillEpoch = 0, oi_JournaledAt = ''t0'', oi_ClaimedAt = None, oi_ClaimRevokedAt = None\<rparr>"

definition demo_fill_row :: "string \<Rightarrow> int \<Rightarrow> fill_row" where
  "demo_fill_row i t = \<lparr>fr_FillID = i, fr_OrderID = ''o1'', fr_QtyBase = ''1'', fr_FillPrice = ''90'', fr_FeeQuote = ''0'',
     fr_FillTS = ''t1'', fr_VenueSymbol = Some ''ETHUSDT'', fr_ExchangeTradeID = Some t, fr_VenueEpoch = 1\<rparr>"

definition demo_live_ops :: "live_op list" where
  "demo_live_ops = [LJournal demo_order_row demo_intent_row, LClaim ''c0'' ''t0'', LClaim ''c0'' ''t1'', LAck ''o1'' ''77'',
     LVenueFill (demo_fill_row ''f1'' 5) ''partially_filled'' [], LVenueFill (demo_fill_row ''f9'' 5) ''filled'' [],
     LStatus ''o1'' ''open'', LVenueFill (demo_fill_row ''f2'' 6) ''filled'' [], LStatus ''o1'' ''canceled'']"

definition demo_live :: store_db where
  "demo_live = the (run (live_step rat_text_lib) kill_demo demo_live_ops)"

lemma demo_live_run: "run (live_step rat_text_lib) kill_demo demo_live_ops = Some demo_live"
proof -
  have "run (live_step rat_text_lib) kill_demo demo_live_ops \<noteq> None" by code_simp
  then show ?thesis by (auto simp: demo_live_def)
qed

lemma demo_live_rows:
  "map (\<lambda>r. (or_Status r, or_FillPrice r)) (db_orders demo_live) = [(''filled'', Some ''90/1'')]
   \<and> map fr_FillID (db_fills demo_live) = [''f1'', ''f2''] \<and> map oi_ClaimedAt (db_intents demo_live) = [Some ''t0'']"
  by code_simp

definition demo_journaled :: store_db where
  "demo_journaled = the (live_step rat_text_lib kill_demo (hd demo_live_ops))"

definition demo_journaled_row :: order_row where
  "demo_journaled_row = demo_order_row\<lparr>or_ClientOrderID := Some ''c0''\<rparr>"

lemma demo_journaled_steps:
  "live_step rat_text_lib kill_demo (hd demo_live_ops) = Some demo_journaled
   \<and> get_order_row demo_journaled ''o1'' = Some demo_journaled_row"
proof -
  have "live_step rat_text_lib kill_demo (hd demo_live_ops) \<noteq> None" by code_simp
  moreover have "get_order_row demo_journaled ''o1'' = Some demo_journaled_row" by code_simp
  ultimately show ?thesis by (auto simp: demo_journaled_def)
qed

theorem order_status_ladder_witness:
  "\<exists>r. get_order_row demo_live ''o1'' = Some r \<and> identity r = identity demo_journaled_row
     \<and> or_Status demo_journaled_row = ''pending_new'' \<and> or_Status r = ''filled''"
proof -
  have "run (live_step rat_text_lib) demo_journaled (tl demo_live_ops) = Some demo_live"
    using demo_live_run demo_journaled_steps by (simp add: demo_live_ops_def)
  from order_status_ladder [OF this] demo_journaled_steps
  obtain r where "get_order_row demo_live ''o1'' = Some r" "identity r = identity demo_journaled_row" by blast
  moreover have "map_option or_Status (get_order_row demo_live ''o1'') = Some ''filled''" by code_simp
  ultimately show ?thesis by (simp add: demo_journaled_row_def demo_order_row_def)
qed

theorem live_tables_well_typed_witness:
  "schema_ok demo_live \<and> journaled demo_live \<and> map fr_FillID (db_fills demo_live) = [''f1'', ''f2'']"
proof -
  have s: "schema_ok kill_demo" "journaled kill_demo"
    by (simp_all add: kill_demo_def empty_db_def schema_ok_def orders_ok_def intents_ok_def fills_ok_def timers_ok_def log_ok_def
        journaled_def map_filter_simps)
  have "list_all typed_op demo_live_ops" by code_simp
  from live_tables_well_typed [OF s this demo_live_run] show ?thesis using demo_live_rows by simp
qed

end
