(* ===== verification/LiveOMS.thy ===== *)
theory LiveOMS
  imports LiveStore
begin

text \<open>
  The live order manager (\<open>internal/oms/live\<close>), its parts without a thread of their own: the symbol
  map, configuration and gate state, the venue's filters and the sizing under them, statuses,
  identifiers and error classes. Marks, the venue's answers and the clock are arguments.
\<close>

section \<open>Symbols\<close>

text \<open>\<open>strings.ToUpper\<close>, for ASCII text.\<close>

definition go_upper :: "string \<Rightarrow> string" where
  "go_upper = map (\<lambda>c. if 97 \<le> byte_of c \<and> byte_of c \<le> 122 then char_of (byte_of c - 32) else c)"

text \<open>\<open>strings.Cut(s, "/")\<close>: None when the separator is missing.\<close>

definition cut_slash :: "string \<Rightarrow> (string \<times> string) option" where
  "cut_slash s = (case dropWhile (\<lambda>c. c \<noteq> CHR ''/'') s of
      [] \<Rightarrow> None | _ # q \<Rightarrow> Some (takeWhile (\<lambda>c. c \<noteq> CHR ''/'') s, q))"

definition ToBinance :: "string \<Rightarrow> string option" where
  "ToBinance canonical =
     (case cut_slash canonical of
        None \<Rightarrow> None
      | Some (b, q) \<Rightarrow> if b = [] \<or> q = [] \<or> CHR ''/'' \<in> set q then None else Some (go_upper b @ go_upper q))"

definition binanceQuoteAssets :: "string list" where
  "binanceQuoteAssets = [''FDUSD'', ''USDT'', ''USDC'', ''TUSD'', ''BUSD'', ''BNB'', ''BTC'', ''ETH'', ''DAI'', ''EUR'', ''TRY'', ''USD'']"

definition has_suffix :: "string \<Rightarrow> string \<Rightarrow> bool" where
  "has_suffix v q \<longleftrightarrow> length q \<le> length v \<and> drop (length v - length q) v = q"

definition FromBinance :: "string \<Rightarrow> string option" where
  "FromBinance venue =
     (let v = go_upper venue
      in case find (\<lambda>q. length q < length v \<and> has_suffix v q) binanceQuoteAssets of
           None \<Rightarrow> None | Some q \<Rightarrow> Some (take (length v - length q) v @ ''/'' @ q))"

definition splitSymbol :: "string \<Rightarrow> (string \<times> string) option" where
  "splitSymbol s = (case cut_slash s of None \<Rightarrow> None | Some (b, q) \<Rightarrow> if b = [] \<or> q = [] then None else Some (b, q))"

section \<open>Configuration and state\<close>

datatype live_error =
    ErrLiveStore store_error
  | ErrReconcilePending
  | ErrFilterUnavailable
  | ErrBelowMinNotional
  | ErrFilterRejected
  | ErrExchangeRejected
  | ErrKillEpochStale
  | ErrKillSwitchActive
  | ErrBreakerActive
  | ErrVenueUnreachable
  | ErrExhausted
  | ErrParse
  | ErrInput
  | ErrSymbol
  | ErrNoMark
  | ErrNoPosition
  | ErrVenue
  | ErrReconRunning

text \<open>A call on the store inside the live order manager.\<close>

definition lift_store :: "(store_error, 'a) outcome \<Rightarrow> (live_error, 'a) outcome" where
  "lift_store r = (case r of Ok a \<Rightarrow> Ok a | Err e \<Rightarrow> Err (ErrLiveStore e) | Panic \<Rightarrow> Panic | Diverge \<Rightarrow> Diverge)"

definition live_parse :: "'d dlib \<Rightarrow> string \<Rightarrow> (live_error, 'd) outcome" where
  "live_parse L s = (case dFromString L s of None \<Rightarrow> Err ErrParse | Some d \<Rightarrow> Ok d)"

record tuning =
  tu_ReconcileIntervalSeconds :: int
  tu_WSSilenceTimeoutSeconds :: int
  tu_ListenKeyKeepaliveSeconds :: int
  tu_FilterRefreshSeconds :: int
  tu_RecvWindowMS :: int
  tu_SLPlacementDeadlineSeconds :: int
  tu_ReconFailureAlertThreshold :: int
  tu_SafetyEffectStallSeconds :: int

definition DefaultTuning :: tuning where
  "DefaultTuning = \<lparr>tu_ReconcileIntervalSeconds = 60, tu_WSSilenceTimeoutSeconds = 300, tu_ListenKeyKeepaliveSeconds = 1800,
     tu_FilterRefreshSeconds = 86400, tu_RecvWindowMS = 5000, tu_SLPlacementDeadlineSeconds = 30,
     tu_ReconFailureAlertThreshold = 3, tu_SafetyEffectStallSeconds = 600\<rparr>"

definition zero_tuning :: tuning where
  "zero_tuning = \<lparr>tu_ReconcileIntervalSeconds = 0, tu_WSSilenceTimeoutSeconds = 0, tu_ListenKeyKeepaliveSeconds = 0,
     tu_FilterRefreshSeconds = 0, tu_RecvWindowMS = 0, tu_SLPlacementDeadlineSeconds = 0,
     tu_ReconFailureAlertThreshold = 0, tu_SafetyEffectStallSeconds = 0\<rparr>"

text \<open>\<open>ParseTuning\<close>, with what the JSON decoder made of a non-blank text over the defaults (None for its
  error) as an argument; a blank text is the defaults.\<close>

definition ParseTuning :: "tuning option option \<Rightarrow> tuning option" where
  "ParseTuning decoded =
     (case decoded of
        None \<Rightarrow> Some DefaultTuning
      | Some None \<Rightarrow> None
      | Some (Some t) \<Rightarrow>
          if list_ex (\<lambda>v. v \<le> 0) [tu_ReconcileIntervalSeconds t, tu_WSSilenceTimeoutSeconds t, tu_ListenKeyKeepaliveSeconds t,
               tu_FilterRefreshSeconds t, tu_RecvWindowMS t, tu_SLPlacementDeadlineSeconds t,
               tu_ReconFailureAlertThreshold t, tu_SafetyEffectStallSeconds t]
          then None else Some t)"

definition filterRefresh :: "tuning \<Rightarrow> duration" where
  "filterRefresh t = wrap64 (tu_FilterRefreshSeconds t * second)"

definition slDeadline :: "tuning \<Rightarrow> duration" where
  "slDeadline t = wrap64 (tu_SLPlacementDeadlineSeconds t * second)"

text \<open>One venue symbol's trading filters, as fetched and as parsed.\<close>

record exchange_filters =
  xf_TickSize :: string
  xf_StepSize :: string
  xf_MinQty :: string
  xf_MaxQty :: string
  xf_MinNotional :: string

record 'd symbol_filters =
  sf_tick :: 'd
  sf_step :: 'd
  sf_minQty :: 'd
  sf_maxQty :: 'd
  sf_minNotional :: 'd

text \<open>The order manager: its configuration, and the gate state that its mutex guards.\<close>

record 'd live_oms =
  lo_symbols :: "string list"
  lo_venueOf :: "(string \<times> string) list"
  lo_symbolOf :: "(string \<times> string) list"
  lo_allocated :: 'd
  lo_tuning :: tuning
  lo_reconciled :: bool
  lo_resetPending :: bool
  lo_venueEpoch :: epoch_row
  lo_filters :: "(string \<times> 'd symbol_filters) list option"
  lo_filtersAt :: instant
  lo_filtersStale :: bool
  lo_running :: bool
  lo_reconFails :: int
  lo_lastReconcileEnd :: instant

definition map_symbol :: "'d live_oms \<Rightarrow> string \<Rightarrow> (live_error, 'd live_oms) outcome" where
  "map_symbol o' sy = (case ToBinance sy of
      None \<Rightarrow> Err ErrSymbol
    | Some v \<Rightarrow> Ok (o'\<lparr>lo_venueOf := al_put sy v (lo_venueOf o'), lo_symbolOf := al_put v sy (lo_symbolOf o')\<rparr>))"

text \<open>\<open>New\<close>: the symbol maps, the venue epoch (inserted at the first start), and a closed gate.\<close>

definition NewLive ::
  "string list \<Rightarrow> 'd::linordered_field \<Rightarrow> tuning \<Rightarrow> instant \<Rightarrow> store_db \<Rightarrow> (live_error, 'd live_oms \<times> store_db) outcome" where
  "NewLive symbols allocated tun now db =
     (if symbols = [] \<or> allocated \<le> 0 then Err ErrInput
      else let first = \<lparr>ve_VenueEpoch = 0, ve_StartedAt = format_seconds now, ve_Reason = ''initial'', ve_DetailsJSON = ''{}''\<rparr>;
               blank = \<lparr>lo_symbols = symbols, lo_venueOf = [], lo_symbolOf = [], lo_allocated = allocated,
                  lo_tuning = (if tun = zero_tuning then DefaultTuning else tun),
                  lo_reconciled = False, lo_resetPending = False, lo_venueEpoch = first, lo_filters = None, lo_filtersAt = 0,
                  lo_filtersStale = False, lo_running = False, lo_reconFails = 0, lo_lastReconcileEnd = 0\<rparr>
           in bind_outcome (fold_ok map_symbol symbols blank) (\<lambda>m.
              case CurrentVenueEpoch db of
                Some e \<Rightarrow> Ok (m\<lparr>lo_venueEpoch := e\<rparr>, db)
              | None \<Rightarrow> bind_outcome (lift_store (InsertVenueEpoch first db)) (\<lambda>d. Ok (m, d))))"

definition Reconciled :: "'d live_oms \<Rightarrow> bool" where
  "Reconciled m \<longleftrightarrow> lo_reconciled m \<and> \<not> lo_resetPending m"

section \<open>Filters\<close>

definition parseFilters :: "'d::linordered_field dlib \<Rightarrow> exchange_filters \<Rightarrow> (live_error, 'd symbol_filters) outcome" where
  "parseFilters L f =
     bind_outcome (live_parse L (xf_TickSize f)) (\<lambda>tick.
     bind_outcome (live_parse L (xf_StepSize f)) (\<lambda>step.
     bind_outcome (live_parse L (xf_MinQty f)) (\<lambda>minQty.
     bind_outcome (live_parse L (xf_MaxQty f)) (\<lambda>maxQty.
     bind_outcome (live_parse L (xf_MinNotional f)) (\<lambda>minNotional.
       if tick \<le> 0 \<or> step \<le> 0 then Err ErrInput
       else Ok \<lparr>sf_tick = tick, sf_step = step, sf_minQty = minQty, sf_maxQty = maxQty, sf_minNotional = minNotional\<rparr>)))))"

text \<open>\<open>loadFilters\<close>, with the answer of \<open>ExchangeInfo\<close> (None for an error). A failure changes nothing.\<close>

definition loadFilters ::
  "'d::linordered_field dlib \<Rightarrow> (string \<times> exchange_filters) list option \<Rightarrow> instant \<Rightarrow> 'd live_oms \<Rightarrow> (live_error, 'd live_oms) outcome" where
  "loadFilters L answer now m =
     (case answer of
        None \<Rightarrow> Err ErrVenue
      | Some raw \<Rightarrow>
          bind_outcome (fold_ok (\<lambda>fs (v, f). bind_outcome (parseFilters L f) (\<lambda>sf. Ok (al_put v sf fs))) raw [])
            (\<lambda>parsed. Ok (m\<lparr>lo_filters := Some parsed, lo_filtersAt := now, lo_filtersStale := False\<rparr>)))"

definition filtersDue :: "instant \<Rightarrow> 'd live_oms \<Rightarrow> bool" where
  "filtersDue now m \<longleftrightarrow> lo_filters m = None \<or> filterRefresh (lo_tuning m) \<le> time_sub now (lo_filtersAt m)"

definition symbolFiltersFor :: "instant \<Rightarrow> 'd live_oms \<Rightarrow> string \<Rightarrow> (live_error, 'd symbol_filters) outcome" where
  "symbolFiltersFor now m v =
     (if filtersDue now m then Err ErrFilterUnavailable
      else case lo_filters m of
             None \<Rightarrow> Err ErrFilterUnavailable
           | Some fs \<Rightarrow> (case al_get fs v of None \<Rightarrow> Err ErrFilterUnavailable | Some sf \<Rightarrow> Ok sf))"

definition MinFilters :: "instant \<Rightarrow> 'd live_oms \<Rightarrow> string \<Rightarrow> ('d \<times> 'd) option" where
  "MinFilters now m sy =
     (case al_get (lo_venueOf m) sy of
        None \<Rightarrow> None
      | Some v \<Rightarrow> (case symbolFiltersFor now m v of Ok sf \<Rightarrow> Some (sf_minQty sf, sf_minNotional sf) | _ \<Rightarrow> None))"

definition floorToStep :: "'d::linordered_field dlib \<Rightarrow> 'd \<Rightarrow> 'd \<Rightarrow> ('e, 'd) outcome" where
  "floorToStep L d step = bind_outcome (ddiv L d step) (\<lambda>q. Ok (dFloor L q * step))"

definition ceilToStep :: "'d::linordered_field dlib \<Rightarrow> 'd \<Rightarrow> 'd \<Rightarrow> ('e, 'd) outcome" where
  "ceilToStep L d step = bind_outcome (ddiv L d step) (\<lambda>q. Ok (dCeil L q * step))"

definition passivePrice :: "'d::linordered_field dlib \<Rightarrow> string \<Rightarrow> 'd \<Rightarrow> 'd \<Rightarrow> ('e, 'd) outcome" where
  "passivePrice L side price tick = (if side = ''buy'' then floorToStep L price tick else ceilToStep L price tick)"

definition normalizeEntryQty ::
  "'d::linordered_field dlib \<Rightarrow> 'd \<Rightarrow> 'd \<Rightarrow> 'd symbol_filters \<Rightarrow> (live_error, 'd) outcome" where
  "normalizeEntryQty L sizeQuote price f =
     (if price \<le> 0 then Err ErrInput
      else bind_outcome (ddiv L sizeQuote price) (\<lambda>raw.
           bind_outcome (floorToStep L raw (sf_step f)) (\<lambda>fl.
             let qty = (if sizeQuote < fl * price then fl - sf_step f else fl)
             in if qty \<le> 0 \<or> qty < sf_minQty f \<or> qty * price < sf_minNotional f then Err ErrBelowMinNotional
                else if 0 < sf_maxQty f \<and> sf_maxQty f < qty then Err ErrFilterRejected
                else Ok qty)))"

section \<open>Statuses and identifiers\<close>

definition isTerminal :: "string \<Rightarrow> bool" where
  "isTerminal st \<longleftrightarrow> rank_of st = 3"

text \<open>The empty text keeps the current status.\<close>

definition localStatus :: "string \<Rightarrow> string" where
  "localStatus v =
     (if v = ''NEW'' then ''open'' else if v = ''PARTIALLY_FILLED'' then ''partially_filled''
      else if v = ''FILLED'' then ''filled'' else if v = ''CANCELED'' then ''canceled''
      else if v = ''REJECTED'' then ''rejected'' else if v = ''EXPIRED'' \<or> v = ''EXPIRED_IN_MATCH'' then ''expired''
      else [])"

definition protectiveShaped :: "string \<Rightarrow> bool" where
  "protectiveShaped t \<longleftrightarrow> t \<in> {''STOP_LOSS'', ''STOP_LOSS_LIMIT'', ''TAKE_PROFIT'', ''TAKE_PROFIT_LIMIT''}"

text \<open>The pattern \<open>^amx1-[0-9A-Za-z_-]{22}-[0-9]$\<close>.\<close>

definition token_char :: "char \<Rightarrow> bool" where
  "token_char c \<longleftrightarrow> is_upper_alnum c \<or> (97 \<le> byte_of c \<and> byte_of c \<le> 122) \<or> c = CHR ''_'' \<or> c = CHR ''-''"

definition inNamespace :: "string \<Rightarrow> bool" where
  "inNamespace i \<longleftrightarrow> length i = 29 \<and> take 5 i = ''amx1-'' \<and> list_all token_char (take 22 (drop 5 i))
     \<and> i ! 27 = CHR ''-'' \<and> is_digit (i ! 28)"

definition attemptID :: "string \<Rightarrow> int \<Rightarrow> string" where
  "attemptID token attempt = ''amx1-'' @ token @ ''-'' @ int_string attempt"

definition venueSide :: "string \<Rightarrow> string" where
  "venueSide s = (if s = ''buy'' then ''BUY'' else ''SELL'')"

definition venueOrderType :: "string \<Rightarrow> string" where
  "venueOrderType t = (if t = ''market'' then ''MARKET'' else if t = ''limit'' then ''LIMIT''
     else if t = ''stop'' then ''STOP_LOSS'' else if t = ''take_profit'' then ''TAKE_PROFIT'' else t)"

text \<open>The error classes of the venue adapter.\<close>

datatype venue_class = ClassDefiniteReject | ClassNotFound | ClassThrottled | ClassAmbiguous

definition classify :: "int \<Rightarrow> int \<Rightarrow> duration \<Rightarrow> venue_class \<times> duration" where
  "classify status venueCode retryAfter =
     (if venueCode = - 2013 \<or> venueCode = - 2011 then (ClassNotFound, 0)
      else if venueCode = - 1007 then (ClassAmbiguous, 0)
      else if status = 429 \<or> status = 418 \<or> 500 \<le> status then
        if 0 < retryAfter then (ClassThrottled, retryAfter) else (ClassAmbiguous, 0)
      else if 400 \<le> status \<and> status < 500 \<and> venueCode \<noteq> 0 then (ClassDefiniteReject, 0)
      else (ClassAmbiguous, 0))"

section \<open>Symbols go back and forth\<close>

lemma go_upper_Cons [simp]: "go_upper [] = []" "go_upper (a @ b) = go_upper a @ go_upper b"
  by (simp_all add: go_upper_def)

lemma byte_char: "byte_of (char_of (byte_of c - 32)) = byte_of c - 32"
proof -
  have "of_char c < (256::nat)" by simp
  then have "(of_char c - 32) mod 256 = of_char c - (32::nat)" by (intro mod_less) linarith
  then show ?thesis by (simp add: byte_of_def take_bit_nat_def)
qed

lemma upper_idem: "go_upper (go_upper s) = go_upper s"
  by (induction s) (auto simp: go_upper_def byte_char)

lemma slash_upper: "CHR ''/'' \<notin> set s \<Longrightarrow> CHR ''/'' \<notin> set (go_upper s)"
proof -
  assume s: "CHR ''/'' \<notin> set s"
  have "CHR ''/'' \<noteq> char_of (byte_of c - 32)" if "97 \<le> byte_of c" for c
  proof
    assume "CHR ''/'' = char_of (byte_of c - 32)"
    then have "byte_of (CHR ''/'') = byte_of (char_of (byte_of c - 32))" by simp
    then have "byte_of (CHR ''/'') = byte_of c - 32" by (simp only: byte_char)
    then show False using that by (simp add: byte_of_def)
  qed
  then show ?thesis using s by (auto simp: go_upper_def split: if_splits)
qed

lemma cut_slash_append: "CHR ''/'' \<notin> set b \<Longrightarrow> cut_slash (b @ ''/'' @ q) = Some (b, q)"
  by (induction b) (auto simp: cut_slash_def split: list.splits)

lemma ToBinance_FromBinance:
  assumes "FromBinance v = Some c" and "CHR ''/'' \<notin> set v" shows "ToBinance c = Some (go_upper v)"
proof -
  obtain q where f: "find (\<lambda>q. length q < length (go_upper v) \<and> has_suffix (go_upper v) q) binanceQuoteAssets = Some q"
    and c: "c = take (length (go_upper v) - length q) (go_upper v) @ ''/'' @ q"
    using assms(1) by (auto simp: FromBinance_def Let_def split: option.splits)
  from f have q: "length q < length (go_upper v)" "has_suffix (go_upper v) q" "q \<in> set binanceQuoteAssets"
    by (auto simp: find_Some_iff)
  let ?b = "take (length (go_upper v) - length q) (go_upper v)"
  have b: "CHR ''/'' \<notin> set ?b" using slash_upper [OF assms(2)] by (meson in_set_takeD)
  have v: "?b @ q = go_upper v" using q(2) by (metis append_take_drop_id has_suffix_def)
  have u: "go_upper ?b @ go_upper q = go_upper v" using arg_cong [OF v, of go_upper] by (simp add: upper_idem)
  have "q \<noteq> []" "CHR ''/'' \<notin> set q" using q(3) by (auto simp: binanceQuoteAssets_def)
  moreover have "?b \<noteq> []" using q(1) by auto
  ultimately show ?thesis unfolding ToBinance_def c cut_slash_append [OF b] using u by simp
qed

section \<open>Sizing\<close>

text \<open>The filters in use have positive tick and step.\<close>

definition filters_ok :: "'d::linordered_field live_oms \<Rightarrow> bool" where
  "filters_ok m \<longleftrightarrow> (case lo_filters m of None \<Rightarrow> True
     | Some fs \<Rightarrow> list_all (\<lambda>(_, sf). 0 < sf_tick sf \<and> 0 < sf_step sf) fs)"

lemma parseFilters_positive: "parseFilters L f = Ok sf \<Longrightarrow> 0 < sf_tick sf \<and> 0 < sf_step sf"
  by (auto simp: parseFilters_def bind_outcome_eq_Ok split: if_splits)

lemma set_al_put: "set (al_put k v xs) \<subseteq> insert (k, v) (set xs)"
  by (induction xs) auto

lemma loadFilters_ok: "loadFilters L answer now m = Ok m' \<Longrightarrow> filters_ok m'"
proof -
  assume l: "loadFilters L answer now m = Ok m'"
  then obtain raw fs where f: "fold_ok (\<lambda>fs (v, f). bind_outcome (parseFilters L f) (\<lambda>sf. Ok (al_put v sf fs))) raw [] = Ok fs"
    and m: "lo_filters m' = Some fs"
    by (auto simp: loadFilters_def bind_outcome_eq_Ok split: option.splits)
  have "list_all (\<lambda>(_, sf). 0 < sf_tick sf \<and> 0 < sf_step sf) fs"
    by (rule fold_ok_inv [OF _ _ f])
      (auto simp: list_all_iff bind_outcome_eq_Ok dest!: set_al_put [THEN subsetD] parseFilters_positive)
  then show ?thesis by (simp add: filters_ok_def m)
qed

lemma symbolFiltersFor_positive:
  "filters_ok m \<Longrightarrow> symbolFiltersFor now m v = Ok sf \<Longrightarrow> 0 < sf_tick sf \<and> 0 < sf_step sf"
  by (auto simp: symbolFiltersFor_def filters_ok_def list_all_iff split: if_splits option.splits dest!: map_of_SomeD)

lemma floorToStep_value: "step \<noteq> 0 \<Longrightarrow> floorToStep L d step = Ok (dFloor L (dDiv L d step) * step)"
  by (simp add: floorToStep_def)

text \<open>Rounding a quotient down: at most a hair above the exact one, less than a step below it.\<close>

lemma floorToStep_close:
  assumes "div_documented L" and "floor_documented L" and "0 < step"
  shows "\<exists>k::int. dFloor L (dDiv L d step) * step = of_int k * step
     \<and> of_int k * step \<le> d + step * (unit_of 16 / 2) \<and> d - step * (unit_of 16 / 2) < (of_int k + 1) * step"
proof -
  obtain k :: int where k: "dFloor L (dDiv L d step) = of_int k" "of_int k \<le> dDiv L d step" "dDiv L d step < of_int k + 1"
    using assms(2) by (auto simp: floor_documented_def)
  have c: "\<bar>dDiv L d step - d / step\<bar> \<le> unit_of 16 / 2" by (rule div_documented_close) (use assms in auto)
  have "of_int k \<le> d / step + unit_of 16 / 2" "d / step - unit_of 16 / 2 < of_int k + 1" using k c unfolding abs_le_iff by linarith+
  then have "of_int k * step \<le> (d / step + unit_of 16 / 2) * step" "(d / step - unit_of 16 / 2) * step < (of_int k + 1) * step"
    using assms(3) by (auto intro: mult_right_mono mult_strict_right_mono)
  then show ?thesis using k(1) assms(3) by (intro exI [of _ k]) (auto simp: algebra_simps)
qed

lemma unit_16_le_1: "(unit_of 16 :: 'd::linordered_field) \<le> 1"
  by (simp add: unit_of_def)

lemma normalizeEntryQty_Ok:
  assumes "normalizeEntryQty L s p f = Ok qty" and "0 < sf_step f"
  shows "\<exists>fl. 0 < p \<and> floorToStep L (dDiv L s p) (sf_step f) = (Ok fl :: (live_error, 'd::linordered_field) outcome)
     \<and> qty = (if s < fl * p then fl - sf_step f else fl)
     \<and> 0 < qty \<and> sf_minQty f \<le> qty \<and> sf_minNotional f \<le> qty * p \<and> (sf_maxQty f \<le> 0 \<or> qty \<le> sf_maxQty f)"
proof -
  have p: "0 < p" using assms(1) by (simp add: normalizeEntryQty_def split: if_splits)
  let ?fl = "dFloor L (dDiv L (dDiv L s p) (sf_step f)) * sf_step f"
  have fl: "floorToStep L (dDiv L s p) (sf_step f) = (Ok ?fl :: (live_error, 'd) outcome)"
    by (rule floorToStep_value) (use assms(2) in simp)
  have n: "normalizeEntryQty L s p f = (let q = (if s < ?fl * p then ?fl - sf_step f else ?fl)
     in if q \<le> 0 \<or> q < sf_minQty f \<or> q * p < sf_minNotional f then Err ErrBelowMinNotional
        else if 0 < sf_maxQty f \<and> sf_maxQty f < q then Err ErrFilterRejected else Ok q)"
    using p by (simp add: normalizeEntryQty_def fl)
  show ?thesis using assms(1) p fl unfolding n Let_def
    by (intro exI [of _ ?fl]) (auto split: if_split_asm simp: not_less)
qed

text \<open>C30: an entry never costs more than its cap: whatever the approved size, the reference price and
  the venue's filters (with a lot step the division can resolve), a normalized quantity is a positive
  multiple of the step within the venue's quantity and notional limits, its notional is at most the
  size, and one more step would exceed the size up to the rounding of the two divisions.\<close>

theorem entry_size_bounds:
  fixes L :: "'d::linordered_field dlib"
  assumes "div_documented L" and "floor_documented L" and "unit_of 16 \<le> sf_step f"
    and "normalizeEntryQty L sizeQuote price f = Ok qty"
  shows "0 < qty \<and> (\<exists>k::int. qty = of_int k * sf_step f) \<and> qty * price \<le> sizeQuote
     \<and> sizeQuote < (qty + sf_step f + unit_of 16 * (1 + sf_step f)) * price
     \<and> sf_minQty f \<le> qty \<and> sf_minNotional f \<le> qty * price \<and> (sf_maxQty f \<le> 0 \<or> qty \<le> sf_maxQty f)"
proof -
  let ?st = "sf_step f" and ?h = "unit_of 16 / 2 :: 'd"
  have st: "0 < ?st" by (rule less_le_trans [OF unit_of_pos assms(3)])
  obtain fl where fl: "0 < price" "floorToStep L (dDiv L sizeQuote price) ?st = (Ok fl :: (live_error, 'd) outcome)"
    "qty = (if sizeQuote < fl * price then fl - ?st else fl)"
    and lims: "0 < qty" "sf_minQty f \<le> qty" "sf_minNotional f \<le> qty * price" "sf_maxQty f \<le> 0 \<or> qty \<le> sf_maxQty f"
    using normalizeEntryQty_Ok [OF assms(4) st] by blast
  have v: "fl = dFloor L (dDiv L (dDiv L sizeQuote price) ?st) * ?st"
    using fl(2) st by (simp add: floorToStep_value)
  obtain k :: int where k: "fl = of_int k * ?st" "fl \<le> dDiv L sizeQuote price + ?st * ?h" "dDiv L sizeQuote price - ?st * ?h < fl + ?st"
    using floorToStep_close [OF assms(1,2) st, of "dDiv L sizeQuote price"] unfolding v [symmetric]
    by (auto simp only: distrib_right mult_1)
  have c: "\<bar>dDiv L sizeQuote price - sizeQuote / price\<bar> \<le> ?h" by (rule div_documented_close) (use assms fl in auto)
  have "?h * (1 + ?st) = ?h + ?st * ?h" by (simp add: algebra_simps add_divide_distrib)
  then have "fl \<le> sizeQuote / price + ?h * (1 + ?st)" "sizeQuote / price < fl + ?st + ?h * (1 + ?st)"
    using k(2,3) c unfolding abs_le_iff by linarith+
  then have "fl * price \<le> (sizeQuote / price + ?h * (1 + ?st)) * price" "sizeQuote / price * price < (fl + ?st + ?h * (1 + ?st)) * price"
    using fl(1) by (simp_all only: mult_right_mono less_imp_le mult_strict_right_mono)
  then have upper: "fl * price \<le> sizeQuote + ?h * (1 + ?st) * price" and lower: "sizeQuote < (fl + ?st + ?h * (1 + ?st)) * price"
    using fl(1) by (simp_all add: algebra_simps)
  have "?h * (1 + ?st) \<le> ?st"
  proof -
    have "unit_of 16 * ?st \<le> 1 * ?st" by (rule mult_right_mono [OF unit_16_le_1]) (use st in simp)
    then show ?thesis using assms(3) by (simp add: algebra_simps)
  qed
  then have shave: "?h * (1 + ?st) * price \<le> ?st * price" using fl(1) by (simp only: mult_right_mono less_imp_le)
  have hair: "(x + ?h * (1 + ?st)) * price \<le> (x + unit_of 16 * (1 + ?st)) * price" for x
    using fl(1) st by (intro mult_right_mono add_left_mono) (simp_all add: less_imp_le)
  have "qty * price \<le> sizeQuote" using upper shave fl(3) by (simp add: left_diff_distrib split: if_splits)
  moreover have "sizeQuote < (qty + ?st + unit_of 16 * (1 + ?st)) * price"
  proof (cases "sizeQuote < fl * price")
    case True
    have "0 \<le> unit_of 16 * (1 + ?st) * price" using fl(1) st by (simp add: less_imp_le)
    then show ?thesis using True fl(3) by (simp add: distrib_right)
  next
    case False
    then show ?thesis using less_le_trans [OF lower hair [of "fl + ?st"]] fl(3) by simp
  qed
  moreover have "\<exists>k::int. qty = of_int k * ?st"
    using fl(3) k(1) by (cases "sizeQuote < fl * price") (auto intro: exI [of _ "k - 1"] simp: algebra_simps)
  ultimately show ?thesis using lims by blast
qed

lemma unit_of_nonzero [simp]: "(unit_of n :: 'd::linordered_field) \<noteq> 0"
  using unit_of_pos less_imp_neq by metis

text \<open>Integers a hair apart.\<close>

lemma hair_le:
  fixes h :: "'d::linordered_field"
  assumes "of_int x \<le> of_int y + h" and "h < 1" shows "x \<le> y"
proof -
  have "(of_int x :: 'd) < of_int (y + 1)" using assms by simp
  then show ?thesis unfolding of_int_less_iff by simp
qed

lemma grid_quotient:
  fixes L :: "'d::linordered_field dlib"
  assumes "div_documented L" and "0 < b" and "b < 10 ^ 15"
  shows "\<bar>dDiv L (of_int a * unit_of 8) (of_int b * unit_of 8) * of_int b - of_int a\<bar> < (1 :: 'd)"
proof -
  let ?q = "dDiv L (of_int a * unit_of 8) (of_int b * unit_of 8)" and ?h = "unit_of 16 / 2 :: 'd"
  have "(of_int a * unit_of 8) / (of_int b * unit_of 8) = (of_int a / of_int b :: 'd)"
    by (rule nonzero_mult_divide_mult_cancel_right) (use in simp)
  then have "\<bar>?q - of_int a / of_int b\<bar> \<le> ?h"
    using div_documented_close [OF assms(1), of "of_int b * unit_of 8" "of_int a * unit_of 8"] assms(2)
    by simp
  then have "\<bar>?q - of_int a / of_int b\<bar> * of_int b \<le> ?h * of_int b" by (rule mult_right_mono) (use assms(2) in simp)
  also have "?h * of_int b < ?h * of_int (10 ^ 15)" using assms(2,3) by (intro mult_strict_left_mono) (simp_all only: of_int_less_iff, simp)
  also have "?h * of_int (10 ^ 15) < 1" by (simp add: unit_of_def)
  finally have "\<bar>?q - of_int a / of_int b\<bar> * of_int b < 1" .
  moreover have "\<bar>?q - of_int a / of_int b\<bar> * of_int b = \<bar>(?q - of_int a / of_int b) * of_int b\<bar>" using assms(2) by (simp add: abs_mult)
  moreover have "(?q - of_int a / of_int b) * of_int b = ?q * of_int b - of_int a" using assms(2) by (simp add: left_diff_distrib)
  ultimately show ?thesis by simp
qed

text \<open>a limit price is rounded to the passive side: for prices and ticks with eight decimals (and a
  tick below ten million) the price sent is a multiple of the tick, never above the agent's price for a
  buy and never below it for a sell, and at most one tick away.\<close>

theorem passive_price_bounds:
  fixes L :: "'d::linordered_field dlib"
  assumes "div_documented L" and "floor_documented L" and "0 < b" and "b < 10 ^ 15"
    and "price = of_int a * unit_of 8" and "tick = of_int b * unit_of 8"
  shows "\<exists>k::int. passivePrice L side price tick = (Ok (of_int k * tick) :: (live_error, 'd) outcome)
     \<and> (if side = ''buy'' then of_int k * tick \<le> price \<and> price \<le> (of_int k + 1) * tick
         else price \<le> of_int k * tick \<and> (of_int k - 1) * tick \<le> price)"
proof -
  let ?q = "dDiv L price tick"
  have t: "tick \<noteq> 0" using assms(3,6) by simp
  have c: "\<bar>?q * of_int b - of_int a\<bar> < 1" using grid_quotient [OF assms(1,3,4)] assms(5,6) by simp
  have scale: "x \<le> a \<Longrightarrow> (of_int x :: 'd) * unit_of 8 \<le> price" "a \<le> x \<Longrightarrow> price \<le> (of_int x :: 'd) * unit_of 8" for x
    unfolding assms(5) by (intro mult_right_mono; simp add: less_imp_le)+
  have up: "?q * of_int b \<le> of_int y * of_int b \<Longrightarrow> a \<le> y * b" for y
    by (rule hair_le [where h = "of_int a - ?q * of_int b"]) (use c in \<open>auto simp: abs_less_iff\<close>)
  have down: "of_int y * of_int b \<le> ?q * of_int b \<Longrightarrow> y * b \<le> a" for y
    by (rule hair_le [where h = "?q * of_int b - of_int a"]) (use c in \<open>auto simp: abs_less_iff\<close>)
  have mono: "x \<le> y \<Longrightarrow> x * of_int b \<le> y * (of_int b :: 'd)" for x y using assms(3) by (intro mult_right_mono) simp_all
  have tk: "of_int (y * b) * unit_of 8 = of_int y * tick" for y by (simp add: assms(6) mult.assoc)
  show ?thesis
  proof (cases "side = ''buy''")
    case True
    obtain k :: int where k: "dFloor L ?q = of_int k" "of_int k \<le> ?q" "?q < of_int (k + 1)" using assms(2) by (auto simp: floor_documented_def)
    have "k * b \<le> a" "a \<le> (k + 1) * b" using down [OF mono [OF k(2)]] up [OF mono [OF less_imp_le [OF k(3)]]] by simp_all
    then have "of_int k * tick \<le> price" "price \<le> of_int (k + 1) * tick" using scale unfolding tk [symmetric] by blast+
    then show ?thesis using True t k(1) by (intro exI [of _ k]) (simp add: passivePrice_def floorToStep_def)
  next
    case False
    obtain k :: int where k: "dCeil L ?q = of_int k" "of_int (k - 1) < ?q" "?q \<le> of_int k" using assms(2) by (auto simp: floor_documented_def)
    have "(k - 1) * b \<le> a" "a \<le> k * b" using down [OF mono [OF less_imp_le [OF k(2)]]] up [OF mono [OF k(3)]] by simp_all
    then have "price \<le> of_int k * tick" "of_int (k - 1) * tick \<le> price" using scale unfolding tk [symmetric] by blast+
    then show ?thesis using False t k(1) by (intro exI [of _ k]) (simp add: passivePrice_def ceilToStep_def)
  qed
qed

section \<open>Identifiers\<close>

lemma inNamespace_attempt:
  assumes "length token = 22" and "list_all token_char token" and "0 \<le> n" and "n \<le> 9"
  shows "inNamespace (attemptID token n)"
proof -
  have n: "int_string n = [char_of (48 + n)]" using assms(3,4) by (simp add: int_string_def pad_int_def int_digits.simps)
  have "is_digit (char_of (48 + n))" using digit_char [of n] assms(3,4) by simp
  then show ?thesis using assms(1,2) by (simp add: inNamespace_def attemptID_def n nth_append)
qed

section \<open>Witnesses\<close>

definition demo_filters :: "rat symbol_filters" where
  "demo_filters = \<lparr>sf_tick = 1 / 100, sf_step = 1 / 100, sf_minQty = 1 / 100, sf_maxQty = 9000, sf_minNotional = 10\<rparr>"

lemma rat_text_floor: "floor_documented rat_text_lib"
  using rat_lib_floor by (simp add: floor_documented_def rat_text_lib_def)

theorem entry_size_bounds_witness:
  "normalizeEntryQty rat_text_lib 1001 400 demo_filters = Ok (5 / 2)
   \<and> (5 / 2 :: rat) * 400 \<le> 1001 \<and> 1001 < (5 / 2 + 1 / 100 + unit_of 16 * (1 + 1 / 100)) * (400 :: rat)"
proof -
  have fl: "\<lfloor>1001 / 4 :: rat\<rfloor> = 250" by (rule floor_unique) simp_all
  have n: "normalizeEntryQty rat_text_lib 1001 400 demo_filters = Ok (5 / 2)"
    by (simp add: normalizeEntryQty_def floorToStep_def rat_text_lib_def rat_lib_def demo_filters_def Let_def fl)
  have st: "unit_of 16 \<le> sf_step demo_filters" by (simp add: demo_filters_def unit_of_def)
  from entry_size_bounds [OF rat_text_lib_documented(1) rat_text_floor st n] n show ?thesis by (simp add: demo_filters_def)
qed

theorem passive_price_bounds_witness:
  "\<exists>k::int. passivePrice rat_lib ''buy'' (12345600000 * unit_of 8) (1000000 * unit_of 8) = (Ok (of_int k * (1000000 * unit_of 8)) :: (live_error, rat) outcome)
     \<and> of_int k * (1000000 * unit_of 8) \<le> 12345600000 * (unit_of 8 :: rat)"
  using passive_price_bounds [OF rat_lib_div rat_lib_floor, of 1000000 "12345600000 * unit_of 8" 12345600000 "1000000 * unit_of 8" "''buy''"]
  by auto

end
