(* ===== verification/LiveSubmit.thy ===== *)
theory LiveSubmit
  imports LiveOMS
begin

text \<open>
  The submit path of the live order manager (\<open>internal/oms/live\<close>: submit.go, flatten.go, safety.go,
  clientorderid.go) as threads over one store and one venue: entries, closes, flattens, protective
  placements and cancel sweeps, interleaved at every call on the store or the venue, with the kill
  switch, the reconciler and the rest of the control plane in between. The lock that serializes
  closes with the safety driver is left out, so the model has more interleavings than the code.
\<close>

section \<open>A submission\<close>

record 'd submission =
  sub_strategyID :: string
  sub_symbol :: string
  sub_class :: string
  sub_side :: string
  sub_typ :: string
  sub_origin :: string
  sub_reduceOnly :: bool
  sub_proposalID :: "string option"
  sub_killEpoch :: int
  sub_qty :: 'd
  sub_limitPrice :: 'd
  sub_stopPrice :: 'd
  sub_takeProfit :: 'd

definition cdec_or_zero :: "'d::linordered_field cdecimal option \<Rightarrow> 'd" where
  "cdec_or_zero c = (case c of None \<Rightarrow> 0 | Some d \<Rightarrow> cd_dec d)"

text \<open>What \<open>SubmitApproved\<close> makes of an approved open: the submission and its quote cap.\<close>

definition entry_submission ::
  "'d::linordered_field proposal \<Rightarrow> 'd verdict \<Rightarrow> 'd submission \<times> 'd" where
  "entry_submission p v =
     (\<lparr>sub_strategyID = p_StrategyID p, sub_symbol = p_Symbol p, sub_class = ''ENTRY'',
       sub_side = (if p_Action p = ActionOpenShort then ''sell'' else ''buy''), sub_typ = en_Type (p_Entry p),
       sub_origin = ''proposal'', sub_reduceOnly = False, sub_proposalID = Some (p_ProposalID p), sub_killEpoch = 0, sub_qty = 0,
       sub_limitPrice = cdec_or_zero (en_LimitPrice (p_Entry p)), sub_stopPrice = cdec_or_zero (p_StopLoss p),
       sub_takeProfit = cdec_or_zero (p_TakeProfit p)\<rparr>,
      case v_ClippedSizeQuote v of Some c \<Rightarrow> cd_dec c | None \<Rightarrow> cd_dec (p_SizeQuote p))"

text \<open>The sizing of \<open>submitEntry\<close>, after the store was read: symbol, filters, price, quantity.\<close>

definition sizeEntry ::
  "'d::linordered_field dlib \<Rightarrow> 'd live_oms \<Rightarrow> instant \<Rightarrow> 'd option \<Rightarrow> 'd submission \<Rightarrow> 'd \<Rightarrow> (live_error, 'd submission) outcome" where
  "sizeEntry L m now mark sub cap =
     (case al_get (lo_venueOf m) (sub_symbol sub) of
        None \<Rightarrow> Err ErrSymbol
      | Some v \<Rightarrow>
          bind_outcome (symbolFiltersFor now m v) (\<lambda>sf.
          if cap \<le> 0 then Err ErrInput
          else bind_outcome
            (if sub_typ sub = ''limit'' then
               if sub_limitPrice sub \<le> 0 then Err ErrInput
               else bind_outcome (passivePrice L (sub_side sub) (sub_limitPrice sub) (sf_tick sf))
                 (\<lambda>p. Ok (sub\<lparr>sub_limitPrice := p\<rparr>, p))
             else if sub_typ sub = ''market'' then
               (case mark of None \<Rightarrow> Err ErrNoMark | Some p \<Rightarrow> Ok (sub, p))
             else Err ErrInput)
            (\<lambda>(sub', p). bind_outcome (normalizeEntryQty L cap p sf) (\<lambda>q. Ok (sub'\<lparr>sub_qty := q\<rparr>)))))"

text \<open>\<open>optDec\<close>: a strictly positive decimal as a nullable column.\<close>

definition live_optDec :: "'d::linordered_field dlib \<Rightarrow> 'd \<Rightarrow> string option" where
  "live_optDec L d = (if d \<le> 0 then None else Some (dString L d))"

definition journal_row :: "'d::linordered_field dlib \<Rightarrow> 'd submission \<Rightarrow> string \<Rightarrow> instant \<Rightarrow> order_row" where
  "journal_row L sub orderID now =
     \<lparr>or_OrderID = orderID, or_ProposalID = sub_proposalID sub, or_Origin = sub_origin sub, or_StrategyID = sub_strategyID sub,
      or_Symbol = sub_symbol sub, or_Class = sub_class sub, or_Side = sub_side sub, or_Type = sub_typ sub,
      or_ReduceOnly = sub_reduceOnly sub, or_QtyBase = dString L (sub_qty sub), or_LimitPrice = live_optDec L (sub_limitPrice sub),
      or_StopPrice = live_optDec L (sub_stopPrice sub), or_TakeProfit = live_optDec L (sub_takeProfit sub), or_FillPrice = None,
      or_KillEpoch = sub_killEpoch sub, or_Status = ''pending_new'', or_SubmittedAt = format_seconds now, or_FilledAt = None,
      or_ClientOrderID = None, or_ExchangeOrderID = None\<rparr>"

definition journal_intent :: "'d::linordered_field dlib \<Rightarrow> 'd live_oms \<Rightarrow> 'd submission \<Rightarrow> string \<Rightarrow> string \<Rightarrow> instant \<Rightarrow> intent_row" where
  "journal_intent L m sub token orderID now =
     \<lparr>oi_ClientOrderID = attemptID token 0, oi_IntentToken = token, oi_Attempt = 0, oi_OrderID = orderID,
      oi_StrategyID = sub_strategyID sub, oi_Symbol = sub_symbol sub,
      oi_VenueSymbol = (case al_get (lo_venueOf m) (sub_symbol sub) of None \<Rightarrow> [] | Some v \<Rightarrow> v),
      oi_Side = sub_side sub, oi_Type = sub_typ sub, oi_QtyBase = dString L (sub_qty sub),
      oi_LimitPrice = live_optDec L (sub_limitPrice sub), oi_StopPrice = live_optDec L (sub_stopPrice sub),
      oi_Origin = sub_origin sub, oi_ProposalID = sub_proposalID sub, oi_KillEpoch = sub_killEpoch sub,
      oi_JournaledAt = format_seconds now, oi_ClaimedAt = None, oi_ClaimRevokedAt = None\<rparr>"

text \<open>The attempt that follows a poisoned one.\<close>

definition next_attempt :: "intent_row \<Rightarrow> instant \<Rightarrow> intent_row" where
  "next_attempt i now = i\<lparr>oi_Attempt := oi_Attempt i + 1, oi_ClientOrderID := attemptID (oi_IntentToken i) (oi_Attempt i + 1),
     oi_JournaledAt := format_seconds now, oi_ClaimedAt := None, oi_ClaimRevokedAt := None\<rparr>"

text \<open>\<open>newIntentToken\<close>: sixteen random bytes in unpadded base64url, six bits to a character.\<close>

definition base64url_char :: "nat \<Rightarrow> char" where
  "base64url_char n = (if n < 26 then char_of (65 + n) else if n < 52 then char_of (97 + (n - 26))
     else if n < 62 then char_of (48 + (n - 52)) else if n = 62 then CHR ''-'' else CHR ''_'')"

fun base64url :: "nat list \<Rightarrow> string" where
  "base64url [] = []"
| "base64url [a] = [base64url_char (a div 4), base64url_char (a mod 4 * 16)]"
| "base64url [a, b] = [base64url_char (a div 4), base64url_char (a mod 4 * 16 + b div 16), base64url_char (b mod 16 * 4)]"
| "base64url (a # b # c # xs) =
     [base64url_char (a div 4), base64url_char (a mod 4 * 16 + b div 16), base64url_char (b mod 16 * 4 + c div 64), base64url_char (c mod 64)]
     @ base64url xs"

record place_request =
  pq_VenueSymbol :: string
  pq_Side :: string
  pq_Type :: string
  pq_Qty :: string
  pq_Price :: string
  pq_StopPrice :: string
  pq_NewClientOrderID :: string
  pq_TimeInForce :: string

definition request_of :: "intent_row \<Rightarrow> place_request" where
  "request_of i =
     \<lparr>pq_VenueSymbol = oi_VenueSymbol i, pq_Side = venueSide (oi_Side i), pq_Type = venueOrderType (oi_Type i), pq_Qty = oi_QtyBase i,
      pq_Price = (case oi_LimitPrice i of None \<Rightarrow> [] | Some p \<Rightarrow> p),
      pq_StopPrice = (case oi_StopPrice i of None \<Rightarrow> [] | Some p \<Rightarrow> p),
      pq_NewClientOrderID = oi_ClientOrderID i,
      pq_TimeInForce = (case oi_LimitPrice i of None \<Rightarrow> [] | Some _ \<Rightarrow> ''GTC'')\<rparr>"

section \<open>Reconciliation events\<close>

definition event_row :: "string \<Rightarrow> string \<Rightarrow> string \<Rightarrow> instant \<Rightarrow> recon_row" where
  "event_row uuid kind details now =
     \<lparr>re_EventID = uuid, re_Kind = kind, re_RunID = None, re_StrategyID = None, re_Symbol = None, re_ClientOrderID = None,
      re_ExchangeOrderID = None, re_ExchangeTradeID = None, re_DetailsJSON = details, re_RecordedAt = format_seconds now\<rparr>"

definition json_pair :: "string \<Rightarrow> string \<Rightarrow> string" where
  "json_pair k v = go_quote k @ '':'' @ go_quote v"

definition intent_event :: "intent_row \<Rightarrow> string \<Rightarrow> string \<Rightarrow> string \<Rightarrow> instant \<Rightarrow> recon_row" where
  "intent_event i uuid kind details now = (event_row uuid kind details now)\<lparr>re_StrategyID := Some (oi_StrategyID i),
     re_Symbol := Some (oi_Symbol i), re_ClientOrderID := Some (oi_ClientOrderID i)\<rparr>"

section \<open>The venue's answers\<close>

text \<open>An acknowledgement (order id, status), or an error: its class, the interval to wait, whether it
  reports a filter violation, and its details as they are logged.\<close>

datatype venue_answer = VAck int string | VErr venue_class duration bool string

text \<open>A throttled request with an interval to wait was not executed, as the adapter documents.\<close>

definition not_executed :: "venue_answer \<Rightarrow> bool" where
  "not_executed a = (case a of VAck _ _ \<Rightarrow> False | VErr c d _ _ \<Rightarrow> c = ClassThrottled \<and> 0 < d)"

text \<open>What a step reads from its surroundings.\<close>

record 'd env =
  en_now :: instant
  en_uuid :: string
  en_bytes :: "nat list"
  en_mark :: "'d option"
  en_answer :: venue_answer
  en_balances :: "(string \<times> string) list option"

section \<open>The threads\<close>

text \<open>
  Where a thread of the order manager is. Every call on the store or the venue is one step; what the
  code computes between two calls belongs to the step before. An entry starts at \<open>AtGate\<close>, a close at
  \<open>AtClose\<close>, a flatten at \<open>AtFlatten\<close>, a protective placement at \<open>PJournal\<close>, a cancel sweep at \<open>AtList\<close>
  (the empty strategy sweeps all).
\<close>

datatype entry_at = AtGate | AtBreaker | AtStamp | AtActive | AtSize

datatype send_at =
    AtClaim | AtKill | AtReread | AtPlace | AtAbandon
  | AtRefused bool string
  | AtAck int string bool
  | AtAckStatus int string bool
  | AtAckEvent int string
  | AtQuery nat
  | AtPoison | AtKill2
  | AtReject live_error
  | AtNext

datatype 'd flatten_at =
    AtClose string string "string option"
  | AtFlatten string string string "string option"
  | AtBalance "'d submission" "'d symbol_filters"
  | AtShort "'d submission" "'d symbol_filters" 'd
  | AtFlatSize "'d submission" "'d symbol_filters" 'd bool
  | AtDust "'d submission" "'d symbol_filters" 'd bool
  | AtFlatStamp "'d submission"

datatype sweep_at =
    AtList string
  | AtRevoke "order_row list"
  | AtCancel order_row "order_row list"
  | AtCanceled order_row "order_row list"

datatype flatten_outcome = FlattenDust | FlattenShortBalanceBounded

datatype 'd pc =
    PEntry entry_at "'d submission" 'd
  | PJournal "'d submission"
  | PSend send_at intent_row
  | PFlat "'d flatten_at"
  | PSweep sweep_at
  | PDone "live_error option"
  | FDone flatten_outcome
  | PCrash

text \<open>The effect of a step: where the thread goes, the tables, a placement handed to the venue, and
  whether the filters were found stale.\<close>

record 'd effect =
  ef_pc :: "'d pc"
  ef_db :: store_db
  ef_sent :: "(place_request \<times> venue_answer) option"
  ef_stale :: bool

definition go :: "'d pc \<Rightarrow> store_db \<Rightarrow> 'd effect" where
  "go p db = \<lparr>ef_pc = p, ef_db = db, ef_sent = None, ef_stale = False\<rparr>"

text \<open>After a call: its error ends the thread and leaves the tables.\<close>

definition after :: "store_db \<Rightarrow> (live_error, 'a) outcome \<Rightarrow> ('a \<Rightarrow> 'd effect) \<Rightarrow> 'd effect" where
  "after db r k = (case r of Ok a \<Rightarrow> k a | Err e \<Rightarrow> go (PDone (Some e)) db | Panic \<Rightarrow> go PCrash db | Diverge \<Rightarrow> go PCrash db)"

definition after_store :: "store_db \<Rightarrow> (store_error, 'a) outcome \<Rightarrow> ('a \<Rightarrow> 'd effect) \<Rightarrow> 'd effect" where
  "after_store db r = after db (lift_store r)"

text \<open>The reads of a flatten: \<open>positionQty\<close> and \<open>freeBalance\<close>.\<close>

definition positionQty :: "'d::linordered_field dlib \<Rightarrow> store_db \<Rightarrow> string \<Rightarrow> string \<Rightarrow> (live_error, 'd) outcome" where
  "positionQty L db s sy = (case find (\<lambda>r. pr_Symbol r = sy) (ListPositions db s) of
      None \<Rightarrow> Ok 0 | Some r \<Rightarrow> live_parse L (pr_QtyBase r))"

definition freeBalance :: "'d::linordered_field dlib \<Rightarrow> (string \<times> string) list option \<Rightarrow> string \<Rightarrow> (live_error, 'd) outcome" where
  "freeBalance L balances asset = (case balances of
      None \<Rightarrow> Err ErrVenue
    | Some bs \<Rightarrow> (case find (\<lambda>(a, _). a = asset) bs of None \<Rightarrow> Ok 0 | Some (_, free) \<Rightarrow> live_parse L free))"

text \<open>The head of \<open>flattenWithOutcome\<close>: gate, symbol, filters, position; a sell asks for the balance.\<close>

definition flatten_start ::
  "'d::linordered_field dlib \<Rightarrow> 'd live_oms \<Rightarrow> instant \<Rightarrow> store_db \<Rightarrow> string \<Rightarrow> string \<Rightarrow> string \<Rightarrow> string option \<Rightarrow> (live_error, 'd pc) outcome" where
  "flatten_start L m now db s sy origin pid =
     (if \<not> Reconciled m then Err ErrReconcilePending
      else case al_get (lo_venueOf m) sy of
        None \<Rightarrow> Err ErrSymbol
      | Some v \<Rightarrow>
          bind_outcome (symbolFiltersFor now m v) (\<lambda>sf.
          bind_outcome (positionQty L db s sy) (\<lambda>pos.
          let sub = \<lparr>sub_strategyID = s, sub_symbol = sy, sub_class = ''PROTECTIVE'', sub_side = (if pos < 0 then ''buy'' else ''sell''),
                sub_typ = ''market'', sub_origin = origin, sub_reduceOnly = True, sub_proposalID = pid, sub_killEpoch = 0,
                sub_qty = \<bar>pos\<bar>, sub_limitPrice = 0, sub_stopPrice = 0, sub_takeProfit = 0\<rparr>
          in if pos = 0 then Err ErrNoPosition
             else if 0 < pos then (if splitSymbol sy = None then Err ErrSymbol else Ok (PFlat (AtBalance sub sf)))
             else Ok (PFlat (AtFlatSize sub sf \<bar>pos\<bar> False)))))"

text \<open>The size of a flatten, and whether it is dust at the venue.\<close>

definition flatten_size ::
  "'d::linordered_field dlib \<Rightarrow> 'd symbol_filters \<Rightarrow> 'd option \<Rightarrow> 'd \<Rightarrow> (live_error, 'd \<times> bool) outcome" where
  "flatten_size L sf mark avail =
     bind_outcome (floorToStep L avail (sf_step sf)) (\<lambda>qty.
       let dust = qty \<le> 0 \<or> qty < sf_minQty sf
       in Ok (qty, dust \<or> (0 < sf_minNotional sf \<and> (case mark of None \<Rightarrow> False | Some p \<Rightarrow> qty * p < sf_minNotional sf))))"

definition flatten_event :: "'d submission \<Rightarrow> recon_row \<Rightarrow> recon_row" where
  "flatten_event sub e = e\<lparr>re_StrategyID := Some (sub_strategyID sub), re_Symbol := Some (sub_symbol sub)\<rparr>"

text \<open>The orders of a cancel sweep.\<close>

definition sweep_orders :: "store_db \<Rightarrow> string \<Rightarrow> order_row list" where
  "sweep_orders db s = filter (\<lambda>r. or_Class r = ''ENTRY'' \<and> (s = [] \<or> or_StrategyID r = s)) (ListNonTerminalLiveOrders db)"

definition sweep_next :: "order_row list \<Rightarrow> 'd pc" where
  "sweep_next rs = (if rs = [] then PDone None else PSweep (AtRevoke rs))"

text \<open>\<open>transmit\<close> re-reads the highest kill epoch before each send.\<close>

definition stale :: "store_db \<Rightarrow> intent_row \<Rightarrow> bool" where
  "stale db i \<longleftrightarrow> oi_KillEpoch i < GlobalMaxKillEpoch db (oi_StrategyID i)"

text \<open>\<open>submitEntry\<close> up to the journal.\<close>

definition entry_step :: "'d::linordered_field dlib \<Rightarrow> 'd live_oms \<Rightarrow> 'd env \<Rightarrow> store_db \<Rightarrow> entry_at \<Rightarrow> 'd submission \<Rightarrow> 'd \<Rightarrow> 'd effect" where
  "entry_step L m e db w sub cap = (case w of
    AtGate \<Rightarrow>
     (if Reconciled m then go (PEntry AtBreaker sub cap) db else go (PDone (Some ErrReconcilePending)) db)
  | AtBreaker \<Rightarrow>
     (if BreakerActiveToday db (sub_strategyID sub) (utcDate (en_now e)) then go (PDone (Some ErrBreakerActive)) db
           else go (PEntry AtStamp sub cap) db)
  | AtStamp \<Rightarrow>
     go (PEntry AtActive (sub\<lparr>sub_killEpoch := GlobalMaxKillEpoch db (sub_strategyID sub)\<rparr>) cap) db
  | AtActive \<Rightarrow>
     (if ActiveKill db (sub_strategyID sub) then go (PDone (Some ErrKillSwitchActive)) db else go (PEntry AtSize sub cap) db)
  | AtSize \<Rightarrow>
     after db (sizeEntry L m (en_now e) (en_mark e) sub cap) (\<lambda>s. go (PJournal s) db))"

text \<open>\<open>journalAndSend\<close>: sixteen bytes, or the token source failed.\<close>

definition journal_step :: "'d::linordered_field dlib \<Rightarrow> 'd live_oms \<Rightarrow> 'd env \<Rightarrow> store_db \<Rightarrow> 'd submission \<Rightarrow> 'd effect option" where
  "journal_step L m e db sub =
     (if length (en_bytes e) \<noteq> 16 \<or> list_ex (\<lambda>b. 256 \<le> b) (en_bytes e) then None
      else let i = journal_intent L m sub (base64url (en_bytes e)) (en_uuid e) (en_now e)
           in Some (after_store db (InsertJournaledOrder (journal_row L sub (en_uuid e) (en_now e)) i db) (go (PSend AtClaim i))))"

text \<open>\<open>sendIntent\<close>, \<open>transmit\<close> and what they call, for one attempt.\<close>

definition attempt_step :: "'d env \<Rightarrow> store_db \<Rightarrow> send_at \<Rightarrow> intent_row \<Rightarrow> 'd effect" where
  "attempt_step e db w i = (case w of
    AtClaim \<Rightarrow>
     after_store db (RecordIntentClaim (oi_ClientOrderID i) (format_seconds (en_now e)) db)
       (\<lambda>(d, claimed). go (if claimed then PSend AtKill i else PDone None) d)
  | AtKill \<Rightarrow>
     go (if stale db i then PSend AtAbandon i else PSend AtReread i) db
  | AtReread \<Rightarrow>
     after_store db (GetOrderIntent db (oi_ClientOrderID i))
       (\<lambda>row. go (if oi_ClaimRevokedAt row \<noteq> None then PDone None else PSend AtPlace i) db)
  | AtPlace \<Rightarrow>
     (go (case en_answer e of
          VAck eid st \<Rightarrow> PSend (AtAck eid st False) i
        | VErr c d viol details \<Rightarrow>
            if c = ClassDefiniteReject then PSend (AtRefused viol details) i
            else if c = ClassThrottled \<and> 0 < d then PSend AtKill i
            else PSend (AtQuery 0) i) db)\<lparr>ef_sent := Some (request_of i, en_answer e)\<rparr>
  | AtAbandon \<Rightarrow>
     after_store db (bind_outcome (RecordOrderStatus (oi_OrderID i) ''rejected'' db) (\<lambda>(d, _).
         AppendOMSReconEvent (intent_event i (en_uuid e) ''intent_resolved_absent''
           (''{'' @ json_pair ''reason'' ''kill_epoch_stale'' @ ''}'') (en_now e)) d))
       (go (PDone (Some ErrKillEpochStale)))
  | AtRefused viol details \<Rightarrow>
     after_store db (bind_outcome (RecordOrderStatus (oi_OrderID i) ''rejected'' db) (\<lambda>(d, _).
         AppendOMSReconEvent (intent_event i (en_uuid e) ''intent_resolved_absent'' details (en_now e)) d))
       (\<lambda>d. (go (PDone (Some ErrExchangeRejected)) d)\<lparr>ef_stale := viol\<rparr>)
  | AtAck eid st resolved \<Rightarrow>
     after_store db (RecordExchangeAck (oi_OrderID i) (int_string eid) db) (\<lambda>d.
       go (if localStatus st \<noteq> [] then PSend (AtAckStatus eid st resolved) i
           else if resolved then PSend (AtAckEvent eid st) i else PDone None) d)
  | AtAckStatus eid st resolved \<Rightarrow>
     after_store db (RecordOrderStatus (oi_OrderID i) (localStatus st) db) (\<lambda>(d, _).
       go (if resolved then PSend (AtAckEvent eid st) i else PDone None) d)
  | AtAckEvent eid st \<Rightarrow>
     after_store db (AppendOMSReconEvent ((intent_event i (en_uuid e) ''intent_resolved_present''
         (''{'' @ json_pair ''venue_status'' st @ ''}'') (en_now e))\<lparr>re_ExchangeOrderID := Some (int_string eid)\<rparr>) db)
       (go (PDone None))
  | AtQuery try \<Rightarrow>
     go (case en_answer e of
          VAck eid st \<Rightarrow> PSend (AtAck eid st True) i
        | VErr c _ _ _ \<Rightarrow> if c = ClassNotFound then PSend AtPoison i
            else if try + 1 < 5 then PSend (AtQuery (try + 1)) i else PDone (Some ErrVenueUnreachable)) db
  | AtPoison \<Rightarrow>
     after_store db (AppendOMSReconEvent (intent_event i (en_uuid e) ''intent_resolved_absent''
         (''{'' @ json_pair ''reason'' ''poisoned'' @ ''}'') (en_now e)) db) (go (PSend AtKill2 i))
  | AtKill2 \<Rightarrow>
     go (if stale db i then PSend (AtReject ErrKillEpochStale) i
               else if 9 \<le> oi_Attempt i then PSend (AtReject ErrExhausted) i
               else PSend AtNext (next_attempt i (en_now e))) db
  | AtReject err \<Rightarrow>
     after_store db (RecordOrderStatus (oi_OrderID i) ''rejected'' db) (\<lambda>(d, _). go (PDone (Some err)) d)
  | AtNext \<Rightarrow>
     after_store db (RecordIntentAttempt i db) (go (PSend AtClaim i)))"

text \<open>\<open>flattenWithOutcome\<close> up to the journal.\<close>

definition flatten_step :: "'d::linordered_field dlib \<Rightarrow> 'd live_oms \<Rightarrow> 'd env \<Rightarrow> store_db \<Rightarrow> 'd flatten_at \<Rightarrow> 'd effect" where
  "flatten_step L m e db w = (case w of
    AtClose s sy pid \<Rightarrow>
     (if Reconciled m then go (PFlat (AtFlatten s sy ''proposal'' pid)) db else go (PDone (Some ErrReconcilePending)) db)
  | AtFlatten s sy origin pid \<Rightarrow>
     after db (flatten_start L m (en_now e) db s sy origin pid) (\<lambda>p. go p db)
  | AtBalance sub sf \<Rightarrow>
     after db (case splitSymbol (sub_symbol sub) of
           None \<Rightarrow> Err ErrSymbol | Some (base, _) \<Rightarrow> freeBalance L (en_balances e) base)
       (\<lambda>free. go (if free < sub_qty sub then PFlat (AtShort sub sf free) else PFlat (AtFlatSize sub sf (sub_qty sub) False)) db)
  | AtShort sub sf free \<Rightarrow>
     after_store db (AppendOMSReconEvent (flatten_event sub (event_row (en_uuid e) ''flatten_short_balance''
         (''{'' @ json_pair ''local_position'' (dString L (sub_qty sub)) @ '','' @ json_pair ''venue_free'' (dString L free) @ ''}'')
         (en_now e))) db) (go (PFlat (AtFlatSize sub sf free True)))
  | AtFlatSize sub sf avail short \<Rightarrow>
     after db (flatten_size L sf (en_mark e) avail)
       (\<lambda>(qty, dust). go (if dust then PFlat (AtDust sub sf avail short) else PFlat (AtFlatStamp (sub\<lparr>sub_qty := qty\<rparr>))) db)
  | AtDust sub sf avail short \<Rightarrow>
     after_store db (AppendOMSReconEvent (flatten_event sub (event_row (en_uuid e) ''flatten_dust''
         (''{'' @ json_pair ''min_notional'' (dString L (sf_minNotional sf)) @ '','' @ json_pair ''min_qty'' (dString L (sf_minQty sf))
           @ '','' @ json_pair ''remaining'' (dString L avail) @ ''}'') (en_now e))) db)
       (go (FDone (if short then FlattenShortBalanceBounded else FlattenDust)))
  | AtFlatStamp sub \<Rightarrow>
     go (PJournal (sub\<lparr>sub_killEpoch := GlobalMaxKillEpoch db (sub_strategyID sub)\<rparr>)) db)"

text \<open>\<open>CancelOpenEntries\<close>.\<close>

definition sweep_step :: "'d live_oms \<Rightarrow> 'd env \<Rightarrow> store_db \<Rightarrow> sweep_at \<Rightarrow> 'd effect" where
  "sweep_step m e db w = (case w of
    AtList s \<Rightarrow>
     go (sweep_next (sweep_orders db s)) db
  | AtRevoke rs \<Rightarrow>
     (case rs of
        [] \<Rightarrow> go (PDone None) db
      | r # rest \<Rightarrow>
          let onward = (if al_get (lo_venueOf m) (or_Symbol r) = None then sweep_next rest else PSweep (AtCancel r rest))
          in if or_Status r \<noteq> ''pending_new'' then go onward db
             else (case RecordIntentClaimRevoked (the (or_ClientOrderID r)) (format_seconds (en_now e)) db of
                 Ok d \<Rightarrow> go onward d
               | Err err \<Rightarrow> if err = ErrNotFound then go onward db else go (PDone (Some (ErrLiveStore err))) db
               | _ \<Rightarrow> go PCrash db))
  | AtCancel r rest \<Rightarrow>
     go (case en_answer e of
          VAck _ _ \<Rightarrow> PSweep (AtCanceled r rest)
        | VErr c _ _ _ \<Rightarrow> if c = ClassNotFound then PSweep (AtCanceled r rest) else sweep_next rest) db
  | AtCanceled r rest \<Rightarrow>
     after_store db (RecordOrderStatus (or_OrderID r) ''canceled'' db) (\<lambda>(d, _). go (sweep_next rest) d))"

definition proc_step :: "'d::linordered_field dlib \<Rightarrow> 'd live_oms \<Rightarrow> 'd env \<Rightarrow> store_db \<Rightarrow> 'd pc \<Rightarrow> 'd effect option" where
  "proc_step L m e db p = (case p of
      PEntry w sub cap \<Rightarrow> Some (entry_step L m e db w sub cap)
    | PJournal sub \<Rightarrow> journal_step L m e db sub
    | PSend w i \<Rightarrow> Some (attempt_step e db w i)
    | PFlat w \<Rightarrow> Some (flatten_step L m e db w)
    | PSweep w \<Rightarrow> Some (sweep_step m e db w)
    | _ \<Rightarrow> None)"

section \<open>The machine\<close>

text \<open>A thread, and whether it is an entry that went through \<open>submitEntry\<close>; a placement with its thread
  and answer; the whole state.\<close>

record placement =
  pl_by :: nat
  pl_req :: place_request
  pl_answer :: venue_answer

record 'd send_state =
  ss_oms :: "'d live_oms"
  ss_db :: store_db
  ss_sent :: "placement list"
  ss_pcs :: "'d pc list"

text \<open>What others do: live operations, the kill switch, the reconciler on the gate state, and the rest
  of the control plane, which keeps the live tables, the kill ledger and the tenants of strategies.\<close>

datatype 'd act =
    Step nat "'d env"
  | Live live_op
  | Kill kill_op
  | Gate "'d live_oms"
  | Rest store_db

definition keeps_tenants :: "store_db \<Rightarrow> store_db \<Rightarrow> bool" where
  "keeps_tenants db d \<longleftrightarrow> list_all (\<lambda>r. tenant_of d (sg_StrategyID r) = tenant_of db (sg_StrategyID r)) (db_strategies db)"

definition rest_of :: "store_db \<Rightarrow> store_db \<Rightarrow> store_db" where
  "rest_of d db = (live_tables d db)\<lparr>db_kills := db_kills db, db_clears := db_clears db\<rparr>"

definition is_rest :: "live_op \<Rightarrow> bool" where
  "is_rest op = (case op of LOther _ \<Rightarrow> True | _ \<Rightarrow> False)"

definition thread_effect :: "nat \<Rightarrow> 'd effect \<Rightarrow> 'd send_state \<Rightarrow> 'd send_state" where
  "thread_effect k f s = s\<lparr>
     ss_oms := (if ef_stale f then (ss_oms s)\<lparr>lo_filtersStale := True\<rparr> else ss_oms s), ss_db := ef_db f,
     ss_sent := ss_sent s @ (case ef_sent f of None \<Rightarrow> [] | Some (r, a) \<Rightarrow> [\<lparr>pl_by = k, pl_req = r, pl_answer = a\<rparr>]),
     ss_pcs := (ss_pcs s)[k := ef_pc f]\<rparr>"

definition send_step :: "'d::linordered_field dlib \<Rightarrow> (nat \<Rightarrow> string) \<Rightarrow> 'd send_state \<Rightarrow> 'd act \<Rightarrow> 'd send_state option" where
  "send_step L U s a = (case a of
      Step k e \<Rightarrow>
        if k < length (ss_pcs s)
        then map_option (\<lambda>f. thread_effect k f s) (proc_step L (ss_oms s) e (ss_db s) (ss_pcs s ! k))
        else None
    | Live op \<Rightarrow> if is_rest op then None else map_option (\<lambda>d. s\<lparr>ss_db := d\<rparr>) (live_step L (ss_db s) op)
    | Kill op \<Rightarrow> map_option (\<lambda>d. s\<lparr>ss_db := d\<rparr>) (kill_step U (ss_db s) op)
    | Gate m \<Rightarrow> Some (s\<lparr>ss_oms := m\<rparr>)
    | Rest d \<Rightarrow> if keeps_tenants (ss_db s) d then Some (s\<lparr>ss_db := rest_of d (ss_db s)\<rparr>) else None)"

section \<open>What a step of a thread does\<close>

text \<open>The intent a thread carries once it was journaled.\<close>

definition intent_of :: "'d pc \<Rightarrow> intent_row option" where
  "intent_of p = (case p of PSend w i \<Rightarrow> if w = AtNext then None else Some i | _ \<Rightarrow> None)"

text \<open>A thread that holds the claim of an attempt and has not placed it.\<close>

definition armed :: "'d pc \<Rightarrow> intent_row option" where
  "armed p = (case p of PSend w i \<Rightarrow> if w \<in> {AtKill, AtReread, AtPlace} then Some i else None | _ \<Rightarrow> None)"

lemma after_cases:
  "after db r k = f \<Longrightarrow> (\<exists>a. r = Ok a \<and> f = k a) \<or> (\<exists>p. f = go p db \<and> armed p = None \<and> intent_of p = None)"
  by (cases r) (auto simp: after_def go_def armed_def intent_of_def)

lemma go_simps [simp]:
  "ef_pc (go p db) = p" "ef_db (go p db) = db" "ef_sent (go p db) = None" "ef_stale (go p db) = False"
  by (simp_all add: go_def)

text \<open>A thread that ended.\<close>

definition stopped :: "'d pc \<Rightarrow> bool" where
  "stopped p = (case p of PDone _ \<Rightarrow> True | FDone _ \<Rightarrow> True | PCrash \<Rightarrow> True | _ \<Rightarrow> False)"

lemma stopped_quiet [simp]: "stopped p \<Longrightarrow> armed p = None" "stopped p \<Longrightarrow> intent_of p = None"
  by (auto simp: stopped_def armed_def intent_of_def split: pc.splits)

lemma after_elim:
  assumes "f = after db r k" obtains a where "r = Ok a" "f = k a" | p where "f = go p db" "stopped p"
  using assms by (cases r) (auto simp: after_def stopped_def)

lemma after_store_elim:
  assumes "f = after_store db r k" obtains a where "r = Ok a" "f = k a" | p where "f = go p db" "stopped p"
  using assms by (cases r) (auto simp: after_store_def after_def lift_store_def stopped_def)

lemma after_store_iff:
  "P (after_store db r k) \<longleftrightarrow> (case r of Ok a \<Rightarrow> P (k a) | Err e \<Rightarrow> P (go (PDone (Some (ErrLiveStore e))) db)
     | Panic \<Rightarrow> P (go PCrash db) | Diverge \<Rightarrow> P (go PCrash db))"
  by (cases r) (simp_all add: after_store_def after_def lift_store_def)

text \<open>The tables after a step are those of a run of the live operations with typed arguments.\<close>

definition plain_ops :: "live_op list \<Rightarrow> bool" where
  "plain_ops ops \<longleftrightarrow> list_all (\<lambda>op. \<not> is_rest op \<and> typed_op op) ops"

definition by_ops :: "'d::linordered_field dlib \<Rightarrow> store_db \<Rightarrow> store_db \<Rightarrow> bool" where
  "by_ops L db d \<longleftrightarrow> (\<exists>ops. plain_ops ops \<and> run (live_step L) db ops = Some d)"

lemma by_ops_refl [simp]: "by_ops L db db"
  unfolding by_ops_def plain_ops_def by (intro exI [of _ "[]"]) simp

lemma by_ops_one: "\<not> is_rest op \<Longrightarrow> typed_op op \<Longrightarrow> live_op L op db = Ok d \<Longrightarrow> by_ops L db d"
  unfolding by_ops_def plain_ops_def by (intro exI [of _ "[op]"]) (simp add: live_step_def)

lemma by_ops_trans: assumes "by_ops L a b" and "by_ops L b c" shows "by_ops L a c"
proof -
  obtain xs ys where "plain_ops xs" "run (live_step L) a xs = Some b" "plain_ops ys" "run (live_step L) b ys = Some c"
    using assms by (auto simp: by_ops_def)
  then show ?thesis unfolding by_ops_def plain_ops_def by (intro exI [of _ "xs @ ys"]) (simp add: run_append)
qed

lemma by_ops_evolves: "by_ops L db d \<Longrightarrow> evolves db d"
  unfolding by_ops_def using run_evolves by blast

lemma by_ops_simps:
  "InsertJournaledOrder r i db = Ok d \<Longrightarrow> statusRank (or_Status r) \<noteq> None \<Longrightarrow> oi_OrderID i = or_OrderID r \<Longrightarrow> by_ops L db d"
  "RecordIntentAttempt i db = Ok d \<Longrightarrow> by_ops L db d"
  "AppendOMSReconEvent ev db = Ok d \<Longrightarrow> by_ops L db d"
  "RecordIntentClaim c ts db = Ok (d, t) \<Longrightarrow> by_ops L db d"
  "RecordIntentClaimRevoked c ts db = Ok d \<Longrightarrow> by_ops L db d"
  "RecordExchangeAck o' x db = Ok d \<Longrightarrow> by_ops L db d"
  "RecordOrderStatus o' st db = Ok (d, now) \<Longrightarrow> by_ops L db d"
  by (rule by_ops_one [of "LJournal r i"] by_ops_one [of "LAttempt i"] by_ops_one [of "LRecon ev"] by_ops_one [of "LClaim c ts"]
      by_ops_one [of "LRevoke c ts"] by_ops_one [of "LAck o' x"] by_ops_one [of "LStatus o' st"];
      simp add: is_rest_def typed_op_def live_op_def)+

lemma by_ops_reject:
  "bind_outcome (RecordOrderStatus o' st db) (\<lambda>(d, _). AppendOMSReconEvent ev d) = Ok d \<Longrightarrow> by_ops L db d"
  by (auto simp: bind_outcome_eq_Ok intro: by_ops_trans by_ops_simps)

lemma go_sent_simps [simp]: "ef_db ((go p db)\<lparr>ef_sent := x\<rparr>) = db" "ef_db ((go p db)\<lparr>ef_stale := b\<rparr>) = db"
  by (simp_all add: go_def)

lemma after_by_ops:
  assumes "\<And>a. r = Ok a \<Longrightarrow> by_ops L db (ef_db (k a))" shows "by_ops L db (ef_db (after_store db r k))"
  unfolding after_store_iff [of "\<lambda>x. by_ops L db (ef_db x)"] using assms by (auto split: outcome.split)

lemma entry_db: "ef_db (entry_step L m e db w sub cap) = db"
  by (cases w) (auto simp: entry_step_def after_def split: outcome.split)

lemma attempt_by_ops: "by_ops L db (ef_db (attempt_step e db w i))"
  by (cases w) (auto simp: attempt_step_def intro!: after_by_ops intro: by_ops_simps by_ops_reject)

lemma flatten_by_ops: "by_ops L db (ef_db (flatten_step L m e db w))"
proof (cases w)
  case (AtFlatten s sy origin pid)
  then show ?thesis by (simp add: flatten_step_def after_def split: outcome.split)
next
  case (AtFlatSize sub sf avail short)
  then show ?thesis by (auto simp: flatten_step_def after_def split: outcome.split prod.split)
next
  case (AtBalance sub sf)
  show ?thesis unfolding AtBalance flatten_step_def flatten_at.case after_def by (simp split: outcome.split)
qed (auto simp: flatten_step_def intro!: after_by_ops intro: by_ops_simps)

lemma sweep_by_ops: "by_ops L db (ef_db (sweep_step m e db w))"
  by (cases w) (auto simp: sweep_step_def Let_def intro!: after_by_ops intro: by_ops_simps split: list.split outcome.split)

lemma proc_by_ops:
  assumes "proc_step L m e db p = Some f" shows "by_ops L db (ef_db f)"
proof (cases p)
  case (PJournal sub)
  then show ?thesis
    using assms by (auto simp: proc_step_def journal_step_def Let_def journal_row_def journal_intent_def statusRank_def
        split: if_splits intro!: after_by_ops intro: by_ops_simps)
qed (use assms attempt_by_ops flatten_by_ops sweep_by_ops in \<open>auto simp: proc_step_def entry_db\<close>)

section \<open>What everybody's steps keep\<close>

text \<open>The live tables stay as they are.\<close>

definition same_live :: "store_db \<Rightarrow> store_db \<Rightarrow> bool" where
  "same_live db d \<longleftrightarrow> db_orders d = db_orders db \<and> db_fills d = db_fills db \<and> db_intents d = db_intents db"

lemma supersede_same_live: "fold_ok (supersede_one U i ts) es db = Ok d \<Longrightarrow> same_live db d"
  by (rule fold_ok_inv [where P = "same_live db"])
    (auto simp: same_live_def supersede_one_def AppendSafetyAlert_def split: if_splits)

lemma kill_step_same_live: "kill_step U db op = Some d \<Longrightarrow> same_live db d"
proof (cases op)
  case (OpClear i sc a r n ts)
  assume "kill_step U db op = Some d"
  then obtain n' ids where "appendKillClear U i sc a r n ts db = Ok (d, n', ids)"
    using OpClear by (auto simp: kill_step_def split: outcome.splits)
  then obtain es db1 where "fold_ok (supersede_one U i ts) es db1 = Ok d" "same_live db db1"
    by (auto simp: appendKillClear_def supersedeUnserved_def Let_def bind_outcome_eq_Ok same_live_def split: if_splits)
  then show ?thesis using supersede_same_live by (fastforce simp: same_live_def)
qed (auto simp: kill_op_defs same_live_def split: outcome.splits option.splits if_splits)

lemma same_live_evolves: "same_live db d \<Longrightarrow> evolves db d"
  by (simp add: same_live_def evolves_frame)

text \<open>The kill ledger and the strategies stay as they are.\<close>

definition same_kills :: "store_db \<Rightarrow> store_db \<Rightarrow> bool" where
  "same_kills db d \<longleftrightarrow> db_kills d = db_kills db \<and> db_clears d = db_clears db \<and> db_strategies d = db_strategies db"

lemma book_stmts_kills: "fold_ok book_stmt bs db = Ok d \<Longrightarrow> same_kills db d"
  by (rule fold_ok_inv [where P = "same_kills db"])
    (auto simp: same_kills_def book_stmt_def UpsertPosition_def UpsertStrategyState_def InsertProtectiveObligation_def
      InsertPendingFillFee_def split: book_stmt.splits if_splits)

lemma update_order_kills: "update_order i g db = Ok d \<Longrightarrow> same_kills db d"
  by (auto simp: update_order_def same_kills_def split: if_splits)

lemma status_kills: "RecordOrderStatus i st db = Ok (d, now) \<Longrightarrow> same_kills db d"
  by (auto simp: RecordOrderStatus_def bind_outcome_eq_Ok update_order_kills split: option.splits if_splits)
    (simp_all add: same_kills_def)

lemma same_kills_trans: "same_kills a b \<Longrightarrow> same_kills b c \<Longrightarrow> same_kills a c"
  by (simp add: same_kills_def)

lemma same_kills_refl [simp]: "same_kills a a"
  by (simp add: same_kills_def)

lemma venue_fill_kills:
  assumes "RecordVenueFill L f st (fold_ok book_stmt bs) db = Ok (d, new)" shows "same_kills db d"
proof (cases new)
  case True
  then have "RecordVenueFill L f st (fold_ok book_stmt bs) db = Ok (d, True)" using assms by simp
  from RecordVenueFill_new [OF this] obtain v d2 d3 now
    where u: "update_order (fr_OrderID f) (\<lambda>r. r\<lparr>or_FillPrice := Some v, or_FilledAt := Some (fr_FillTS f)\<rparr>)
       (db\<lparr>db_fills := db_fills db @ [f]\<rparr>) = Ok d2" and w: "RecordOrderStatus (fr_OrderID f) st d2 = Ok (d3, now)"
      and b: "fold_ok book_stmt bs d3 = Ok d" by blast
  have "same_kills (db\<lparr>db_fills := db_fills db @ [f]\<rparr>) d"
    by (rule same_kills_trans [OF update_order_kills [OF u] same_kills_trans [OF status_kills [OF w] book_stmts_kills [OF b]]])
  then show ?thesis by (simp add: same_kills_def)
next
  case False
  then have "d = db" using RecordVenueFill_replay [of L f st "fold_ok book_stmt bs" db d] assms by simp
  then show ?thesis by simp
qed

lemma live_op_kills:
  assumes "live_op L op db = Ok d" and "\<not> is_rest op" shows "same_kills db d"
proof (cases op)
  case (LJournal r i)
  then show ?thesis using assms(1)
    by (auto simp: live_op_def InsertJournaledOrder_def InsertOrder_def InsertOrderIntent_def set_client_order_id_def bind_outcome_eq_Ok
        split: if_splits dest!: update_order_kills) (simp_all add: same_kills_def)
next
  case (LAttempt i)
  then show ?thesis using assms(1)
    by (auto simp: live_op_def RecordIntentAttempt_def InsertOrderIntent_def set_client_order_id_def bind_outcome_eq_Ok
        split: if_splits dest!: update_order_kills) (simp_all add: same_kills_def)
next
  case (LAck i e)
  then show ?thesis using assms(1) by (auto simp: live_op_def RecordExchangeAck_def update_order_kills)
next
  case (LStatus i st)
  then show ?thesis using assms(1) by (auto simp: live_op_def bind_outcome_eq_Ok status_kills)
next
  case (LVenueFill f st bs)
  then show ?thesis using assms(1) by (auto simp: live_op_def bind_outcome_eq_Ok venue_fill_kills)
qed (use assms in \<open>auto simp: is_rest_def live_op_def RecordIntentClaim_def RecordIntentClaimRevoked_def AppendOMSReconEvent_def
    InsertProtectiveObligation_def InsertPendingFillFee_def InsertVenueEpoch_def RecordProtectiveSatisfied_def RecordFeeConverted_def
    bind_outcome_eq_Ok same_kills_def split: option.splits if_splits\<close>)

lemma by_ops_kills:
  assumes "by_ops L db d" shows "same_kills db d"
proof -
  obtain ops where o: "plain_ops ops" "run (live_step L) db ops = Some d" using assms by (auto simp: by_ops_def)
  have "plain_ops ops \<Longrightarrow> run (live_step L) db ops = Some d \<Longrightarrow> same_kills db d" for db
    by (induction ops arbitrary: db)
      (auto simp: plain_ops_def live_step_iff split: option.splits dest: live_op_kills intro: same_kills_trans)
  then show ?thesis using o by blast
qed

text \<open>A step of anybody.\<close>

lemma send_step_elim:
  assumes "send_step L U s a = Some t"
  obtains (thread) k e f where "a = Step k e" "k < length (ss_pcs s)" "proc_step L (ss_oms s) e (ss_db s) (ss_pcs s ! k) = Some f"
      "t = thread_effect k f s" "by_ops L (ss_db s) (ss_db t)"
    | (live) op where "ss_pcs t = ss_pcs s" "ss_sent t = ss_sent s" "live_op L op (ss_db s) = Ok (ss_db t)" "\<not> is_rest op" "\<forall>k e. a \<noteq> Step k e"
    | (kill) op where "ss_pcs t = ss_pcs s" "ss_sent t = ss_sent s" "kill_step U (ss_db s) op = Some (ss_db t)" "\<forall>k e. a \<noteq> Step k e"
    | (gate) "ss_pcs t = ss_pcs s" "ss_sent t = ss_sent s" "ss_db t = ss_db s" "\<forall>k e. a \<noteq> Step k e"
    | (rest) d where "ss_pcs t = ss_pcs s" "ss_sent t = ss_sent s" "keeps_tenants (ss_db s) d" "ss_db t = rest_of d (ss_db s)"
        "\<forall>k e. a \<noteq> Step k e"
proof (cases a)
  case (Step k e)
  then obtain f where f: "k < length (ss_pcs s)" "proc_step L (ss_oms s) e (ss_db s) (ss_pcs s ! k) = Some f" "t = thread_effect k f s"
    using assms by (auto simp: send_step_def split: if_splits)
  then show ?thesis using thread [OF Step f] proc_by_ops [OF f(2)] by (simp add: thread_effect_def)
qed (use assms in \<open>auto simp: send_step_def live_step_iff split: if_splits intro: live kill gate rest\<close>)

lemma rest_same_live: "same_live db (rest_of d db)"
  by (simp add: same_live_def rest_of_def live_tables_def)

lemma send_step_evolves: "send_step L U s a = Some t \<Longrightarrow> evolves (ss_db s) (ss_db t)"
  by (erule send_step_elim)
    (auto intro: by_ops_evolves live_op_evolves kill_step_same_live same_live_evolves rest_same_live simp: evolves_frame)

section \<open>An attempt is executed once\<close>

text \<open>Threads that hold the claim of an attempt, and placements of it that the venue may have executed.\<close>

definition holds :: "string \<Rightarrow> 'd pc \<Rightarrow> nat" where
  "holds c p = (case armed p of None \<Rightarrow> 0 | Some i \<Rightarrow> if oi_ClientOrderID i = c then 1 else 0)"

definition may_execute :: "string \<Rightarrow> placement \<Rightarrow> bool" where
  "may_execute c x \<longleftrightarrow> pq_NewClientOrderID (pl_req x) = c \<and> \<not> not_executed (pl_answer x)"

definition executions :: "string \<Rightarrow> 'd send_state \<Rightarrow> nat" where
  "executions c s = length (filter (may_execute c) (ss_sent s))"

definition one_execution :: "string \<Rightarrow> 'd send_state \<Rightarrow> bool" where
  "one_execution c s \<longleftrightarrow>
     sum_list (map (holds c) (ss_pcs s)) + executions c s \<le> (if claim_spent c (ss_db s) then 1 else 0)"

definition sent_by :: "nat \<Rightarrow> 'd effect \<Rightarrow> placement list" where
  "sent_by k f = (case ef_sent f of None \<Rightarrow> [] | Some (r, a) \<Rightarrow> [\<lparr>pl_by = k, pl_req = r, pl_answer = a\<rparr>])"

lemma thread_effect_simps [simp]:
  "ss_pcs (thread_effect k f s) = (ss_pcs s)[k := ef_pc f]" "ss_db (thread_effect k f s) = ef_db f"
  "ss_sent (thread_effect k f s) = ss_sent s @ sent_by k f"
  by (simp_all add: thread_effect_def sent_by_def)

lemma sum_list_replace:
  "k < length xs \<Longrightarrow> sum_list (map h (xs[k := y])) + h (xs ! k) = sum_list (map h xs) + (h y :: nat)"
proof (induction xs arbitrary: k)
  case (Cons x xs)
  then show ?case by (cases k) auto
qed simp

lemma holds_quiet: "armed p = None \<Longrightarrow> holds c p = 0"
  by (simp add: holds_def)

lemma armed_simps [simp]:
  "armed (PEntry ew sub cap) = None" "armed (PJournal sub) = None" "armed (PFlat fw) = None" "armed (PSweep sw) = None"
  "armed (PDone r) = None" "armed PCrash = None" "armed (FDone fo) = None"
  "armed (PSend AtClaim i) = None" "armed (PSend AtKill i) = Some i" "armed (PSend AtReread i) = Some i"
  "armed (PSend AtPlace i) = Some i" "armed (PSend AtAbandon i) = None" "armed (PSend (AtRefused b t) i) = None"
  "armed (PSend (AtAck n t b) i) = None" "armed (PSend (AtAckStatus n t b) i) = None" "armed (PSend (AtAckEvent n t) i) = None"
  "armed (PSend (AtQuery q) i) = None" "armed (PSend AtPoison i) = None" "armed (PSend AtKill2 i) = None"
  "armed (PSend (AtReject err) i) = None" "armed (PSend AtNext i) = None"
  by (simp_all add: armed_def)

text \<open>Only the steps of an attempt arm a thread or place: the claim arms, a placement that may have
  been executed disarms.\<close>

lemma sweep_next_armed [simp]: "armed (sweep_next rs) = None"
  by (simp add: sweep_next_def)

lemma flatten_start_armed: "flatten_start L m now db s sy origin pid = Ok p \<Longrightarrow> armed p = None"
  by (auto simp: flatten_start_def bind_outcome_eq_Ok Let_def split: if_splits option.splits)

lemma quiet_steps:
  "armed (ef_pc (entry_step L m e db w sub cap)) = None \<and> ef_sent (entry_step L m e db w sub cap) = None"
  "armed (ef_pc (flatten_step L m e db fw)) = None \<and> ef_sent (flatten_step L m e db fw) = None"
  "armed (ef_pc (sweep_step m e db sw)) = None \<and> ef_sent (sweep_step m e db sw) = None"
  "journal_step L m e db sub = Some f \<Longrightarrow> armed (ef_pc f) = None \<and> ef_sent f = None"
  by (auto simp: entry_step_def flatten_step_def sweep_step_def journal_step_def Let_def after_store_def after_def
      flatten_start_armed split: entry_at.split flatten_at.split sweep_at.split outcome.splits list.split if_splits prod.split venue_answer.split)

lemma quiet_proc:
  "proc_step L m e db p = Some f \<Longrightarrow> (\<And>w i. p \<noteq> PSend w i) \<Longrightarrow> armed (ef_pc f) = None \<and> ef_sent f = None"
  by (auto simp: proc_step_def quiet_steps split: pc.splits)

lemma claim_takes:
  assumes "RecordIntentClaim c ts db = Ok (d, True)" shows "\<not> claim_spent c db \<and> claim_spent c d"
proof -
  have "takes_claim c db (LClaim c ts)" using assms by (simp add: takes_claim_def)
  moreover have "live_step rat_lib db (LClaim c ts) = Some d" using assms by (simp add: live_step_def live_op_def)
  ultimately show ?thesis using claims.fire_unmarked take_marks by blast
qed

lemma attempt_holds:
  fixes e :: "'d env" and w i db
  defines "f \<equiv> attempt_step e db w i"
  shows "holds c (ef_pc f) + length (filter (may_execute c) (sent_by k f)) \<le> holds c (PSend w i :: 'd pc)
     + (if \<not> claim_spent c db \<and> claim_spent c (ef_db f) then 1 else 0)"
proof (cases w)
  case AtClaim
  have "holds c (ef_pc f) = 0 \<or> (\<exists>d. RecordIntentClaim (oi_ClientOrderID i) (format_seconds (en_now e)) db = Ok (d, True) \<and> ef_db f = d
      \<and> ef_pc f = PSend AtKill i)" and "ef_sent f = None"
    unfolding f_def AtClaim attempt_step_def send_at.case
    by (auto simp: after_store_def after_def lift_store_def holds_quiet split: outcome.splits)
  then show ?thesis using claim_takes by (fastforce simp: sent_by_def holds_def)
next
  case AtPlace
  then show ?thesis
    by (auto simp: f_def attempt_step_def holds_def sent_by_def may_execute_def request_of_def not_executed_def go_def
        split: venue_answer.splits)
qed (simp_all add: f_def attempt_step_def after_store_def after_def lift_store_def holds_def sent_by_def
    split: outcome.split venue_answer.split prod.split)

lemma thread_one_execution:
  assumes inv: "one_execution c s" and k: "k < length (ss_pcs s)"
    and st: "proc_step L (ss_oms s) e (ss_db s) (ss_pcs s ! k) = Some f" and ev: "evolves (ss_db s) (ef_db f)"
  shows "one_execution c (thread_effect k f s)"
proof -
  let ?p = "ss_pcs s ! k"
  have "holds c (ef_pc f) + length (filter (may_execute c) (sent_by k f)) \<le> holds c ?p
     + (if \<not> claim_spent c (ss_db s) \<and> claim_spent c (ef_db f) then 1 else 0)"
  proof (cases "\<exists>w i. ?p = PSend w i")
    case True
    then obtain w i where p: "?p = PSend w i" by blast
    then have f: "f = attempt_step e (ss_db s) w i" using st by (simp add: proc_step_def)
    show ?thesis unfolding p f by (rule attempt_holds)
  next
    case False
    then have "armed (ef_pc f) = None \<and> ef_sent f = None" using quiet_proc [OF st] by blast
    then show ?thesis by (simp add: holds_quiet sent_by_def)
  qed
  moreover have "sum_list (map (holds c) ((ss_pcs s)[k := ef_pc f])) + holds c ?p = sum_list (map (holds c) (ss_pcs s)) + holds c (ef_pc f)"
    by (rule sum_list_replace [OF k])
  moreover have "claim_spent c (ss_db s) \<Longrightarrow> claim_spent c (ef_db f)" by (rule spent_evolves [OF ev])
  ultimately show ?thesis using inv
    unfolding one_execution_def executions_def thread_effect_simps filter_append length_append
    by (cases "claim_spent c (ss_db s)"; cases "claim_spent c (ef_db f)"; simp only: if_True if_False simp_thms; linarith)
qed

lemma frame_one_execution:
  assumes "one_execution c s" and "evolves (ss_db s) (ss_db t)" and "ss_pcs t = ss_pcs s" and "ss_sent t = ss_sent s"
  shows "one_execution c t"
  using assms spent_evolves [OF assms(2), of c]
  by (simp add: one_execution_def executions_def del: sum_list_eq_0_iff split: if_splits)

lemma send_step_one_execution:
  assumes "one_execution c s" and "send_step L U s a = Some t" shows "one_execution c t"
  using assms(2)
proof (cases rule: send_step_elim)
  case (thread k e f)
  then show ?thesis using thread_one_execution assms send_step_evolves by fastforce
qed (use frame_one_execution [OF assms(1) send_step_evolves [OF assms(2)]] in simp_all)

interpretation execution: machine "send_step L U" "one_execution c" for L :: "'d::linordered_field dlib" and U c
  by unfold_locales (rule send_step_one_execution)

text \<open>A start: nothing was sent, and no thread is past the journal.\<close>

definition send_start :: "'d send_state \<Rightarrow> bool" where
  "send_start s \<longleftrightarrow> ss_sent s = [] \<and> list_all (\<lambda>p. case p of PSend _ _ \<Rightarrow> False | _ \<Rightarrow> True) (ss_pcs s)"

lemma start_one_execution: "send_start s \<Longrightarrow> one_execution c s"
proof -
  assume s: "send_start s"
  have "list_all (\<lambda>p. case p of PSend _ _ \<Rightarrow> False | _ \<Rightarrow> True) ps \<Longrightarrow> sum_list (map (holds c) ps) = 0" for ps :: "'d pc list"
    by (induction ps) (auto simp: holds_def armed_def split: pc.splits)
  then have "sum_list (map (holds c) (ss_pcs s)) = 0" using s unfolding send_start_def by blast
  then show ?thesis using s by (simp add: one_execution_def executions_def send_start_def del: sum_list_eq_0_iff)
qed

text \<open>C2: an attempt is executed at most once: let any number of entries, closes, flattens, protective
  placements and cancel sweeps run at once, interleaved call by call with each other and with
  everything else that writes to the store, and let the venue answer as it likes; of all the requests
  that carry one client order id at most one can have been executed.\<close>

theorem attempt_executed_once:
  assumes "send_start s" and "run (send_step L U) s acts = Some t"
  shows "executions c t \<le> 1"
proof -
  have "one_execution c t" by (rule execution.run_inv [OF start_one_execution [OF assms(1)] assms(2)])
  then show ?thesis by (simp add: one_execution_def split: if_splits)
qed

section \<open>Journal before send\<close>

lemma base64url_char_ok: "n < 64 \<Longrightarrow> token_char (base64url_char n)"
proof -
  have "byte_of (char_of k) = k" if "k < 256" for k :: nat
    using that by (simp add: byte_of_def take_bit_nat_def)
  then show "n < 64 \<Longrightarrow> ?thesis"
    by (auto simp: base64url_char_def token_char_def is_upper_alnum_def is_digit_def)
qed

lemma base64url_token:
  "list_all (\<lambda>b. b < 256) xs \<Longrightarrow> list_all token_char (base64url xs) \<and> length (base64url xs) = (8 * length xs + 5) div 6"
proof (induction xs rule: base64url.induct)
  case (2 a)
  then have "a div 4 < 64" "a mod 4 * 16 < 64" by auto
  then show ?case by (simp add: base64url_char_ok)
next
  case (3 a b)
  then have "a div 4 < 64" "a mod 4 * 16 + b div 16 < 64" "b mod 16 * 4 < 64" by auto
  then show ?case by (simp add: base64url_char_ok)
next
  case (4 a b c xs)
  then have "a div 4 < 64" "a mod 4 * 16 + b div 16 < 64" "b mod 16 * 4 + c div 64 < 64" "c mod 64 < 64" by auto
  then show ?case using 4 by (simp add: base64url_char_ok)
qed simp

text \<open>An attempt with an identifier of the platform's namespace; journaled; claimed.\<close>

definition id_ok :: "intent_row \<Rightarrow> bool" where
  "id_ok i \<longleftrightarrow> length (oi_IntentToken i) = 22 \<and> list_all token_char (oi_IntentToken i) \<and> 0 \<le> oi_Attempt i \<and> oi_Attempt i \<le> 9
     \<and> oi_ClientOrderID i = attemptID (oi_IntentToken i) (oi_Attempt i)"

definition journaled_as :: "store_db \<Rightarrow> intent_row \<Rightarrow> bool" where
  "journaled_as db i \<longleftrightarrow> (\<exists>j. get_intent db (oi_ClientOrderID i) = Some j \<and> attempt_of j = attempt_of i)"

definition claimed_as :: "store_db \<Rightarrow> intent_row \<Rightarrow> bool" where
  "claimed_as db i \<longleftrightarrow> (\<exists>j. get_intent db (oi_ClientOrderID i) = Some j \<and> attempt_of j = attempt_of i \<and> oi_ClaimedAt j \<noteq> None)"

lemma journaled_evolves: "evolves db d \<Longrightarrow> journaled_as db i \<Longrightarrow> journaled_as d i"
  unfolding journaled_as_def using evolves_intent [of db d "oi_ClientOrderID i"] by (fastforce simp: grows_def)

lemma claimed_evolves: "evolves db d \<Longrightarrow> claimed_as db i \<Longrightarrow> claimed_as d i"
  unfolding claimed_as_def using evolves_intent [of db d "oi_ClientOrderID i"] by (fastforce simp: grows_def)

lemma claimed_journaled: "claimed_as db i \<Longrightarrow> journaled_as db i"
  by (auto simp: claimed_as_def journaled_as_def)

lemma attempt_of_same:
  "attempt_of j = attempt_of i \<Longrightarrow> request_of j = request_of i \<and> oi_ClientOrderID j = oi_ClientOrderID i \<and> id_ok j = id_ok i
     \<and> oi_OrderID j = oi_OrderID i"
proof -
  assume a: "attempt_of j = attempt_of i"
  have "g (attempt_of j) = g (attempt_of i)" for g :: "intent_row \<Rightarrow> 'x" by (simp add: a)
  have r: "request_of (attempt_of x) = request_of x" "id_ok (attempt_of x) = id_ok x"
    "oi_ClientOrderID (attempt_of x) = oi_ClientOrderID x" "oi_OrderID (attempt_of x) = oi_OrderID x" for x
    by (simp_all add: request_of_def attempt_of_def id_ok_def)
  show ?thesis using r [of j] r [of i] a by metis
qed

definition pc_ok :: "store_db \<Rightarrow> 'd pc \<Rightarrow> bool" where
  "pc_ok db p \<longleftrightarrow> (case p of
      PSend w i \<Rightarrow> id_ok i \<and> (if w = AtNext then True else if armed p = None then journaled_as db i else claimed_as db i)
    | _ \<Rightarrow> True)"

definition placed_ok :: "store_db \<Rightarrow> placement \<Rightarrow> bool" where
  "placed_ok db x \<longleftrightarrow> (\<exists>j. get_intent db (pq_NewClientOrderID (pl_req x)) = Some j \<and> oi_ClaimedAt j \<noteq> None
     \<and> pl_req x = request_of j \<and> id_ok j)"

lemma pc_ok_evolves: "evolves db d \<Longrightarrow> pc_ok db p \<Longrightarrow> pc_ok d p"
  by (auto simp: pc_ok_def intro: journaled_evolves claimed_evolves split: pc.splits if_splits)

lemma placed_ok_evolves: "evolves db d \<Longrightarrow> placed_ok db x \<Longrightarrow> placed_ok d x"
proof -
  assume e: "evolves db d" and "placed_ok db x"
  then obtain j where j: "get_intent db (pq_NewClientOrderID (pl_req x)) = Some j" "oi_ClaimedAt j \<noteq> None" "pl_req x = request_of j" "id_ok j"
    by (auto simp: placed_ok_def)
  obtain k where k: "get_intent d (pq_NewClientOrderID (pl_req x)) = Some k" "grows j k" using evolves_intent [OF e j(1)] by blast
  have "attempt_of k = attempt_of j" "oi_ClaimedAt k \<noteq> None" using k(2) j(2) by (auto simp: grows_def)
  then show ?thesis using k(1) j attempt_of_same [of k j] unfolding placed_ok_def by metis
qed

lemma insert_intent_journals: "InsertOrderIntent i db = Ok d \<Longrightarrow> journaled_as d i"
  by (auto simp: InsertOrderIntent_def journaled_as_def get_intent_def row_get_append split: if_splits)

lemma claim_claims:
  assumes "journaled_as db i" and "RecordIntentClaim (oi_ClientOrderID i) ts db = Ok (d, True)" shows "claimed_as d i"
  using claim_row [OF assms(2)] assms(1) by (auto simp: journaled_as_def claimed_as_def attempt_of_def)

lemma next_id_ok: "id_ok i \<Longrightarrow> oi_Attempt i < 9 \<Longrightarrow> id_ok (next_attempt i now)"
  by (auto simp: id_ok_def next_attempt_def)

lemma journal_intent_ok:
  "length bs = 16 \<Longrightarrow> list_all (\<lambda>b. b < 256) bs \<Longrightarrow> id_ok (journal_intent L m sub (base64url bs) o' now)"
  using base64url_token [of bs] by (simp add: id_ok_def journal_intent_def)

lemma attempt_pc_ok:
  fixes e :: "'d env"
  assumes "pc_ok db (PSend w i :: 'd pc)" shows "pc_ok (ef_db (attempt_step e db w i)) (ef_pc (attempt_step e db w i))"
proof -
  let ?f = "attempt_step e db w i"
  have ev: "evolves db (ef_db ?f)" by (rule by_ops_evolves [OF attempt_by_ops [of rat_lib]])
  have o: "id_ok i" using assms by (simp add: pc_ok_def)
  show ?thesis
  proof (cases w)
    case AtClaim
    then have j: "journaled_as db i" using assms by (simp add: pc_ok_def)
    show ?thesis unfolding AtClaim attempt_step_def send_at.case
      by (auto simp: after_store_def after_def lift_store_def pc_ok_def o intro: claim_claims [OF j] split: outcome.splits)
  next
    case AtNext
    show ?thesis unfolding AtNext attempt_step_def send_at.case
      by (auto simp: after_store_def after_def lift_store_def pc_ok_def o RecordIntentAttempt_def bind_outcome_eq_Ok
          intro: insert_intent_journals split: outcome.splits if_splits)
  next
    case AtKill2
    then show ?thesis using assms next_id_ok by (auto simp: attempt_step_def pc_ok_def split: if_splits)
  next
    case AtPlace
    then show ?thesis using assms claimed_journaled
      by (auto simp: attempt_step_def pc_ok_def go_def split: venue_answer.splits if_splits)
  next
    case AtKill
    then show ?thesis using assms claimed_journaled by (auto simp: attempt_step_def pc_ok_def)
  next
    case AtReread
    then show ?thesis using assms by (auto simp: attempt_step_def pc_ok_def after_store_def after_def split: outcome.splits)
  qed (use assms journaled_evolves [OF ev] in \<open>auto simp: attempt_step_def pc_ok_def after_store_def after_def lift_store_def
      split: outcome.splits venue_answer.splits prod.splits if_splits\<close>)
qed

definition journal_first :: "'d send_state \<Rightarrow> bool" where
  "journal_first s \<longleftrightarrow> (\<forall>p \<in> set (ss_pcs s). pc_ok (ss_db s) p) \<and> (\<forall>x \<in> set (ss_sent s). placed_ok (ss_db s) x)"

lemma claimed_placed:
  assumes "claimed_as db i" and "id_ok i" and "pl_req x = request_of i" shows "placed_ok db x"
proof -
  obtain j where j: "get_intent db (oi_ClientOrderID i) = Some j" "attempt_of j = attempt_of i" "oi_ClaimedAt j \<noteq> None"
    using assms(1) by (auto simp: claimed_as_def)
  have "request_of j = request_of i" "id_ok j = id_ok i" using attempt_of_same [OF j(2)] by simp_all
  moreover have "pq_NewClientOrderID (pl_req x) = oi_ClientOrderID i" by (simp add: assms(3) request_of_def)
  ultimately show ?thesis using j assms(2,3) by (simp add: placed_ok_def)
qed

lemma other_pc_ok:
  assumes "proc_step L m e db p = Some f" and "\<And>w i. p \<noteq> PSend w i" shows "pc_ok (ef_db f) (ef_pc f)"
proof (cases "\<exists>sub. p = PJournal sub")
  case True
  then show ?thesis using assms(1) insert_intent_journals
    by (auto simp: proc_step_def journal_step_def Let_def pc_ok_def after_store_def after_def lift_store_def
        InsertJournaledOrder_def bind_outcome_eq_Ok list_ex_iff list_all_iff not_le intro!: journal_intent_ok split: if_splits outcome.splits)
next
  case False
  then have "armed (ef_pc f) = None" "\<And>w i. ef_pc f \<noteq> PSend w i"
    using assms by (auto simp: proc_step_def entry_step_def flatten_step_def sweep_step_def Let_def after_store_def after_def
        flatten_start_def bind_outcome_eq_Ok sweep_next_def
        split: pc.splits entry_at.splits flatten_at.splits sweep_at.splits outcome.splits list.splits if_splits prod.splits venue_answer.splits
          option.splits)
  then show ?thesis by (auto simp: pc_ok_def split: pc.split)
qed

lemma thread_journal_first:
  assumes inv: "journal_first s" and k: "k < length (ss_pcs s)"
    and st: "proc_step L (ss_oms s) e (ss_db s) (ss_pcs s ! k) = Some f" and ev: "evolves (ss_db s) (ef_db f)"
  shows "journal_first (thread_effect k f s)"
proof -
  let ?p = "ss_pcs s ! k"
  have p: "pc_ok (ss_db s) ?p" using inv k by (simp add: journal_first_def)
  have "pc_ok (ef_db f) (ef_pc f)"
  proof (cases "\<exists>w i. ?p = PSend w i")
    case True
    then show ?thesis using st p attempt_pc_ok by (fastforce simp: proc_step_def)
  next
    case False
    then show ?thesis using other_pc_ok [OF st] by blast
  qed
  moreover have "placed_ok (ef_db f) x" if x: "x \<in> set (sent_by k f)" for x
  proof -
    obtain w i where w: "?p = PSend w i" using quiet_proc [OF st] x by (fastforce simp: sent_by_def)
    then have "f = attempt_step e (ss_db s) w i" using st by (simp add: proc_step_def)
    then have a: "w = AtPlace \<and> pl_req x = request_of i \<and> ef_db f = ss_db s"
      using x by (cases w; auto simp: attempt_step_def sent_by_def after_store_def after_def go_def split: outcome.splits)
    then have "claimed_as (ss_db s) i" "id_ok i" using p w by (simp_all add: pc_ok_def)
    then show ?thesis using a claimed_placed by simp
  qed
  ultimately show ?thesis using inv pc_ok_evolves [OF ev] placed_ok_evolves [OF ev] set_update_subset_insert [of "ss_pcs s" k "ef_pc f"]
    by (fastforce simp: journal_first_def)
qed

lemma frame_journal_first:
  assumes "journal_first s" and "evolves (ss_db s) (ss_db t)" and "ss_pcs t = ss_pcs s" and "ss_sent t = ss_sent s"
  shows "journal_first t"
  using assms(1) by (auto simp: journal_first_def assms(3,4) intro: pc_ok_evolves [OF assms(2)] placed_ok_evolves [OF assms(2)])

lemma send_step_journal_first:
  assumes "journal_first s" and "send_step L U s a = Some t" shows "journal_first t"
  using assms(2)
proof (cases rule: send_step_elim)
  case (thread k e f)
  then show ?thesis using thread_journal_first assms send_step_evolves by fastforce
qed (use frame_journal_first [OF assms(1) send_step_evolves [OF assms(2)]] in simp_all)

interpretation journaling: machine "send_step L U" journal_first for L :: "'d::linordered_field dlib" and U
  by unfold_locales (rule send_step_journal_first)

lemma start_journal_first: "send_start s \<Longrightarrow> journal_first s"
  by (auto simp: send_start_def journal_first_def pc_ok_def list_all_iff split: pc.splits)

text \<open>C3: nothing reaches the venue that was not journaled and claimed first: in any such run, every
  request that was handed to the venue carries an identifier of the platform's namespace (attempt 0 to
  9), its attempt is in the journal, claimed, and the journal row has exactly the symbol, side, type,
  quantity and prices that were sent.\<close>

theorem placed_was_journaled:
  assumes "send_start s" and "run (send_step L U) s acts = Some t" and "x \<in> set (ss_sent t)"
  shows "\<exists>j. get_intent (ss_db t) (pq_NewClientOrderID (pl_req x)) = Some j \<and> oi_ClaimedAt j \<noteq> None
     \<and> pl_req x = request_of j \<and> inNamespace (pq_NewClientOrderID (pl_req x))"
proof -
  have "journal_first t" by (rule journaling.run_inv [OF start_journal_first [OF assms(1)] assms(2)])
  then obtain j where j: "get_intent (ss_db t) (pq_NewClientOrderID (pl_req x)) = Some j" "oi_ClaimedAt j \<noteq> None"
    "pl_req x = request_of j" "id_ok j" using assms(3) by (auto simp: journal_first_def placed_ok_def)
  have "inNamespace (oi_ClientOrderID j)" using j(4) inNamespace_attempt by (simp add: id_ok_def)
  then show ?thesis using j by (simp add: request_of_def)
qed

section \<open>Kills and sends\<close>

definition max_epoch :: "store_db \<Rightarrow> int" where
  "max_epoch db = sql_max (epochs_of (db_kills db))"

text \<open>The kill ledger of a strategy from one table to the next: rows are only added, the strategy keeps its scopes.\<close>

definition kills_grow :: "string \<Rightarrow> store_db \<Rightarrow> store_db \<Rightarrow> bool" where
  "kills_grow s db d \<longleftrightarrow> kill_inv d \<and> tenant_of d s \<noteq> None \<and> scopes_of d s = scopes_of db s \<and> (\<exists>es. db_kills d = db_kills db @ es)"

lemma binds_scopes: "scopes_of d s = scopes_of db s \<Longrightarrow> binds d s e = binds db s e"
  by (simp add: binds_def)

lemma GlobalMax_nonneg: "kill_inv db \<Longrightarrow> 0 \<le> GlobalMaxKillEpoch db s"
  unfolding GlobalMaxKillEpoch_def kill_inv_def
  by (rule sql_max_nonneg) (use epochs_of_subset sorted_max in \<open>fastforce dest: less_imp_le\<close>)

lemma GlobalMax_le_max: "kill_inv db \<Longrightarrow> GlobalMaxKillEpoch db s \<le> max_epoch db"
  unfolding GlobalMaxKillEpoch_def max_epoch_def kill_inv_def
  by (rule sql_max_least) (use epochs_of_subset sorted_max in \<open>auto intro: sql_max_upper\<close>)

lemma GlobalMax_grows:
  assumes "kills_grow s db d" shows "GlobalMaxKillEpoch db s \<le> GlobalMaxKillEpoch d s"
proof -
  obtain es where es: "db_kills d = db_kills db @ es" and sc: "scopes_of d s = scopes_of db s" and inv: "kill_inv d"
    using assms by (auto simp: kills_grow_def)
  have b: "binds db s = binds d s" using binds_scopes [OF sc] by (rule ext [symmetric])
  have "sql_max (epochs_of (filter (\<lambda>e. ke_Kind e = ''kill'' \<and> binds d s e) (db_kills db))) \<le> GlobalMaxKillEpoch d s"
    by (rule sql_max_least [OF _ GlobalMax_nonneg [OF inv]])
      (auto simp: GlobalMaxKillEpoch_def es intro: sql_max_upper)
  then show ?thesis unfolding GlobalMaxKillEpoch_def [of db] b .
qed

lemma max_epoch_nonneg: "kill_inv db \<Longrightarrow> 0 \<le> max_epoch db"
  using sorted_max by (simp add: kill_inv_def max_epoch_def)

lemma max_epoch_grows: "kills_grow s db d \<Longrightarrow> max_epoch db \<le> max_epoch d"
proof -
  assume g: "kills_grow s db d"
  then obtain es where es: "db_kills d = db_kills db @ es" "kill_inv d" by (auto simp: kills_grow_def)
  show ?thesis unfolding max_epoch_def [of db]
    by (rule sql_max_least [OF _ max_epoch_nonneg [OF es(2)]]) (simp add: max_epoch_def es(1) sql_max_upper)
qed

text \<open>A thread that stamped the epoch \<open>e\<close> and then saw no active kill: unless a newer kill shows in the
  epoch, no kill is active.\<close>

definition unkilled :: "string \<Rightarrow> int \<Rightarrow> store_db \<Rightarrow> bool" where
  "unkilled s e db \<longleftrightarrow> e \<le> max_epoch db \<and> (GlobalMaxKillEpoch db s \<le> e \<longrightarrow> \<not> ActiveKill db s)"

lemma kill_step_grow:
  assumes "kill_inv db" and "kill_step U db op = Some d" and "tenant_of db s \<noteq> None" shows "kills_grow s db d"
proof -
  have f: "db_strategies d = db_strategies db" by (rule kill_step_strategies [OF assms(2)])
  have "tenant_of d s = tenant_of db s" using f by (simp add: tenant_of_def get_strategy_row_def)
  then show ?thesis
    using kill_step_inv [OF assms(1,2)] kill_step_kills [OF assms(2)] scopes_of_frame [OF f] assms(3) by (auto simp: kills_grow_def)
qed

lemma clear_keeps_inactive:
  assumes "kill_inv db" and "kill_step U db (OpClear i sc a r n ts) = Some d" and "scope_active d sc'" shows "scope_active db sc'"
proof -
  obtain m ids where ok: "appendKillClear U i sc a r n ts db = Ok (d, m, ids)"
    using assms(2) by (auto simp: kill_step_def split: outcome.splits)
  have "sc' = sc \<or> scope_active d sc' = scope_active db sc'" "\<not> scope_active d sc"
    using clear_lifts_exactly_its_scope [OF assms(1) ok] by blast+
  then show ?thesis using assms(3) by blast
qed

lemma kill_step_unkilled:
  assumes inv: "kill_inv db" and st: "kill_step U db op = Some d" and t: "tenant_of db s \<noteq> None" and u: "unkilled s e db"
  shows "unkilled s e d"
proof -
  note g = kill_step_grow [OF inv st t]
  have le: "GlobalMaxKillEpoch db s \<le> GlobalMaxKillEpoch d s" by (rule GlobalMax_grows [OF g])
  have "\<not> ActiveKill d s" if q: "GlobalMaxKillEpoch d s \<le> e"
  proof
    assume "ActiveKill d s"
    then obtain sc where sc: "sc \<in> set (scopes_of d s)" "scope_active d sc" by (auto simp: ActiveKill_iff)
    have sc0: "sc \<in> set (scopes_of db s)" using sc(1) g by (simp add: kills_grow_def)
    have off: "\<not> scope_active db sc" using u q le sc0 by (auto simp: unkilled_def ActiveKill_iff)
    show False
    proof (cases "op_clears sc op")
      case True
      then show False using clear_keeps_inactive [OF inv _ sc(2)] st off by (auto simp: op_clears_def split: kill_op.splits)
    next
      case False
      then obtain r where r: "r \<in> set (db_kills d)" "ke_Kind r = ''kill''" "in_scope sc r" "exceeds r (watermark db sc)"
        using sc(2) by (auto simp: scope_active_def list_ex_iff kill_step_watermark [OF st])
      then have "r \<notin> set (db_kills db)" using off by (auto simp: scope_active_def list_ex_iff)
      then have "r \<in> set (op_row db op)" using r(1) kill_step_kills [OF st] by simp
      then have k: "ke_KillEpoch r = Some (next_epoch db)" using op_row_breaker [OF st, of r] r(2) by auto
      have "binds d s r" using sc(1) r(3) by (auto simp: binds_def list_ex_iff)
      then have "next_epoch db \<le> GlobalMaxKillEpoch d s"
        unfolding GlobalMaxKillEpoch_def by (intro sql_max_upper epochs_of_in [of r]) (use r(1,2) k in auto)
      moreover have "e < next_epoch db" using u by (simp add: unkilled_def max_epoch_def next_epoch_def)
      ultimately show False using q by linarith
    qed
  qed
  then show ?thesis using u max_epoch_grows [OF g] by (auto simp: unkilled_def)
qed

text \<open>The rest of the control plane leaves the ledger alone.\<close>

lemma same_kills_view:
  assumes "db_kills d = db_kills db" and "db_clears d = db_clears db" and "scopes_of d s = scopes_of db s"
  shows "GlobalMaxKillEpoch d s = GlobalMaxKillEpoch db s" "ActiveKill d s = ActiveKill db s" "max_epoch d = max_epoch db"
    "kill_inv d = kill_inv db"
  using assms by (simp_all add: GlobalMaxKillEpoch_def binds_scopes [OF assms(3)] ActiveKill_def watermark_def max_epoch_def kill_inv_def)

lemma rest_view:
  assumes "keeps_tenants db d" and "tenant_of db s \<noteq> None"
  shows "scopes_of (rest_of d db) s = scopes_of db s" "tenant_of (rest_of d db) s \<noteq> None"
proof -
  obtain r where "r \<in> set (db_strategies db)" "sg_StrategyID r = s"
    using assms(2) by (fastforce simp: tenant_of_def get_strategy_row_def row_get_def find_Some_iff intro: nth_mem)
  then have "tenant_of d s = tenant_of db s" using assms(1) by (auto simp: keeps_tenants_def list_all_iff)
  moreover have "tenant_of (rest_of d db) s = tenant_of d s"
    by (simp add: rest_of_def live_tables_def tenant_of_def get_strategy_row_def)
  ultimately show "scopes_of (rest_of d db) s = scopes_of db s" "tenant_of (rest_of d db) s \<noteq> None"
    using assms(2) by (simp_all add: scopes_of_def)
qed

lemma same_kills_tenant:
  "same_kills db d \<Longrightarrow> tenant_of db s \<noteq> None \<Longrightarrow> db_kills d = db_kills db \<and> db_clears d = db_clears db
     \<and> scopes_of d s = scopes_of db s \<and> tenant_of d s \<noteq> None"
  using scopes_of_frame [of d db s] by (simp add: same_kills_def tenant_of_def get_strategy_row_def)

lemma send_step_kills:
  assumes st: "send_step L U x a = Some y" and inv: "kill_inv (ss_db x)" and t: "tenant_of (ss_db x) s \<noteq> None"
  shows "kills_grow s (ss_db x) (ss_db y)" and "unkilled s e (ss_db x) \<Longrightarrow> unkilled s e (ss_db y)"
proof -
  have same: "kills_grow s (ss_db x) (ss_db y) \<and> (unkilled s e (ss_db x) \<longrightarrow> unkilled s e (ss_db y))"
    if "db_kills (ss_db y) = db_kills (ss_db x)" "db_clears (ss_db y) = db_clears (ss_db x)"
      "scopes_of (ss_db y) s = scopes_of (ss_db x) s" "tenant_of (ss_db y) s \<noteq> None"
    using same_kills_view [OF that(1-3)] that inv by (simp add: kills_grow_def unkilled_def)
  have "kills_grow s (ss_db x) (ss_db y) \<and> (unkilled s e (ss_db x) \<longrightarrow> unkilled s e (ss_db y))"
    using st
  proof (cases rule: send_step_elim)
    case (thread k e f)
    have "same_kills (ss_db x) (ss_db y)" by (rule by_ops_kills [OF thread(5)])
    then show ?thesis using same same_kills_tenant t by blast
  next
    case (live op)
    have "same_kills (ss_db x) (ss_db y)" by (rule live_op_kills [OF live(3,4)])
    then show ?thesis using same same_kills_tenant t by blast
  next
    case (kill op)
    then show ?thesis using kill_step_grow kill_step_unkilled inv t by blast
  next
    case gate
    then show ?thesis using same t by simp
  next
    case (rest d)
    then show ?thesis using same rest_view [OF rest(3) t] by (simp add: rest_of_def)
  qed
  then show "kills_grow s (ss_db x) (ss_db y)" "unkilled s e (ss_db x) \<Longrightarrow> unkilled s e (ss_db y)" by blast+
qed

text \<open>What carries a thread past the check.\<close>

definition placements_by :: "nat \<Rightarrow> 'd send_state \<Rightarrow> nat" where
  "placements_by k s = length (filter (\<lambda>x. pl_by x = k) (ss_sent s))"

definition past_check :: "'d pc \<Rightarrow> nat" where
  "past_check p = (case p of PSend w i \<Rightarrow> if w = AtReread \<or> w = AtPlace then 1 else 0 | _ \<Rightarrow> 0)"

text \<open>Thread \<open>k\<close> sends under the epoch \<open>e\<close>, and a newer kill binds its strategy.\<close>

definition carries :: "string \<Rightarrow> int \<Rightarrow> 'd pc \<Rightarrow> bool" where
  "carries st e p \<longleftrightarrow> (case p of PSend w i \<Rightarrow> oi_StrategyID i = st \<and> oi_KillEpoch i = e | p \<Rightarrow> stopped p)"

definition overtaken :: "nat \<Rightarrow> string \<Rightarrow> int \<Rightarrow> nat \<Rightarrow> 'd send_state \<Rightarrow> bool" where
  "overtaken k st e n s \<longleftrightarrow> k < length (ss_pcs s) \<and> kill_inv (ss_db s) \<and> tenant_of (ss_db s) st \<noteq> None
     \<and> e < GlobalMaxKillEpoch (ss_db s) st
     \<and> carries st e (ss_pcs s ! k)
     \<and> placements_by k s + past_check (ss_pcs s ! k) \<le> n"

lemma sent_by_thread: "filter (\<lambda>x. pl_by x = k) (sent_by j f) = (if j = k then sent_by j f else [])"
  by (auto simp: sent_by_def split: option.split)

lemma attempt_overtaken:
  fixes e :: "'d env"
  assumes "stale db i" and f: "f = attempt_step e db w i"
  shows "carries (oi_StrategyID i) (oi_KillEpoch i) (ef_pc f)
     \<and> length (sent_by k f) + past_check (ef_pc f) \<le> past_check (PSend w i :: 'd pc)"
  unfolding f by (cases w) (use assms(1) in \<open>auto simp: attempt_step_def after_store_def after_def lift_store_def carries_def stopped_def past_check_def
      sent_by_def next_attempt_def go_def split: outcome.splits venue_answer.splits prod.splits\<close>)

lemma send_step_overtaken:
  assumes inv: "overtaken k st e n s" and sp: "send_step L U s a = Some t" shows "overtaken k st e n t"
proof -
  have b: "k < length (ss_pcs s)" "kill_inv (ss_db s)" "tenant_of (ss_db s) st \<noteq> None" "e < GlobalMaxKillEpoch (ss_db s) st"
    using inv by (simp_all add: overtaken_def)
  have g: "kills_grow st (ss_db s) (ss_db t)" by (rule send_step_kills(1) [OF sp b(2,3)])
  then have d: "kill_inv (ss_db t)" "tenant_of (ss_db t) st \<noteq> None" "e < GlobalMaxKillEpoch (ss_db t) st"
    using GlobalMax_grows [OF g] b(4) by (auto simp: kills_grow_def)
  show ?thesis using sp
  proof (cases rule: send_step_elim)
    case (thread j env f)
    show ?thesis
    proof (cases "j = k")
      case True
      then obtain w i where p: "ss_pcs s ! k = PSend w i" "oi_StrategyID i = st" "oi_KillEpoch i = e"
        using inv thread(3) by (auto simp: overtaken_def carries_def stopped_def proc_step_def split: pc.splits)
      then have f: "f = attempt_step env (ss_db s) w i" using thread(3) True by (simp add: proc_step_def)
      have "stale (ss_db s) i" using b(4) p by (simp add: stale_def)
      from attempt_overtaken [OF this f, of k] p show ?thesis
        using inv b(1) d thread(4) True by (simp add: overtaken_def placements_by_def sent_by_thread)
    next
      case False
      then show ?thesis using inv d thread(4) by (simp add: overtaken_def placements_by_def sent_by_thread)
    qed
  qed (use inv d in \<open>simp_all add: overtaken_def placements_by_def\<close>)
qed

interpretation overtaking: machine "send_step L U" "overtaken k st e n" for L :: "'d::linordered_field dlib" and U k st e n
  by unfold_locales (rule send_step_overtaken)

text \<open>C4: a kill stops a sender: once a kill newer than the intent's stamp binds the strategy, the
  thread that carries the intent hands at most one more request to the venue, and none at all unless
  it was already past its last look at the epoch, however it is retried, throttled or poisoned.\<close>

theorem kill_stops_sender:
  assumes "kill_inv (ss_db s)" and "tenant_of (ss_db s) (oi_StrategyID i) \<noteq> None"
    and "k < length (ss_pcs s)" and "ss_pcs s ! k = PSend w i" and "stale (ss_db s) i"
    and "run (send_step L U) s acts = Some t"
  shows "placements_by k t \<le> placements_by k s + (if w = AtReread \<or> w = AtPlace then 1 else 0)"
proof -
  have "overtaken k (oi_StrategyID i) (oi_KillEpoch i) (placements_by k s + past_check (ss_pcs s ! k)) s"
    using assms(1-5) by (simp add: overtaken_def carries_def stale_def)
  from overtaking.run_inv [OF this assms(6)] show ?thesis using assms(4) by (auto simp: overtaken_def past_check_def split: if_splits)
qed

lemma sizeEntry_keeps:
  "sizeEntry L m now mark sub cap = Ok sub' \<Longrightarrow> sub_strategyID sub' = sub_strategyID sub \<and> sub_killEpoch sub' = sub_killEpoch sub"
  by (auto simp: sizeEntry_def bind_outcome_eq_Ok split: option.splits if_splits)

text \<open>An entry on its way: the strategy it is for, and what its stamp is good for.\<close>

definition pc_entry :: "string \<Rightarrow> store_db \<Rightarrow> 'd pc \<Rightarrow> bool" where
  "pc_entry st db p \<longleftrightarrow> (case p of
          PEntry w sub cap \<Rightarrow> sub_strategyID sub = st \<and> (w = AtActive \<longrightarrow> sub_killEpoch sub \<le> max_epoch db)
            \<and> (w = AtSize \<longrightarrow> unkilled st (sub_killEpoch sub) db)
        | PJournal sub \<Rightarrow> sub_strategyID sub = st \<and> unkilled st (sub_killEpoch sub) db
        | PSend w i \<Rightarrow> oi_StrategyID i = st \<and> unkilled st (oi_KillEpoch i) db
        | p \<Rightarrow> stopped p)"

lemma pc_entry_step:
  assumes "pc_entry st db p" and "proc_step L m e db p = Some f" and "kill_inv db"
    and keep: "\<And>x. unkilled st x db \<Longrightarrow> unkilled st x (ef_db f)" "max_epoch db \<le> max_epoch (ef_db f)"
  shows "pc_entry st (ef_db f) (ef_pc f)"
proof (cases p)
  case (PEntry w sub cap)
  then have f: "f = entry_step L m e db w sub cap" and s: "sub_strategyID sub = st" using assms(1,2) by (simp_all add: proc_step_def pc_entry_def)
  show ?thesis
  proof (cases w)
    case AtSize
    then show ?thesis using assms(1) PEntry keep(1) s unfolding f
      by (auto simp: entry_step_def after_def pc_entry_def stopped_def dest!: sizeEntry_keeps split: outcome.splits)
  next
    case AtActive
    then show ?thesis using assms(1) PEntry s unfolding f by (auto simp: entry_step_def pc_entry_def stopped_def unkilled_def)
  qed (use s GlobalMax_le_max [OF assms(3)] in \<open>auto simp: f entry_step_def pc_entry_def stopped_def\<close>)
next
  case (PJournal sub)
  then show ?thesis using assms(1,2) keep(1)
    by (auto simp: proc_step_def journal_step_def pc_entry_def Let_def after_store_def after_def journal_intent_def stopped_def
        split: if_splits outcome.splits)
next
  case (PSend w i)
  then have f: "f = attempt_step e db w i" and i: "oi_StrategyID i = st" "unkilled st (oi_KillEpoch i) (ef_db f)"
    using assms(1,2) keep(1) by (simp_all add: proc_step_def pc_entry_def)
  have "carries (oi_StrategyID i) (oi_KillEpoch i) (ef_pc f)"
    unfolding f by (cases w) (auto simp: attempt_step_def after_store_def after_def carries_def stopped_def next_attempt_def go_def
        split: outcome.splits venue_answer.splits prod.splits)
  then show ?thesis using i by (auto simp: carries_def pc_entry_def stopped_def split: pc.splits)
qed (use assms(1,2) in \<open>auto simp: proc_step_def pc_entry_def stopped_def\<close>)

definition entry_ok :: "nat \<Rightarrow> string \<Rightarrow> 'd send_state \<Rightarrow> bool" where
  "entry_ok k st s \<longleftrightarrow> k < length (ss_pcs s) \<and> kill_inv (ss_db s) \<and> tenant_of (ss_db s) st \<noteq> None \<and> pc_entry st (ss_db s) (ss_pcs s ! k)"

lemma pc_entry_frame:
  assumes "pc_entry st db p" and "\<And>x. unkilled st x db \<Longrightarrow> unkilled st x d" and "max_epoch db \<le> max_epoch d" shows "pc_entry st d p"
  using assms by (auto simp: pc_entry_def split: pc.splits)

lemma send_step_entry_ok:
  assumes inv: "entry_ok k st s" and sp: "send_step L U s a = Some t" shows "entry_ok k st t"
proof -
  have b: "k < length (ss_pcs s)" "kill_inv (ss_db s)" "tenant_of (ss_db s) st \<noteq> None" "pc_entry st (ss_db s) (ss_pcs s ! k)"
    using inv by (simp_all add: entry_ok_def)
  note g = send_step_kills [OF sp b(2,3)]
  have d: "kill_inv (ss_db t)" "tenant_of (ss_db t) st \<noteq> None" "max_epoch (ss_db s) \<le> max_epoch (ss_db t)"
    using g(1) max_epoch_grows by (auto simp: kills_grow_def)
  note keep = pc_entry_frame [OF b(4) g(2) d(3)]
  show ?thesis using sp
  proof (cases rule: send_step_elim)
    case (thread j env f)
    show ?thesis
    proof (cases "j = k")
      case True
      have "pc_entry st (ef_db f) (ef_pc f)"
        by (rule pc_entry_step [OF b(4) thread(3) [unfolded True] b(2)]) (use g(2) d(3) thread(4) in simp_all)
      then show ?thesis using b(1) d thread(4) True by (simp add: entry_ok_def)
    next
      case False
      then show ?thesis using b(1) d thread(4) keep by (simp add: entry_ok_def)
    qed
  qed (use b(1) d keep in \<open>simp_all add: entry_ok_def\<close>)
qed

interpretation entering: machine "send_step L U" "entry_ok k st" for L :: "'d::linordered_field dlib" and U k st
  by unfold_locales (rule send_step_entry_ok)

text \<open>C5: the check before every send sees every standing kill: an entry that started at the gate, whatever
  kills and clears landed since it stamped its epoch, passes the check before a placement (the first one,
  a throttled resend, or a retry) only when no uncleared kill binds its strategy at that moment.\<close>

theorem check_passes_only_unkilled:
  assumes "kill_inv (ss_db s)" and "k < length (ss_pcs s)" and "ss_pcs s ! k = PEntry AtGate sub cap"
    and "tenant_of (ss_db s) (sub_strategyID sub) \<noteq> None" and "run (send_step L U) s acts = Some t"
    and "ss_pcs t ! k = PSend AtKill i" and "send_step L U t (Step k e) = Some u" and "ss_pcs u ! k = PSend AtReread i"
  shows "\<not> ActiveKill (ss_db t) (sub_strategyID sub)"
proof -
  have "entry_ok k (sub_strategyID sub) s" using assms(1-4) by (simp add: entry_ok_def pc_entry_def)
  then have ok: "entry_ok k (sub_strategyID sub) t" by (rule entering.run_inv [OF _ assms(5)])
  then have i: "oi_StrategyID i = sub_strategyID sub" "unkilled (sub_strategyID sub) (oi_KillEpoch i) (ss_db t)" "k < length (ss_pcs t)"
    using assms(6) by (simp_all add: entry_ok_def pc_entry_def)
  have "\<not> stale (ss_db t) i"
    using assms(6-8) i(3) by (auto simp: send_step_def proc_step_def attempt_step_def split: if_splits)
  then show ?thesis using i by (simp add: unkilled_def stale_def)
qed

section \<open>A sender ends\<close>

text \<open>How many steps a thread has left when the venue does not throttle it.\<close>

definition attempt_left :: "send_at \<Rightarrow> nat" where
  "attempt_left w = (case w of
      AtNext \<Rightarrow> 13 | AtClaim \<Rightarrow> 12 | AtKill \<Rightarrow> 11 | AtReread \<Rightarrow> 10 | AtPlace \<Rightarrow> 9 | AtQuery n \<Rightarrow> 4 + (4 - n) | AtPoison \<Rightarrow> 3
    | AtKill2 \<Rightarrow> 2 | AtAck _ _ _ \<Rightarrow> 3 | AtAckStatus _ _ _ \<Rightarrow> 2 | AtAckEvent _ _ \<Rightarrow> 1 | AtReject _ \<Rightarrow> 1 | AtAbandon \<Rightarrow> 1 | AtRefused _ _ \<Rightarrow> 1)"

definition steps_left :: "'d pc \<Rightarrow> nat" where
  "steps_left p = (case p of
      PSend w i \<Rightarrow> 12 * nat (9 - oi_Attempt i) + attempt_left w
    | PJournal _ \<Rightarrow> 121
    | PEntry w _ _ \<Rightarrow> (case w of AtSize \<Rightarrow> 122 | AtActive \<Rightarrow> 123 | AtStamp \<Rightarrow> 124 | AtBreaker \<Rightarrow> 125 | AtGate \<Rightarrow> 126)
    | PFlat w \<Rightarrow> (case w of AtFlatStamp _ \<Rightarrow> 122 | AtDust _ _ _ _ \<Rightarrow> 1 | AtFlatSize _ _ _ _ \<Rightarrow> 123 | AtShort _ _ _ \<Rightarrow> 124
        | AtBalance _ _ \<Rightarrow> 125 | AtFlatten _ _ _ _ \<Rightarrow> 126 | AtClose _ _ _ \<Rightarrow> 127)
    | _ \<Rightarrow> 0)"

definition is_sweep :: "'d pc \<Rightarrow> bool" where
  "is_sweep p = (case p of PSweep _ \<Rightarrow> True | _ \<Rightarrow> False)"

definition throttles_by :: "nat \<Rightarrow> 'd send_state \<Rightarrow> nat" where
  "throttles_by k s = length (filter (\<lambda>x. pl_by x = k \<and> not_executed (pl_answer x)) (ss_sent s))"

definition own_steps :: "nat \<Rightarrow> 'd act list \<Rightarrow> nat" where
  "own_steps k acts = length (filter (\<lambda>a. case a of Step j _ \<Rightarrow> j = k | _ \<Rightarrow> False) acts)"

lemma stopped_left: "stopped p \<Longrightarrow> steps_left p = 0 \<and> \<not> is_sweep p"
  by (auto simp: stopped_def steps_left_def is_sweep_def split: pc.splits)

lemma attempt_left_step:
  fixes e :: "'d env"
  assumes f: "f = attempt_step e db w i"
  shows "\<not> is_sweep (ef_pc f) \<and> steps_left (ef_pc f) + 1 \<le> steps_left (PSend w i :: 'd pc)
     + 3 * length (filter (\<lambda>x. not_executed (pl_answer x)) (sent_by k f))"
proof (cases w)
  case AtKill2
  then show ?thesis unfolding f
    by (auto simp: attempt_step_def steps_left_def attempt_left_def is_sweep_def next_attempt_def)
next
  case AtPlace
  then show ?thesis unfolding f
    by (auto simp: attempt_step_def steps_left_def attempt_left_def is_sweep_def go_def sent_by_def not_executed_def
        split: venue_answer.splits)
qed (auto simp: f attempt_step_def after_store_def after_def steps_left_def attempt_left_def is_sweep_def sent_by_def
    split: outcome.split venue_answer.split prod.split)

lemma proc_left_step:
  fixes p :: "'d::linordered_field pc"
  assumes "proc_step L m e db p = Some f" and "\<not> is_sweep p"
  shows "\<not> is_sweep (ef_pc f) \<and> steps_left (ef_pc f) + 1 \<le> steps_left p
     + 3 * length (filter (\<lambda>x. not_executed (pl_answer x)) (sent_by k f))"
proof (cases p)
  case (PSend w i)
  then show ?thesis using assms(1) attempt_left_step [of f e db w i k] by (simp add: proc_step_def)
next
  case (PEntry w sub cap)
  then show ?thesis using assms(1)
    by (cases w) (auto simp: proc_step_def entry_step_def after_def steps_left_def is_sweep_def split: outcome.splits if_splits)
next
  case (PJournal sub)
  then show ?thesis using assms(1)
    by (auto simp: proc_step_def journal_step_def Let_def after_store_def after_def steps_left_def attempt_left_def is_sweep_def
        journal_intent_def split: outcome.splits if_splits)
next
  case (PFlat w)
  then have f: "f = flatten_step L m e db w" using assms(1) by (simp add: proc_step_def)
  show ?thesis
  proof (cases w)
    case (AtFlatten s sy origin pid)
    then show ?thesis unfolding f PFlat
      by (auto simp: flatten_step_def after_def steps_left_def is_sweep_def flatten_start_def bind_outcome_eq_Ok Let_def
          split: outcome.splits option.splits if_splits)
  qed (auto simp: f PFlat flatten_step_def after_store_def after_def steps_left_def is_sweep_def split: outcome.splits prod.splits)
qed (use assms in \<open>auto simp: proc_step_def is_sweep_def\<close>)

lemma send_step_left:
  assumes "send_step L U s a = Some t" and "k < length (ss_pcs s)" and "\<not> is_sweep (ss_pcs s ! k)"
  shows "k < length (ss_pcs t) \<and> \<not> is_sweep (ss_pcs t ! k) \<and> throttles_by k s \<le> throttles_by k t
     \<and> steps_left (ss_pcs t ! k) + own_steps k [a] \<le> steps_left (ss_pcs s ! k) + 3 * (throttles_by k t - throttles_by k s)"
proof -
  have own: "own_steps k [a] = 0" if "\<And>e. a \<noteq> Step k e" using that by (cases a) (auto simp: own_steps_def)
  show ?thesis using assms(1)
  proof (cases rule: send_step_elim)
    case (thread j e f)
    show ?thesis
    proof (cases "j = k")
      case True
      have "filter (\<lambda>x. pl_by x = k \<and> not_executed (pl_answer x)) (sent_by k f) = filter (\<lambda>x. not_executed (pl_answer x)) (sent_by k f)"
        by (auto simp: sent_by_def split: option.split)
      then show ?thesis using proc_left_step [OF thread(3), of k] True thread(1,4) assms(2,3)
        by (simp add: throttles_by_def own_steps_def)
    next
      case False
      have "filter (\<lambda>x. pl_by x = k \<and> not_executed (pl_answer x)) (sent_by j f) = []"
        using False by (auto simp: sent_by_def split: option.split)
      then show ?thesis using own False thread(1,4) assms(2,3) by (simp add: throttles_by_def)
    qed
  qed (use assms own in \<open>simp_all add: throttles_by_def\<close>)
qed

lemma run_left:
  assumes "run (send_step L U) s acts = Some t" and "k < length (ss_pcs s)" and "\<not> is_sweep (ss_pcs s ! k)"
  shows "k < length (ss_pcs t) \<and> \<not> is_sweep (ss_pcs t ! k) \<and> throttles_by k s \<le> throttles_by k t
     \<and> steps_left (ss_pcs t ! k) + own_steps k acts \<le> steps_left (ss_pcs s ! k) + 3 * (throttles_by k t - throttles_by k s)"
  using assms
proof (induction acts arbitrary: s)
  case (Cons a acts)
  then obtain u where u: "send_step L U s a = Some u" "run (send_step L U) u acts = Some t" by (auto split: option.splits)
  note one = send_step_left [OF u(1) Cons.prems(2,3)]
  note more = Cons.IH [OF u(2) conjunct1 [OF one] conjunct1 [OF conjunct2 [OF one]]]
  have "own_steps k (a # acts) = own_steps k [a] + own_steps k acts" by (simp add: own_steps_def)
  then show ?case using one more by (intro conjI) (blast, blast, linarith, linarith)
qed (simp add: own_steps_def)

text \<open>C22: a sender ends: no thread of the order manager that submits, closes, flattens or protects
  takes more than 127 steps of its own, plus three for every throttled answer, whatever the venue
  answers and the others do; and until it has ended its next step is defined.\<close>

theorem sender_ends:
  assumes "run (send_step L U) s acts = Some t" and "k < length (ss_pcs s)" and "\<not> is_sweep (ss_pcs s ! k)"
    and "case ss_pcs s ! k of PSend w i \<Rightarrow> 0 \<le> oi_Attempt i | _ \<Rightarrow> True"
  shows "own_steps k acts \<le> 127 + 3 * (throttles_by k t - throttles_by k s)
     \<and> (stopped (ss_pcs t ! k) \<or> length (en_bytes e) \<noteq> 16 \<or> list_ex (\<lambda>b. 256 \<le> b) (en_bytes e) \<or> send_step L U t (Step k e) \<noteq> None)"
proof -
  have "attempt_left w \<le> 13" for w by (cases w) (simp_all add: attempt_left_def)
  moreover have "12 * nat (9 - n) \<le> 108" if "0 \<le> n" for n using that by linarith
  ultimately have "12 * nat (9 - n) + attempt_left w \<le> 108 + 13" if "0 \<le> n" for n w using that by (intro add_mono)
  then have "0 \<le> n \<Longrightarrow> 12 * nat (9 - n) + attempt_left w \<le> 127" for n w by (rule le_trans) simp_all
  then have "steps_left (ss_pcs s ! k) \<le> 127"
    using assms(4) by (cases "ss_pcs s ! k") (auto simp: steps_left_def split: entry_at.split flatten_at.split)
  moreover note run_left [OF assms(1-3)]
  moreover have "stopped (ss_pcs t ! k) \<or> length (en_bytes e) \<noteq> 16 \<or> list_ex (\<lambda>b. 256 \<le> b) (en_bytes e) \<or> send_step L U t (Step k e) \<noteq> None"
    using calculation(2) by (auto simp: send_step_def proc_step_def journal_step_def Let_def stopped_def is_sweep_def split: pc.splits)
  ultimately show ?thesis by linarith
qed

section \<open>A send that follows the kill and the cancel\<close>

text \<open>What the others do leaves a thread where it is.\<close>

lemma others_keep_pc:
  "run (send_step L U) s acts = Some m \<Longrightarrow> own_steps k acts = 0 \<Longrightarrow>
     length (ss_pcs m) = length (ss_pcs s) \<and> ss_pcs m ! k = ss_pcs s ! k"
proof (induction acts arbitrary: s)
  case (Cons a acts)
  then obtain u where u: "send_step L U s a = Some u" "run (send_step L U) u acts = Some m"
    by (auto split: option.splits)
  have o: "own_steps k acts = 0" "\<forall>e. a \<noteq> Step k e"
    using Cons.prems(2) by (auto simp: own_steps_def split: act.splits if_splits)
  from u(1) have "length (ss_pcs u) = length (ss_pcs s) \<and> ss_pcs u ! k = ss_pcs s ! k"
    by (cases rule: send_step_elim) (use o(2) in auto)
  then show ?case using Cons.IH [OF u(2) o(1)] by simp
qed simp

lemma run_send_evolves: "run (send_step L U) s acts = Some t \<Longrightarrow> evolves (ss_db s) (ss_db t)"
proof (induction acts arbitrary: s)
  case (Cons a acts)
  then obtain u where u: "send_step L U s a = Some u" "run (send_step L U) u acts = Some t"
    by (auto split: option.splits)
  show ?case by (rule evolves_trans [OF send_step_evolves [OF u(1)] Cons.IH [OF u(2)]])
qed (simp add: evolves_frame)

lemma canceled_stays:
  assumes "evolves db d" and "get_order_row db i = Some r" and "or_Status r = ''canceled''"
  shows "\<exists>r'. get_order_row d i = Some r' \<and> or_Status r' = ''canceled''"
proof -
  obtain r' where r': "get_order_row d i = Some r'"
      "or_Status r' = or_Status r \<or> rank_of (or_Status r) < rank_of (or_Status r')"
    using assms(1,2) climbsD [of db d i r] by (auto simp: evolves_def)
  moreover have "rank_of ''canceled'' = 3" by (simp add: rank_of_def statusRank_def)
  ultimately show ?thesis using rank_le_3 [of "or_Status r'"] assms(3) by auto
qed

text \<open>C32: nothing stops a send once its thread has re-read its claim. From the moment a thread stands
  before the placement, whatever the other threads, the kill switch, the sweeps, the reconciler and the
  rest of the control plane do, and in any order (kill rows that bind the strategy, the claim revoked,
  the order cancelled), the thread's next step hands the venue the request of its journaled attempt and
  writes nothing; and where the order's row had been cancelled by then it stays cancelled, through
  every later run, whatever the venue answered: an order can work at the venue that the store calls
  cancelled, after the kill.\<close>

theorem send_follows_kill_and_cancel:
  assumes "k < length (ss_pcs s)" and "ss_pcs s ! k = PSend AtPlace i"
    and "run (send_step L U) s others = Some m" and "own_steps k others = 0"
  shows "\<exists>t. send_step L U m (Step k e) = Some t
     \<and> ss_sent t = ss_sent m @ [\<lparr>pl_by = k, pl_req = request_of i, pl_answer = en_answer e\<rparr>]
     \<and> ss_db t = ss_db m
     \<and> (\<forall>later v r. run (send_step L U) t later = Some v \<longrightarrow>
          get_order_row (ss_db m) (oi_OrderID i) = Some r \<longrightarrow> or_Status r = ''canceled'' \<longrightarrow>
          (\<exists>r'. get_order_row (ss_db v) (oi_OrderID i) = Some r' \<and> or_Status r' = ''canceled''))"
proof -
  have pc: "k < length (ss_pcs m)" "ss_pcs m ! k = PSend AtPlace i"
    using others_keep_pc [OF assms(3,4)] assms(1,2) by simp_all
  define t where "t = thread_effect k (attempt_step e (ss_db m) AtPlace i) m"
  have t: "send_step L U m (Step k e) = Some t" "ss_db t = ss_db m"
      "ss_sent t = ss_sent m @ [\<lparr>pl_by = k, pl_req = request_of i, pl_answer = en_answer e\<rparr>]"
    using pc by (simp_all add: t_def send_step_def proc_step_def thread_effect_def attempt_step_def)
  then show ?thesis using canceled_stays run_send_evolves by (intro exI [of _ t]) fastforce
qed

section \<open>The run of the witnesses\<close>

definition demo_gate :: "rat live_oms" where
  "demo_gate = \<lparr>lo_symbols = [''ETH/USDT''], lo_venueOf = [(''ETH/USDT'', ''ETHUSDT'')], lo_symbolOf = [(''ETHUSDT'', ''ETH/USDT'')],
     lo_allocated = 1000, lo_tuning = DefaultTuning, lo_reconciled = True, lo_resetPending = False,
     lo_venueEpoch = \<lparr>ve_VenueEpoch = 0, ve_StartedAt = ''t0'', ve_Reason = ''initial'', ve_DetailsJSON = ''{}''\<rparr>,
     lo_filters = Some [(''ETHUSDT'', \<lparr>sf_tick = 1, sf_step = 1, sf_minQty = 1, sf_maxQty = 0, sf_minNotional = 10\<rparr>)],
     lo_filtersAt = 0, lo_filtersStale = False, lo_running = False, lo_reconFails = 0, lo_lastReconcileEnd = 0\<rparr>"

definition demo_submission :: "rat submission" where
  "demo_submission = \<lparr>sub_strategyID = ''a'', sub_symbol = ''ETH/USDT'', sub_class = ''ENTRY'', sub_side = ''buy'', sub_typ = ''limit'',
     sub_origin = ''proposal'', sub_reduceOnly = False, sub_proposalID = Some ''p1'', sub_killEpoch = 0, sub_qty = 0,
     sub_limitPrice = 100, sub_stopPrice = 90, sub_takeProfit = 0\<rparr>"

definition demo_send :: "rat send_state" where
  "demo_send = \<lparr>ss_oms = demo_gate,
     ss_db = kill_demo\<lparr>db_proposals := [\<lparr>pp_ProposalID = ''p1'', pp_StrategyID = ''a'', pp_Action = ''open_long''\<rparr>]\<rparr>,
     ss_sent = [], ss_pcs = [PEntry AtGate demo_submission 1000, PSweep (AtList ''a'')]\<rparr>"

definition demo_env :: "string \<Rightarrow> venue_answer \<Rightarrow> rat env" where
  "demo_env u a = \<lparr>en_now = 0, en_uuid = u, en_bytes = replicate 16 0, en_mark = None, en_answer = a, en_balances = None\<rparr>"

definition demo_gone :: venue_answer where
  "demo_gone = VErr ClassNotFound 0 False ''{}''"

text \<open>The entry goes as far as its placement; a kill of its strategy commits; the kill's sweep lists the
  order, revokes its claim, is told that the venue does not know it, and marks it cancelled.\<close>

definition demo_own :: "rat act" where
  "demo_own = Step 0 (demo_env ''o1'' demo_gone)"

definition demo_to_place :: "rat act list" where
  "demo_to_place = replicate 7 demo_own @ [demo_own] @ [demo_own]"

definition demo_kill_sweep :: "rat act list" where
  "demo_kill_sweep = Kill (OpStrategyKill ''k1'' ''a'' ''admin'' ''2026-02-01T00:00:00Z'' False)
     # replicate 4 (Step 1 (demo_env ''s1'' demo_gone))"

definition demo_place :: "rat act list" where
  "demo_place = replicate 3 (Step 0 (demo_env ''e1'' (VAck 77 ''NEW'')))"

abbreviation demo_runs :: "rat send_state \<Rightarrow> rat act list \<Rightarrow> rat send_state option" where
  "demo_runs \<equiv> run (send_step rat_text_lib demo_ids)"

definition demo_check :: "rat send_state" where
  "demo_check = the (demo_runs demo_send (replicate 7 demo_own))"

definition demo_passed :: "rat send_state" where
  "demo_passed = the (demo_runs demo_check [demo_own])"

definition demo_swept :: "rat send_state" where
  "demo_swept = the (demo_runs demo_passed (demo_own # demo_kill_sweep))"

definition demo_placed :: "rat send_state" where
  "demo_placed = the (demo_runs demo_swept demo_place)"

definition race_view :: "rat send_state \<Rightarrow> bool \<times> string list \<times> bool list \<times> (nat \<times> venue_answer) list" where
  "race_view s = (ActiveKill (ss_db s) ''a'', map or_Status (db_orders (ss_db s)),
     map (\<lambda>i. oi_ClaimRevokedAt i \<noteq> None) (db_intents (ss_db s)), map (\<lambda>x. (pl_by x, pl_answer x)) (ss_sent s))"

definition demo_at :: "send_at \<Rightarrow> bool \<Rightarrow> rat send_state \<Rightarrow> bool" where
  "demo_at w old s \<longleftrightarrow> (case ss_pcs s ! 0 of
     PSend w' i \<Rightarrow> w' = w \<and> oi_StrategyID i = ''a'' \<and> stale (ss_db s) i = old \<and> oi_ClientOrderID i = attemptID (replicate 22 (CHR ''A'')) 0
   | _ \<Rightarrow> False)"

lemma race_runs:
  "case demo_runs demo_send (replicate 7 demo_own) of None \<Rightarrow> False | Some a \<Rightarrow> demo_at AtKill False a \<and>
  (case demo_runs a [demo_own] of None \<Rightarrow> False | Some b \<Rightarrow> demo_at AtReread False b \<and>
  (case demo_runs b (demo_own # demo_kill_sweep) of None \<Rightarrow> False
   | Some m \<Rightarrow> demo_at AtPlace True m \<and> race_view m = (True, [''canceled''], [True], []) \<and> ss_pcs m ! 1 = PDone None \<and>
  (case demo_runs m demo_place of None \<Rightarrow> False
   | Some t \<Rightarrow> race_view t = (True, [''canceled''], [True], [(0, VAck 77 ''NEW'')]) \<and> ss_pcs t ! 0 = PDone None)))"
  by code_simp

lemma demo_race:
  "demo_runs demo_send (replicate 7 demo_own) = Some demo_check" "demo_at AtKill False demo_check"
  "demo_runs demo_check [demo_own] = Some demo_passed" "demo_at AtReread False demo_passed"
  "demo_runs demo_passed (demo_own # demo_kill_sweep) = Some demo_swept" "demo_at AtPlace True demo_swept"
  "race_view demo_swept = (True, [''canceled''], [True], [])" "ss_pcs demo_swept ! 1 = PDone None"
  "demo_runs demo_swept demo_place = Some demo_placed" "race_view demo_placed = (True, [''canceled''], [True], [(0, VAck 77 ''NEW'')])"
  "ss_pcs demo_placed ! 0 = PDone None"
  using race_runs by (auto simp: demo_check_def demo_passed_def demo_swept_def demo_placed_def split: option.splits)

lemma run_join: "run step s as = Some t \<Longrightarrow> run step t bs = Some u \<Longrightarrow> run step s (as @ bs) = Some u"
  by (simp add: run_append)

lemma demo_to_swept: "demo_runs demo_send (demo_to_place @ demo_kill_sweep) = Some demo_swept"
  using run_join [OF demo_race(1) run_join [OF demo_race(3,5)]] by (simp add: demo_to_place_def)

lemma demo_to_placed: "demo_runs demo_send ((demo_to_place @ demo_kill_sweep) @ demo_place) = Some demo_placed"
  by (rule run_join [OF demo_to_swept demo_race(9)])

text \<open>An entry hands the venue the trigger price of its stop-loss, which is not a parameter of its order.\<close>

lemma entry_request_carries_stop:
  assumes "0 < sub_stopPrice sub"
  shows "pq_StopPrice (request_of (journal_intent L m sub token orderID now)) = dString L (sub_stopPrice sub)"
  using assms by (simp add: request_of_def journal_intent_def live_optDec_def not_le)

section \<open>Witnesses\<close>

lemma demo_start: "send_start demo_send" "kill_inv (ss_db demo_send)" "tenant_of (ss_db demo_send) ''a'' = Some ''t''"
  using kill_demo_inv by (simp_all add: send_start_def demo_send_def kill_inv_def tenant_of_def get_strategy_row_def kill_demo_def)

lemma demo_entry: "0 < length (ss_pcs demo_send)" "ss_pcs demo_send ! 0 = PEntry AtGate demo_submission 1000"
  by (simp_all add: demo_send_def)

theorem attempt_executed_once_witness:
  "executions (attemptID (replicate 22 (CHR ''A'')) 0) demo_placed \<le> 1 \<and> length (ss_sent demo_placed) = 1"
  using attempt_executed_once [OF demo_start(1) demo_to_placed] demo_race(10) by (auto simp: race_view_def)

theorem placed_was_journaled_witness:
  "\<exists>x j. ss_sent demo_placed = [x] \<and> get_intent (ss_db demo_placed) (pq_NewClientOrderID (pl_req x)) = Some j
     \<and> oi_ClaimedAt j \<noteq> None \<and> pl_req x = request_of j \<and> inNamespace (pq_NewClientOrderID (pl_req x))"
proof -
  obtain x where x: "ss_sent demo_placed = [x]" using demo_race(10) by (auto simp: race_view_def)
  then show ?thesis using placed_was_journaled [OF demo_start(1) demo_to_placed, of x] by auto
qed

theorem kill_stops_sender_witness:
  "placements_by 0 demo_placed \<le> placements_by 0 demo_swept + 1 \<and> ActiveKill (ss_db demo_swept) ''a'' \<and> length (ss_sent demo_placed) = 1"
proof -
  obtain i where i: "ss_pcs demo_swept ! 0 = PSend AtPlace i" "oi_StrategyID i = ''a''" "stale (ss_db demo_swept) i"
    using demo_race(6) by (auto simp: demo_at_def split: pc.splits)
  have "entry_ok 0 ''a'' demo_send" using demo_start demo_entry by (simp add: entry_ok_def pc_entry_def demo_submission_def)
  then have "entry_ok 0 ''a'' demo_swept" by (rule entering.run_inv [OF _ demo_to_swept])
  then show ?thesis
    using kill_stops_sender [OF _ _ _ i(1,3) demo_race(9)] demo_race(7,10) i(2) by (auto simp: entry_ok_def race_view_def)
qed

theorem check_passes_only_unkilled_witness:
  "demo_runs demo_send (replicate 7 demo_own) = Some demo_check \<and> \<not> ActiveKill (ss_db demo_check) ''a''"
proof -
  obtain i where i: "ss_pcs demo_check ! 0 = PSend AtKill i" "\<not> stale (ss_db demo_check) i"
    using demo_race(2) by (auto simp: demo_at_def split: pc.splits)
  have st: "send_step rat_text_lib demo_ids demo_check (Step 0 (demo_env ''o1'' demo_gone)) = Some demo_passed"
    using demo_race(3) by (simp add: demo_own_def split: option.splits)
  then have d: "demo_passed = thread_effect 0 (go (PSend AtReread i) (ss_db demo_check)) demo_check" and l: "0 < length (ss_pcs demo_check)"
    using i by (auto simp: send_step_def proc_step_def attempt_step_def split: if_splits)
  have "ss_pcs demo_passed ! 0 = PSend AtReread i" by (subst d) (use l in simp)
  from check_passes_only_unkilled [OF demo_start(2) demo_entry _ demo_race(1) i(1) st this] demo_start(3) show ?thesis
    using demo_race(1) by (simp add: demo_submission_def)
qed

theorem send_follows_kill_and_cancel_witness:
  "\<exists>t. send_step rat_text_lib demo_ids demo_swept (Step 0 (demo_env ''e1'' (VAck 77 ''NEW''))) = Some t
     \<and> length (ss_sent t) = Suc (length (ss_sent demo_swept))
     \<and> map or_Status (db_orders (ss_db t)) = [''canceled''] \<and> ActiveKill (ss_db t) ''a''"
proof -
  obtain p where p: "demo_runs demo_passed [demo_own] = Some p" "demo_runs p demo_kill_sweep = Some demo_swept"
    using demo_race(5) by (auto split: option.splits)
  have o: "own_steps 0 demo_kill_sweep = 0"
    by (simp add: own_steps_def demo_kill_sweep_def numeral_eq_Suc)
  obtain i where i: "ss_pcs demo_swept ! 0 = PSend AtPlace i"
    using demo_race(6) by (auto simp: demo_at_def split: pc.splits)
  have "send_step rat_text_lib demo_ids demo_swept (Step 0 (demo_env ''e1'' (VAck 77 ''NEW''))) \<noteq> None"
    using demo_race(9) by (auto simp: demo_place_def numeral_eq_Suc split: option.splits)
  then have "0 < length (ss_pcs demo_swept)" by (auto simp: send_step_def)
  then have "0 < length (ss_pcs p)" "ss_pcs p ! 0 = PSend AtPlace i"
    using others_keep_pc [OF p(2) o] i by simp_all
  from send_follows_kill_and_cancel [OF this p(2) o, of "demo_env ''e1'' (VAck 77 ''NEW'')"]
  show ?thesis using demo_race(7) by (auto simp: race_view_def)
qed

theorem sender_ends_witness:
  "own_steps 0 ((demo_to_place @ demo_kill_sweep) @ demo_place) \<le> 127 + 3 * (throttles_by 0 demo_placed - throttles_by 0 demo_send)
     \<and> own_steps 0 ((demo_to_place @ demo_kill_sweep) @ demo_place) = 12 \<and> ss_pcs demo_placed ! 0 = PDone None"
proof -
  have "\<not> is_sweep (ss_pcs demo_send ! 0)" "case ss_pcs demo_send ! 0 of PSend w i \<Rightarrow> 0 \<le> oi_Attempt i | _ \<Rightarrow> True"
    by (simp_all add: demo_entry is_sweep_def)
  from sender_ends [OF demo_to_placed demo_entry(1) this] demo_race(11) show ?thesis
    by (simp add: own_steps_def demo_to_place_def demo_kill_sweep_def demo_place_def demo_own_def numeral_eq_Suc)
qed

end
