(* ===== verification/Handlers.thy ===== *)
theory Handlers
  imports LiveSubmit
begin

text \<open>
  Handlers of the live order manager as programs of atomic steps: a statement or transaction on the
  store together with a section under the mutex, a call on the venue, or a thread of the submission
  pipeline that the handler waits for. Between two steps anything else may run. The rule \<open>assures\<close>
  proves what a handler does at each of its steps, and what it leaves, under that interference.
\<close>

section \<open>Vocabulary\<close>

text \<open>The venue's order states and trades, the calls of the handlers, and the answers.\<close>

record venue_order =
  vo_VenueSymbol :: string
  vo_ExchangeOrderID :: int
  vo_ClientOrderID :: string
  vo_Status :: string
  vo_Type :: string
  vo_ExecutedQty :: string

record venue_trade =
  vt_ID :: int
  vt_ExchangeOrderID :: int
  vt_ClientOrderID :: string
  vt_Price :: string
  vt_Qty :: string
  vt_Commission :: string
  vt_CommissionAsset :: string
  vt_Time :: instant

datatype venue_call =
    QueryOrder string string
  | CancelOrder string string
  | OpenOrders string
  | MyTrades string int "instant option"
  | Balances
  | ExchangeInfo "string list"

datatype venue_reply =
    ROrder venue_order
  | ROrders "venue_order list"
  | RTrades "venue_trade list"
  | RBalances "(string \<times> string \<times> string) list"
  | RFilters "(string \<times> exchange_filters) list"
  | RFail venue_class string

text \<open>The clock, fresh identifiers, the mark cache and the rendering of an error at hand (the venue's fields
  or its class) at a step; the memory a handler shares.\<close>

record 'd surround =
  su_now :: instant
  su_uuid :: "nat \<Rightarrow> string"
  su_mark :: "string \<Rightarrow> 'd option"
  su_cause :: string

record 'd world =
  wd_oms :: "'d live_oms"
  wd_db :: store_db

section \<open>Programs\<close>

datatype ('d, 'r) prog =
    Ret 'r
  | Act "'d surround \<Rightarrow> 'd world \<Rightarrow> 'd world" "'d surround \<Rightarrow> 'd world \<Rightarrow> ('d, 'r) prog"
  | Ask venue_call "venue_reply \<Rightarrow> ('d, 'r) prog"
  | Sub "'d pc" "'d pc \<Rightarrow> ('d, 'r) prog"
  | Crash

primrec hbind :: "('d, 'r) prog \<Rightarrow> ('r \<Rightarrow> ('d, 's) prog) \<Rightarrow> ('d, 's) prog" where
  "hbind (Ret r) k = k r"
| "hbind (Act f p) k = Act f (\<lambda>e w. hbind (p e w) k)"
| "hbind (Ask c p) k = Ask c (\<lambda>a. hbind (p a) k)"
| "hbind (Sub t p) k = Sub t (\<lambda>u. hbind (p u) k)"
| "hbind Crash k = Crash"

text \<open>A handler returns an error or a value; the next statement runs after a value.\<close>

type_synonym ('d, 'a) handler = "('d, live_error + 'a) prog"

definition ok :: "'a \<Rightarrow> ('d, 'a) handler" where
  "ok a = Ret (Inr a)"

definition fail :: "live_error \<Rightarrow> ('d, 'a) handler" where
  "fail e = Ret (Inl e)"

definition andthen :: "('d, 'a) handler \<Rightarrow> ('a \<Rightarrow> ('d, 'b) handler) \<Rightarrow> ('d, 'b) handler" where
  "andthen p k = hbind p (\<lambda>r. case r of Inl e \<Rightarrow> fail e | Inr a \<Rightarrow> k a)"

text \<open>What the code computes without a call; a division by zero crashes the process.\<close>

definition calc :: "(live_error, 'a) outcome \<Rightarrow> ('d, 'a) handler" where
  "calc r = (case r of Ok a \<Rightarrow> ok a | Err e \<Rightarrow> fail e | _ \<Rightarrow> Crash)"

text \<open>A read, a statement or transaction of the store with its value, and a section under the mutex.\<close>

definition look :: "('d surround \<Rightarrow> 'd world \<Rightarrow> 'a) \<Rightarrow> ('d, 'a) handler" where
  "look f = Act (\<lambda>_ w. w) (\<lambda>e w. ok (f e w))"

definition tx :: "('d surround \<Rightarrow> 'd live_oms \<Rightarrow> store_db \<Rightarrow> (live_error, store_db \<times> 'a) outcome) \<Rightarrow> ('d, 'a) handler" where
  "tx f = Act (\<lambda>e w. case f e (wd_oms w) (wd_db w) of Ok (d, _) \<Rightarrow> w\<lparr>wd_db := d\<rparr> | _ \<Rightarrow> w)
     (\<lambda>e w. calc (case f e (wd_oms w) (wd_db w) of Ok (_, a) \<Rightarrow> Ok a | Err x \<Rightarrow> Err x | Panic \<Rightarrow> Panic | Diverge \<Rightarrow> Diverge))"

definition stmt :: "('d surround \<Rightarrow> store_db \<Rightarrow> (store_error, store_db) outcome) \<Rightarrow> ('d, unit) handler" where
  "stmt f = tx (\<lambda>e _ db. lift_store (bind_outcome (f e db) (\<lambda>d. Ok (d, ()))))"

definition under_mu :: "('d surround \<Rightarrow> 'd live_oms \<Rightarrow> 'd live_oms) \<Rightarrow> ('d, unit) handler" where
  "under_mu f = Act (\<lambda>e w. w\<lparr>wd_oms := f e (wd_oms w)\<rparr>) (\<lambda>_ _. ok ())"

text \<open>A loop over a slice that stops at the first error, carrying a value.\<close>

primrec each :: "'x list \<Rightarrow> ('s \<Rightarrow> 'x \<Rightarrow> ('d, 's) handler) \<Rightarrow> 's \<Rightarrow> ('d, 's) handler" where
  "each [] f s = ok s"
| "each (x # xs) f s = andthen (f s x) (each xs f)"

text \<open>Journal events, and their details as JSON (the encoder sorts the keys).\<close>

definition json_raw :: "string \<Rightarrow> string \<Rightarrow> string" where
  "json_raw k v = go_quote k @ '':'' @ v"

fun commas :: "string list \<Rightarrow> string" where
  "commas [] = []"
| "commas [p] = p"
| "commas (p # ps) = p @ '','' @ commas ps"

definition json_obj :: "string list \<Rightarrow> string" where
  "json_obj ps = ''{'' @ commas ps @ ''}''"

definition log_event :: "('d surround \<Rightarrow> recon_row) \<Rightarrow> ('d, unit) handler" where
  "log_event f = stmt (\<lambda>e db. AppendOMSReconEvent (f e) db)"

section \<open>Runs\<close>

text \<open>A call on the venue is answered in kind or fails; trades asked for from an id on have such ids, as the
  venue documents.\<close>

definition answers :: "venue_call \<Rightarrow> venue_reply \<Rightarrow> bool" where
  "answers c a = (case a of
      RFail _ _ \<Rightarrow> True
    | ROrder _ \<Rightarrow> (case c of QueryOrder _ _ \<Rightarrow> True | CancelOrder _ _ \<Rightarrow> True | _ \<Rightarrow> False)
    | ROrders _ \<Rightarrow> (case c of OpenOrders _ \<Rightarrow> True | _ \<Rightarrow> False)
    | RTrades ts \<Rightarrow> (case c of MyTrades _ lo _ \<Rightarrow> list_all (\<lambda>t. lo \<le> vt_ID t) ts | _ \<Rightarrow> False)
    | RBalances _ \<Rightarrow> (case c of Balances \<Rightarrow> True | _ \<Rightarrow> False)
    | RFilters _ \<Rightarrow> (case c of ExchangeInfo _ \<Rightarrow> True | _ \<Rightarrow> False))"

text \<open>One step of a handler, of the thread it waits for, or of everybody else.\<close>

datatype 'd hand_act =
    HStep "'d surround"
  | HAnswer venue_reply
  | HThread "'d env"
  | HOther "'d world"

definition thread_world :: "'d effect \<Rightarrow> 'd world \<Rightarrow> 'd world" where
  "thread_world f w = w\<lparr>wd_oms := (if ef_stale f then (wd_oms w)\<lparr>lo_filtersStale := True\<rparr> else wd_oms w), wd_db := ef_db f\<rparr>"

definition hand_step ::
  "'d::linordered_field dlib \<Rightarrow> ('d world \<Rightarrow> 'd world \<Rightarrow> bool) \<Rightarrow> 'd world \<times> ('d, 'r) prog \<Rightarrow> 'd hand_act \<Rightarrow>
     ('d world \<times> ('d, 'r) prog) option" where
  "hand_step L others s a = (case a of
      HStep e \<Rightarrow> (case snd s of Act f q \<Rightarrow> Some (f e (fst s), q e (fst s)) | _ \<Rightarrow> None)
    | HAnswer r \<Rightarrow> (case snd s of Ask c q \<Rightarrow> if answers c r then Some (fst s, q r) else None | _ \<Rightarrow> None)
    | HThread e \<Rightarrow> (case snd s of
          Sub t q \<Rightarrow>
            if stopped t then Some (fst s, q t)
            else map_option (\<lambda>f. (thread_world f (fst s), Sub (ef_pc f) q)) (proc_step L (wd_oms (fst s)) e (wd_db (fst s)) t)
        | _ \<Rightarrow> None)
    | HOther w \<Rightarrow> if others (fst s) w then Some (w, snd s) else None)"

text \<open>
  What a program guarantees from a world on, when others move the world by \<open>R\<close>: \<open>G\<close> of each of its
  steps and the clock there, \<open>Q\<close> before each call on the venue, \<open>P\<close> at its return.
\<close>

primrec assures ::
  "('d world \<Rightarrow> 'd world \<Rightarrow> bool) \<Rightarrow> ('d surround \<Rightarrow> 'd world \<Rightarrow> 'd world \<Rightarrow> bool) \<Rightarrow> (venue_call \<Rightarrow> 'd world \<Rightarrow> bool) \<Rightarrow>
     ('r \<Rightarrow> 'd world \<Rightarrow> bool) \<Rightarrow> ('d, 'r) prog \<Rightarrow> 'd world \<Rightarrow> bool" where
  "assures R G Q P (Ret r) = (\<lambda>w. P r w)"
| "assures R G Q P (Act f p) = (\<lambda>w. \<forall>e. G e w (f e w) \<and> (\<forall>v. R (f e w) v \<longrightarrow> assures R G Q P (p e w) v))"
| "assures R G Q P (Ask c p) = (\<lambda>w. Q c w \<and> (\<forall>a v. answers c a \<longrightarrow> R w v \<longrightarrow> assures R G Q P (p a) v))"
| "assures R G Q P (Sub t p) = (\<lambda>w. \<forall>u v. R w v \<longrightarrow> stopped u \<longrightarrow> assures R G Q P (p u) v)"
| "assures R G Q P Crash = (\<lambda>w. True)"

lemma prog_induct [case_names Ret Act Ask Sub Crash]:
  assumes "\<And>r. S (Ret r)" and "\<And>f p. (\<And>e w. S (p e w)) \<Longrightarrow> S (Act f p)" and "\<And>c p. (\<And>a. S (p a)) \<Longrightarrow> S (Ask c p)"
    and "\<And>t p. (\<And>u. S (p u)) \<Longrightarrow> S (Sub t p)" and "S Crash"
  shows "S q"
proof (induction q)
  case (Act f p)
  show ?case by (rule assms(2)) (rule Act [OF rangeI rangeI])
qed (use assms in \<open>auto intro: rangeI\<close>)

lemma assures_bind: "assures R G Q P (hbind p k) w = assures R G Q (\<lambda>r. assures R G Q P (k r)) p w"
  by (induction p arbitrary: w rule: prog_induct) simp_all

lemma assures_mono:
  "assures R G Q P p w \<Longrightarrow> (\<And>r w. P r w \<Longrightarrow> P' r w) \<Longrightarrow> assures R G Q P' p w"
  by (induction p arbitrary: w rule: prog_induct) simp_all

text \<open>Others are transitive, and contain the threads of the submission pipeline.\<close>

definition tolerates :: "'d::linordered_field dlib \<Rightarrow> ('d world \<Rightarrow> 'd world \<Rightarrow> bool) \<Rightarrow> bool" where
  "tolerates L R \<longleftrightarrow> (\<forall>w. R w w) \<and> (\<forall>u v w. R u v \<longrightarrow> R v w \<longrightarrow> R u w)
     \<and> (\<forall>w e t f. proc_step L (wd_oms w) e (wd_db w) t = Some f \<longrightarrow> R w (thread_world f w))"

definition guaranteed :: "('d world \<Rightarrow> 'd world \<Rightarrow> bool) \<Rightarrow> ('d surround \<Rightarrow> 'd world \<Rightarrow> 'd world \<Rightarrow> bool) \<Rightarrow> (venue_call \<Rightarrow> 'd world \<Rightarrow> bool) \<Rightarrow>
    ('r \<Rightarrow> 'd world \<Rightarrow> bool) \<Rightarrow> 'd world \<times> ('d, 'r) prog \<Rightarrow> bool" where
  "guaranteed R G Q P s \<longleftrightarrow> (\<forall>v. R (fst s) v \<longrightarrow> assures R G Q P (snd s) v)"

lemma hand_step_guaranteed:
  assumes t: "tolerates L R" and f: "guaranteed R G Q P s" and st: "hand_step L R s a = Some s'" shows "guaranteed R G Q P s'"
proof -
  have refl: "R w w" and trans: "R u v \<Longrightarrow> R v w \<Longrightarrow> R u w"
    and thread: "proc_step L (wd_oms w) e (wd_db w) x = Some y \<Longrightarrow> R w (thread_world y w)" for u v w e x y
    using t by (auto simp: tolerates_def)
  obtain w p where s: "s = (w, p)" by (cases s)
  have h: "R w v \<Longrightarrow> assures R G Q P p v" for v using f by (simp add: guaranteed_def s)
  show ?thesis
  proof (cases a)
    case (HStep e)
    then obtain f q where p: "p = Act f q" "s' = (f e w, q e w)" using st by (auto simp: hand_step_def s split: prog.splits)
    then show ?thesis using h [OF refl] by (simp add: guaranteed_def)
  next
    case (HAnswer r)
    then obtain c q where p: "p = Ask c q" "answers c r" "s' = (w, q r)"
      using st by (auto simp: hand_step_def s split: prog.splits if_splits)
    then show ?thesis using h [OF refl] by (simp add: guaranteed_def)
  next
    case (HThread e)
    then obtain x q where p: "p = Sub x q" using st by (auto simp: hand_step_def s split: prog.splits)
    have q: "R w v \<Longrightarrow> stopped u \<Longrightarrow> assures R G Q P (q u) v" for u v using h [OF refl] by (simp add: p)
    show ?thesis
    proof (cases "stopped x")
      case True
      then show ?thesis using st q by (auto simp: hand_step_def s p HThread guaranteed_def)
    next
      case False
      then obtain y where y: "proc_step L (wd_oms w) e (wd_db w) x = Some y" "s' = (thread_world y w, Sub (ef_pc y) q)"
        using st by (auto simp: hand_step_def s p HThread)
      show ?thesis unfolding y(2) guaranteed_def using q trans [OF thread [OF y(1)]] by (simp, blast intro: trans)
    qed
  next
    case (HOther v)
    then show ?thesis using st h trans by (auto simp: hand_step_def s guaranteed_def split: if_splits)
  qed
qed

lemma hand_run_guaranteed:
  assumes "tolerates L R" and "guaranteed R G Q P s" and "run (hand_step L R) s as = Some s'" shows "guaranteed R G Q P s'"
  using assms(2,3)
proof (induction as arbitrary: s)
  case (Cons a as)
  then obtain t where "hand_step L R s a = Some t" "run (hand_step L R) t as = Some s'" by (auto split: option.splits)
  then show ?case using Cons.IH hand_step_guaranteed [OF assms(1) Cons.prems(1)] by blast
qed simp

lemma guaranteed_here: "tolerates L R \<Longrightarrow> guaranteed R G Q P (w, p) \<Longrightarrow> assures R G Q P p w"
  by (simp add: guaranteed_def tolerates_def)

section \<open>Rules\<close>

lemma assures_andthen:
  "assures R G Q P (andthen p k) w = assures R G Q (\<lambda>r. case r of Inl e \<Rightarrow> P (Inl e) | Inr a \<Rightarrow> assures R G Q P (k a)) p w"
  by (simp add: andthen_def assures_bind fail_def sum.case_distrib cong: sum.case_cong)

lemma assures_simps [simp]:
  "assures R G Q P (ok a) w = P (Inr a) w"
  "assures R G Q P (fail x) w = P (Inl x) w"
  by (simp_all add: ok_def fail_def)

lemma assures_calc: "(\<And>a. r = Ok a \<Longrightarrow> P (Inr a) w) \<Longrightarrow> (\<And>x. r = Err x \<Longrightarrow> P (Inl x) w) \<Longrightarrow> assures R G Q P (calc r) w"
  by (cases r) (simp_all add: calc_def)

lemma assures_look: "(\<And>e v. R w v \<Longrightarrow> P (Inr (f e w)) v) \<Longrightarrow> (\<And>e. G e w w) \<Longrightarrow> assures R G Q P (look f) w"
  by (simp add: look_def)

lemma assures_tx:
  assumes "\<And>e d a. f e (wd_oms w) (wd_db w) = Ok (d, a) \<Longrightarrow> G e w (w\<lparr>wd_db := d\<rparr>) \<and> (\<forall>v. R (w\<lparr>wd_db := d\<rparr>) v \<longrightarrow> P (Inr a) v)"
    and "\<And>x v. R w v \<Longrightarrow> P (Inl x) v" and "\<And>e. G e w w"
  shows "assures R G Q P (tx f) w"
  using assms by (auto simp: tx_def calc_def split: outcome.splits)

lemma assures_stmt:
  assumes "\<And>e d. f e (wd_db w) = Ok d \<Longrightarrow> G e w (w\<lparr>wd_db := d\<rparr>) \<and> (\<forall>v. R (w\<lparr>wd_db := d\<rparr>) v \<longrightarrow> P (Inr ()) v)"
    and "\<And>x v. R w v \<Longrightarrow> P (Inl x) v" and "\<And>e. G e w w"
  shows "assures R G Q P (stmt f) w"
  unfolding stmt_def
  by (rule assures_tx) (use assms in \<open>auto simp: lift_store_def bind_outcome_eq_Ok split: outcome.splits\<close>)

lemma assures_mu:
  "(\<And>e. G e w (w\<lparr>wd_oms := f e (wd_oms w)\<rparr>)) \<Longrightarrow> (\<And>e v. R (w\<lparr>wd_oms := f e (wd_oms w)\<rparr>) v \<Longrightarrow> P (Inr ()) v) \<Longrightarrow>
     assures R G Q P (under_mu f) w"
  by (simp add: under_mu_def)

text \<open>A loop keeps what its body keeps.\<close>

lemma assures_each:
  assumes "\<And>x s w. x \<in> set xs \<Longrightarrow> I s w \<Longrightarrow> assures R G Q (\<lambda>r w. case r of Inl e \<Rightarrow> P (Inl e) w | Inr s \<Rightarrow> I s w) (f s x) w"
    and "I s w" and "\<And>s w. I s w \<Longrightarrow> P (Inr s) w"
  shows "assures R G Q P (each xs f s) w"
  using assms(1,2)
proof (induction xs arbitrary: s w)
  case Nil
  then show ?case using assms(3) by simp
next
  case (Cons x xs)
  have "assures R G Q (\<lambda>r w. case r of Inl e \<Rightarrow> P (Inl e) w | Inr s \<Rightarrow> I s w) (f s x) w" by (rule Cons.prems) (simp_all add: Cons.prems)
  then show ?case
    unfolding each.simps assures_andthen
    by (rule assures_mono) (auto split: sum.splits intro!: Cons.IH Cons.prems(1))
qed

section \<open>What everybody keeps\<close>

text \<open>Journal events are only appended, and the journal evolves.\<close>

definition logged :: "store_db \<Rightarrow> store_db \<Rightarrow> bool" where
  "logged db d \<longleftrightarrow> (\<exists>es. db_recon d = db_recon db @ es)"

definition drifts :: "'d world \<Rightarrow> 'd world \<Rightarrow> bool" where
  "drifts w v \<longleftrightarrow> evolves (wd_db w) (wd_db v) \<and> logged (wd_db w) (wd_db v)"

lemma logged_refl [simp]: "logged db db"
  by (simp add: logged_def)

lemma logged_same: "db_recon d = db_recon db \<Longrightarrow> logged db d"
  by (simp add: logged_def)

lemma logged_trans: "logged a b \<Longrightarrow> logged b c \<Longrightarrow> logged a c"
  by (auto simp: logged_def)

lemma logged_in: "logged db d \<Longrightarrow> e \<in> set (db_recon db) \<Longrightarrow> e \<in> set (db_recon d)"
  by (auto simp: logged_def)

lemma drifts_refl [simp]: "drifts w w"
  by (simp add: drifts_def evolves_frame)

lemma drifts_trans: "drifts u v \<Longrightarrow> drifts v w \<Longrightarrow> drifts u w"
  unfolding drifts_def using evolves_trans logged_trans by blast

lemma book_stmts_log: "fold_ok book_stmt bs db = Ok d \<Longrightarrow> db_recon d = db_recon db"
proof (induction bs arbitrary: db)
  case (Cons b bs)
  then obtain m where "book_stmt db b = Ok m" "fold_ok book_stmt bs m = Ok d" by (auto simp: bind_outcome_eq_Ok)
  moreover have "db_recon m = db_recon db" using \<open>book_stmt db b = Ok m\<close>
    by (auto simp: book_stmt_def UpsertPosition_def UpsertStrategyState_def InsertProtectiveObligation_def
        InsertPendingFillFee_def split: book_stmt.splits if_splits)
  ultimately show ?case using Cons.IH by simp
qed simp

lemma update_order_log: "update_order i f db = Ok d \<Longrightarrow> db_recon d = db_recon db"
  by (auto simp: update_order_def split: if_splits option.splits)

lemma status_log: "RecordOrderStatus i st db = Ok (d, x) \<Longrightarrow> db_recon d = db_recon db"
  by (auto simp: RecordOrderStatus_def bind_outcome_eq_Ok update_order_log split: if_splits option.splits)

lemma live_op_log: "live_op L op db = Ok d \<Longrightarrow> \<not> is_rest op \<Longrightarrow> logged db d"
proof (cases op)
  case (LJournal r i)
  moreover assume "live_op L op db = Ok d"
  ultimately show ?thesis
    by (auto simp: live_op_def InsertJournaledOrder_def InsertOrder_def InsertOrderIntent_def set_client_order_id_def
        bind_outcome_eq_Ok intro!: logged_same split: if_splits dest!: update_order_log)
next
  case (LAttempt i)
  moreover assume "live_op L op db = Ok d"
  ultimately show ?thesis
    by (auto simp: live_op_def RecordIntentAttempt_def InsertOrderIntent_def set_client_order_id_def bind_outcome_eq_Ok
        intro!: logged_same split: if_splits dest!: update_order_log)
next
  case (LVenueFill f st bs)
  moreover assume "live_op L op db = Ok d"
  ultimately obtain new where r: "RecordVenueFill L f st (fold_ok book_stmt bs) db = Ok (d, new)"
    by (auto simp: live_op_def bind_outcome_eq_Ok)
  show ?thesis
  proof (cases new)
    case True
    then have "RecordVenueFill L f st (fold_ok book_stmt bs) db = Ok (d, True)" using r by simp
    from RecordVenueFill_new [OF this] obtain v d2 d3 now
      where "update_order (fr_OrderID f) (\<lambda>r. r\<lparr>or_FillPrice := Some v, or_FilledAt := Some (fr_FillTS f)\<rparr>)
          (db\<lparr>db_fills := db_fills db @ [f]\<rparr>) = Ok d2" "RecordOrderStatus (fr_OrderID f) st d2 = Ok (d3, now)"
        "fold_ok book_stmt bs d3 = Ok d" by blast
    then have "db_recon d = db_recon db" using update_order_log status_log book_stmts_log by fastforce
    then show ?thesis by (rule logged_same)
  next
    case False
    then have "d = db" using RecordVenueFill_replay [of L f st "fold_ok book_stmt bs" db d] r by simp
    then show ?thesis by simp
  qed
next
  case (LStatus i st)
  moreover assume "live_op L op db = Ok d"
  ultimately show ?thesis by (auto simp: live_op_def bind_outcome_eq_Ok intro!: logged_same dest: status_log)
next
  case (LAck i x)
  moreover assume "live_op L op db = Ok d"
  ultimately show ?thesis by (auto simp: live_op_def RecordExchangeAck_def intro!: logged_same dest: update_order_log)
qed (auto simp: is_rest_def live_op_def RecordIntentClaim_def RecordIntentClaimRevoked_def AppendOMSReconEvent_def
    InsertProtectiveObligation_def InsertPendingFillFee_def InsertVenueEpoch_def RecordProtectiveSatisfied_def RecordFeeConverted_def
    bind_outcome_eq_Ok logged_def split: option.splits if_splits)

lemma by_ops_log: assumes "by_ops L db d" shows "logged db d"
proof -
  obtain ops where o: "plain_ops ops" "run (live_step L) db ops = Some d" using assms by (auto simp: by_ops_def)
  have "plain_ops ops \<Longrightarrow> run (live_step L) db ops = Some d \<Longrightarrow> logged db d" for db
    by (induction ops arbitrary: db)
      (auto simp: plain_ops_def live_step_iff split: option.splits dest: live_op_log intro: logged_trans)
  then show ?thesis using o by blast
qed

lemma by_ops_drift: "by_ops L (wd_db w) d \<Longrightarrow> drifts w (w\<lparr>wd_db := d\<rparr>)"
  by (simp add: drifts_def by_ops_evolves by_ops_log)

text \<open>The threads of the submission pipeline are among the others.\<close>

lemma tolerates_drifts: "tolerates L drifts"
  unfolding tolerates_def
  by (auto intro: drifts_trans) (simp add: drifts_def thread_world_def by_ops_evolves [OF proc_by_ops] by_ops_log [OF proc_by_ops])

end
