(* ===== verification/LiveFills.thy ===== *)
theory LiveFills
  imports Handlers OMSBridge
begin

text \<open>
  Venue fills (\<open>internal/oms/live/fills.go\<close>): the book of a strategy and symbol, the conversion of a
  commission, and the transaction that books one trade, which stream and backfill share; of
  protective.go the cancel of resting protectives that a closing fill triggers.
\<close>

section \<open>The book\<close>

record 'd book_state =
  bk_qty :: 'd
  bk_entry :: 'd
  bk_fees :: 'd
  bk_realized :: 'd

definition applyFill_live ::
  "'d::linordered_field dlib \<Rightarrow> 'd book_state \<Rightarrow> string \<Rightarrow> 'd \<Rightarrow> 'd \<Rightarrow> 'd \<Rightarrow> ('e, 'd book_state) outcome" where
  "applyFill_live L b sd qty price fee =
     (let b = (if bk_qty b = 0 then b\<lparr>bk_fees := 0\<rparr> else b);
          dir = (if sd = ''buy'' then 1 else - 1);
          delta = dir * qty
      in bind_outcome
        (if sgn (bk_qty b) = 0 \<or> sgn (bk_qty b) = sgn delta
         then let total = \<bar>bk_qty b\<bar> + qty
              in bind_outcome (ddiv L (bk_entry b * \<bar>bk_qty b\<bar> + price * qty) total) (\<lambda>e. Ok (b\<lparr>bk_entry := e\<rparr>))
         else let closed = min qty \<bar>bk_qty b\<bar>;
                  posSign = sgn (bk_qty b);
                  gross = round8 L ((price - bk_entry b) * closed * posSign);
                  b = b\<lparr>bk_realized := bk_realized b + gross\<rparr>
              in Ok (if \<bar>bk_qty b\<bar> < qty then b\<lparr>bk_entry := price\<rparr> else b))
        (\<lambda>b.
          let b = b\<lparr>bk_fees := bk_fees b + fee, bk_realized := bk_realized b - fee, bk_qty := bk_qty b + delta\<rparr>
          in Ok (if bk_qty b = 0 then b\<lparr>bk_entry := 0\<rparr> else b)))"

text \<open>Reading and writing the row of a book; a column that does not parse is an error of the column.\<close>

definition loadBook :: "'d::linordered_field dlib \<Rightarrow> store_db \<Rightarrow> string \<Rightarrow> string \<Rightarrow> (store_error, 'd book_state) outcome" where
  "loadBook L db s sy = (case GetPosition db s sy of
      None \<Rightarrow> Ok \<lparr>bk_qty = 0, bk_entry = 0, bk_fees = 0, bk_realized = 0\<rparr>
    | Some r \<Rightarrow>
        bind_outcome (parse_dec L (pr_QtyBase r)) (\<lambda>q.
        bind_outcome (parse_dec L (pr_EntryPrice r)) (\<lambda>e.
        bind_outcome (parse_dec L (pr_FeesQuote r)) (\<lambda>f.
        bind_outcome (parse_dec L (pr_RealizedPnLQuote r)) (\<lambda>p.
          Ok \<lparr>bk_qty = q, bk_entry = e, bk_fees = f, bk_realized = p\<rparr>)))))"

definition book_row :: "'d dlib \<Rightarrow> string \<Rightarrow> string \<Rightarrow> 'd book_state \<Rightarrow> instant \<Rightarrow> position_row" where
  "book_row L s sy b now = \<lparr>pr_StrategyID = s, pr_Symbol = sy, pr_QtyBase = dString L (bk_qty b),
     pr_EntryPrice = dString L (bk_entry b), pr_FeesQuote = dString L (bk_fees b),
     pr_RealizedPnLQuote = dString L (bk_realized b), pr_UpdatedAt = format_seconds now\<rparr>"

text \<open>The equity snapshot before the fill: the allocated capital when there is no row, and no daily
  figure of an earlier day.\<close>

definition equity_before :: "'d::linordered_field dlib \<Rightarrow> 'd \<Rightarrow> store_db \<Rightarrow> string \<Rightarrow> instant \<Rightarrow> (store_error, 'd \<times> 'd \<times> 'd) outcome" where
  "equity_before L alloc db s now = (case GetStrategyState db s of
      None \<Rightarrow> Ok (alloc, alloc, 0)
    | Some r \<Rightarrow>
        bind_outcome (parse_dec L (sr_EquityQuote r)) (\<lambda>equity.
        bind_outcome (parse_dec L (sr_PeakEquityQuote r)) (\<lambda>peak.
        bind_outcome (if sr_UTCDate r = utcDate now then parse_dec L (sr_DailyRealizedPnLQuote r) else Ok 0) (\<lambda>daily.
          Ok (equity, peak, daily)))))"

definition persistBook ::
  "'d::linordered_field dlib \<Rightarrow> 'd \<Rightarrow> string \<Rightarrow> string \<Rightarrow> 'd book_state \<Rightarrow> 'd \<Rightarrow> instant \<Rightarrow> store_db \<Rightarrow> (store_error, store_db) outcome" where
  "persistBook L alloc s sy b delta now db =
     (let d1 = UpsertPosition (book_row L s sy b now) db
      in bind_outcome (equity_before L alloc d1 s now) (\<lambda>(equity, peak, daily).
           UpsertStrategyState
             \<lparr>sr_StrategyID = s, sr_EquityQuote = dString L (equity + delta),
              sr_PeakEquityQuote = dString L (max peak (equity + delta)),
              sr_DailyRealizedPnLQuote = dString L (daily + delta),
              sr_UTCDate = utcDate now, sr_UpdatedAt = format_seconds now\<rparr> d1))"

section \<open>Commissions\<close>

record 'd converted_fee =
  cf_fee :: 'd
  cf_deferred :: bool
  cf_anomaly :: bool

definition feeToQuote ::
  "'d::linordered_field dlib \<Rightarrow> (string \<Rightarrow> 'd option) \<Rightarrow> string \<Rightarrow> string \<Rightarrow> string \<Rightarrow> 'd \<Rightarrow> (live_error, 'd converted_fee) outcome" where
  "feeToQuote L mark sy commission asset price =
     (if commission = [] then Ok \<lparr>cf_fee = 0, cf_deferred = False, cf_anomaly = False\<rparr>
      else bind_outcome (live_parse L commission) (\<lambda>c.
        if c = 0 then Ok \<lparr>cf_fee = 0, cf_deferred = False, cf_anomaly = False\<rparr>
        else case splitSymbol sy of
          None \<Rightarrow> Err ErrSymbol
        | Some (base, quote) \<Rightarrow>
            if asset = quote then Ok \<lparr>cf_fee = c, cf_deferred = False, cf_anomaly = False\<rparr>
            else if asset = base then Ok \<lparr>cf_fee = round8 L (c * price), cf_deferred = False, cf_anomaly = False\<rparr>
            else case mark (asset @ ''/'' @ quote) of
              Some p \<Rightarrow> Ok \<lparr>cf_fee = round8 L (c * p), cf_deferred = False, cf_anomaly = True\<rparr>
            | None \<Rightarrow> Ok \<lparr>cf_fee = 0, cf_deferred = True, cf_anomaly = True\<rparr>))"

section \<open>Fills\<close>

record fill_target =
  ft_orderID :: string
  ft_strategyID :: string
  ft_symbol :: string
  ft_side :: string
  ft_qtyBase :: string
  ft_status :: string
  ft_protectiveKinds :: "string list"

definition protectiveKindsOf :: "order_row \<Rightarrow> string list" where
  "protectiveKindsOf r = (if or_StopPrice r \<noteq> None then [''sl''] else []) @ (if or_TakeProfit r \<noteq> None then [''tp''] else [])"

definition orderTarget :: "order_row \<Rightarrow> fill_target" where
  "orderTarget r = \<lparr>ft_orderID = or_OrderID r, ft_strategyID = or_StrategyID r, ft_symbol = or_Symbol r,
     ft_side = or_Side r, ft_qtyBase = or_QtyBase r, ft_status = or_Status r,
     ft_protectiveKinds = (if or_Class r = ''ENTRY'' then protectiveKindsOf r else [])\<rparr>"

definition intentTarget :: "intent_row \<Rightarrow> fill_target" where
  "intentTarget i = \<lparr>ft_orderID = oi_OrderID i, ft_strategyID = oi_StrategyID i, ft_symbol = oi_Symbol i,
     ft_side = oi_Side i, ft_qtyBase = oi_QtyBase i, ft_status = [], ft_protectiveKinds = []\<rparr>"

record venue_fill =
  vf_target :: fill_target
  vf_venueSymbol :: string
  vf_tradeID :: int
  vf_qty :: string
  vf_price :: string
  vf_commission :: string
  vf_commissionAsset :: string
  vf_ts :: instant
  vf_venueOrderStatus :: string

definition bookedQty :: "'d::linordered_field dlib \<Rightarrow> store_db \<Rightarrow> string \<Rightarrow> (live_error, 'd) outcome" where
  "bookedQty L db i = fold_ok (\<lambda>sum f. bind_outcome (live_parse L (fr_QtyBase f)) (\<lambda>q. Ok (sum + q))) (ListFillsByOrder db i) 0"

definition deriveFillStatus :: "'d::linordered_field dlib \<Rightarrow> store_db \<Rightarrow> fill_target \<Rightarrow> 'd \<Rightarrow> (live_error, string) outcome" where
  "deriveFillStatus L db t qty =
     (if ft_qtyBase t = [] then Ok ''partially_filled''
      else bind_outcome (live_parse L (ft_qtyBase t)) (\<lambda>orig.
           bind_outcome (bookedQty L db (ft_orderID t)) (\<lambda>booked.
             Ok (if orig \<le> booked + qty then ''filled'' else ''partially_filled''))))"

text \<open>The callback of the fill transaction: the book, its row and the equity snapshot, a deadline row
  for each protective kind of an entry, and the pending fee when the conversion waits for a mark.
  Identifiers are minted at the counter: the fill first, then the obligations.\<close>

definition filled_book :: "'d::linordered_field dlib \<Rightarrow> store_db \<Rightarrow> venue_fill \<Rightarrow> 'd \<Rightarrow> 'd \<Rightarrow> 'd \<Rightarrow> (store_error, 'd book_state \<times> 'd) outcome" where
  "filled_book L db f qty price fee =
     (let t = vf_target f
      in bind_outcome (loadBook L db (ft_strategyID t) (ft_symbol t)) (\<lambda>book.
         bind_outcome (applyFill_live L book (ft_side t) qty price fee) (\<lambda>b. Ok (b, bk_realized b - bk_realized book))))"

definition obligations_of :: "'d surround \<Rightarrow> tuning \<Rightarrow> venue_fill \<Rightarrow> obligation_row list" where
  "obligations_of e tun f =
     map (\<lambda>(k, kind). \<lparr>po_ObligationID = su_uuid e (Suc k), po_EntryOrderID = ft_orderID (vf_target f),
         po_StrategyID = ft_strategyID (vf_target f), po_Kind = kind,
         po_DueAt = format_seconds (vf_ts f + slDeadline tun), po_CreatedAt = format_seconds (su_now e), po_SatisfiedAt = None\<rparr>)
       (enumerate 0 (ft_protectiveKinds (vf_target f)))"

definition fill_accounting ::
  "'d::linordered_field dlib \<Rightarrow> 'd surround \<Rightarrow> 'd live_oms \<Rightarrow> venue_fill \<Rightarrow> 'd converted_fee \<Rightarrow> 'd \<Rightarrow> 'd \<Rightarrow> store_db \<Rightarrow> (store_error, store_db) outcome" where
  "fill_accounting L e m f conv qty price db =
     bind_outcome (filled_book L db f qty price (cf_fee conv)) (\<lambda>(b, delta).
     bind_outcome (persistBook L (lo_allocated m) (ft_strategyID (vf_target f)) (ft_symbol (vf_target f)) b delta (su_now e) db) (\<lambda>d1.
     bind_outcome (fold_ok (\<lambda>d r. InsertProtectiveObligation r d) (obligations_of e (lo_tuning m) f) d1) (\<lambda>d2.
       if cf_deferred conv
       then InsertPendingFillFee \<lparr>pf_FillID = su_uuid e 0, pf_Commission = vf_commission f, pf_CommissionAsset = vf_commissionAsset f,
              pf_RecordedAt = format_seconds (su_now e), pf_ConvertedAt = None\<rparr> d2
       else Ok d2)))"

definition venue_fill_row :: "'d::linordered_field dlib \<Rightarrow> 'd surround \<Rightarrow> 'd live_oms \<Rightarrow> venue_fill \<Rightarrow> 'd converted_fee \<Rightarrow> fill_row" where
  "venue_fill_row L e m f conv =
     \<lparr>fr_FillID = su_uuid e 0, fr_OrderID = ft_orderID (vf_target f), fr_QtyBase = vf_qty f, fr_FillPrice = vf_price f,
      fr_FeeQuote = dString L (cf_fee conv), fr_FillTS = format_seconds (vf_ts f), fr_VenueSymbol = Some (vf_venueSymbol f),
      fr_ExchangeTradeID = Some (vf_tradeID f), fr_VenueEpoch = ve_VenueEpoch (lo_venueEpoch m)\<rparr>"

text \<open>The transaction, with whether the trade was new and whether it left the book flat. The row of the
  book is the one of the tables before: the statements ahead of the callback do not touch it.\<close>

definition fill_tx ::
  "'d::linordered_field dlib \<Rightarrow> 'd surround \<Rightarrow> 'd live_oms \<Rightarrow> venue_fill \<Rightarrow> 'd converted_fee \<Rightarrow> 'd \<Rightarrow> 'd \<Rightarrow> string \<Rightarrow> store_db \<Rightarrow>
     (store_error, store_db \<times> bool \<times> bool) outcome" where
  "fill_tx L e m f conv qty price status db =
     bind_outcome (RecordVenueFill L (venue_fill_row L e m f conv) status (fill_accounting L e m f conv qty price) db)
       (\<lambda>(d, new). Ok (d, new, new \<and> (case filled_book L db f qty price (cf_fee conv) of Ok (b, _) \<Rightarrow> bk_qty b = 0 | _ \<Rightarrow> False)))"


section \<open>Handlers\<close>

text \<open>Small pieces: a computation on what a step reads, a status, a revoked claim (a missing row is
  no error), the events.\<close>

definition look_calc :: "('d surround \<Rightarrow> 'd world \<Rightarrow> (live_error, 'a) outcome) \<Rightarrow> ('d, 'a) handler" where
  "look_calc f = andthen (look f) calc"

definition set_status :: "string \<Rightarrow> string \<Rightarrow> ('d, string) handler" where
  "set_status i st = tx (\<lambda>_ _ db. lift_store (RecordOrderStatus i st db))"

definition revoke_claim :: "string \<Rightarrow> ('d, unit) handler" where
  "revoke_claim c = stmt (\<lambda>e db. case RecordIntentClaimRevoked c (format_seconds (su_now e)) db of
      Err x \<Rightarrow> if x = ErrNotFound then Ok db else Err x
    | r \<Rightarrow> r)"

definition swallow :: "('d, 'a) handler \<Rightarrow> ('d, unit) handler" where
  "swallow p = hbind p (\<lambda>_. ok ())"

definition event :: "'d surround \<Rightarrow> string \<Rightarrow> string list \<Rightarrow> recon_row" where
  "event e kind details = event_row (su_uuid e 0) kind (json_obj details) (su_now e)"

definition venue_of :: "'d live_oms \<Rightarrow> string \<Rightarrow> string" where
  "venue_of m sy = (case al_get (lo_venueOf m) sy of None \<Rightarrow> [] | Some v \<Rightarrow> v)"

text \<open>A cancel succeeds, or the venue does not know the order.\<close>

definition gone :: "venue_reply \<Rightarrow> bool" where
  "gone a = (case a of RFail c _ \<Rightarrow> c = ClassNotFound | _ \<Rightarrow> True)"

text \<open>\<open>cancelRestingProtectives\<close>: journal, then act; an order whose step fails is left to the next pass.\<close>

definition orphan_event :: "'d surround \<Rightarrow> string \<Rightarrow> string \<Rightarrow> recon_row" where
  "orphan_event e reason typ = event e ''orphan_canceled'' [json_pair ''reason'' reason, json_pair ''venue_type'' typ]"

definition cancel_resting :: "string \<Rightarrow> order_row \<Rightarrow> ('d, unit) handler" where
  "cancel_resting v r = (case or_ClientOrderID r of
      None \<Rightarrow> ok ()
    | Some c \<Rightarrow>
        andthen (if or_Status r = ''pending_new'' then revoke_claim c else ok ()) (\<lambda>_.
        andthen (log_event (\<lambda>e. (orphan_event e ''stops_after_flatten'' (venueOrderType (or_Type r)))
            \<lparr>re_StrategyID := Some (or_StrategyID r), re_Symbol := Some (or_Symbol r), re_ClientOrderID := Some c\<rparr>)) (\<lambda>_.
        Ask (CancelOrder v c) (\<lambda>a.
          if gone a then andthen (set_status (or_OrderID r) ''canceled'') (\<lambda>_. ok ()) else ok ()))))"

definition resting_for :: "string \<Rightarrow> string \<Rightarrow> string \<Rightarrow> order_row \<Rightarrow> bool" where
  "resting_for s sy excluded r \<longleftrightarrow> or_Class r = ''PROTECTIVE'' \<and> or_StrategyID r = s \<and> or_Symbol r = sy \<and> or_OrderID r \<noteq> excluded"

definition cancelRestingProtectives :: "string \<Rightarrow> string \<Rightarrow> string \<Rightarrow> ('d, unit) handler" where
  "cancelRestingProtectives s sy excluded =
     andthen (look (\<lambda>_ w. (venue_of (wd_oms w) sy, filter (resting_for s sy excluded) (ListNonTerminalLiveOrders (wd_db w)))))
       (\<lambda>(v, rs). each rs (\<lambda>_ r. swallow (cancel_resting v r)) ())"

text \<open>\<open>appendFillEvents\<close>: a fill on a terminal order, an unusual commission asset.\<close>

definition fill_event :: "venue_fill \<Rightarrow> string option \<Rightarrow> recon_row \<Rightarrow> recon_row" where
  "fill_event f runID ev = ev\<lparr>re_RunID := runID, re_StrategyID := Some (ft_strategyID (vf_target f)),
     re_Symbol := Some (ft_symbol (vf_target f)), re_ExchangeTradeID := Some (vf_tradeID f)\<rparr>"

definition appendFillEvents :: "venue_fill \<Rightarrow> 'd converted_fee \<Rightarrow> string option \<Rightarrow> ('d, unit) handler" where
  "appendFillEvents f conv runID =
     andthen
       (if ft_status (vf_target f) \<noteq> [] \<and> isTerminal (ft_status (vf_target f))
        then log_event (\<lambda>e. fill_event f runID (event e ''fill_after_terminal''
               [json_pair ''kept_status'' (ft_status (vf_target f)), json_pair ''price'' (vf_price f), json_pair ''qty'' (vf_qty f)]))
        else ok ())
       (\<lambda>_. if cf_anomaly conv
            then log_event (\<lambda>e. fill_event f runID (event e ''commission_asset_anomaly''
               [json_pair ''commission_asset'' (vf_commissionAsset f),
                json_raw ''deferred'' (if cf_deferred conv then ''true'' else ''false'')]))
            else ok ())"

text \<open>\<open>bookVenueFill\<close>: whether the trade was new. The hook of the breaker monitor, called between the
  cancels and the events, cannot fail and is left out.\<close>

definition bookVenueFill :: "'d::linordered_field dlib \<Rightarrow> venue_fill \<Rightarrow> string option \<Rightarrow> ('d, bool) handler" where
  "bookVenueFill L f runID =
     andthen (calc (live_parse L (vf_qty f))) (\<lambda>qty.
     andthen (calc (live_parse L (vf_price f))) (\<lambda>price.
     andthen (look_calc (\<lambda>e _. feeToQuote L (su_mark e) (ft_symbol (vf_target f)) (vf_commission f) (vf_commissionAsset f) price)) (\<lambda>conv.
     andthen (if localStatus (vf_venueOrderStatus f) \<noteq> [] then ok (localStatus (vf_venueOrderStatus f))
              else look_calc (\<lambda>_ w. deriveFillStatus L (wd_db w) (vf_target f) qty)) (\<lambda>status.
     andthen (tx (\<lambda>e m db. lift_store (fill_tx L e m f conv qty price status db))) (\<lambda>(new, flat).
       if \<not> new then ok False
       else
         andthen (if flat then cancelRestingProtectives (ft_strategyID (vf_target f)) (ft_symbol (vf_target f)) (ft_orderID (vf_target f))
                  else ok ()) (\<lambda>_.
         andthen (appendFillEvents f conv runID) (\<lambda>_. ok True)))))))"


section \<open>The accounting of paper trading\<close>

definition paper_book :: "string \<Rightarrow> 'd book_state \<Rightarrow> 'd position" where
  "paper_book sy b = \<lparr>pos_Symbol = sy, pos_QtyBase = bk_qty b, pos_EntryPrice = bk_entry b, pos_FeesQuote = bk_fees b,
     pos_RealizedPnLQuote = bk_realized b\<rparr>"

definition live_book :: "'d position \<Rightarrow> 'd book_state" where
  "live_book p = \<lparr>bk_qty = pos_QtyBase p, bk_entry = pos_EntryPrice p, bk_fees = pos_FeesQuote p, bk_realized = pos_RealizedPnLQuote p\<rparr>"

definition side_named :: "string \<Rightarrow> side" where
  "side_named sd = (if sd = ''buy'' then SideBuy else SideSell)"

lemma live_book_paper [simp]: "live_book (paper_book sy b) = b"
  by (simp add: live_book_def paper_book_def)

lemma applyFill_live_paper:
  "applyFill_live L (live_book p) sd qty price fee = bind_outcome (fill_position L p (side_named sd) qty price fee) (\<lambda>x. Ok (live_book x))"
  by (cases "pos_QtyBase p = 0"; cases "\<bar>pos_QtyBase p\<bar> + qty = 0"; cases "sd = ''buy''")
    (auto simp: applyFill_live_def fill_position_def Let_def live_book_def side_named_def sideSign_def ddiv_def sgn_0_0)

lemma applyFill_live_Ok:
  "applyFill_live L (live_book p) sd qty price fee = Ok b \<longleftrightarrow> (\<exists>x. fill_position L p (side_named sd) qty price fee = Ok x \<and> live_book x = b)"
  by (cases "pos_QtyBase p = 0"; cases "\<bar>pos_QtyBase p\<bar> + qty = 0"; cases "sd = ''buy''")
    (auto simp: applyFill_live_def fill_position_def Let_def live_book_def side_named_def sideSign_def ddiv_def sgn_0_0)

text \<open>C18: The live order manager books a fill with the arithmetic of the paper order manager: from the
  same book, side, quantity, price and fee it computes the same book, and it panics when the paper
  one panics.
\<close>

theorem live_fill_is_paper_fill:
  "applyFill_live L (live_book p) sd qty price fee = bind_outcome (fill_position L p (side_named sd) qty price fee) (\<lambda>x. Ok (live_book x))"
  by (rule applyFill_live_paper)

section \<open>The rows of the books are the paper books\<close>

text \<open>The transaction of \<open>retryFeeConversions\<close>: a deferred fee meets its mark.\<close>

definition convert_tx ::
  "'d::linordered_field dlib \<Rightarrow> 'd \<Rightarrow> string \<Rightarrow> string \<Rightarrow> string \<Rightarrow> 'd \<Rightarrow> instant \<Rightarrow> store_db \<Rightarrow> (store_error, store_db) outcome" where
  "convert_tx L alloc fillID s sy fee now db =
     bind_outcome (RecordFeeConverted fillID (format_seconds now) db) (\<lambda>d.
     bind_outcome (loadBook L d s sy) (\<lambda>b.
       persistBook L alloc s sy (b\<lparr>bk_fees := bk_fees b + fee, bk_realized := bk_realized b - fee\<rparr>) (- fee) now d))"

text \<open>What writes the books of the live order manager, between operations of the journal that do not.\<close>

datatype 'd ledger_op =
    LedgerFill "'d surround" "'d live_oms" venue_fill "'d converted_fee" 'd 'd string
  | LedgerFee 'd string string string 'd instant
  | LedgerOther live_op

definition ledger_step :: "'d::linordered_field dlib \<Rightarrow> store_db \<Rightarrow> 'd ledger_op \<Rightarrow> store_db option" where
  "ledger_step L db x = (case x of
      LedgerFill e m f conv qty price status \<Rightarrow> (case fill_tx L e m f conv qty price status db of Ok (d, _) \<Rightarrow> Some d | _ \<Rightarrow> None)
    | LedgerFee alloc i s sy fee now \<Rightarrow> (case convert_tx L alloc i s sy fee now db of Ok d \<Rightarrow> Some d | _ \<Rightarrow> None)
    | LedgerOther op \<Rightarrow> (case op of LVenueFill _ _ _ \<Rightarrow> None | LOther _ \<Rightarrow> None | _ \<Rightarrow> live_step L db op))"

text \<open>The reference: a set of trades seen, and a paper position for each strategy and symbol, to which
  each trade is applied the first time it is seen.\<close>

record 'd ledger =
  lg_seen :: "trade_key set"
  lg_books :: "string \<times> string \<Rightarrow> 'd position"

definition empty_ledger :: "'d::zero ledger" where
  "empty_ledger = \<lparr>lg_seen = {}, lg_books = (\<lambda>k. \<lparr>pos_Symbol = snd k, pos_QtyBase = 0, pos_EntryPrice = 0, pos_FeesQuote = 0, pos_RealizedPnLQuote = 0\<rparr>)\<rparr>"

definition fill_key :: "'d live_oms \<Rightarrow> venue_fill \<Rightarrow> trade_key" where
  "fill_key m f = (ve_VenueEpoch (lo_venueEpoch m), Some (vf_venueSymbol f), vf_tradeID f)"

definition target_key :: "venue_fill \<Rightarrow> string \<times> string" where
  "target_key f = (ft_strategyID (vf_target f), ft_symbol (vf_target f))"

definition paper_ledger :: "'d::linordered_field dlib \<Rightarrow> 'd ledger \<Rightarrow> 'd ledger_op \<Rightarrow> 'd ledger" where
  "paper_ledger L g x = (case x of
      LedgerFill e m f conv qty price status \<Rightarrow>
        if fill_key m f \<in> lg_seen g then g
        else (case fill_position L (lg_books g (target_key f)) (side_named (ft_side (vf_target f))) qty price (cf_fee conv) of
            Ok p \<Rightarrow> g\<lparr>lg_seen := insert (fill_key m f) (lg_seen g), lg_books := (lg_books g)(target_key f := p)\<rparr>
          | _ \<Rightarrow> g)
    | LedgerFee alloc i s sy fee now \<Rightarrow>
        g\<lparr>lg_books := (lg_books g)((s, sy) := (lg_books g (s, sy))\<lparr>pos_FeesQuote := pos_FeesQuote (lg_books g (s, sy)) + fee,
            pos_RealizedPnLQuote := pos_RealizedPnLQuote (lg_books g (s, sy)) - fee\<rparr>)\<rparr>
    | LedgerOther op \<Rightarrow> g)"

text \<open>The tables show a ledger.\<close>

definition shows_ledger :: "'d::linordered_field dlib \<Rightarrow> store_db \<Rightarrow> 'd ledger \<Rightarrow> bool" where
  "shows_ledger L db g \<longleftrightarrow> (\<forall>s sy. loadBook L db s sy = Ok (live_book (lg_books g (s, sy)))) \<and> lg_seen g = Collect (booked_key db)"

text \<open>Which statements touch the rows of the books.\<close>

definition same_books :: "store_db \<Rightarrow> store_db \<Rightarrow> bool" where
  "same_books db d \<longleftrightarrow> db_positions d = db_positions db \<and> db_states d = db_states db"

lemma same_books_refl [simp]: "same_books db db"
  by (simp add: same_books_def)

lemma same_books_trans: "same_books a b \<Longrightarrow> same_books b c \<Longrightarrow> same_books a c"
  by (simp add: same_books_def)

lemma loadBook_same: "same_books db d \<Longrightarrow> loadBook L d s sy = loadBook L db s sy"
  by (simp add: loadBook_def GetPosition_def same_books_def)

lemma update_order_books: "update_order i f db = Ok d \<Longrightarrow> same_books db d \<and> db_fills d = db_fills db"
  by (auto simp: update_order_def same_books_def split: if_splits)

lemma status_books: "RecordOrderStatus i st db = Ok (d, x) \<Longrightarrow> same_books db d \<and> db_fills d = db_fills db"
  by (auto simp: RecordOrderStatus_def bind_outcome_eq_Ok dest: update_order_books split: if_splits option.splits)

lemma obligations_books:
  "fold_ok (\<lambda>d r. InsertProtectiveObligation r d) bs db = Ok d \<Longrightarrow> same_books db d \<and> db_fills d = db_fills db"
  by (rule fold_ok_inv [where P = "\<lambda>x. same_books db x \<and> db_fills x = db_fills db"])
    (auto simp: InsertProtectiveObligation_def same_books_def split: if_splits)

text \<open>A fill transaction that booked a new trade: what it did up to the callback, and the callback.\<close>

lemma fill_tx_new:
  assumes "fill_tx L e m f conv qty price status db = Ok (d, True, flat)"
  obtains d3 b delta d4 where "\<not> booked_key db (fill_key m f)" "same_books db d3"
    "db_fills d3 = db_fills db @ [venue_fill_row L e m f conv]"
    "filled_book L db f qty price (cf_fee conv) = Ok (b, delta)"
    "persistBook L (lo_allocated m) (ft_strategyID (vf_target f)) (ft_symbol (vf_target f)) b delta (su_now e) d3 = Ok d4"
    "same_books d4 d" "db_fills d = db_fills d4" "flat \<longleftrightarrow> bk_qty b = 0"
proof -
  let ?row = "venue_fill_row L e m f conv"
  have r: "RecordVenueFill L ?row status (fill_accounting L e m f conv qty price) db = Ok (d, True)"
    and flat: "flat = (case filled_book L db f qty price (cf_fee conv) of Ok (b, _) \<Rightarrow> bk_qty b = 0 | _ \<Rightarrow> False)"
    using assms by (auto simp: fill_tx_def bind_outcome_eq_Ok)
  from RecordVenueFill_new [OF r] obtain v d2 d3 x
    where k: "\<forall>k. trade_key ?row = Some k \<longrightarrow> \<not> booked_key db k"
      and u: "update_order (fr_OrderID ?row) (\<lambda>r. r\<lparr>or_FillPrice := Some v, or_FilledAt := Some (fr_FillTS ?row)\<rparr>)
          (db\<lparr>db_fills := db_fills db @ [?row]\<rparr>) = Ok d2"
      and s: "RecordOrderStatus (fr_OrderID ?row) status d2 = Ok (d3, x)"
      and a: "fill_accounting L e m f conv qty price d3 = Ok d" by blast
  have key: "trade_key ?row = Some (fill_key m f)" by (simp add: trade_key_def venue_fill_row_def fill_key_def)
  have same: "same_books db d3" "db_fills d3 = db_fills db @ [?row]"
    using update_order_books [OF u] status_books [OF s] by (auto simp: same_books_def)
  obtain b delta d4 d5 where b: "filled_book L d3 f qty price (cf_fee conv) = Ok (b, delta)"
    and p: "persistBook L (lo_allocated m) (ft_strategyID (vf_target f)) (ft_symbol (vf_target f)) b delta (su_now e) d3 = Ok d4"
    and o: "fold_ok (\<lambda>d r. InsertProtectiveObligation r d) (obligations_of e (lo_tuning m) f) d4 = Ok d5"
    and d: "d = d5 \<or> (\<exists>pf. InsertPendingFillFee pf d5 = Ok d)"
    using a by (auto simp: fill_accounting_def bind_outcome_eq_Ok split: if_splits)
  have b': "filled_book L db f qty price (cf_fee conv) = Ok (b, delta)"
    using b by (simp add: filled_book_def loadBook_same [OF same(1)])
  have "same_books d5 d \<and> db_fills d = db_fills d5" using d by (auto simp: InsertPendingFillFee_def same_books_def split: if_splits)
  then have end': "same_books d4 d" "db_fills d = db_fills d4" using obligations_books [OF o] by (auto intro: same_books_trans)
  show ?thesis
    by (rule that [OF _ same b' p end']) (use k key flat b' in auto)
qed

lemma persistBook_Ok:
  assumes "persistBook L alloc s sy b delta now db = Ok d"
  obtains equity peak daily where "equity_before L alloc db s now = Ok (equity, peak, daily)"
    "db_positions d = row_put position_key (s, sy) (book_row L s sy b now) (db_positions db)" "db_fills d = db_fills db"
    "GetStrategyState d s' = (if s' = s then Some \<lparr>sr_StrategyID = s, sr_EquityQuote = dString L (equity + delta),
       sr_PeakEquityQuote = dString L (max peak (equity + delta)), sr_DailyRealizedPnLQuote = dString L (daily + delta),
       sr_UTCDate = utcDate now, sr_UpdatedAt = format_seconds now\<rparr> else GetStrategyState db s')"
  using assms
  by (auto simp: persistBook_def Let_def bind_outcome_eq_Ok UpsertStrategyState_def UpsertPosition_def equity_before_def
      GetStrategyState_def position_key_def book_row_def rows.get_put split: if_splits)

lemma loadBook_persist:
  assumes L: "string_documented L" and p: "persistBook L alloc s sy b delta now db = Ok d"
  shows "loadBook L d s' sy' = (if s' = s \<and> sy' = sy then Ok b else loadBook L db s' sy')"
proof -
  have "db_positions d = row_put position_key (s, sy) (book_row L s sy b now) (db_positions db)"
    by (rule persistBook_Ok [OF p]) assumption
  then have "GetPosition d s' sy' = (if s' = s \<and> sy' = sy then Some (book_row L s sy b now) else GetPosition db s' sy')"
    by (simp add: GetPosition_def position_key_def book_row_def rows.get_put)
  then show ?thesis using L by (simp add: loadBook_def book_row_def parse_dec_def string_documented_def)
qed

lemma booked_append: "booked_key d k \<longleftrightarrow> booked_key db k \<or> trade_key f = Some k" if "db_fills d = db_fills db @ [f]"
  using that by (auto simp: booked_key_def)

lemma live_op_books:
  assumes "live_op L op db = Ok d" and "\<And>f st bs. op \<noteq> LVenueFill f st bs" and "\<And>d. op \<noteq> LOther d"
  shows "same_books db d \<and> db_fills d = db_fills db"
proof (cases op)
  case (LJournal r i)
  then show ?thesis using assms(1)
    by (auto simp: live_op_def InsertJournaledOrder_def InsertOrder_def InsertOrderIntent_def set_client_order_id_def bind_outcome_eq_Ok
        same_books_def split: if_splits dest!: update_order_books)
next
  case (LAttempt i)
  then show ?thesis using assms(1)
    by (auto simp: live_op_def RecordIntentAttempt_def InsertOrderIntent_def set_client_order_id_def bind_outcome_eq_Ok
        same_books_def split: if_splits dest!: update_order_books)
next
  case (LStatus i st)
  then show ?thesis using assms(1) by (auto simp: live_op_def bind_outcome_eq_Ok dest: status_books)
next
  case (LAck i x)
  then show ?thesis using assms(1) by (auto simp: live_op_def RecordExchangeAck_def dest: update_order_books)
qed (use assms in \<open>auto simp: live_op_def RecordIntentClaim_def RecordIntentClaimRevoked_def AppendOMSReconEvent_def
    InsertProtectiveObligation_def InsertPendingFillFee_def InsertVenueEpoch_def RecordProtectiveSatisfied_def RecordFeeConverted_def
    bind_outcome_eq_Ok same_books_def split: option.splits if_splits\<close>)

text \<open>One step.\<close>

lemma ledger_fill:
  assumes L: "string_documented L" and sh: "shows_ledger L db g" and new: "fill_tx L e m f conv qty price st db = Ok (d, True, flat)"
  shows "shows_ledger L d (paper_ledger L g (LedgerFill e m f conv qty price st))"
proof -
  obtain d3 b delta d4 where k: "\<not> booked_key db (fill_key m f)" and d3: "same_books db d3"
    "db_fills d3 = db_fills db @ [venue_fill_row L e m f conv]"
    and b: "filled_book L db f qty price (cf_fee conv) = Ok (b, delta)"
    and p: "persistBook L (lo_allocated m) (ft_strategyID (vf_target f)) (ft_symbol (vf_target f)) b delta (su_now e) d3 = Ok d4"
    and d: "same_books d4 d" "db_fills d = db_fills d4" using fill_tx_new [OF new] by metis
  let ?p = "lg_books g (target_key f)"
  have "loadBook L db (ft_strategyID (vf_target f)) (ft_symbol (vf_target f)) = Ok (live_book ?p)"
    using sh by (simp add: shows_ledger_def target_key_def)
  then obtain x where x: "fill_position L ?p (side_named (ft_side (vf_target f))) qty price (cf_fee conv) = Ok x" "live_book x = b"
    using b by (auto simp: filled_book_def bind_outcome_eq_Ok applyFill_live_Ok)
  have "db_fills d4 = db_fills d3" by (rule persistBook_Ok [OF p]) assumption
  then have fills: "db_fills d = db_fills db @ [venue_fill_row L e m f conv]" using d(2) d3(2) by simp
  have "trade_key (venue_fill_row L e m f conv) = Some (fill_key m f)" by (simp add: trade_key_def venue_fill_row_def fill_key_def)
  then have keys: "booked_key d j \<longleftrightarrow> booked_key db j \<or> j = fill_key m f" for j using booked_append [OF fills, of j] by auto
  have "loadBook L d s sy = (if (s, sy) = target_key f then Ok b else loadBook L db s sy)" for s sy
    unfolding loadBook_same [OF d(1)] loadBook_persist [OF L p] loadBook_same [OF d3(1)] by (simp add: target_key_def)
  moreover have "fill_key m f \<notin> lg_seen g" using sh k unfolding shows_ledger_def by blast
  moreover have "Collect (booked_key d) = insert (fill_key m f) (Collect (booked_key db))" using keys by blast
  ultimately show ?thesis using sh x unfolding shows_ledger_def paper_ledger_def by simp
qed

lemma ledger_step_shows:
  assumes L: "string_documented L" and sh: "shows_ledger L db g" and st: "ledger_step L db x = Some d"
  shows "shows_ledger L d (paper_ledger L g x)"
proof (cases x)
  case (LedgerFill e m f conv qty price status)
  then obtain new flat where t: "fill_tx L e m f conv qty price status db = Ok (d, new, flat)"
    using st by (auto simp: ledger_step_def split: outcome.splits)
  show ?thesis
  proof (cases new)
    case True
    then show ?thesis using ledger_fill [OF L sh] t LedgerFill by simp
  next
    case False
    then have r: "RecordVenueFill L (venue_fill_row L e m f conv) status (fill_accounting L e m f conv qty price) db = Ok (d, False)"
      using t by (auto simp: fill_tx_def bind_outcome_eq_Ok)
    then have "booked_key db (fill_key m f)"
      by (auto simp: RecordVenueFill_def Let_def bind_outcome_eq_Ok trade_key_def venue_fill_row_def fill_key_def split: if_splits)
    then have "fill_key m f \<in> lg_seen g" using sh unfolding shows_ledger_def by blast
    then show ?thesis using sh RecordVenueFill_replay [OF r] by (simp add: LedgerFill paper_ledger_def)
  qed
next
  case (LedgerFee alloc i s sy fee now)
  then obtain d1 b where d1: "RecordFeeConverted i (format_seconds now) db = Ok d1" "loadBook L d1 s sy = Ok b"
    "persistBook L alloc s sy (b\<lparr>bk_fees := bk_fees b + fee, bk_realized := bk_realized b - fee\<rparr>) (- fee) now d1 = Ok d"
    using st by (auto simp: ledger_step_def convert_tx_def bind_outcome_eq_Ok split: outcome.splits)
  have same: "same_books db d1" "db_fills d1 = db_fills db"
    using d1(1) by (auto simp: RecordFeeConverted_def bind_outcome_eq_Ok same_books_def)
  have "b = live_book (lg_books g (s, sy))" using d1(2) sh by (simp add: loadBook_same [OF same(1)] shows_ledger_def)
  moreover have "db_fills d = db_fills d1" by (rule persistBook_Ok [OF d1(3)]) assumption
  ultimately show ?thesis using sh same(2)
    by (auto simp: LedgerFee shows_ledger_def paper_ledger_def loadBook_persist [OF L d1(3)] loadBook_same [OF same(1)] live_book_def booked_key_def)
next
  case (LedgerOther op)
  then have o: "live_op L op db = Ok d" "\<And>f st bs. op \<noteq> LVenueFill f st bs" "\<And>d. op \<noteq> LOther d"
    using st by (auto simp: ledger_step_def live_step_iff split: live_op.splits)
  have "same_books db d \<and> db_fills d = db_fills db" by (rule live_op_books [OF o])
  then have "loadBook L d s sy = loadBook L db s sy" and "booked_key d = booked_key db" for s sy
    by (simp_all add: loadBook_same booked_key_def fun_eq_iff)
  then show ?thesis using sh by (simp add: LedgerOther shows_ledger_def paper_ledger_def)
qed

lemma ledger_run_shows:
  assumes "string_documented L" and "shows_ledger L db g" and "run (ledger_step L) db xs = Some d"
  shows "shows_ledger L d (foldl (paper_ledger L) g xs)"
  using assms(2,3)
proof (induction xs arbitrary: db g)
  case (Cons x xs)
  then obtain m where m: "ledger_step L db x = Some m" "run (ledger_step L) m xs = Some d" by (auto split: option.splits)
  show ?case using Cons.IH [OF ledger_step_shows [OF assms(1) Cons.prems(1) m(1)] m(2)] by simp
qed simp

text \<open>C19: From tables without fills and positions, whatever order trades arrive in, from the stream, the
  backfill or both, with fee conversions and any other journal operation between: the row of every
  book is the paper position of the distinct trades, each applied once in the order of its first
  booking, and a trade is booked exactly when it was seen.
\<close>

theorem fills_refine_paper_ledger:
  assumes "string_documented L" and "db_fills db = []" and "db_positions db = []" and "run (ledger_step L) db xs = Some d"
  shows "shows_ledger L d (foldl (paper_ledger L) empty_ledger xs)"
proof (rule ledger_run_shows [OF assms(1) _ assms(4)])
  show "shows_ledger L db empty_ledger"
    using assms(2,3) by (simp add: shows_ledger_def empty_ledger_def loadBook_def GetPosition_def live_book_def booked_key_def)
qed


section \<open>Equity\<close>

definition realized_of :: "'d::linordered_field dlib \<Rightarrow> string \<Rightarrow> position_row \<Rightarrow> 'd" where
  "realized_of L s r = (if pr_StrategyID r = s then (case dFromString L (pr_RealizedPnLQuote r) of None \<Rightarrow> 0 | Some x \<Rightarrow> x) else 0)"

definition realized_sum :: "'d::linordered_field dlib \<Rightarrow> store_db \<Rightarrow> string \<Rightarrow> 'd" where
  "realized_sum L db s = sum_list (map (realized_of L s) (db_positions db))"

text \<open>The equity row of a strategy is the allocated capital and the realized results of its books.\<close>

definition equity_explained :: "'d::linordered_field dlib \<Rightarrow> 'd \<Rightarrow> store_db \<Rightarrow> string \<Rightarrow> bool" where
  "equity_explained L alloc db s \<longleftrightarrow> (case GetStrategyState db s of
      None \<Rightarrow> realized_sum L db s = 0
    | Some r \<Rightarrow> dFromString L (sr_EquityQuote r) = Some (alloc + realized_sum L db s))"

definition allocates :: "'d \<Rightarrow> 'd ledger_op \<Rightarrow> bool" where
  "allocates alloc x = (case x of LedgerFill e m f conv qty price status \<Rightarrow> lo_allocated m = alloc
    | LedgerFee a i s sy fee now \<Rightarrow> a = alloc | LedgerOther op \<Rightarrow> True)"

lemma sum_row_put:
  fixes g :: "'r \<Rightarrow> 'd::ab_group_add"
  shows "sum_list (map g (row_put key k r rs)) = sum_list (map g rs) + g r - (case row_get key rs k of None \<Rightarrow> 0 | Some x \<Rightarrow> g x)"
  by (induction rs) (auto simp: row_get_def algebra_simps split: option.splits)

lemma equity_same: "same_books db d \<Longrightarrow> equity_explained L alloc d s = equity_explained L alloc db s"
  by (simp add: equity_explained_def realized_sum_def GetStrategyState_def same_books_def split: option.split)

lemma equity_persist:
  assumes L: "string_documented L" and p: "persistBook L alloc s sy b delta now db = Ok d"
    and old: "loadBook L db s sy = Ok b0" "delta = bk_realized b - bk_realized b0"
    and eq: "equity_explained L alloc db s'"
  shows "equity_explained L alloc d s'"
proof -
  obtain equity peak daily where before: "equity_before L alloc db s now = Ok (equity, peak, daily)"
    and pos: "db_positions d = row_put position_key (s, sy) (book_row L s sy b now) (db_positions db)"
    and state: "GetStrategyState d s' = (if s' = s then Some \<lparr>sr_StrategyID = s, sr_EquityQuote = dString L (equity + delta),
       sr_PeakEquityQuote = dString L (max peak (equity + delta)), sr_DailyRealizedPnLQuote = dString L (daily + delta),
       sr_UTCDate = utcDate now, sr_UpdatedAt = format_seconds now\<rparr> else GetStrategyState db s')"
    by (rule persistBook_Ok [OF p, of s'])
  have row: "realized_of L s' (book_row L s sy b now) = (if s' = s then bk_realized b else 0)"
    using L by (simp add: realized_of_def book_row_def string_documented_def)
  have past: "(case row_get position_key (db_positions db) (s, sy) of None \<Rightarrow> 0 | Some x \<Rightarrow> realized_of L s' x) = (if s' = s then bk_realized b0 else 0)"
  proof (cases "row_get position_key (db_positions db) (s, sy)")
    case None
    then show ?thesis using old(1) by (auto simp: loadBook_def GetPosition_def)
  next
    case (Some r)
    then have "position_key r = (s, sy)" by (rule row_get_key [THEN conjunct1])
    then show ?thesis using old(1) Some
      by (auto simp: loadBook_def GetPosition_def realized_of_def position_key_def parse_dec_def bind_outcome_eq_Ok split: option.splits)
  qed
  have sum: "realized_sum L d s' = realized_sum L db s' + (if s' = s then delta else 0)"
    unfolding realized_sum_def pos sum_row_put row past using old(2) by simp
  show ?thesis
  proof (cases "s' = s")
    case True
    have "equity = alloc + realized_sum L db s"
      using eq before True by (auto simp: equity_explained_def equity_before_def parse_dec_def bind_outcome_eq_Ok split: option.splits)
    then show ?thesis using L state sum True by (simp add: equity_explained_def string_documented_def add_ac)
  next
    case False
    then show ?thesis using eq state sum by (simp add: equity_explained_def split: option.splits)
  qed
qed

lemma equity_step:
  assumes L: "string_documented L" and st: "ledger_step L db x = Some d" and "allocates alloc x" and eq: "equity_explained L alloc db s"
  shows "equity_explained L alloc d s"
proof (cases x)
  case (LedgerFill e m f conv qty price status)
  then obtain new flat where t: "fill_tx L e m f conv qty price status db = Ok (d, new, flat)"
    using st by (auto simp: ledger_step_def split: outcome.splits)
  show ?thesis
  proof (cases new)
    case True
    with t have "fill_tx L e m f conv qty price status db = Ok (d, True, flat)" by simp
    from fill_tx_new [OF this] obtain d3 b delta d4 where d3: "same_books db d3"
      and b: "filled_book L db f qty price (cf_fee conv) = Ok (b, delta)"
      and p: "persistBook L (lo_allocated m) (ft_strategyID (vf_target f)) (ft_symbol (vf_target f)) b delta (su_now e) d3 = Ok d4"
      and d: "same_books d4 d" by metis
    obtain b0 where b0: "loadBook L d3 (ft_strategyID (vf_target f)) (ft_symbol (vf_target f)) = Ok b0" "delta = bk_realized b - bk_realized b0"
      using b by (auto simp: filled_book_def Let_def bind_outcome_eq_Ok loadBook_same [OF d3])
    have "lo_allocated m = alloc" using assms(3) LedgerFill by (simp add: allocates_def)
    then have "equity_explained L alloc d4 s" using equity_persist [OF L p b0] eq by (simp add: equity_same [OF d3])
    then show ?thesis by (simp add: equity_same [OF d])
  next
    case False
    then have "RecordVenueFill L (venue_fill_row L e m f conv) status (fill_accounting L e m f conv qty price) db = Ok (d, False)"
      using t by (auto simp: fill_tx_def bind_outcome_eq_Ok)
    then have "d = db" by (rule RecordVenueFill_replay)
    then show ?thesis using eq by simp
  qed
next
  case (LedgerFee a i s0 sy fee now)
  then obtain d1 b where d1: "RecordFeeConverted i (format_seconds now) db = Ok d1" "loadBook L d1 s0 sy = Ok b"
    "persistBook L alloc s0 sy (b\<lparr>bk_fees := bk_fees b + fee, bk_realized := bk_realized b - fee\<rparr>) (- fee) now d1 = Ok d"
    using st assms(3) by (auto simp: allocates_def ledger_step_def convert_tx_def bind_outcome_eq_Ok split: outcome.splits)
  have same: "same_books db d1" using d1(1) by (auto simp: RecordFeeConverted_def bind_outcome_eq_Ok same_books_def)
  show ?thesis by (rule equity_persist [OF L d1(3,2)]) (use eq in \<open>simp_all add: equity_same [OF same]\<close>)
next
  case (LedgerOther op)
  then have o: "live_op L op db = Ok d" "\<And>f st bs. op \<noteq> LVenueFill f st bs" "\<And>d. op \<noteq> LOther d"
    using st by (auto simp: ledger_step_def live_step_iff split: live_op.splits)
  have "same_books db d" using live_op_books [OF o] by simp
  then show ?thesis using eq by (simp add: equity_same)
qed

text \<open>C7: Once the equity row of a strategy is its allocated capital plus the realized results of its books
  (or, without a row, nothing is realized), it stays so through every booked fill, replay and fee
  conversion: the equity that the risk gate and the breaker read never drifts from the books.
\<close>

theorem equity_is_capital_plus_realized:
  assumes "string_documented L" and "run (ledger_step L) db xs = Some d" and "list_all (allocates alloc) xs"
    and "equity_explained L alloc db s"
  shows "equity_explained L alloc d s"
  using assms(2-4)
proof (induction xs arbitrary: db)
  case (Cons x xs)
  then obtain m where "ledger_step L db x = Some m" "run (ledger_step L) m xs = Some d" by (auto split: option.splits)
  then show ?case using Cons.IH Cons.prems equity_step [OF assms(1)] by simp
qed simp


section \<open>Witnesses\<close>

text \<open>An order for two is filled by one at 90, with a fee in a third asset that no mark can convert; the
  report is repeated; one more is filled at 110; the fee is converted.\<close>

definition demo_around :: "string \<Rightarrow> rat surround" where
  "demo_around p = \<lparr>su_now = 0, su_uuid = (\<lambda>k. if k = 0 then p else p @ ''x''), su_mark = (\<lambda>_. None), su_cause = ''{}''\<rparr>"

definition demo_trade :: "int \<Rightarrow> string \<Rightarrow> venue_fill" where
  "demo_trade t price = \<lparr>vf_target = \<lparr>ft_orderID = ''o1'', ft_strategyID = ''a'', ft_symbol = ''ETH/USDT'', ft_side = ''buy'',
     ft_qtyBase = ''2'', ft_status = ''open'', ft_protectiveKinds = []\<rparr>, vf_venueSymbol = ''ETHUSDT'', vf_tradeID = t, vf_qty = ''1'',
     vf_price = price, vf_commission = ''3'', vf_commissionAsset = ''BNB'', vf_ts = 0, vf_venueOrderStatus = []\<rparr>"

definition demo_deferred :: "rat converted_fee" where
  "demo_deferred = \<lparr>cf_fee = 0, cf_deferred = True, cf_anomaly = True\<rparr>"

definition demo_plain :: "rat converted_fee" where
  "demo_plain = \<lparr>cf_fee = 0, cf_deferred = False, cf_anomaly = False\<rparr>"

definition demo_fill :: "string \<Rightarrow> int \<Rightarrow> string \<Rightarrow> rat \<Rightarrow> rat converted_fee \<Rightarrow> store_db \<Rightarrow> (store_error, store_db \<times> bool \<times> bool) outcome" where
  "demo_fill u t text price conv db = fill_tx rat_text_lib (demo_around u) demo_gate (demo_trade t text) conv 1 price ''partially_filled'' db"

definition demo_first :: store_db where
  "demo_first = (case demo_fill ''f'' 5 ''90'' 90 demo_deferred demo_journaled of Ok (d, _) \<Rightarrow> d | _ \<Rightarrow> demo_journaled)"

definition demo_second :: store_db where
  "demo_second = (case demo_fill ''h'' 6 ''110'' 110 demo_plain demo_first of Ok (d, _) \<Rightarrow> d | _ \<Rightarrow> demo_first)"

definition demo_booked :: store_db where
  "demo_booked = (case convert_tx rat_text_lib 1000 ''f'' ''a'' ''ETH/USDT'' 2 0 demo_second of Ok d \<Rightarrow> d | _ \<Rightarrow> demo_second)"

definition demo_ledger :: "rat ledger_op list" where
  "demo_ledger =
     [LedgerFill (demo_around ''f'') demo_gate (demo_trade 5 ''90'') demo_deferred 1 90 ''partially_filled'',
      LedgerFill (demo_around ''g'') demo_gate (demo_trade 5 ''90'') demo_deferred 1 90 ''partially_filled'',
      LedgerFill (demo_around ''h'') demo_gate (demo_trade 6 ''110'') demo_plain 1 110 ''partially_filled'',
      LedgerFee 1000 ''f'' ''a'' ''ETH/USDT'' 2 0]"

lemma demo_fills:
  "demo_fill ''f'' 5 ''90'' 90 demo_deferred demo_journaled = Ok (demo_first, True, False)"
  "demo_fill ''g'' 5 ''90'' 90 demo_deferred demo_first = Ok (demo_first, False, False)"
  "demo_fill ''h'' 6 ''110'' 110 demo_plain demo_first = Ok (demo_second, True, False)"
  "convert_tx rat_text_lib 1000 ''f'' ''a'' ''ETH/USDT'' 2 0 demo_second = Ok demo_booked"
  by code_simp+

lemma demo_booked_row:
  "loadBook rat_text_lib demo_booked ''a'' ''ETH/USDT'' = Ok \<lparr>bk_qty = 2, bk_entry = 100, bk_fees = 2, bk_realized = - 2\<rparr>
   \<and> map_option sr_EquityQuote (GetStrategyState demo_booked ''a'') = Some (fraction_text 998)"
  by code_simp

lemma demo_ledger_run: "run (ledger_step rat_text_lib) demo_journaled demo_ledger = Some demo_booked"
  using demo_fills by (simp add: demo_ledger_def ledger_step_def demo_fill_def)

theorem fills_refine_paper_ledger_witness:
  "shows_ledger rat_text_lib demo_booked (foldl (paper_ledger rat_text_lib) empty_ledger demo_ledger)
   \<and> loadBook rat_text_lib demo_booked ''a'' ''ETH/USDT'' = Ok \<lparr>bk_qty = 2, bk_entry = 100, bk_fees = 2, bk_realized = - 2\<rparr>"
proof -
  have "db_fills demo_journaled = []" "db_positions demo_journaled = []" by code_simp+
  from fills_refine_paper_ledger [OF string_documented_text this demo_ledger_run] show ?thesis using demo_booked_row by simp
qed

theorem equity_is_capital_plus_realized_witness:
  "equity_explained rat_text_lib 1000 demo_booked ''a'' \<and> map_option sr_EquityQuote (GetStrategyState demo_booked ''a'') = Some (fraction_text 998)"
proof -
  have start: "equity_explained rat_text_lib 1000 demo_journaled ''a''" by code_simp
  have "list_all (allocates 1000) demo_ledger" by (simp add: demo_ledger_def allocates_def demo_gate_def)
  from equity_is_capital_plus_realized [OF string_documented_text demo_ledger_run this start] show ?thesis using demo_booked_row by simp
qed

end
