(* ===== verification/LiveProtect.thy ===== *)
theory LiveProtect
  imports LiveFills
begin

text \<open>
  Protective orders (\<open>internal/oms/live/protective.go\<close>): after a reconcile and after a stream fill every
  filled entry is driven toward protected or flat. Drives run one at a time under a lock; the model
  lets anything run between their steps.
\<close>

section \<open>Decisions\<close>

definition protectiveType :: "string \<Rightarrow> string" where
  "protectiveType kind = (if kind = ''sl'' then ''stop'' else ''take_profit'')"

text \<open>A trigger is rounded to the side on which it fires earlier.\<close>

definition protectiveTrigger :: "'d::linordered_field dlib \<Rightarrow> string \<Rightarrow> string \<Rightarrow> 'd \<Rightarrow> 'd \<Rightarrow> ('e, 'd) outcome" where
  "protectiveTrigger L kind sd price tick =
     (if kind = ''sl'' \<and> sd = ''sell'' \<or> kind = ''tp'' \<and> sd = ''buy'' then ceilToStep L price tick else floorToStep L price tick)"

definition findLiveProtective :: "order_row list \<Rightarrow> string \<Rightarrow> string \<Rightarrow> string \<Rightarrow> order_row option" where
  "findLiveProtective live s sy typ =
     find (\<lambda>r. or_Class r = ''PROTECTIVE'' \<and> or_StrategyID r = s \<and> or_Symbol r = sy \<and> or_Type r = typ) live"

definition obligations_for :: "obligation_row list \<Rightarrow> order_row \<Rightarrow> string \<Rightarrow> obligation_row list" where
  "obligations_for bs entry kind = filter (\<lambda>b. po_EntryOrderID b = or_OrderID entry \<and> po_Kind b = kind) bs"

definition breached :: "instant \<Rightarrow> obligation_row list \<Rightarrow> bool" where
  "breached now obls \<longleftrightarrow> list_ex (\<lambda>b. po_DueAt b \<le> format_seconds now) obls"

text \<open>An event with its alert in one transaction.\<close>

definition AppendOMSReconEventWithAlert :: "recon_row \<Rightarrow> alert_row \<Rightarrow> store_db \<Rightarrow> (store_error, store_db) outcome" where
  "AppendOMSReconEventWithAlert ev a db = bind_outcome (AppendOMSReconEvent ev db) (AppendSafetyAlert a)"

definition alert_of :: "string \<Rightarrow> recon_row \<Rightarrow> alert_row" where
  "alert_of uuid ev = \<lparr>sa_AlertID = uuid, sa_Kind = re_Kind ev, sa_StrategyID = re_StrategyID ev, sa_RefID = Some (re_EventID ev),
     sa_DetailsJSON = re_DetailsJSON ev, sa_RecordedAt = re_RecordedAt ev\<rparr>"

definition entry_event :: "order_row \<Rightarrow> recon_row \<Rightarrow> recon_row" where
  "entry_event entry ev = ev\<lparr>re_StrategyID := Some (or_StrategyID entry), re_Symbol := Some (or_Symbol entry)\<rparr>"

text \<open>The details of a cause that did not come from the venue: its class, as \<open>Classify\<close> names it.\<close>

definition local_cause :: string where
  "local_cause = json_obj [json_pair ''error_class'' ''ambiguous'']"

section \<open>The drive\<close>

definition satisfyObligations :: "obligation_row list \<Rightarrow> ('d, unit) handler" where
  "satisfyObligations obls =
     andthen (look (\<lambda>e _. format_seconds (su_now e))) (\<lambda>ts.
       each obls (\<lambda>_ b. stmt (\<lambda>_ db. RecordProtectiveSatisfied (po_ObligationID b) ts db)) ())"

text \<open>The deadline policy after a placement that failed with the given details.\<close>

definition handleDeadline :: "order_row \<Rightarrow> string \<Rightarrow> obligation_row list \<Rightarrow> string \<Rightarrow> ('d, unit) handler" where
  "handleDeadline entry kind obls details =
     andthen (look (\<lambda>e _. breached (su_now e) obls)) (\<lambda>b.
       if \<not> b then ok ()
       else if kind = ''tp''
       then log_event (\<lambda>e. entry_event entry (event_row (su_uuid e 0) ''tp_deadline_missed'' details (su_now e)))
       else
         andthen (stmt (\<lambda>e db.
             let ev = entry_event entry (event_row (su_uuid e 0) ''sl_deadline_contingency'' details (su_now e))
             in AppendOMSReconEventWithAlert ev (alert_of (su_uuid e 1) ev) db)) (\<lambda>_.
         Sub (PFlat (AtFlatten (or_StrategyID entry) (or_Symbol entry) ''sl_contingency'' None)) (\<lambda>u. case u of PCrash \<Rightarrow> Crash | _ \<Rightarrow> ok ())))"

text \<open>\<open>resizeProtective\<close>: the event, then the cancel. None when the order is gone, else the details of
  the venue's refusal.\<close>

definition resizeProtective :: "'d::linordered_field dlib \<Rightarrow> order_row \<Rightarrow> order_row \<Rightarrow> 'd \<Rightarrow> ('d, string option) handler" where
  "resizeProtective L entry resting target =
     andthen (log_event (\<lambda>e. (entry_event entry (event e ''protective_resized''
         [json_pair ''new_qty'' (dString L target), json_pair ''old_qty'' (or_QtyBase resting)]))
         \<lparr>re_ClientOrderID := or_ClientOrderID resting\<rparr>)) (\<lambda>_.
     case or_ClientOrderID resting of
       None \<Rightarrow> andthen (set_status (or_OrderID resting) ''canceled'') (\<lambda>_. ok None)
     | Some c \<Rightarrow>
         andthen (look (\<lambda>_ w. venue_of (wd_oms w) (or_Symbol entry))) (\<lambda>v.
         Ask (CancelOrder v c) (\<lambda>a. case a of
             RFail cls details \<Rightarrow>
               if cls = ClassNotFound then andthen (set_status (or_OrderID resting) ''canceled'') (\<lambda>_. ok None) else ok (Some details)
           | _ \<Rightarrow> andthen (set_status (or_OrderID resting) ''canceled'') (\<lambda>_. ok None))))"

definition protective_submission :: "order_row \<Rightarrow> string \<Rightarrow> string \<Rightarrow> int \<Rightarrow> 'd::zero \<Rightarrow> 'd \<Rightarrow> 'd submission" where
  "protective_submission entry kind sd epoch qty trigger =
     \<lparr>sub_strategyID = or_StrategyID entry, sub_symbol = or_Symbol entry, sub_class = ''PROTECTIVE'', sub_side = sd,
      sub_typ = protectiveType kind, sub_origin = or_Origin entry, sub_reduceOnly = True, sub_proposalID = or_ProposalID entry,
      sub_killEpoch = epoch, sub_qty = qty, sub_limitPrice = 0, sub_stopPrice = trigger, sub_takeProfit = 0\<rparr>"

text \<open>\<open>placeProtective\<close>: gate, trigger, epoch stamp, then the thread that journals and sends.\<close>

definition placeProtective :: "'d::linordered_field dlib \<Rightarrow> order_row \<Rightarrow> string \<Rightarrow> 'd \<Rightarrow> 'd symbol_filters \<Rightarrow> ('d, unit) handler" where
  "placeProtective L entry kind qty sf =
     andthen (look_calc (\<lambda>_ w. if Reconciled (wd_oms w) then Ok () else Err ErrReconcilePending)) (\<lambda>_.
     case (if kind = ''tp'' then or_TakeProfit entry else or_StopPrice entry) of
       None \<Rightarrow> fail ErrInput
     | Some raw \<Rightarrow>
         andthen (calc (live_parse L raw)) (\<lambda>trigger.
         andthen (look (\<lambda>_ w. GlobalMaxKillEpoch (wd_db w) (or_StrategyID entry))) (\<lambda>epoch.
         let sd = (if or_Side entry = ''sell'' then ''buy'' else ''sell'')
         in andthen (calc (protectiveTrigger L kind sd trigger (sf_tick sf))) (\<lambda>stop.
            Sub (PJournal (protective_submission entry kind sd epoch qty stop)) (\<lambda>u. case u of
                PDone None \<Rightarrow> ok ()
              | PDone (Some x) \<Rightarrow> fail x
              | _ \<Rightarrow> Crash)))))"

text \<open>One entry and kind.\<close>

definition driveKind ::
  "'d::linordered_field dlib \<Rightarrow> order_row \<Rightarrow> string \<Rightarrow> obligation_row list \<Rightarrow> order_row list \<Rightarrow> 'd \<Rightarrow> ('d, unit) handler" where
  "driveKind L entry kind obls live pos =
     andthen (look_calc (\<lambda>_ w. bookedQty L (wd_db w) (or_OrderID entry))) (\<lambda>filled.
     let resting = findLiveProtective live (or_StrategyID entry) (or_Symbol entry) (protectiveType kind)
     in if (case resting of None \<Rightarrow> False | Some r \<Rightarrow> or_Status r = ''pending_new'') then ok ()
        else andthen (look (\<lambda>e w. symbolFiltersFor (su_now e) (wd_oms w) (venue_of (wd_oms w) (or_Symbol entry)))) (\<lambda>fs.
          case fs of
            Ok sf \<Rightarrow>
              andthen (calc (floorToStep L (min filled \<bar>pos\<bar>) (sf_step sf))) (\<lambda>target.
              andthen (case resting of None \<Rightarrow> ok False | Some r \<Rightarrow> andthen (calc (live_parse L (or_QtyBase r))) (\<lambda>q. ok (target \<le> q))) (\<lambda>covered.
                if covered then satisfyObligations obls
                else if target \<le> 0 \<or> target < sf_minQty sf then handleDeadline entry kind obls local_cause
                else
                  andthen
                    (if obls \<noteq> [] then ok obls
                     else tx (\<lambda>e m db.
                         let b = \<lparr>po_ObligationID = su_uuid e 0, po_EntryOrderID = or_OrderID entry, po_StrategyID = or_StrategyID entry,
                               po_Kind = kind, po_DueAt = format_seconds (su_now e + slDeadline (lo_tuning m)),
                               po_CreatedAt = format_seconds (su_now e), po_SatisfiedAt = None\<rparr>
                         in lift_store (bind_outcome (InsertProtectiveObligation b db) (\<lambda>d. Ok (d, [b]))))) (\<lambda>obls.
                  hbind (case resting of None \<Rightarrow> ok None | Some r \<Rightarrow> resizeProtective L entry r target) (\<lambda>res.
                    case res of
                      Inl _ \<Rightarrow> handleDeadline entry kind obls local_cause
                    | Inr (Some details) \<Rightarrow> handleDeadline entry kind obls details
                    | Inr None \<Rightarrow>
                        hbind (placeProtective L entry kind target sf) (\<lambda>placed. case placed of
                            Inl _ \<Rightarrow> andthen (look (\<lambda>e _. su_cause e)) (\<lambda>cause. handleDeadline entry kind obls cause)
                          | Inr _ \<Rightarrow> satisfyObligations obls)))))
          | Err _ \<Rightarrow> handleDeadline entry kind obls local_cause
          | _ \<Rightarrow> Crash))"

definition driveEntry ::
  "'d::linordered_field dlib \<Rightarrow> obligation_row list \<Rightarrow> order_row list \<Rightarrow> order_row \<Rightarrow> ('d, unit) handler" where
  "driveEntry L timers live entry =
     andthen (look_calc (\<lambda>_ w. positionQty L (wd_db w) (or_StrategyID entry) (or_Symbol entry))) (\<lambda>pos.
       let rests = (\<lambda>typ. findLiveProtective live (or_StrategyID entry) (or_Symbol entry) typ \<noteq> None)
       in if rests ''market'' then ok ()
          else if pos = 0
          then andthen (if rests ''stop'' \<or> rests ''take_profit''
                        then cancelRestingProtectives (or_StrategyID entry) (or_Symbol entry) [] else ok ()) (\<lambda>_.
               each (protectiveKindsOf entry) (\<lambda>_ kind. satisfyObligations (obligations_for timers entry kind)) ())
          else each (protectiveKindsOf entry) (\<lambda>_ kind. driveKind L entry kind (obligations_for timers entry kind) live pos) ())"

definition driveProtectives :: "'d::linordered_field dlib \<Rightarrow> ('d, unit) handler" where
  "driveProtectives L =
     andthen (look (\<lambda>_ w. ListFilledProtectiveEntries (wd_db w))) (\<lambda>entries.
       if entries = [] then ok ()
       else andthen (look (\<lambda>_ w. ListOpenProtectiveObligations (wd_db w))) (\<lambda>timers.
            andthen (look (\<lambda>_ w. ListNonTerminalLiveOrders (wd_db w))) (\<lambda>live.
              each entries (\<lambda>_ entry. driveEntry L timers live entry) ())))"

end
