(* ===== verification/LiveDrive.thy ===== *)
theory LiveDrive
  imports LiveProtect LifecycleStore
begin

text \<open>
  The safety effects driver (\<open>internal/oms/live/safetydrive.go\<close>): every kill or breaker row without a
  served marker has its effects derived from the tables and executed again, until nothing is left.
\<close>

text \<open>A thread that a handler waits for.\<close>

definition await :: "'d pc \<Rightarrow> ('d, flatten_outcome option) handler" where
  "await p = Sub p (\<lambda>u. case u of
      PDone None \<Rightarrow> ok None
    | PDone (Some x) \<Rightarrow> fail x
    | FDone out \<Rightarrow> ok (Some out)
    | _ \<Rightarrow> Crash)"

text \<open>On an error the residual count ends the computation.\<close>

definition or_residual :: "('d, 'a) handler \<Rightarrow> nat \<Rightarrow> ('a \<Rightarrow> ('d, nat) handler) \<Rightarrow> ('d, nat) handler" where
  "or_residual p n k = hbind p (\<lambda>r. case r of Inl _ \<Rightarrow> ok n | Inr a \<Rightarrow> k a)"

definition findLiveReduceOnlyMarket :: "order_row list \<Rightarrow> string \<Rightarrow> string \<Rightarrow> order_row option" where
  "findLiveReduceOnlyMarket live s sy =
     find (\<lambda>r. or_ReduceOnly r \<and> or_Type r = ''market'' \<and> or_StrategyID r = s \<and> or_Symbol r = sy) live"

definition appendResidueAbandoned :: "kill_row \<Rightarrow> string \<Rightarrow> string \<Rightarrow> string \<Rightarrow> string \<Rightarrow> ('d, unit) handler" where
  "appendResidueAbandoned ev s sy cause qty =
     (let ref = ke_EventID ev @ ''/'' @ sy
      in andthen (look (\<lambda>_ w. HasSafetyAlert (wd_db w) ''safety_residue_abandoned'' s ref)) (\<lambda>dup.
           if dup then ok ()
           else stmt (\<lambda>e db. AppendSafetyAlert
             \<lparr>sa_AlertID = su_uuid e 0, sa_Kind = ''safety_residue_abandoned'', sa_StrategyID = Some s, sa_RefID = Some ref,
              sa_DetailsJSON = json_obj [json_pair ''abandoned_qty'' qty, json_pair ''cause'' cause],
              sa_RecordedAt = format_seconds (su_now e)\<rparr> db)))"

text \<open>\<open>flattenForSafety\<close>: what it adds to the residual work, and whether it failed.\<close>

definition flattenForSafety ::
  "kill_row \<Rightarrow> string \<Rightarrow> string \<Rightarrow> string \<Rightarrow> string \<Rightarrow> order_row list \<Rightarrow> ('d, nat \<times> bool) handler" where
  "flattenForSafety ev s sy qty origin live =
     (let abandon = (\<lambda>cause. hbind (appendResidueAbandoned ev s sy cause qty)
            (\<lambda>r. case r of Inl _ \<Rightarrow> ok (0, True) | Inr _ \<Rightarrow> ok (0, False)))
      in if findLiveReduceOnlyMarket live s sy \<noteq> None then ok (1, False)
         else andthen (look (\<lambda>_ w. al_get (lo_venueOf (wd_oms w)) sy = None)) (\<lambda>unmapped.
           if unmapped then abandon ''unconfigured_symbol''
           else andthen (look (\<lambda>_ w. ListNonTerminalLiveOrders (wd_db w))) (\<lambda>fresh.
             if findLiveReduceOnlyMarket fresh s sy \<noteq> None then ok (1, False)
             else hbind (await (PFlat (AtFlatten s sy origin None))) (\<lambda>r. case r of
                 Inl _ \<Rightarrow> ok (1, True)
               | Inr (Some FlattenDust) \<Rightarrow> abandon ''dust''
               | Inr (Some FlattenShortBalanceBounded) \<Rightarrow> abandon ''short_balance''
               | Inr None \<Rightarrow> ok (1, False)))))"

text \<open>\<open>driveSafetyStrategy\<close>: cancel, lock, count, flatten; an error ends it with what was counted, at
  least one where the code says so.\<close>

definition count_entries :: "kill_row \<Rightarrow> string \<Rightarrow> order_row list \<Rightarrow> ('d, nat \<times> bool) handler" where
  "count_entries ev s live =
     each (filter (\<lambda>r. or_Class r = ''ENTRY'' \<and> or_StrategyID r = s) live) (\<lambda>(n, stop) r.
         if stop then ok (n, stop)
         else andthen (look (\<lambda>_ w. al_get (lo_venueOf (wd_oms w)) (or_Symbol r) = None)) (\<lambda>unmapped.
           if unmapped
           then hbind (appendResidueAbandoned ev s (or_Symbol r) ''unconfigured_symbol'' (or_QtyBase r))
                  (\<lambda>x. case x of Inl _ \<Rightarrow> ok (Suc n, True) | Inr _ \<Rightarrow> ok (n, False))
           else ok (Suc n, False))) (0, False)"

definition flatten_positions ::
  "'d::linordered_field dlib \<Rightarrow> kill_row \<Rightarrow> string \<Rightarrow> order_row list \<Rightarrow> position_row list \<Rightarrow> nat \<Rightarrow> ('d, nat \<times> bool) handler" where
  "flatten_positions L ev s live ps n0 =
     each ps (\<lambda>(n, stop) p.
         if stop then ok (n, stop)
         else case live_parse L (pr_QtyBase p) of
             Ok qty \<Rightarrow>
               if qty = 0 then ok (n, False)
               else andthen (flattenForSafety ev s (pr_Symbol p) (pr_QtyBase p) (if ke_Kind ev = ''breaker'' then ''breaker'' else ''kill'') live)
                      (\<lambda>(k, failed). ok (n + k, failed))
           | _ \<Rightarrow> ok (Suc n, True)) (n0, False)"

definition driveSafetyStrategy :: "'d::linordered_field dlib \<Rightarrow> kill_row \<Rightarrow> string \<Rightarrow> bool \<Rightarrow> ('d, nat) handler" where
  "driveSafetyStrategy L ev s sweeping =
     or_residual (if sweeping then await (PSweep (AtList s)) else ok None) 1 (\<lambda>_.
     or_residual (if ke_Kind ev = ''kill''
         then tx (\<lambda>e _ db. lift_store (AppendKillLifecycleLock (su_uuid e 0) s (ke_EventID ev) ''safety-engine'' (format_seconds (su_now e)) db))
         else ok False) 1 (\<lambda>_.
     andthen (look (\<lambda>_ w. ListNonTerminalLiveOrders (wd_db w))) (\<lambda>live.
     andthen (count_entries ev s live) (\<lambda>(n, stop).
       if stop then ok n
       else if ke_Kind ev \<noteq> ''breaker'' \<and> ke_Flatten ev \<noteq> Some True then ok n
       else andthen (look (\<lambda>_ w. SafetyEffectServed (wd_db w) (ke_EventID ev))) (\<lambda>served.
         if served then ok n
         else andthen (look (\<lambda>_ w. ListPositions (wd_db w) s)) (\<lambda>ps.
              andthen (flatten_positions L ev s live ps n) (\<lambda>(n, _). ok n)))))))"

definition affectedStrategies :: "store_db \<Rightarrow> kill_row \<Rightarrow> string list" where
  "affectedStrategies db ev = (case ke_StrategyID ev of
      Some s \<Rightarrow> [s]
    | None \<Rightarrow> map sg_StrategyID (case ke_TenantID ev of
          Some t \<Rightarrow> filter (\<lambda>r. sg_TenantID r = t) (ListStrategies db)
        | None \<Rightarrow> ListStrategies db))"

text \<open>One row, against the end of the last reconcile (None before the first). The marker is written at
  zero residual work, and only when a reconcile ended strictly after the row.\<close>

definition driveSafetyEvent :: "'d::linordered_field dlib \<Rightarrow> kill_row \<Rightarrow> string option \<Rightarrow> ('d, unit) handler" where
  "driveSafetyEvent L ev reconciledAt =
     andthen (look (\<lambda>_ w. SafetyEffectServed (wd_db w) (ke_EventID ev))) (\<lambda>served.
       if served then ok ()
       else andthen (look (\<lambda>_ w. affectedStrategies (wd_db w) ev)) (\<lambda>strategies.
         let platform = ke_StrategyID ev = None \<and> ke_TenantID ev = None
         in andthen (if platform then or_residual (await (PSweep (AtList []))) 1 (\<lambda>_. ok 0) else ok 0) (\<lambda>n0.
            andthen (each strategies (\<lambda>n s. andthen (driveSafetyStrategy L ev s (\<not> platform)) (\<lambda>k. ok (n + k))) n0) (\<lambda>n.
              if n > 0 then ok ()
              else (case reconciledAt of
                  None \<Rightarrow> ok ()
                | Some at' \<Rightarrow>
                    if at' \<le> ke_RecordedAt ev then ok ()
                    else swallow (stmt (\<lambda>e db. AppendSafetyEffectDone (ke_EventID ev) (format_seconds (su_now e)) db)))))))"

definition DriveSafetyEffects :: "'d::linordered_field dlib \<Rightarrow> ('d, unit) handler" where
  "DriveSafetyEffects L =
     andthen (look (\<lambda>_ w. Reconciled (wd_oms w))) (\<lambda>r.
       if \<not> r then ok ()
       else andthen (look (\<lambda>_ w. ListUnservedSafetyEvents (wd_db w))) (\<lambda>events.
            andthen (look (\<lambda>_ w. if lo_lastReconcileEnd (wd_oms w) = 0 then None else Some (format_seconds (lo_lastReconcileEnd (wd_oms w))))) (\<lambda>at'.
              each events (\<lambda>_ ev. driveSafetyEvent L ev at') ())))"

text \<open>\<open>FlattenAll\<close> (safety.go): every open position of a strategy, up to the first error.\<close>

definition FlattenAll :: "'d::linordered_field dlib \<Rightarrow> string \<Rightarrow> string \<Rightarrow> ('d, unit) handler" where
  "FlattenAll L s origin =
     andthen (look (\<lambda>_ w. ListPositions (wd_db w) s)) (\<lambda>ps.
       each ps (\<lambda>_ p. andthen (calc (live_parse L (pr_QtyBase p))) (\<lambda>qty.
         if qty = 0 then ok () else andthen (await (PFlat (AtFlatten s (pr_Symbol p) origin None))) (\<lambda>_. ok ()))) ())"

end
