(* ===== verification/LiveReconcile.thy ===== *)
theory LiveReconcile
  imports LiveDrive
begin

text \<open>
  The reconciler (\<open>internal/oms/live/reconcile.go\<close>) and the user-data stream's events (stream.go): the
  venue is asked about every intent and order, its open orders are classified, missed trades are
  booked, and the books are audited.
\<close>

section \<open>A run\<close>

record recon_counters =
  ct_IntentsResolved :: nat
  ct_OrphansAdopted :: nat
  ct_OrphansCanceled :: nat
  ct_FillsBackfilled :: nat
  ct_Mismatches :: nat

record recon_run =
  rn_id :: string
  rn_counters :: recon_counters
  rn_seen :: "(string \<times> venue_order) list"
  rn_foreign :: "int list"
  rn_dupExposed :: "string list"

definition new_run :: "string \<Rightarrow> recon_run" where
  "new_run i = \<lparr>rn_id = i,
     rn_counters = \<lparr>ct_IntentsResolved = 0, ct_OrphansAdopted = 0, ct_OrphansCanceled = 0, ct_FillsBackfilled = 0, ct_Mismatches = 0\<rparr>,
     rn_seen = [], rn_foreign = [], rn_dupExposed = []\<rparr>"

definition bump :: "(recon_counters \<Rightarrow> recon_counters) \<Rightarrow> recon_run \<Rightarrow> recon_run" where
  "bump f rr = rr\<lparr>rn_counters := f (rn_counters rr)\<rparr>"

section \<open>Shared steps\<close>

definition order_event :: "order_row \<Rightarrow> string option \<Rightarrow> recon_row \<Rightarrow> recon_row" where
  "order_event ord runID ev = ev\<lparr>re_RunID := runID, re_StrategyID := Some (or_StrategyID ord), re_Symbol := Some (or_Symbol ord),
     re_ClientOrderID := or_ClientOrderID ord\<rparr>"

text \<open>\<open>advanceStatus\<close>: a report that would take the status back is dropped with an event.\<close>

definition advanceStatus :: "order_row \<Rightarrow> string \<Rightarrow> string option \<Rightarrow> ('d, string) handler" where
  "advanceStatus ord venueStatus runID =
     (let mapped = localStatus venueStatus
      in if mapped = [] then ok (or_Status ord)
         else andthen (set_status (or_OrderID ord) mapped) (\<lambda>now.
           if now \<noteq> mapped \<and> rank_of mapped < rank_of now
           then andthen (log_event (\<lambda>e. order_event ord runID
               (event e ''stale_update_dropped'' [json_pair ''kept_status'' now, json_pair ''venue_status'' venueStatus]))) (\<lambda>_. ok now)
           else ok now))"

definition adoptAck :: "intent_row \<Rightarrow> int \<Rightarrow> string \<Rightarrow> string option \<Rightarrow> ('d, unit) handler" where
  "adoptAck i eid venueStatus runID =
     andthen (stmt (\<lambda>_ db. RecordExchangeAck (oi_OrderID i) (int_string eid) db)) (\<lambda>_.
     andthen (if localStatus venueStatus \<noteq> [] then set_status (oi_OrderID i) (localStatus venueStatus) else ok []) (\<lambda>_.
     log_event (\<lambda>e. (intent_event i (su_uuid e 0) ''intent_resolved_present'' (json_obj [json_pair ''venue_status'' venueStatus]) (su_now e))
       \<lparr>re_RunID := runID, re_ExchangeOrderID := Some (int_string eid)\<rparr>)))"

definition resolveAbsent :: "string \<Rightarrow> string \<Rightarrow> string \<Rightarrow> string \<Rightarrow> string \<Rightarrow> string option \<Rightarrow> ('d, unit) handler" where
  "resolveAbsent orderID s sy c reason runID =
     stmt (\<lambda>e db. bind_outcome (RecordOrderStatus orderID ''rejected'' db) (\<lambda>(d, _).
       AppendOMSReconEvent ((event e ''intent_resolved_absent'' [json_pair ''reason'' reason])
         \<lparr>re_RunID := runID, re_StrategyID := Some s, re_Symbol := Some sy, re_ClientOrderID := Some c\<rparr>) d))"

section \<open>Intents (R2)\<close>

definition resolve_intent :: "recon_run \<Rightarrow> intent_row \<Rightarrow> ('d, recon_run) handler" where
  "resolve_intent rr i =
     andthen (if oi_ClaimedAt i \<noteq> None \<and> oi_ClaimRevokedAt i = None
              then stmt (\<lambda>e db. RecordIntentClaimRevoked (oi_ClientOrderID i) (format_seconds (su_now e)) db) else ok ()) (\<lambda>_.
     Ask (QueryOrder (oi_VenueSymbol i) (oi_ClientOrderID i)) (\<lambda>a. case a of
         ROrder vo \<Rightarrow>
           andthen (adoptAck i (vo_ExchangeOrderID vo) (vo_Status vo) (Some (rn_id rr))) (\<lambda>_.
             ok (bump (\<lambda>c. c\<lparr>ct_IntentsResolved := Suc (ct_IntentsResolved c), ct_OrphansAdopted := Suc (ct_OrphansAdopted c)\<rparr>) rr))
       | RFail cls _ \<Rightarrow>
           if cls = ClassNotFound
           then andthen (resolveAbsent (oi_OrderID i) (oi_StrategyID i) (oi_Symbol i) (oi_ClientOrderID i) ''never_acked'' (Some (rn_id rr))) (\<lambda>_.
             ok (bump (\<lambda>c. c\<lparr>ct_IntentsResolved := Suc (ct_IntentsResolved c)\<rparr>) rr))
           else ok rr
       | _ \<Rightarrow> ok rr))"

definition resolveIntents :: "recon_run \<Rightarrow> ('d, recon_run) handler" where
  "resolveIntents rr = andthen (look (\<lambda>_ w. ListPendingNewIntents (wd_db w))) (\<lambda>is. each is resolve_intent rr)"

section \<open>Open orders at the venue (R3)\<close>

definition orphanReason :: "store_db \<Rightarrow> string \<Rightarrow> string" where
  "orphanReason db c = (case GetOrderIntent db c of
      Ok i \<Rightarrow> if oi_ClaimRevokedAt i \<noteq> None then ''late_send_detected'' else ''poisoned_late''
    | _ \<Rightarrow> ''poisoned_late'')"

text \<open>Journal, then act; a cancel that fails is left to the next run.\<close>

definition cancelVenueOrphan :: "string \<Rightarrow> venue_order \<Rightarrow> string \<Rightarrow> string option \<Rightarrow> recon_run \<Rightarrow> ('d, recon_run) handler" where
  "cancelVenueOrphan canonical vo reason s rr =
     andthen (log_event (\<lambda>e. (orphan_event e reason (vo_Type vo))\<lparr>re_RunID := Some (rn_id rr), re_StrategyID := s,
         re_Symbol := Some canonical, re_ClientOrderID := Some (vo_ClientOrderID vo),
         re_ExchangeOrderID := Some (int_string (vo_ExchangeOrderID vo))\<rparr>)) (\<lambda>_.
     Ask (CancelOrder (vo_VenueSymbol vo) (vo_ClientOrderID vo)) (\<lambda>a.
       ok (if gone a then bump (\<lambda>c. c\<lparr>ct_OrphansCanceled := Suc (ct_OrphansCanceled c)\<rparr>) rr else rr)))"

definition classifyVenueOpen :: "string \<Rightarrow> recon_run \<Rightarrow> venue_order \<Rightarrow> ('d, recon_run) handler" where
  "classifyVenueOpen canonical rr vo =
     (if \<not> inNamespace (vo_ClientOrderID vo)
      then if vo_ExchangeOrderID vo \<in> set (rn_foreign rr) then ok rr
           else andthen (log_event (\<lambda>e. (event e ''foreign_order_ignored'' [json_pair ''venue_type'' (vo_Type vo)])
               \<lparr>re_RunID := Some (rn_id rr), re_Symbol := Some canonical, re_ExchangeOrderID := Some (int_string (vo_ExchangeOrderID vo))\<rparr>)) (\<lambda>_.
             ok (rr\<lparr>rn_foreign := vo_ExchangeOrderID vo # rn_foreign rr\<rparr>))
      else
        let rr = rr\<lparr>rn_seen := al_put (vo_ClientOrderID vo) vo (rn_seen rr)\<rparr>;
            orphan = (\<lambda>s. andthen (look (\<lambda>_ w. orphanReason (wd_db w) (vo_ClientOrderID vo)))
                            (\<lambda>reason. cancelVenueOrphan canonical vo reason (Some s) rr))
        in andthen (look (\<lambda>_ w. GetLiveOrderByClientOrderID (wd_db w) (vo_ClientOrderID vo))) (\<lambda>found. case found of
            Ok ord \<Rightarrow>
              if \<not> isTerminal (or_Status ord)
              then andthen (if or_ExchangeOrderID ord = None
                     then stmt (\<lambda>_ db. RecordExchangeAck (or_OrderID ord) (int_string (vo_ExchangeOrderID vo)) db) else ok ()) (\<lambda>_.
                   andthen (advanceStatus ord (vo_Status vo) (Some (rn_id rr))) (\<lambda>_. ok rr))
              else orphan (or_StrategyID ord)
          | Err x \<Rightarrow>
              if x \<noteq> ErrNotFound then fail (ErrLiveStore x)
              else andthen (look (\<lambda>_ w. GetOrderIntent (wd_db w) (vo_ClientOrderID vo))) (\<lambda>journal. case journal of
                  Ok i \<Rightarrow> orphan (oi_StrategyID i)
                | Err y \<Rightarrow>
                    if y \<noteq> ErrNotFound then fail (ErrLiveStore y)
                    else if protectiveShaped (vo_Type vo)
                    then andthen (log_event (\<lambda>e. (event e ''orphan_protective_left'' [json_pair ''venue_type'' (vo_Type vo)])
                        \<lparr>re_RunID := Some (rn_id rr), re_Symbol := Some canonical, re_ClientOrderID := Some (vo_ClientOrderID vo),
                         re_ExchangeOrderID := Some (int_string (vo_ExchangeOrderID vo))\<rparr>)) (\<lambda>_. ok rr)
                    else cancelVenueOrphan canonical vo ''unattributable'' None rr
                | _ \<Rightarrow> Crash)
          | _ \<Rightarrow> Crash))"

definition sweepOpenOrders :: "recon_run \<Rightarrow> ('d, recon_run) handler" where
  "sweepOpenOrders rr =
     andthen (look (\<lambda>_ w. map (\<lambda>sy. (sy, venue_of (wd_oms w) sy)) (lo_symbols (wd_oms w)))) (\<lambda>syms.
       each syms (\<lambda>rr (sy, v). Ask (OpenOrders v) (\<lambda>a. case a of
           ROrders vs \<Rightarrow> each vs (classifyVenueOpen sy) rr
         | _ \<Rightarrow> ok rr)) rr)"

section \<open>Absent orders (R4)\<close>

text \<open>An order the venue acknowledged and no longer knows is a reset of the venue: event and alert in one
  transaction, the order expired, and every send refused until an operator acknowledges.\<close>

definition flagVenueReset :: "string option \<Rightarrow> order_row option \<Rightarrow> ('d, unit) handler" where
  "flagVenueReset runID ord =
     andthen (stmt (\<lambda>e db.
         let base = (event e ''venue_reset'' [json_pair ''reason'' ''previously_acked_not_found''])\<lparr>re_RunID := runID\<rparr>;
             ev = (case ord of None \<Rightarrow> base | Some r \<Rightarrow> (order_event r runID base)\<lparr>re_ExchangeOrderID := or_ExchangeOrderID r\<rparr>)
         in AppendOMSReconEventWithAlert ev (alert_of (su_uuid e 1) ev) db)) (\<lambda>_.
     andthen (case ord of None \<Rightarrow> ok [] | Some r \<Rightarrow> set_status (or_OrderID r) ''expired'') (\<lambda>_.
     under_mu (\<lambda>_ m. m\<lparr>lo_resetPending := True\<rparr>)))"

definition absent_order :: "recon_run \<Rightarrow> order_row \<Rightarrow> string \<Rightarrow> string \<Rightarrow> ('d, unit) handler" where
  "absent_order rr ord c v =
     Ask (QueryOrder v c) (\<lambda>a. case a of
         ROrder vo \<Rightarrow>
           andthen (advanceStatus ord (vo_Status vo) (Some (rn_id rr))) (\<lambda>_.
             if localStatus (vo_Status vo) \<noteq> [] \<and> isTerminal (localStatus (vo_Status vo))
             then log_event (\<lambda>e. (order_event ord (Some (rn_id rr)) (event e ''order_terminalized'' [json_pair ''venue_status'' (vo_Status vo)]))
               \<lparr>re_ExchangeOrderID := Some (int_string (vo_ExchangeOrderID vo))\<rparr>)
             else ok ())
       | RFail cls _ \<Rightarrow>
           if cls \<noteq> ClassNotFound then ok ()
           else if or_ExchangeOrderID ord = None
           then resolveAbsent (or_OrderID ord) (or_StrategyID ord) (or_Symbol ord) c ''never_acked'' (Some (rn_id rr))
           else flagVenueReset (Some (rn_id rr)) (Some ord)
       | _ \<Rightarrow> ok ())"

definition absenceCheck :: "recon_run \<Rightarrow> ('d, unit) handler" where
  "absenceCheck rr =
     andthen (look (\<lambda>_ w. ListNonTerminalLiveOrders (wd_db w))) (\<lambda>orders.
       each orders (\<lambda>_ ord. case or_ClientOrderID ord of
           None \<Rightarrow> ok ()
         | Some c \<Rightarrow>
             if or_Status ord = ''pending_new'' \<or> al_get (rn_seen rr) c \<noteq> None then ok ()
             else andthen (look (\<lambda>_ w. al_get (lo_venueOf (wd_oms w)) (or_Symbol ord))) (\<lambda>v. case v of
                 None \<Rightarrow> ok () | Some v \<Rightarrow> absent_order rr ord c v)) ())"


section \<open>Missed trades (R5)\<close>

definition appendDuplicateExposure :: "fill_target \<Rightarrow> string \<Rightarrow> string option \<Rightarrow> ('d, unit) handler" where
  "appendDuplicateExposure t c runID =
     log_event (\<lambda>e. (event e ''duplicate_exposure'' [json_pair ''order_id'' (ft_orderID t)])
       \<lparr>re_RunID := runID, re_StrategyID := Some (ft_strategyID t), re_Symbol := Some (ft_symbol t),
        re_ClientOrderID := (if c = [] then None else Some c)\<rparr>)"

text \<open>Whose trade it is: an order's, an attempt's whose order the id no longer names (a duplicate), or
  nobody's here.\<close>

definition attribute :: "store_db \<Rightarrow> string \<Rightarrow> venue_trade \<Rightarrow> (live_error, (fill_target \<times> bool) option) outcome" where
  "attribute db canonical t =
     (if vt_ClientOrderID t \<noteq> []
      then if \<not> inNamespace (vt_ClientOrderID t) then Ok None
           else (case GetLiveOrderByClientOrderID db (vt_ClientOrderID t) of
               Ok ord \<Rightarrow> Ok (Some (orderTarget ord, False))
             | Err x \<Rightarrow>
                 if x \<noteq> ErrNotFound then Err (ErrLiveStore x)
                 else (case GetOrderIntent db (vt_ClientOrderID t) of
                     Ok i \<Rightarrow> Ok (Some (intentTarget i, True))
                   | Err y \<Rightarrow> if y = ErrNotFound then Ok None else Err (ErrLiveStore y)
                   | Panic \<Rightarrow> Panic | Diverge \<Rightarrow> Diverge)
             | Panic \<Rightarrow> Panic | Diverge \<Rightarrow> Diverge)
      else (case GetLiveOrderByExchangeOrderID db canonical (int_string (vt_ExchangeOrderID t)) of
          Ok ord \<Rightarrow> Ok (Some (orderTarget ord, False))
        | Err x \<Rightarrow> if x = ErrNotFound then Ok None else Err (ErrLiveStore x)
        | Panic \<Rightarrow> Panic | Diverge \<Rightarrow> Diverge))"

definition trade_fill :: "fill_target \<Rightarrow> string \<Rightarrow> venue_trade \<Rightarrow> venue_fill" where
  "trade_fill target v t = \<lparr>vf_target = target, vf_venueSymbol = v, vf_tradeID = vt_ID t, vf_qty = vt_Qty t, vf_price = vt_Price t,
     vf_commission = vt_Commission t, vf_commissionAsset = vt_CommissionAsset t, vf_ts = vt_Time t, vf_venueOrderStatus = []\<rparr>"

definition backfillTrade :: "'d::linordered_field dlib \<Rightarrow> string \<Rightarrow> string \<Rightarrow> recon_run \<Rightarrow> venue_trade \<Rightarrow> ('d, recon_run) handler" where
  "backfillTrade L canonical v rr t =
     andthen (look_calc (\<lambda>_ w. attribute (wd_db w) canonical t)) (\<lambda>found. case found of
         None \<Rightarrow> ok rr
       | Some (target, dup) \<Rightarrow>
           andthen (bookVenueFill L (trade_fill target v t) (Some (rn_id rr))) (\<lambda>inserted.
             if \<not> inserted then ok rr
             else let rr = bump (\<lambda>c. c\<lparr>ct_FillsBackfilled := Suc (ct_FillsBackfilled c)\<rparr>) rr
                  in andthen (log_event (\<lambda>e. (event e ''fill_backfilled'' [json_pair ''price'' (vt_Price t), json_pair ''qty'' (vt_Qty t)])
                       \<lparr>re_RunID := Some (rn_id rr), re_StrategyID := Some (ft_strategyID target), re_Symbol := Some (ft_symbol target),
                        re_ExchangeTradeID := Some (vt_ID t),
                        re_ClientOrderID := (if vt_ClientOrderID t = [] then None else Some (vt_ClientOrderID t))\<rparr>)) (\<lambda>_.
                     if dup \<and> ft_orderID target \<notin> set (rn_dupExposed rr)
                     then let rr = rr\<lparr>rn_dupExposed := ft_orderID target # rn_dupExposed rr\<rparr>
                          in andthen (appendDuplicateExposure target (vt_ClientOrderID t) (Some (rn_id rr))) (\<lambda>_. ok rr)
                     else ok rr)))"

text \<open>The pages from an id on; the first argument bounds their number, and a run out of it stops the model
  (a venue that answers full pages for ever).\<close>

definition pageLimit :: nat where
  "pageLimit = 1000"

fun backfillPages ::
  "nat \<Rightarrow> 'd::linordered_field dlib \<Rightarrow> string \<Rightarrow> string \<Rightarrow> int \<Rightarrow> instant option \<Rightarrow> recon_run \<Rightarrow> ('d, recon_run) handler" where
  "backfillPages 0 L canonical v fromID start rr = Crash"
| "backfillPages (Suc n) L canonical v fromID start rr =
     Ask (MyTrades v fromID start) (\<lambda>a. case a of
         RTrades ts \<Rightarrow>
           if ts = [] then ok rr
           else andthen (each ts (backfillTrade L canonical v) rr) (\<lambda>rr.
             if length ts < pageLimit then ok rr
             else backfillPages n L canonical v (vt_ID (last ts) + 1) None rr)
       | _ \<Rightarrow> ok rr)"

text \<open>\<open>backfillSymbol\<close>: from above the highest booked trade id of the epoch, or from the start of the epoch.\<close>

definition backfillSymbol :: "nat \<Rightarrow> 'd::linordered_field dlib \<Rightarrow> recon_run \<Rightarrow> string \<Rightarrow> ('d, recon_run) handler" where
  "backfillSymbol n L rr canonical =
     andthen (look (\<lambda>_ w. (venue_of (wd_oms w) canonical, lo_venueEpoch (wd_oms w)))) (\<lambda>(v, epoch).
     andthen (look (\<lambda>_ w. FillWatermark (wd_db w) (ve_VenueEpoch epoch) v)) (\<lambda>wm. case wm of
         Some h \<Rightarrow> backfillPages n L canonical v (h + 1) None rr
       | None \<Rightarrow> (case parse_rfc3339 (ve_StartedAt epoch) of
             None \<Rightarrow> fail ErrParse
           | Some t \<Rightarrow> backfillPages n L canonical v 0 (Some t) rr)))"

text \<open>\<open>retryFeeConversions\<close>.\<close>

definition convert_fee :: "'d::linordered_field dlib \<Rightarrow> recon_run \<Rightarrow> fee_row \<Rightarrow> ('d, unit) handler" where
  "convert_fee L rr pf =
     andthen (look_calc (\<lambda>_ w. lift_store (GetLiveOrderForFill (wd_db w) (pf_FillID pf)))) (\<lambda>ord.
     case splitSymbol (or_Symbol ord) of
       None \<Rightarrow> fail ErrSymbol
     | Some (_, quote) \<Rightarrow>
         andthen (calc (live_parse L (pf_Commission pf))) (\<lambda>commission.
         andthen (look (\<lambda>e _. (su_mark e (pf_CommissionAsset pf @ ''/'' @ quote), su_now e))) (\<lambda>(mark, now). case mark of
             None \<Rightarrow> ok ()
           | Some p \<Rightarrow>
               let fee = round8 L (commission * p)
               in andthen (tx (\<lambda>_ m db. lift_store (bind_outcome
                      (convert_tx L (lo_allocated m) (pf_FillID pf) (or_StrategyID ord) (or_Symbol ord) fee now db) (\<lambda>d. Ok (d, ()))))) (\<lambda>_.
                  log_event (\<lambda>e. (event e ''fee_conversion_applied''
                      [json_pair ''commission'' (pf_Commission pf), json_pair ''commission_asset'' (pf_CommissionAsset pf),
                       json_pair ''fee_quote'' (dString L fee)])
                    \<lparr>re_RunID := Some (rn_id rr), re_StrategyID := Some (or_StrategyID ord), re_Symbol := Some (or_Symbol ord)\<rparr>)))))"

definition retryFeeConversions :: "'d::linordered_field dlib \<Rightarrow> recon_run \<Rightarrow> ('d, unit) handler" where
  "retryFeeConversions L rr =
     andthen (look (\<lambda>_ w. ListUnconvertedPendingFillFees (wd_db w))) (\<lambda>fees. each fees (\<lambda>_. convert_fee L rr) ())"

section \<open>Audits (R6)\<close>

definition zeroIfEmpty :: "string \<Rightarrow> string" where
  "zeroIfEmpty s = (if s = [] then ''0'' else s)"

definition audit_order :: "'d::linordered_field dlib \<Rightarrow> recon_run \<Rightarrow> string \<times> venue_order \<Rightarrow> ('d, recon_run) handler" where
  "audit_order L rr cv =
     andthen (look (\<lambda>_ w. GetLiveOrderByClientOrderID (wd_db w) (fst cv))) (\<lambda>found. case found of
         Err x \<Rightarrow> if x = ErrNotFound then ok rr else fail (ErrLiveStore x)
       | Ok ord \<Rightarrow>
           if or_OrderID ord \<in> set (rn_dupExposed rr) then ok rr
           else andthen (calc (live_parse L (zeroIfEmpty (vo_ExecutedQty (snd cv))))) (\<lambda>venueCum.
                andthen (look_calc (\<lambda>_ w. bookedQty L (wd_db w) (or_OrderID ord))) (\<lambda>booked.
                  if venueCum = booked then ok rr
                  else andthen (log_event (\<lambda>e. order_event ord (Some (rn_id rr)) (event e ''cum_qty_mismatch''
                         [json_pair ''local_fill_sum'' (dString L booked), json_pair ''venue_executed_qty'' (dString L venueCum)]))) (\<lambda>_.
                       ok (bump (\<lambda>c. c\<lparr>ct_Mismatches := Suc (ct_Mismatches c)\<rparr>) rr))))
       | _ \<Rightarrow> Crash)"

text \<open>The map is ranged over in some order; the events of different orders are independent.\<close>

definition cumQtyAudit :: "'d::linordered_field dlib \<Rightarrow> recon_run \<Rightarrow> ('d, recon_run) handler" where
  "cumQtyAudit L rr = each (rn_seen rr) (audit_order L) rr"

text \<open>\<open>balanceSanity\<close>: the venue's balances, the long positions of all strategies by base asset, and a
  warning for each asset that falls short.\<close>

definition venue_total :: "'d::linordered_field dlib \<Rightarrow> (string \<times> string \<times> string) list \<Rightarrow> (live_error, (string \<times> 'd) list) outcome" where
  "venue_total L bs = fold_ok (\<lambda>acc (asset, free, locked).
     bind_outcome (live_parse L (zeroIfEmpty free)) (\<lambda>x.
     bind_outcome (live_parse L (zeroIfEmpty locked)) (\<lambda>y. Ok (al_put asset (x + y) acc)))) bs []"

definition add_long :: "'d::linordered_field dlib \<Rightarrow> 'd live_oms \<Rightarrow> (string \<times> 'd) list \<Rightarrow> position_row \<Rightarrow> (live_error, (string \<times> 'd) list) outcome" where
  "add_long L m acc p =
     (if al_get (lo_venueOf m) (pr_Symbol p) = None then Ok acc
      else bind_outcome (live_parse L (pr_QtyBase p)) (\<lambda>qty.
        if qty \<le> 0 then Ok acc
        else case splitSymbol (pr_Symbol p) of
            None \<Rightarrow> Err ErrSymbol
          | Some (base, _) \<Rightarrow> Ok (al_put base ((case al_get acc base of None \<Rightarrow> 0 | Some x \<Rightarrow> x) + qty) acc)))"

definition local_longs :: "'d::linordered_field dlib \<Rightarrow> 'd live_oms \<Rightarrow> store_db \<Rightarrow> (live_error, (string \<times> 'd) list) outcome" where
  "local_longs L m db = fold_ok (\<lambda>acc s. fold_ok (add_long L m) (ListPositions db (sg_StrategyID s)) acc) (ListStrategies db) []"

definition balanceSanity :: "'d::linordered_field dlib \<Rightarrow> recon_run \<Rightarrow> ('d, unit) handler" where
  "balanceSanity L rr =
     Ask Balances (\<lambda>a. case a of
         RBalances bs \<Rightarrow>
           andthen (calc (venue_total L bs)) (\<lambda>venue.
           andthen (look_calc (\<lambda>_ w. local_longs L (wd_oms w) (wd_db w))) (\<lambda>longs.
             each longs (\<lambda>_ (asset, want).
               let have' = (case al_get venue asset of None \<Rightarrow> 0 | Some x \<Rightarrow> x)
               in if want \<le> have' then ok ()
                  else log_event (\<lambda>e. (event e ''balance_drift''
                      [json_pair ''asset'' asset, json_pair ''local_positions'' (dString L want), json_pair ''venue_total'' (dString L have')])
                    \<lparr>re_RunID := Some (rn_id rr)\<rparr>)) ()))
       | _ \<Rightarrow> ok ())"

section \<open>The run (R1 to R7)\<close>

text \<open>R1: the filters, when due or stale; a failure aborts a startup run only.\<close>

definition refreshFilters :: "'d::linordered_field dlib \<Rightarrow> bool \<Rightarrow> ('d, unit) handler" where
  "refreshFilters L startup =
     andthen (look (\<lambda>e w. (filtersDue (su_now e) (wd_oms w) \<or> lo_filtersStale (wd_oms w), map (venue_of (wd_oms w)) (lo_symbols (wd_oms w))))) (\<lambda>(due, vs).
       if \<not> due then ok ()
       else Ask (ExchangeInfo vs) (\<lambda>a.
         let raw = (case a of RFilters fs \<Rightarrow> Some fs | _ \<Rightarrow> None)
         in andthen (look (\<lambda>e w. loadFilters L raw (su_now e) (wd_oms w))) (\<lambda>r. case r of
              Ok m \<Rightarrow> under_mu (\<lambda>_ o'. o'\<lparr>lo_filters := lo_filters m, lo_filtersAt := lo_filtersAt m, lo_filtersStale := False\<rparr>)
            | Err x \<Rightarrow> if startup then fail x else ok ()
            | _ \<Rightarrow> Crash)))"

definition runSteps :: "nat \<Rightarrow> 'd::linordered_field dlib \<Rightarrow> recon_run \<Rightarrow> bool \<Rightarrow> ('d, recon_run) handler" where
  "runSteps n L rr startup =
     andthen (refreshFilters L startup) (\<lambda>_.
     andthen (resolveIntents rr) (\<lambda>rr.
     andthen (sweepOpenOrders rr) (\<lambda>rr.
     andthen (absenceCheck rr) (\<lambda>_.
     andthen (look (\<lambda>_ w. (lo_resetPending (wd_oms w), lo_symbols (wd_oms w)))) (\<lambda>(reset, syms).
       if reset then ok rr
       else andthen (each syms (backfillSymbol n L) rr) (\<lambda>rr.
            andthen (retryFeeConversions L rr) (\<lambda>_.
            andthen (cumQtyAudit L rr) (\<lambda>rr.
            andthen (balanceSanity L rr) (\<lambda>_. ok rr)))))))))"

definition noteStartupFailure :: "string \<Rightarrow> ('d, unit) handler" where
  "noteStartupFailure i =
     andthen (under_mu (\<lambda>_ m. m\<lparr>lo_reconFails := lo_reconFails m + 1\<rparr>)) (\<lambda>_.
     andthen (look (\<lambda>_ w. (lo_reconFails (wd_oms w), tu_ReconFailureAlertThreshold (lo_tuning (wd_oms w))))) (\<lambda>(fails, threshold).
       if fails < threshold then ok ()
       else swallow (log_event (\<lambda>e. (event e ''recon_blocked_safety'' [json_raw ''consecutive_failures'' (int_string fails)])
              \<lparr>re_RunID := Some i\<rparr>))))"

definition completed_details :: "recon_counters \<Rightarrow> string list" where
  "completed_details c =
     [json_raw ''fills_backfilled'' (int_string (int (ct_FillsBackfilled c))), json_raw ''intents_resolved'' (int_string (int (ct_IntentsResolved c))),
      json_raw ''mismatches'' (int_string (int (ct_Mismatches c))), json_raw ''orphans_adopted'' (int_string (int (ct_OrphansAdopted c))),
      json_raw ''orphans_canceled'' (int_string (int (ct_OrphansCanceled c)))]"

definition reconcile :: "nat \<Rightarrow> 'd::linordered_field dlib \<Rightarrow> ('d, unit) handler" where
  "reconcile n L =
     andthen (look (\<lambda>e w. (new_run (su_uuid e 0), \<not> lo_reconciled (wd_oms w)))) (\<lambda>(rr, startup).
     andthen (log_event (\<lambda>e. (event e ''run_started'' [])\<lparr>re_RunID := Some (rn_id rr)\<rparr>)) (\<lambda>_.
     hbind (runSteps n L rr startup) (\<lambda>r. case r of
         Inl x \<Rightarrow>
           andthen (log_event (\<lambda>e. (event_row (su_uuid e 0) ''run_failed'' (su_cause e) (su_now e))\<lparr>re_RunID := Some (rn_id rr)\<rparr>)) (\<lambda>_.
           andthen (if startup then noteStartupFailure (rn_id rr) else ok ()) (\<lambda>_. fail x))
       | Inr rr \<Rightarrow>
           andthen (log_event (\<lambda>e. (event e ''run_completed'' (completed_details (rn_counters rr)))\<lparr>re_RunID := Some (rn_id rr)\<rparr>)) (\<lambda>_.
           andthen (under_mu (\<lambda>e m. let m = m\<lparr>lo_reconFails := 0\<rparr>
               in if lo_resetPending m then m else m\<lparr>lo_reconciled := True, lo_lastReconcileEnd := su_now e\<rparr>)) (\<lambda>_.
           andthen (look (\<lambda>_ w. Reconciled (wd_oms w))) (\<lambda>open'.
             if \<not> open' then ok ()
             else andthen (swallow (DriveSafetyEffects L)) (\<lambda>_. swallow (driveProtectives L)))))))) "

text \<open>\<open>runInternal\<close> joins a run in progress, \<open>TriggerRun\<close> refuses; both release the flag at the end.\<close>

definition release :: "('d, unit) handler \<Rightarrow> ('d, unit) handler" where
  "release p = hbind p (\<lambda>r. andthen (under_mu (\<lambda>_ m. m\<lparr>lo_running := False\<rparr>)) (\<lambda>_. Ret r))"

definition runInternal :: "nat \<Rightarrow> 'd::linordered_field dlib \<Rightarrow> ('d, unit) handler" where
  "runInternal n L =
     Act (\<lambda>_ w. w\<lparr>wd_oms := (wd_oms w)\<lparr>lo_running := True\<rparr>\<rparr>) (\<lambda>_ w.
       if lo_running (wd_oms w) then ok () else release (reconcile n L))"

text \<open>An operator's acceptance of a reset opens the next epoch and closes the gate again, in the section
  that takes the flag.\<close>

definition next_epoch_row :: "'d live_oms \<Rightarrow> instant \<Rightarrow> epoch_row" where
  "next_epoch_row m now = \<lparr>ve_VenueEpoch = ve_VenueEpoch (lo_venueEpoch m) + 1, ve_StartedAt = format_seconds now,
     ve_Reason = ''venue_reset_accepted'',
     ve_DetailsJSON = json_obj [json_raw ''previous_epoch'' (int_string (ve_VenueEpoch (lo_venueEpoch m)))]\<rparr>"

definition take_run :: "bool \<Rightarrow> instant \<Rightarrow> 'd world \<Rightarrow> (live_error, 'd world) outcome" where
  "take_run accept now w =
     (let m = wd_oms w
      in if lo_running m then Err ErrReconRunning
         else if accept \<and> lo_resetPending m
         then (case InsertVenueEpoch (next_epoch_row m now) (wd_db w) of
             Ok d \<Rightarrow> Ok (w\<lparr>wd_db := d, wd_oms := m\<lparr>lo_running := True, lo_venueEpoch := next_epoch_row m now, lo_resetPending := False, lo_reconciled := False\<rparr>\<rparr>)
           | Err x \<Rightarrow> Err (ErrLiveStore x)
           | _ \<Rightarrow> Panic)
         else Ok (w\<lparr>wd_oms := m\<lparr>lo_running := True\<rparr>\<rparr>))"

definition TriggerRun :: "nat \<Rightarrow> 'd::linordered_field dlib \<Rightarrow> bool \<Rightarrow> ('d, unit) handler" where
  "TriggerRun n L accept =
     Act (\<lambda>e w. case take_run accept (su_now e) w of Ok v \<Rightarrow> v | _ \<Rightarrow> w)
       (\<lambda>e w. case take_run accept (su_now e) w of Ok _ \<Rightarrow> release (reconcile n L) | Err x \<Rightarrow> fail x | _ \<Rightarrow> Crash)"

section \<open>Stream events\<close>

record user_event =
  ue_Kind :: string
  ue_VenueSymbol :: string
  ue_ClientOrderID :: string
  ue_ExecType :: string
  ue_OrderStatus :: string
  ue_ExchangeOrderID :: int
  ue_LastQty :: string
  ue_LastPrice :: string
  ue_Commission :: string
  ue_CommissionAsset :: string
  ue_TradeID :: int
  ue_EventTime :: instant

definition event_fill :: "user_event \<Rightarrow> fill_target \<Rightarrow> venue_fill" where
  "event_fill ev target = \<lparr>vf_target = target, vf_venueSymbol = ue_VenueSymbol ev, vf_tradeID = ue_TradeID ev, vf_qty = ue_LastQty ev,
     vf_price = ue_LastPrice ev, vf_commission = ue_Commission ev, vf_commissionAsset = ue_CommissionAsset ev,
     vf_ts = ue_EventTime ev, vf_venueOrderStatus = ue_OrderStatus ev\<rparr>"

text \<open>A new trade at or below the highest booked id means that the venue restarted its ids.\<close>

definition bookStreamFill :: "'d::linordered_field dlib \<Rightarrow> user_event \<Rightarrow> fill_target \<Rightarrow> bool \<Rightarrow> ('d, unit) handler" where
  "bookStreamFill L ev target dup =
     andthen (look (\<lambda>_ w. FillWatermark (wd_db w) (ve_VenueEpoch (lo_venueEpoch (wd_oms w))) (ue_VenueSymbol ev))) (\<lambda>wm.
     andthen (bookVenueFill L (event_fill ev target) None) (\<lambda>inserted.
       if \<not> inserted then ok ()
       else andthen (if (case wm of None \<Rightarrow> False | Some h \<Rightarrow> ue_TradeID ev \<le> h) then flagVenueReset None None else ok ()) (\<lambda>_.
            if dup then appendDuplicateExposure target (ue_ClientOrderID ev) None
            else andthen (look (\<lambda>_ w. Reconciled (wd_oms w))) (\<lambda>r. if r then swallow (driveProtectives L) else ok ()))))"

definition handleUserEvent :: "'d::linordered_field dlib \<Rightarrow> user_event \<Rightarrow> ('d, unit) handler" where
  "handleUserEvent L ev =
     (if ue_Kind ev \<noteq> ''executionReport'' then ok ()
      else if \<not> inNamespace (ue_ClientOrderID ev) then ok ()
      else andthen (look (\<lambda>_ w. GetLiveOrderByClientOrderID (wd_db w) (ue_ClientOrderID ev))) (\<lambda>found. case found of
          Ok ord \<Rightarrow>
            andthen (if or_ExchangeOrderID ord = None \<and> 0 < ue_ExchangeOrderID ev
                     then stmt (\<lambda>_ db. RecordExchangeAck (or_OrderID ord) (int_string (ue_ExchangeOrderID ev)) db) else ok ()) (\<lambda>_.
            if ue_ExecType ev \<noteq> ''TRADE'' \<or> ue_TradeID ev \<le> 0
            then andthen (advanceStatus ord (ue_OrderStatus ev) None) (\<lambda>_. ok ())
            else bookStreamFill L ev (orderTarget ord) False)
        | Err x \<Rightarrow>
            if x \<noteq> ErrNotFound then fail (ErrLiveStore x)
            else andthen (look (\<lambda>_ w. GetOrderIntent (wd_db w) (ue_ClientOrderID ev))) (\<lambda>journal. case journal of
                Ok i \<Rightarrow> if ue_ExecType ev \<noteq> ''TRADE'' \<or> ue_TradeID ev \<le> 0 then ok () else bookStreamFill L ev (intentTarget i) True
              | Err y \<Rightarrow> if y = ErrNotFound then ok () else fail (ErrLiveStore y)
              | _ \<Rightarrow> Crash)
        | _ \<Rightarrow> Crash))"


section \<open>Policies on the calls of a program\<close>

text \<open>A program follows a policy \<open>Q\<close> on its calls, whatever others do within \<open>R\<close>.\<close>

definition follows :: "('d world \<Rightarrow> 'd world \<Rightarrow> bool) \<Rightarrow> (venue_call \<Rightarrow> 'd world \<Rightarrow> bool) \<Rightarrow> ('d, 'r) prog \<Rightarrow> bool" where
  "follows R Q p \<longleftrightarrow> (\<forall>w. assures R (\<lambda>_ _ _. True) Q (\<lambda>_ _. True) p w)"

named_theorems policy_intros \<open>programs that follow a policy\<close>

text \<open>The interface of a policy: it constrains cancels and requests for trades only.\<close>

locale call_policy =
  fixes R :: "'d world \<Rightarrow> 'd world \<Rightarrow> bool" and Q :: "venue_call \<Rightarrow> 'd world \<Rightarrow> bool"
  assumes free_calls: "Q (QueryOrder v c) w" "Q (OpenOrders v) w" "Q Balances w" "Q (ExchangeInfo vs) w"
begin

lemma follows_Ret [policy_intros]: "follows R Q (Ret r)" "follows R Q Crash"
  by (simp_all add: follows_def)

lemma follows_Act [policy_intros]: "(\<And>e w. follows R Q (p e w)) \<Longrightarrow> follows R Q (Act f p)"
  by (simp add: follows_def)

lemma follows_Sub [policy_intros]: "(\<And>u. follows R Q (p u)) \<Longrightarrow> follows R Q (Sub t p)"
  by (simp add: follows_def)

lemma follows_Ask: "(\<And>w. Q q w) \<Longrightarrow> (\<And>a. follows R Q (p a)) \<Longrightarrow> follows R Q (Ask q p)"
  by (simp add: follows_def)

lemma follows_calls [policy_intros]:
  "(\<And>a. follows R Q (p a)) \<Longrightarrow> follows R Q (Ask (QueryOrder v c) p)"
  "(\<And>a. follows R Q (p a)) \<Longrightarrow> follows R Q (Ask (OpenOrders v) p)"
  "(\<And>a. follows R Q (p a)) \<Longrightarrow> follows R Q (Ask Balances p)"
  "(\<And>a. follows R Q (p a)) \<Longrightarrow> follows R Q (Ask (ExchangeInfo vs) p)"
  by (simp_all add: follows_Ask free_calls)

lemma follows_bind [policy_intros]: "follows R Q p \<Longrightarrow> (\<And>r. follows R Q (k r)) \<Longrightarrow> follows R Q (hbind p k)"
  by (auto simp: follows_def assures_bind intro: assures_mono)

lemma follows_andthen [policy_intros]: "follows R Q p \<Longrightarrow> (\<And>a. follows R Q (k a)) \<Longrightarrow> follows R Q (andthen p k)"
  unfolding andthen_def by (auto intro!: follows_bind follows_Ret simp: fail_def split: sum.splits)

lemma follows_each [policy_intros]: "(\<And>s x. follows R Q (f s x)) \<Longrightarrow> follows R Q (each xs f s)"
  by (induction xs arbitrary: s) (auto simp: ok_def intro!: policy_intros)

lemma follows_basic [policy_intros]:
  "follows R Q (ok a)" "follows R Q (fail x)" "follows R Q (calc r)" "follows R Q (look f)" "follows R Q (tx g)" "follows R Q (stmt h)"
  "follows R Q (under_mu k)" "follows R Q (log_event ev)" "follows R Q (look_calc f')" "follows R Q (set_status i st)" "follows R Q (revoke_claim c)"
  "follows R Q (await t)"
  by (auto simp: ok_def fail_def calc_def look_def tx_def stmt_def under_mu_def log_event_def look_calc_def set_status_def
      revoke_claim_def await_def intro!: policy_intros split: outcome.splits pc.splits option.splits)

lemma follows_swallow [policy_intros]: "follows R Q p \<Longrightarrow> follows R Q (swallow p)"
  unfolding swallow_def by (intro policy_intros)

lemma follows_cases [policy_intros]:
  "follows R Q p \<Longrightarrow> follows R Q q \<Longrightarrow> follows R Q (if b then p else q)"
  "follows R Q p \<Longrightarrow> (\<And>x. follows R Q (f x)) \<Longrightarrow> follows R Q (case opt of None \<Rightarrow> p | Some x \<Rightarrow> f x)"
  "(\<And>x y. follows R Q (g x y)) \<Longrightarrow> follows R Q (case xy of (x, y) \<Rightarrow> g x y)"
  "(\<And>l. follows R Q (h l)) \<Longrightarrow> (\<And>r. follows R Q (k r)) \<Longrightarrow> follows R Q (case lr of Inl l \<Rightarrow> h l | Inr r \<Rightarrow> k r)"
  by (auto split: option.splits prod.splits sum.splits)

lemma follows_outcome [policy_intros]:
  "(\<And>a. follows R Q (f a)) \<Longrightarrow> (\<And>x. follows R Q (g x)) \<Longrightarrow> follows R Q p \<Longrightarrow> follows R Q q \<Longrightarrow>
     follows R Q (case r of Ok a \<Rightarrow> f a | Err x \<Rightarrow> g x | Panic \<Rightarrow> p | Diverge \<Rightarrow> q)"
  by (cases r) simp_all

lemma follows_reply [policy_intros]:
  "(\<And>o'. follows R Q (a o')) \<Longrightarrow> (\<And>os. follows R Q (b os)) \<Longrightarrow> (\<And>ts. follows R Q (c ts)) \<Longrightarrow> (\<And>bs. follows R Q (d bs)) \<Longrightarrow>
     (\<And>fs. follows R Q (e fs)) \<Longrightarrow> (\<And>cl x. follows R Q (f cl x)) \<Longrightarrow>
     follows R Q (case r of ROrder o' \<Rightarrow> a o' | ROrders os \<Rightarrow> b os | RTrades ts \<Rightarrow> c ts | RBalances bs \<Rightarrow> d bs | RFilters fs \<Rightarrow> e fs | RFail cl x \<Rightarrow> f cl x)"
  by (cases r) simp_all

lemma follows_steps [policy_intros]:
  "follows R Q (advanceStatus ord st i)" "follows R Q (adoptAck it eid st i)" "follows R Q (resolveAbsent o' s sy c why i)"
  "follows R Q (resolve_intent rr it)" "follows R Q (resolveIntents rr)" "follows R Q (flagVenueReset i ord')"
  "follows R Q (absent_order rr ord c v)" "follows R Q (absenceCheck rr)" "follows R Q (appendDuplicateExposure t c i)"
  unfolding absenceCheck_def absent_order_def flagVenueReset_def resolveIntents_def resolve_intent_def resolveAbsent_def adoptAck_def
    advanceStatus_def appendDuplicateExposure_def Let_def
  by (intro policy_intros)+

end

section \<open>Journal, then act\<close>

text \<open>A cancel is asked of the venue only for an order of which \<open>C\<close> holds at that moment.\<close>

definition cancel_ok :: "(string \<Rightarrow> 'd world \<Rightarrow> bool) \<Rightarrow> venue_call \<Rightarrow> 'd world \<Rightarrow> bool" where
  "cancel_ok C q w \<longleftrightarrow> (case q of CancelOrder _ c \<Rightarrow> C c w | _ \<Rightarrow> True)"

interpretation cancels: call_policy drifts "cancel_ok C" for C :: "string \<Rightarrow> 'd world \<Rightarrow> bool"
  by unfold_locales (simp_all add: cancel_ok_def)

lemma trades_free [policy_intros]:
  "(\<And>a. follows drifts (cancel_ok C) (p a)) \<Longrightarrow> follows drifts (cancel_ok C) (Ask (MyTrades v lo start) p)"
  by (rule cancels.follows_Ask) (simp_all add: cancel_ok_def)

text \<open>The event that explains a cancel.\<close>

definition explains :: "string \<Rightarrow> recon_row \<Rightarrow> bool" where
  "explains c ev \<longleftrightarrow> re_ClientOrderID ev = Some c \<and> re_Kind ev \<in> {''orphan_canceled'', ''protective_resized''}"

definition explained :: "string \<Rightarrow> 'd world \<Rightarrow> bool" where
  "explained c w \<longleftrightarrow> (\<exists>ev\<in>set (db_recon (wd_db w)). explains c ev)"

abbreviation journals :: "('d, 'r) prog \<Rightarrow> bool" where
  "journals \<equiv> follows drifts (cancel_ok explained)"

text \<open>The pattern: the event, then the cancel, with reads between.\<close>

lemma assures_log:
  assumes "\<And>v ev e. ev = f e \<Longrightarrow> ev \<in> set (db_recon (wd_db v)) \<Longrightarrow> P (Inr ()) v" and "\<And>x v. P (Inl x) v"
  shows "assures drifts (\<lambda>_ _ _. True) Q P (log_event f) w"
  unfolding log_event_def
proof (rule assures_stmt)
  fix e d
  assume "AppendOMSReconEvent (f e) (wd_db w) = Ok d"
  then have "f e \<in> set (db_recon d)" by (auto simp: AppendOMSReconEvent_def split: if_splits)
  then show "True \<and> (\<forall>v. drifts (w\<lparr>wd_db := d\<rparr>) v \<longrightarrow> P (Inr ()) v)"
    using assms(1) [OF refl] by (auto simp: drifts_def dest: logged_in)
qed (use assms(2) in simp_all)

lemma journals_cancel:
  fixes k :: "venue_reply \<Rightarrow> ('d, live_error + 'a) prog"
  assumes "\<And>e. explains c (f e)" and "\<And>a. journals (k a)"
  shows "journals (andthen (log_event f) (\<lambda>_. Ask (CancelOrder v c) k))"
  unfolding follows_def assures_andthen
  by (intro allI assures_log) (use assms in \<open>auto simp: cancel_ok_def explained_def follows_def\<close>)

lemma journals_cancel_after_look:
  fixes k :: "string \<Rightarrow> venue_reply \<Rightarrow> ('d, live_error + 'a) prog"
  assumes "\<And>e. explains c (f e)" and "\<And>a v. journals (k v a)"
  shows "journals (andthen (log_event f) (\<lambda>_. andthen (look g) (\<lambda>v. Ask (CancelOrder v c) (k v))))"
proof -
  have "assures drifts (\<lambda>_ _ _. True) (cancel_ok explained) (\<lambda>_ _. True) (Ask (CancelOrder v c) (k v)) u'"
    if "drifts u u'" "f e \<in> set (db_recon (wd_db u))" for u u' :: "'d world" and v e
  proof -
    have "f e \<in> set (db_recon (wd_db u'))" using that by (auto simp: drifts_def intro: logged_in)
    then show ?thesis using assms by (auto simp: cancel_ok_def explained_def follows_def)
  qed
  then show ?thesis
    unfolding follows_def assures_andthen
    by (intro allI assures_log) (auto simp: assures_andthen intro!: assures_look)
qed

lemma journals_cancel_resting [policy_intros]: "journals (cancel_resting v r)"
  unfolding cancel_resting_def
  by (intro policy_intros journals_cancel) (simp_all add: explains_def orphan_event_def event_def event_row_def policy_intros)

lemma journals_fills [policy_intros]:
  "journals (cancelRestingProtectives s sy x)" "journals (appendFillEvents f conv i)" "journals (bookVenueFill L f i)"
  unfolding bookVenueFill_def appendFillEvents_def cancelRestingProtectives_def by (intro policy_intros)+

lemma journals_resize [policy_intros]: "journals (resizeProtective L entry r target)"
proof (cases "or_ClientOrderID r")
  case None
  then show ?thesis unfolding resizeProtective_def by (auto intro!: policy_intros)
next
  case (Some c)
  show ?thesis unfolding resizeProtective_def Some option.case
    by (rule journals_cancel_after_look)
      (auto simp: explains_def entry_event_def event_def event_row_def intro!: policy_intros)
qed

lemma journals_protect [policy_intros]:
  "journals (satisfyObligations bs)" "journals (handleDeadline entry kind bs x)" "journals (placeProtective L entry kind qty sf)"
  "journals (driveKind L entry kind bs live pos)" "journals (driveEntry L bs live entry)" "journals (driveProtectives L)"
  unfolding driveProtectives_def driveEntry_def driveKind_def placeProtective_def handleDeadline_def satisfyObligations_def Let_def
  by (intro policy_intros; auto split: pc.splits option.splits intro!: policy_intros)+

lemma journals_safety [policy_intros]:
  "journals (appendResidueAbandoned ev s sy cause qty)" "journals (flattenForSafety ev s sy qty origin live)"
  "journals (count_entries ev s live)" "journals (flatten_positions L ev s live ps n)" "journals (driveSafetyStrategy L ev s b)"
  "journals (driveSafetyEvent L ev at')" "journals (DriveSafetyEffects L)"
  unfolding DriveSafetyEffects_def driveSafetyEvent_def driveSafetyStrategy_def flatten_positions_def count_entries_def
    flattenForSafety_def appendResidueAbandoned_def or_residual_def Let_def
  by (intro policy_intros; auto split: flatten_outcome.splits option.splits intro!: policy_intros)+

lemma journals_orphan [policy_intros]: "journals (cancelVenueOrphan canonical vo reason s rr)"
  unfolding cancelVenueOrphan_def
  by (intro journals_cancel) (simp_all add: explains_def orphan_event_def event_def event_row_def policy_intros)

lemma journals_pages [policy_intros]:
  "journals (backfillTrade L canonical v rr t)" "journals (backfillPages n L canonical v lo start rr)" "journals (backfillSymbol n L rr canonical)"
proof -
  have t: "journals (backfillTrade L canonical v rr t)" for v rr t
    unfolding backfillTrade_def Let_def by (intro policy_intros)
  have p: "journals (backfillPages n L canonical v lo start rr)" for v lo start rr
    by (induction n arbitrary: lo start rr) (auto intro!: policy_intros t split: if_splits venue_reply.splits)
  show "journals (backfillTrade L canonical v rr t)" "journals (backfillPages n L canonical v lo start rr)" by (rule t p)+
  show "journals (backfillSymbol n L rr canonical)" unfolding backfillSymbol_def by (intro policy_intros p)
qed

lemma journals_reconcile [policy_intros]:
  "journals (classifyVenueOpen canonical rr vo)" "journals (sweepOpenOrders rr)" "journals (convert_fee L rr pf)"
  "journals (retryFeeConversions L rr)" "journals (audit_order L rr cv)" "journals (cumQtyAudit L rr)" "journals (balanceSanity L rr)"
  "journals (refreshFilters L b)" "journals (runSteps n L rr b)" "journals (noteStartupFailure i)" "journals (reconcile n L)"
  unfolding reconcile_def runSteps_def noteStartupFailure_def refreshFilters_def balanceSanity_def cumQtyAudit_def audit_order_def
    retryFeeConversions_def convert_fee_def sweepOpenOrders_def classifyVenueOpen_def Let_def
  by (intro policy_intros)+

lemma journals_stream [policy_intros]: "journals (bookStreamFill L ev t d)" "journals (handleUserEvent L ev)"
  unfolding handleUserEvent_def bookStreamFill_def by (intro policy_intros)+

lemma follows_run:
  "follows drifts (cancel_ok C) p \<Longrightarrow> run (hand_step L drifts) (w, p) xs = Some (v, Ask (CancelOrder sy c) k) \<Longrightarrow> C c v"
proof -
  assume "follows drifts (cancel_ok C) p" and r: "run (hand_step L drifts) (w, p) xs = Some (v, Ask (CancelOrder sy c) k)"
  then have "guaranteed drifts (\<lambda>_ _ _. True) (cancel_ok C) (\<lambda>_ _. True) (w, p)" by (simp add: guaranteed_def follows_def)
  from guaranteed_here [OF tolerates_drifts hand_run_guaranteed [OF tolerates_drifts this r]] show "C c v" by (simp add: cancel_ok_def)
qed

section \<open>Foreign orders\<close>

abbreviation spares :: "('d, 'r) prog \<Rightarrow> bool" where
  "spares \<equiv> follows drifts (cancel_ok (\<lambda>c _. inNamespace c))"

lemma spares_orphan: "inNamespace (vo_ClientOrderID vo) \<Longrightarrow> spares (cancelVenueOrphan canonical vo reason s rr)"
  unfolding cancelVenueOrphan_def
  by (intro cancels.follows_andthen cancels.follows_basic) (auto simp: follows_def cancel_ok_def ok_def)

lemma spares_classify: "spares (classifyVenueOpen canonical rr vo)"
proof (cases "inNamespace (vo_ClientOrderID vo)")
  case True
  show ?thesis unfolding classifyVenueOpen_def Let_def by (intro policy_intros spares_orphan True)
next
  case False
  then show ?thesis unfolding classifyVenueOpen_def by (auto intro!: policy_intros)
qed

lemma spares_sweep: "spares (sweepOpenOrders rr)"
  unfolding sweepOpenOrders_def by (intro policy_intros spares_classify)

text \<open>C12: The sweep over the venue's open orders never cancels an order whose client order id is not of the
  platform's namespace: orders that a person or another program placed in the account are left alone.
\<close>

theorem foreign_orders_left_alone:
  assumes "run (hand_step L drifts) (w, sweepOpenOrders rr) xs = Some (v, Ask (CancelOrder sy c) k)"
  shows "inNamespace c"
  by (rule follows_run [OF spares_sweep assms])

section \<open>The watermark\<close>

text \<open>Others that do not change the venue epoch and the configuration, while trades are only added.\<close>

definition same_epoch :: "'d world \<Rightarrow> 'd world \<Rightarrow> bool" where
  "same_epoch w v \<longleftrightarrow> drifts w v \<and> lo_venueEpoch (wd_oms v) = lo_venueEpoch (wd_oms w) \<and> lo_venueOf (wd_oms v) = lo_venueOf (wd_oms w)"

lemma tolerates_same_epoch: "tolerates L same_epoch"
  unfolding tolerates_def
proof (intro conjI allI impI)
  fix w :: "'a world"
  show "same_epoch w w" by (simp add: same_epoch_def)
next
  fix u v w :: "'a world"
  assume "same_epoch u v" "same_epoch v w"
  then show "same_epoch u w" by (auto simp: same_epoch_def intro: drifts_trans)
next
  fix w :: "'a world" and e t f
  assume "proc_step L (wd_oms w) e (wd_db w) t = Some f"
  then have "drifts w (thread_world f w)" using tolerates_drifts [of L] by (auto simp: tolerates_def)
  then show "same_epoch w (thread_world f w)" by (simp add: same_epoch_def thread_world_def)
qed

text \<open>The highest booked trade id of the epoch at a venue symbol is at least \<open>h\<close>.\<close>

definition marked :: "int \<Rightarrow> int \<Rightarrow> string \<Rightarrow> store_db \<Rightarrow> bool" where
  "marked h ep v db \<longleftrightarrow> (case FillWatermark db ep v of None \<Rightarrow> False | Some x \<Rightarrow> h \<le> x)"

lemma foldl_max_ge: "(t :: int) \<le> foldl max t ts \<and> (\<forall>x\<in>set ts. x \<le> foldl max t ts)"
proof (induction ts arbitrary: t)
  case (Cons a ts)
  from Cons.IH [of "max t a"] show ?case by auto
qed simp

lemma marked_evolves: "marked h ep v db \<Longrightarrow> evolves db d \<Longrightarrow> marked h ep v d"
proof -
  let ?f = "\<lambda>f. if fr_VenueEpoch f = ep \<and> fr_VenueSymbol f = Some v then fr_ExchangeTradeID f else None"
  assume m: "marked h ep v db" and "evolves db d"
  then obtain fs where fs: "db_fills d = db_fills db @ fs" by (auto simp: evolves_def)
  obtain t ts where t: "List.map_filter ?f (db_fills db) = t # ts" "h \<le> foldl max t ts"
    using m by (auto simp: marked_def FillWatermark_def split: option.splits list.splits)
  have "List.map_filter ?f (db_fills d) = List.map_filter ?f (db_fills db) @ List.map_filter ?f fs"
    by (simp add: fs List.map_filter_def)
  then have "FillWatermark d ep v = Some (foldl max (foldl max t ts) (List.map_filter ?f fs))" by (simp add: FillWatermark_def t(1))
  then show "marked h ep v d" using t(2) foldl_max_ge [of "foldl max t ts" "List.map_filter ?f fs"] by (simp add: marked_def)
qed

definition asks_above :: "int \<Rightarrow> venue_call \<Rightarrow> 'd world \<Rightarrow> bool" where
  "asks_above h q w \<longleftrightarrow> (case q of MyTrades _ lo _ \<Rightarrow> h < lo | _ \<Rightarrow> True)"

interpretation trades: call_policy same_epoch "asks_above h" for h :: int
  by unfold_locales (simp_all add: asks_above_def)

lemma cancels_free [policy_intros]:
  "(\<And>a. follows same_epoch (asks_above h) (p a)) \<Longrightarrow> follows same_epoch (asks_above h) (Ask (CancelOrder v c) p)"
  by (rule trades.follows_Ask) (simp_all add: asks_above_def)

lemma above_backfill: "follows same_epoch (asks_above h) (backfillTrade L canonical v rr t)"
  unfolding backfillTrade_def bookVenueFill_def appendFillEvents_def cancelRestingProtectives_def cancel_resting_def
    appendDuplicateExposure_def Let_def
  by (intro policy_intros)

lemma above_pages: "h < lo \<Longrightarrow> follows same_epoch (asks_above h) (backfillPages n L canonical v lo start rr)"
proof (induction n arbitrary: lo start rr)
  case 0
  show ?case by (simp add: policy_intros)
next
  case (Suc n)
  have page: "follows same_epoch (asks_above h) (andthen (each ts (backfillTrade L canonical v) rr) (\<lambda>rr.
      if length ts < pageLimit then ok rr else backfillPages n L canonical v (vt_ID (last ts) + 1) None rr))"
    if "list_all (\<lambda>t. lo \<le> vt_ID t) ts" "ts \<noteq> []" for ts
  proof -
    have "lo \<le> vt_ID (last ts)" using that by (auto simp: list_all_iff)
    then have "h < vt_ID (last ts) + 1" using Suc.prems by simp
    then show ?thesis by (intro policy_intros above_backfill Suc.IH)
  qed
  show ?case
    unfolding follows_def backfillPages.simps assures.simps
  proof (intro allI conjI impI)
    fix w a and u :: "'a world"
    show "asks_above h (MyTrades v lo start) w" using Suc.prems by (simp add: asks_above_def)
    assume "answers (MyTrades v lo start) a"
    then show "assures same_epoch (\<lambda>_ _ _. True) (asks_above h) (\<lambda>_ _. True)
      (case a of RTrades ts \<Rightarrow>
           if ts = [] then ok rr
           else andthen (each ts (backfillTrade L canonical v) rr) (\<lambda>rr.
             if length ts < pageLimit then ok rr
             else backfillPages n L canonical v (vt_ID (last ts) + 1) None rr)
       | _ \<Rightarrow> ok rr) u"
      using page by (auto simp: answers_def follows_def split: venue_reply.splits)
  qed
qed

lemma above_symbol:
  assumes "marked h (ve_VenueEpoch (lo_venueEpoch (wd_oms w))) (venue_of (wd_oms w) sy) (wd_db w)"
  shows "assures same_epoch (\<lambda>_ _ _. True) (asks_above h) (\<lambda>_ _. True) (backfillSymbol n L rr sy) w"
proof -
  let ?ep = "lo_venueEpoch (wd_oms w)" and ?v = "venue_of (wd_oms w) sy"
  have read: "assures same_epoch (\<lambda>_ _ _. True) (asks_above h) (\<lambda>_ _. True)
      (andthen (look (\<lambda>_ w. FillWatermark (wd_db w) (ve_VenueEpoch ?ep) ?v)) (\<lambda>wm. case wm of
         Some h \<Rightarrow> backfillPages n L sy ?v (h + 1) None rr
       | None \<Rightarrow> (case parse_rfc3339 (ve_StartedAt ?ep) of
             None \<Rightarrow> fail ErrParse
           | Some t \<Rightarrow> backfillPages n L sy ?v 0 (Some t) rr))) u" if u: "same_epoch w u" for u
  proof -
    obtain x where x: "FillWatermark (wd_db u) (ve_VenueEpoch ?ep) ?v = Some x" "h \<le> x"
      using marked_evolves [OF assms, of "wd_db u"] u by (auto simp: same_epoch_def drifts_def marked_def split: option.splits)
    have "follows same_epoch (asks_above h) (backfillPages n L sy ?v (x + 1) None rr)" using x(2) by (intro above_pages) simp
    then show ?thesis unfolding assures_andthen by (intro assures_look) (auto simp: x(1) follows_def)
  qed
  show ?thesis
    unfolding backfillSymbol_def assures_andthen [of _ _ _ _ "look (\<lambda>_ w. (venue_of (wd_oms w) sy, lo_venueEpoch (wd_oms w)))"]
    by (intro assures_look) (auto simp: read)
qed

text \<open>C33: Once a trade of id \<open>h\<close> is the highest booked one of a symbol in the epoch, no later backfill of the
  symbol asks the venue for a trade at or below \<open>h\<close>: a trade below it that was never booked, because its
  report was lost or its booking failed while a later one was booked, is never asked for again.
\<close>

theorem backfill_never_looks_below:
  assumes mark: "FillWatermark (wd_db u) (ve_VenueEpoch (lo_venueEpoch (wd_oms u))) (venue_of (wd_oms u) sy) = Some h"
    and later: "same_epoch u w"
    and r: "run (hand_step L same_epoch) (w, backfillSymbol n L rr sy) xs = Some (v, Ask (MyTrades s lo start) k)"
  shows "h < lo"
proof -
  have m: "marked h (ve_VenueEpoch (lo_venueEpoch (wd_oms x))) (venue_of (wd_oms x) sy) (wd_db x)" if "same_epoch w x" for x
  proof -
    have "same_epoch u x" using later that tolerates_same_epoch [of undefined] unfolding tolerates_def by blast
    then show ?thesis
      using mark marked_evolves [of h _ _ "wd_db u" "wd_db x"] by (auto simp: same_epoch_def drifts_def marked_def venue_of_def)
  qed
  have "guaranteed same_epoch (\<lambda>_ _ _. True) (asks_above h) (\<lambda>_ _. True) (w, backfillSymbol n L rr sy)"
    using above_symbol [OF m] by (simp add: guaranteed_def)
  from guaranteed_here [OF tolerates_same_epoch hand_run_guaranteed [OF tolerates_same_epoch this r]] show ?thesis
    by (simp add: asks_above_def)
qed


section \<open>Witnesses\<close>

text \<open>Stepping a program without looking into what comes later.\<close>

lemma later: "Act f p = Act f p" "Ask q k = Ask q k" "Sub t u = Sub t u"
  by (rule refl)+

lemma hbind_assoc: "hbind (hbind p k) m = hbind p (\<lambda>r. hbind (k r) m)"
  by (induction p rule: prog_induct) simp_all

lemma hbind_look: "hbind (look g) m = Act (\<lambda>_ w. w) (\<lambda>e w. m (Inr (g e w)))"
  by (simp add: look_def ok_def)

lemma hbind_ok: "hbind (ok a) m = m (Inr a)" "hbind (fail x) n = n (Inl x)"
  by (simp_all add: ok_def fail_def)

lemma hbind_tx:
  "hbind (tx f) m = Act (\<lambda>e w. case f e (wd_oms w) (wd_db w) of Ok (d, _) \<Rightarrow> w\<lparr>wd_db := d\<rparr> | _ \<Rightarrow> w)
     (\<lambda>e w. hbind (calc (case f e (wd_oms w) (wd_db w) of Ok (_, a) \<Rightarrow> Ok a | Err x \<Rightarrow> Err x | Panic \<Rightarrow> Panic | Diverge \<Rightarrow> Diverge)) m)"
  by (simp add: tx_def)

lemmas stepping = andthen_def hbind_assoc hbind_look hbind_ok hbind_tx log_event_def stmt_def lift_store_def

lemma calc_Ok: "calc (Ok a) = ok a"
  by (simp add: calc_def)

lemma run_HStep: "run (hand_step L R) (w, Act f p) (HStep e # xs) = run (hand_step L R) (f e w, p e w) xs"
  by (simp add: hand_step_def)

lemma run_HAnswer: "answers q r \<Longrightarrow> run (hand_step L R) (w, Ask q p) (HAnswer r # xs) = run (hand_step L R) (w, p r) xs"
  by (simp add: hand_step_def)

definition demo_world :: "rat world" where
  "demo_world = \<lparr>wd_oms = demo_gate\<lparr>lo_venueEpoch := \<lparr>ve_VenueEpoch = 1, ve_StartedAt = ''t0'', ve_Reason = ''initial'', ve_DetailsJSON = ''{}''\<rparr>\<rparr>,
     wd_db = demo_live\<rparr>"

lemma demo_watermark:
  "FillWatermark demo_live 1 ''ETHUSDT'' = Some 6 \<and> \<not> booked_key demo_live (1, Some ''ETHUSDT'', 4)"
  by code_simp

lemma backfill_reads:
  assumes "FillWatermark (wd_db w) (ve_VenueEpoch (lo_venueEpoch (wd_oms w))) (venue_of (wd_oms w) sy) = Some h"
  shows "run (hand_step L R) (w, backfillSymbol n L rr sy) [HStep e, HStep e']
     = Some (w, backfillPages n L sy (venue_of (wd_oms w) sy) (h + 1) None rr)"
  unfolding backfillSymbol_def andthen_def hbind_look run_HStep sum.case prod.case assms option.case run.simps(1) ..

theorem backfill_never_looks_below_witness:
  "(6 :: int) < 7 \<and> \<not> booked_key (wd_db demo_world) (1, Some ''ETHUSDT'', 4) \<and>
   (\<exists>k. run (hand_step rat_text_lib same_epoch) (demo_world, backfillSymbol (Suc 0) rat_text_lib (new_run ''r'') ''ETH/USDT'')
       [HStep (demo_around ''a''), HStep (demo_around ''b'')] = Some (demo_world, Ask (MyTrades ''ETHUSDT'' 7 None) k))"
proof -
  have v: "venue_of (wd_oms demo_world) ''ETH/USDT'' = ''ETHUSDT''" by (simp add: demo_world_def venue_of_def demo_gate_def)
  have w: "FillWatermark (wd_db demo_world) (ve_VenueEpoch (lo_venueEpoch (wd_oms demo_world))) (venue_of (wd_oms demo_world) ''ETH/USDT'') = Some 6"
    using demo_watermark by (simp add: demo_world_def venue_of_def demo_gate_def)
  have s: "same_epoch demo_world demo_world" by (simp add: same_epoch_def)
  obtain k where k: "run (hand_step rat_text_lib same_epoch) (demo_world, backfillSymbol (Suc 0) rat_text_lib (new_run ''r'') ''ETH/USDT'')
       [HStep (demo_around ''a''), HStep (demo_around ''b'')] = Some (demo_world, Ask (MyTrades ''ETHUSDT'' 7 None) k)"
    unfolding backfill_reads [OF w] v by simp
  from backfill_never_looks_below [OF w s k] k demo_watermark show ?thesis by (auto simp: demo_world_def)
qed

text \<open>A sweep sees an order of somebody else and one of the platform's that no table names.\<close>

definition demo_venue_order :: "int \<Rightarrow> string \<Rightarrow> venue_order" where
  "demo_venue_order i c = \<lparr>vo_VenueSymbol = ''ETHUSDT'', vo_ExchangeOrderID = i, vo_ClientOrderID = c, vo_Status = ''NEW'', vo_Type = ''LIMIT'', vo_ExecutedQty = ''0''\<rparr>"

definition demo_orphan :: string where
  "demo_orphan = attemptID (base64url (replicate 16 0)) 0"

text \<open>An own order that no table names goes through the classification to its cancel.\<close>

lemma orphan_steps:
  assumes own: "inNamespace (vo_ClientOrderID vo)" "\<not> protectiveShaped (vo_Type vo)"
    and none: "GetLiveOrderByClientOrderID (wd_db w) (vo_ClientOrderID vo) = Err ErrNotFound"
      "GetOrderIntent (wd_db w) (vo_ClientOrderID vo) = Err ErrNotFound"
    and log: "AppendOMSReconEvent ((orphan_event e2 ''unattributable'' (vo_Type vo))\<lparr>re_RunID := Some (rn_id rr), re_StrategyID := None,
         re_Symbol := Some sy, re_ClientOrderID := Some (vo_ClientOrderID vo),
         re_ExchangeOrderID := Some (int_string (vo_ExchangeOrderID vo))\<rparr>) (wd_db w) = Ok d"
  shows "\<exists>k. run (hand_step L R) (w, hbind (classifyVenueOpen sy rr vo) m) [HStep e0, HStep e1, HStep e2]
     = Some (w\<lparr>wd_db := d\<rparr>, Ask (CancelOrder (vo_VenueSymbol vo) (vo_ClientOrderID vo)) k)"
  using own none log
  by (simp add: classifyVenueOpen_def cancelVenueOrphan_def stepping run_HStep calc_Ok Let_def del: run.simps(2) cong: later)

lemma sweep_steps:
  assumes "lo_symbols (wd_oms w) = [sy]" "answers (OpenOrders (venue_of (wd_oms w) sy)) (ROrders [vo])"
  shows "\<exists>m. \<forall>xs. run (hand_step L R) (w, hbind (sweepOpenOrders rr) h) (HStep e # HAnswer (ROrders [vo]) # xs)
     = run (hand_step L R) (w, hbind (classifyVenueOpen sy rr vo) m) xs"
  using assms
  by (simp add: sweepOpenOrders_def stepping run_HStep run_HAnswer del: run.simps(2) cong: later) (rule exI, rule allI, rule refl)

lemma run_of_id: "rn_id (new_run i) = i"
  by (simp add: new_run_def)

lemma reconcile_steps:
  assumes "\<not> filtersDue (su_now c) (wd_oms w)" "\<not> lo_filtersStale (wd_oms w)" "ListPendingNewIntents d = []"
    and "AppendOMSReconEvent ((event b ''run_started'' [])\<lparr>re_RunID := Some (su_uuid a 0)\<rparr>) (wd_db w) = Ok d"
  shows "\<exists>h. \<forall>xs. run (hand_step L R) (w, reconcile n L) (HStep a # HStep b # HStep c # HStep e # xs)
     = run (hand_step L R) (w\<lparr>wd_db := d\<rparr>, hbind (sweepOpenOrders (new_run (su_uuid a 0))) h) xs"
  using assms
  by (simp add: reconcile_def runSteps_def refreshFilters_def resolveIntents_def stepping run_HStep calc_Ok run_of_id
      del: run.simps(2) cong: later) (intro conjI impI; (rule exI, rule allI, rule refl))

definition quiet_world :: "rat world" where
  "quiet_world = \<lparr>wd_oms = demo_gate, wd_db = kill_demo\<rparr>"

lemma quiet_facts:
  "inNamespace demo_orphan" "\<not> protectiveShaped ''LIMIT''" "GetLiveOrderByClientOrderID kill_demo demo_orphan = Err ErrNotFound"
  "GetOrderIntent kill_demo demo_orphan = Err ErrNotFound" "ListPendingNewIntents kill_demo = []" "db_recon kill_demo = []"
  by code_simp+

lemma hbind_return: "hbind p Ret = p"
  by (induction p rule: prog_induct) simp_all

lemma orphan_logged:
  assumes "re_Kind ev = ''orphan_canceled''" and "row_get re_EventID (db_recon db) (re_EventID ev) = None"
  shows "AppendOMSReconEvent ev db = Ok (db\<lparr>db_recon := db_recon db @ [ev]\<rparr>)"
  using assms by (simp add: AppendOMSReconEvent_def recon_kinds_def)

lemma demo_vo:
  "vo_ClientOrderID (demo_venue_order 2 demo_orphan) = demo_orphan" "vo_Type (demo_venue_order 2 demo_orphan) = ''LIMIT''"
  "vo_VenueSymbol (demo_venue_order 2 demo_orphan) = ''ETHUSDT''" "lo_symbols demo_gate = [''ETH/USDT'']"
  "venue_of demo_gate ''ETH/USDT'' = ''ETHUSDT''"
  by (simp_all add: demo_venue_order_def demo_gate_def venue_of_def)

lemma row_get_none: "row_get k [] x = None"
  by (simp add: row_get_def)

lemma demo_sweep: "wd_oms w = demo_gate \<Longrightarrow> lo_symbols (wd_oms w) = [''ETH/USDT'']"
  by (simp add: demo_vo)

lemma demo_open_orders:
  "wd_oms w = demo_gate \<Longrightarrow> answers (OpenOrders (venue_of (wd_oms w) ''ETH/USDT'')) (ROrders [demo_venue_order 2 demo_orphan])"
  by (simp add: answers_def)

lemma demo_classified:
  assumes "wd_oms w = demo_gate" and db: "wd_db w = kill_demo\<lparr>db_recon := es\<rparr>" and "row_get re_EventID es ''h'' = None"
  shows "\<exists>v k. run (hand_step L R) (w, hbind (classifyVenueOpen ''ETH/USDT'' rr (demo_venue_order 2 demo_orphan)) m)
     [HStep (demo_around ''f''), HStep (demo_around ''g''), HStep (demo_around ''h'')] = Some (v, Ask (CancelOrder ''ETHUSDT'' demo_orphan) k)"
proof -
  let ?vo = "demo_venue_order 2 demo_orphan"
  let ?ev = "(orphan_event (demo_around ''h'') ''unattributable'' (vo_Type ?vo))\<lparr>re_RunID := Some (rn_id rr), re_StrategyID := None,
     re_Symbol := Some ''ETH/USDT'', re_ClientOrderID := Some (vo_ClientOrderID ?vo), re_ExchangeOrderID := Some (int_string (vo_ExchangeOrderID ?vo))\<rparr>"
  have "AppendOMSReconEvent ?ev (wd_db w) = Ok ((wd_db w)\<lparr>db_recon := db_recon (wd_db w) @ [?ev]\<rparr>)"
    by (rule orphan_logged) (simp_all add: db assms(3) orphan_event_def event_def event_row_def demo_around_def)
  moreover have "GetLiveOrderByClientOrderID (wd_db w) demo_orphan = Err ErrNotFound" "GetOrderIntent (wd_db w) demo_orphan = Err ErrNotFound"
    using quiet_facts(3,4) by (simp_all add: db GetLiveOrderByClientOrderID_def GetOrderIntent_def get_intent_def)
  ultimately show ?thesis using orphan_steps [of ?vo w] quiet_facts(1,2) by (simp only: demo_vo) blast
qed

theorem foreign_orders_left_alone_witness:
  "inNamespace demo_orphan \<and>
   (\<exists>v k. run (hand_step rat_text_lib drifts) (quiet_world, sweepOpenOrders (new_run ''r''))
       [HStep (demo_around ''e''), HAnswer (ROrders [demo_venue_order 2 demo_orphan]), HStep (demo_around ''f''), HStep (demo_around ''g''),
        HStep (demo_around ''h'')] = Some (v, Ask (CancelOrder ''ETHUSDT'' demo_orphan) k))"
proof -
  have start: "wd_oms quiet_world = demo_gate" "wd_db quiet_world = kill_demo\<lparr>db_recon := []\<rparr>"
    using quiet_facts(6) by (simp_all add: quiet_world_def)
  note one = demo_sweep [OF start(1)] and asked = demo_open_orders [OF start(1)]
  obtain m where m: "\<And>xs. run (hand_step rat_text_lib drifts) (quiet_world, hbind (sweepOpenOrders (new_run ''r'')) Ret)
       (HStep (demo_around ''e'') # HAnswer (ROrders [demo_venue_order 2 demo_orphan]) # xs)
     = run (hand_step rat_text_lib drifts) (quiet_world, hbind (classifyVenueOpen ''ETH/USDT'' (new_run ''r'') (demo_venue_order 2 demo_orphan)) m) xs"
    using sweep_steps [OF one asked] by blast
  obtain v k where k: "run (hand_step rat_text_lib drifts) (quiet_world, sweepOpenOrders (new_run ''r''))
       [HStep (demo_around ''e''), HAnswer (ROrders [demo_venue_order 2 demo_orphan]), HStep (demo_around ''f''), HStep (demo_around ''g''),
        HStep (demo_around ''h'')] = Some (v, Ask (CancelOrder ''ETHUSDT'' demo_orphan) k)"
    using demo_classified [OF start row_get_none] unfolding m [unfolded hbind_return] by blast
  from foreign_orders_left_alone [OF k] k show ?thesis by blast
qed

section \<open>What a handler is made of\<close>

text \<open>Every thread that a program waits for starts as \<open>T\<close> says, and each of its own steps moves the world
  within \<open>G\<close>.\<close>

primrec made_of :: "('d pc \<Rightarrow> bool) \<Rightarrow> ('d world \<Rightarrow> 'd world \<Rightarrow> bool) \<Rightarrow> ('d, 'r) prog \<Rightarrow> bool" where
  "made_of T G (Ret r) = True"
| "made_of T G (Act f p) = (\<forall>e w. G w (f e w) \<and> made_of T G (p e w))"
| "made_of T G (Ask c p) = (\<forall>a. made_of T G (p a))"
| "made_of T G (Sub t p) = (T t \<and> (\<forall>u. made_of T G (p u)))"
| "made_of T G Crash = True"

lemma made_step:
  assumes "\<And>m e db t f. proc_step L m e db t = Some f \<Longrightarrow> T t \<Longrightarrow> T (ef_pc f)"
    and "hand_step L R s a = Some s'" and "made_of T G (snd s)"
  shows "made_of T G (snd s')"
  using assms(2,3) by (cases "snd s"; cases a) (auto simp: hand_step_def assms(1) split: if_splits)

lemma made_run:
  assumes "\<And>m e db t f. proc_step L m e db t = Some f \<Longrightarrow> T t \<Longrightarrow> T (ef_pc f)"
    and "run (hand_step L R) s xs = Some s'" and "made_of T G (snd s)"
  shows "made_of T G (snd s')"
  using assms(2,3)
proof (induction xs arbitrary: s)
  case (Cons a xs)
  then obtain t where "hand_step L R s a = Some t" "run (hand_step L R) t xs = Some s'" by (auto split: option.splits)
  moreover have "made_of T G (snd t)" by (rule made_step [OF _ calculation(1) Cons.prems(2)]) (rule assms(1))
  ultimately show ?case by (intro Cons.IH)
qed simp

named_theorems made_intros \<open>what the handlers are made of\<close>

locale step_policy =
  fixes T :: "'d pc \<Rightarrow> bool" and G :: "'d world \<Rightarrow> 'd world \<Rightarrow> bool"
  assumes stays: "G w w"
begin

lemma made_nodes [made_intros]:
  "made_of T G (Ret r)" "made_of T G Crash"
  "(\<And>e w. G w (f e w)) \<Longrightarrow> (\<And>e w. made_of T G (p e w)) \<Longrightarrow> made_of T G (Act f p)"
  "(\<And>a. made_of T G (q a)) \<Longrightarrow> made_of T G (Ask c q)"
  "T t \<Longrightarrow> (\<And>u. made_of T G (q' u)) \<Longrightarrow> made_of T G (Sub t q')"
  by simp_all

lemma made_bind [made_intros]: "made_of T G p \<Longrightarrow> (\<And>r. made_of T G (k r)) \<Longrightarrow> made_of T G (hbind p k)"
  by (induction p rule: prog_induct) simp_all

lemma made_andthen [made_intros]: "made_of T G p \<Longrightarrow> (\<And>a. made_of T G (k a)) \<Longrightarrow> made_of T G (andthen p k)"
  unfolding andthen_def by (auto intro!: made_bind simp: fail_def split: sum.splits)

lemma made_each [made_intros]: "(\<And>s x. made_of T G (f s x)) \<Longrightarrow> made_of T G (each xs f s)"
  by (induction xs arbitrary: s) (auto simp: ok_def intro!: made_intros)

lemma made_basic [made_intros]:
  "made_of T G (ok a)" "made_of T G (fail x)" "made_of T G (calc r)" "made_of T G (look f)"
  by (auto simp: ok_def fail_def calc_def look_def stays split: outcome.splits)

lemma made_look_calc [made_intros]: "made_of T G (look_calc g)"
  unfolding look_calc_def by (intro made_andthen made_basic)

lemma made_tx [made_intros]:
  "(\<And>e w d a. g e (wd_oms w) (wd_db w) = Ok (d, a) \<Longrightarrow> G w (w\<lparr>wd_db := d\<rparr>)) \<Longrightarrow> made_of T G (tx g)"
  by (auto simp: tx_def stays made_basic split: outcome.splits)

lemma made_stmt [made_intros]:
  "(\<And>e w d. h e (wd_db w) = Ok d \<Longrightarrow> G w (w\<lparr>wd_db := d\<rparr>)) \<Longrightarrow> made_of T G (stmt h)"
  unfolding stmt_def by (rule made_tx) (auto simp: lift_store_def bind_outcome_eq_Ok split: outcome.splits)

lemma made_mu [made_intros]: "(\<And>e w. G w (w\<lparr>wd_oms := k e (wd_oms w)\<rparr>)) \<Longrightarrow> made_of T G (under_mu k)"
  by (auto simp: under_mu_def ok_def)

lemma made_await [made_intros]: "T t \<Longrightarrow> made_of T G (await t)"
  unfolding await_def by (auto intro!: made_intros split: pc.splits option.splits)

lemma made_swallow [made_intros]: "made_of T G p \<Longrightarrow> made_of T G (swallow p)"
  unfolding swallow_def by (intro made_intros)

lemma made_cases [made_intros]:
  "made_of T G p \<Longrightarrow> made_of T G q \<Longrightarrow> made_of T G (if b then p else q)"
  "made_of T G p \<Longrightarrow> (\<And>x. made_of T G (f x)) \<Longrightarrow> made_of T G (case opt of None \<Rightarrow> p | Some x \<Rightarrow> f x)"
  "(\<And>x y. made_of T G (g x y)) \<Longrightarrow> made_of T G (case xy of (x, y) \<Rightarrow> g x y)"
  "(\<And>l. made_of T G (h l)) \<Longrightarrow> (\<And>r. made_of T G (k r)) \<Longrightarrow> made_of T G (case lr of Inl l \<Rightarrow> h l | Inr r \<Rightarrow> k r)"
  by (auto split: option.splits prod.splits sum.splits)

lemma made_outcome [made_intros]:
  "(\<And>a. made_of T G (f a)) \<Longrightarrow> (\<And>x. made_of T G (g x)) \<Longrightarrow> made_of T G p \<Longrightarrow> made_of T G q \<Longrightarrow>
     made_of T G (case r of Ok a \<Rightarrow> f a | Err x \<Rightarrow> g x | Panic \<Rightarrow> p | Diverge \<Rightarrow> q)"
  by (cases r) simp_all

lemma made_reply [made_intros]:
  "(\<And>o'. made_of T G (a o')) \<Longrightarrow> (\<And>os. made_of T G (b os)) \<Longrightarrow> (\<And>ts. made_of T G (c ts)) \<Longrightarrow> (\<And>bs. made_of T G (d bs)) \<Longrightarrow>
     (\<And>fs. made_of T G (e fs)) \<Longrightarrow> (\<And>cl x. made_of T G (f cl x)) \<Longrightarrow>
     made_of T G (case r of ROrder o' \<Rightarrow> a o' | ROrders os \<Rightarrow> b os | RTrades ts \<Rightarrow> c ts | RBalances bs \<Rightarrow> d bs | RFilters fs \<Rightarrow> e fs | RFail cl x \<Rightarrow> f cl x)"
  by (cases r) simp_all

end

section \<open>Nothing here opens exposure\<close>

text \<open>Where a thread is that can only close: what it will journal is a reduce-only PROTECTIVE order, and
  what it will cancel is an ENTRY order.\<close>

definition reduces :: "'d submission \<Rightarrow> bool" where
  "reduces sub \<longleftrightarrow> sub_reduceOnly sub \<and> sub_class sub = ''PROTECTIVE''"

definition cancels_entries :: "sweep_at \<Rightarrow> bool" where
  "cancels_entries w \<longleftrightarrow> (case w of
      AtList _ \<Rightarrow> True
    | AtRevoke rs \<Rightarrow> list_all (\<lambda>r. or_Class r = ''ENTRY'') rs
    | AtCancel r rs \<Rightarrow> list_all (\<lambda>r. or_Class r = ''ENTRY'') (r # rs)
    | AtCanceled r rs \<Rightarrow> list_all (\<lambda>r. or_Class r = ''ENTRY'') (r # rs))"

definition closing :: "'d pc \<Rightarrow> bool" where
  "closing t \<longleftrightarrow> (case t of
      PEntry _ _ _ \<Rightarrow> False
    | PJournal sub \<Rightarrow> reduces sub
    | PFlat w \<Rightarrow> (case w of
          AtBalance sub _ \<Rightarrow> reduces sub | AtShort sub _ _ \<Rightarrow> reduces sub | AtFlatSize sub _ _ _ \<Rightarrow> reduces sub
        | AtDust sub _ _ _ \<Rightarrow> reduces sub | AtFlatStamp sub \<Rightarrow> reduces sub | _ \<Rightarrow> True)
    | PSweep w \<Rightarrow> cancels_entries w
    | _ \<Rightarrow> True)"

lemma closing_simps [simp]:
  "\<not> closing (PEntry a sub c)" "closing (PJournal sub) = reduces sub" "closing (PSend w i)" "closing (PSweep v) = cancels_entries v" "closing (PDone r)"
  "closing (FDone out)" "closing PCrash" "closing (PFlat (AtClose s sy pid))" "closing (PFlat (AtFlatten s sy origin pid))"
  "closing (PFlat (AtBalance sub sf)) = reduces sub" "closing (PFlat (AtShort sub sf free)) = reduces sub"
  "closing (PFlat (AtFlatSize sub sf avail short)) = reduces sub" "closing (PFlat (AtDust sub sf avail short)) = reduces sub"
  "closing (PFlat (AtFlatStamp sub)) = reduces sub"
  by (simp_all add: closing_def)

lemma closing_after: "(\<And>a. r = Ok a \<Longrightarrow> closing (ef_pc (k a))) \<Longrightarrow> closing (ef_pc (after db r k))"
  by (cases r) (simp_all add: after_def go_def)

lemma closing_start: "flatten_start L m now db s sy origin pid = Ok t \<Longrightarrow> closing t"
  by (auto simp: flatten_start_def bind_outcome_eq_Ok reduces_def Let_def split: if_splits option.splits)

lemma closing_flatten: "closing (PFlat w) \<Longrightarrow> closing (ef_pc (flatten_step L m e db w))"
  by (cases w) (auto simp: flatten_step_def go_def after_store_def reduces_def dest: closing_start intro!: closing_after split: prod.splits)

lemma closing_attempt: "closing (ef_pc (attempt_step e db w i))"
  by (cases w) (auto simp: attempt_step_def go_def after_store_def intro!: closing_after split: venue_answer.splits prod.splits)

lemma closing_sweep: "cancels_entries w \<Longrightarrow> closing (ef_pc (sweep_step m e db w))"
  by (cases w)
    (auto simp: sweep_step_def go_def sweep_next_def after_store_def Let_def cancels_entries_def list_all_iff sweep_orders_def
      intro!: closing_after split: list.splits outcome.splits venue_answer.splits prod.splits)

lemma cancels_entries_start [simp]: "cancels_entries (AtList s)"
  by (simp add: cancels_entries_def)

lemma closing_step: "proc_step L m e db t = Some f \<Longrightarrow> closing t \<Longrightarrow> closing (ef_pc f)"
  by (cases t)
    (auto simp: proc_step_def journal_step_def Let_def go_def after_store_def closing_flatten closing_attempt closing_sweep
      intro!: closing_after split: if_splits)

interpretation closings: step_policy closing "\<lambda>_ _. True"
  by unfold_locales (rule TrueI)

abbreviation closes :: "('d, 'r) prog \<Rightarrow> bool" where
  "closes \<equiv> made_of closing (\<lambda>_ _. True)"

lemma closes_parts [made_intros]:
  "closes (set_status i st)" "closes (revoke_claim c)" "closes (log_event ev)"
  unfolding set_status_def revoke_claim_def log_event_def by (intro made_intros TrueI)+

lemma closes_steps [made_intros]:
  "closes (advanceStatus ord st i)" "closes (adoptAck it eid st i)" "closes (resolveAbsent o' s sy c why i)"
  "closes (resolve_intent rr it)" "closes (resolveIntents rr)" "closes (flagVenueReset i ord')"
  "closes (absent_order rr ord c v)" "closes (absenceCheck rr)" "closes (appendDuplicateExposure t c i)"
  unfolding absenceCheck_def absent_order_def flagVenueReset_def resolveIntents_def resolve_intent_def resolveAbsent_def adoptAck_def
    advanceStatus_def appendDuplicateExposure_def Let_def
  by (intro made_intros TrueI)+

lemma closes_fills [made_intros]:
  "closes (cancel_resting v r)" "closes (cancelRestingProtectives s sy x)" "closes (appendFillEvents f conv i)" "closes (bookVenueFill L f i)"
  unfolding bookVenueFill_def appendFillEvents_def cancelRestingProtectives_def cancel_resting_def by (intro made_intros TrueI)+

lemma reduces_protective: "reduces (protective_submission entry kind sd epoch qty trigger)"
  by (simp add: reduces_def protective_submission_def)

lemma closes_protect [made_intros]:
  "closes (satisfyObligations bs)" "closes (handleDeadline entry kind bs x)" "closes (placeProtective L entry kind qty sf)"
  "closes (resizeProtective L entry r target)"
  "closes (driveKind L entry kind bs live pos)" "closes (driveEntry L bs live entry)" "closes (driveProtectives L)"
  unfolding driveProtectives_def driveEntry_def driveKind_def placeProtective_def handleDeadline_def satisfyObligations_def
    resizeProtective_def Let_def
  by (intro made_intros TrueI; auto simp: reduces_protective split: pc.splits option.splits intro!: made_intros TrueI)+

lemma closes_safety [made_intros]:
  "closes (appendResidueAbandoned ev s sy cause qty)" "closes (flattenForSafety ev s sy qty origin live)"
  "closes (count_entries ev s live)" "closes (flatten_positions L ev s live ps n)" "closes (driveSafetyStrategy L ev s b)"
  "closes (driveSafetyEvent L ev at')" "closes (DriveSafetyEffects L)" "closes (FlattenAll L s origin)"
  unfolding DriveSafetyEffects_def FlattenAll_def driveSafetyEvent_def driveSafetyStrategy_def flatten_positions_def count_entries_def
    flattenForSafety_def appendResidueAbandoned_def or_residual_def Let_def
  by (intro made_intros TrueI; auto split: flatten_outcome.splits option.splits intro!: made_intros TrueI)+

lemma closes_pages [made_intros]:
  "closes (backfillTrade L canonical v rr t)" "closes (backfillPages n L canonical v lo start rr)" "closes (backfillSymbol n L rr canonical)"
proof -
  have t: "closes (backfillTrade L canonical v rr t)" for v rr t
    unfolding backfillTrade_def Let_def by (intro made_intros TrueI)
  have p: "closes (backfillPages n L canonical v lo start rr)" for v lo start rr
    by (induction n arbitrary: lo start rr) (auto intro!: made_intros TrueI t split: if_splits venue_reply.splits)
  show "closes (backfillTrade L canonical v rr t)" "closes (backfillPages n L canonical v lo start rr)" by (rule t p)+
  show "closes (backfillSymbol n L rr canonical)" unfolding backfillSymbol_def by (intro made_intros TrueI p)
qed

lemma closes_reconcile [made_intros]:
  "closes (cancelVenueOrphan canonical vo reason s rr)"
  "closes (classifyVenueOpen canonical rr vo)" "closes (sweepOpenOrders rr)" "closes (convert_fee L rr pf)"
  "closes (retryFeeConversions L rr)" "closes (audit_order L rr cv)" "closes (cumQtyAudit L rr)" "closes (balanceSanity L rr)"
  "closes (refreshFilters L b)" "closes (runSteps n L rr b)" "closes (noteStartupFailure i)" "closes (reconcile n L)"
  unfolding reconcile_def runSteps_def noteStartupFailure_def refreshFilters_def balanceSanity_def cumQtyAudit_def audit_order_def
    retryFeeConversions_def convert_fee_def sweepOpenOrders_def classifyVenueOpen_def cancelVenueOrphan_def Let_def
  by (intro made_intros TrueI)+

lemma closes_stream [made_intros]: "closes (bookStreamFill L ev t d)" "closes (handleUserEvent L ev)"
  unfolding handleUserEvent_def bookStreamFill_def by (intro made_intros TrueI)+

text \<open>Whatever the venue answers and whatever others do, the thread that a program waits for is no entry,
  and what it journals reduces.\<close>

definition only_reduces :: "'d::linordered_field dlib \<Rightarrow> ('d, 'r) prog \<Rightarrow> bool" where
  "only_reduces L p \<longleftrightarrow> (\<forall>R w xs. case run (hand_step L R) (w, p) xs of
      Some (_, Sub (PEntry _ _ _) _) \<Rightarrow> False
    | Some (_, Sub (PJournal sub) _) \<Rightarrow> sub_reduceOnly sub \<and> sub_class sub = ''PROTECTIVE''
    | _ \<Rightarrow> True)"

lemma closes_only_reduces: "closes p \<Longrightarrow> only_reduces L p"
  unfolding only_reduces_def
proof (intro allI)
  fix R and w :: "'a world" and xs
  assume "closes p"
  then have c: "closes q" if "run (hand_step L R) (w, p) xs = Some (v, q)" for v q
  proof -
    have "closes (snd (v, q))" by (rule made_run [OF _ that]) (simp_all add: \<open>closes p\<close> closing_step)
    then show ?thesis by simp
  qed
  show "case run (hand_step L R) (w, p) xs of
      Some (_, Sub (PEntry _ _ _) _) \<Rightarrow> False
    | Some (_, Sub (PJournal sub) _) \<Rightarrow> sub_reduceOnly sub \<and> sub_class sub = ''PROTECTIVE''
    | _ \<Rightarrow> True"
    using c by (auto simp: reduces_def split: option.splits prod.splits prog.splits pc.splits)
qed

text \<open>C8: Neither the reconciler, with the safety effects and the protective orders it drives, nor the handler
  of stream events, nor a flatten of all positions ever opens exposure: none of the threads they start is
  an entry, and every order these threads journal is a reduce-only PROTECTIVE order, whatever the venue
  answers and whatever runs between.
\<close>

theorem reconciler_only_reduces:
  "only_reduces L (reconcile n L) \<and> only_reduces L (handleUserEvent L ev) \<and> only_reduces L (FlattenAll L s origin)"
  by (intro conjI closes_only_reduces made_intros TrueI)

text \<open>C9: Journal, then act: whatever runs between the steps of the reconciler (with the safety effects and
  the protective orders it drives) or of a stream event, and whatever the venue answers, when either asks
  the venue to cancel an order, the event that explains the cancel is already in the journal. The one
  other cancel they cause is the sweep of a kill or breaker row: the thread they wait for there writes no
  event, its cause being the kill row, and every order it asks the venue to cancel is an ENTRY order. So
  no protective order is ever cancelled without its event.\<close>

theorem cancels_follow_their_event:
  assumes p: "p = reconcile n L \<or> p = handleUserEvent L ev" and r: "run (hand_step L drifts) (w, p) xs = Some (v, q)"
  shows "case q of
      Ask (CancelOrder sy c) k \<Rightarrow> \<exists>e\<in>set (db_recon (wd_db v)). explains c e
    | Sub (PSweep (AtCancel ord rest)) k \<Rightarrow> or_Class ord = ''ENTRY''
    | _ \<Rightarrow> True"
proof -
  have j: "journals p" and c: "closes p" using p by (auto intro: policy_intros made_intros)
  have "closes (snd (v, q))" by (rule made_run [OF _ r]) (simp_all add: c closing_step)
  moreover have "explained c v" if "q = Ask (CancelOrder sy c) k" for sy c k
    using follows_run [OF j] r that by blast
  ultimately show ?thesis
    by (auto simp: explained_def cancels_entries_def split: prog.splits venue_call.splits pc.splits sweep_at.splits)
qed

theorem cancels_follow_their_event_witness:
  "\<exists>v k. run (hand_step rat_text_lib drifts) (quiet_world, reconcile 1 rat_text_lib)
       [HStep (demo_around ''a''), HStep (demo_around ''b''), HStep (demo_around ''c''), HStep (demo_around ''d''),
        HStep (demo_around ''e''), HAnswer (ROrders [demo_venue_order 2 demo_orphan]), HStep (demo_around ''f''), HStep (demo_around ''g''),
        HStep (demo_around ''h'')] = Some (v, Ask (CancelOrder ''ETHUSDT'' demo_orphan) k)
     \<and> (\<exists>e\<in>set (db_recon (wd_db v)). explains demo_orphan e)"
proof -
  let ?ev = "(event (demo_around ''b'') ''run_started'' [])\<lparr>re_RunID := Some (su_uuid (demo_around ''a'') 0)\<rparr>"
  let ?w = "quiet_world\<lparr>wd_db := kill_demo\<lparr>db_recon := [?ev]\<rparr>\<rparr>"
  have start: "wd_oms ?w = demo_gate" "wd_db ?w = kill_demo\<lparr>db_recon := [?ev]\<rparr>" by (simp_all add: quiet_world_def)
  have log: "AppendOMSReconEvent ?ev (wd_db quiet_world) = Ok (kill_demo\<lparr>db_recon := [?ev]\<rparr>)"
    using quiet_facts(6) by (simp add: quiet_world_def AppendOMSReconEvent_def recon_kinds_def event_def event_row_def row_get_def)
  have due: "\<not> filtersDue (su_now (demo_around ''c'')) (wd_oms quiet_world)" "\<not> lo_filtersStale (wd_oms quiet_world)"
    by (simp_all add: quiet_world_def filtersDue_def demo_gate_def demo_around_def filterRefresh_def DefaultTuning_def time_sub_def wrap64_def second_def min_duration_def max_duration_def)
  have pend: "ListPendingNewIntents (kill_demo\<lparr>db_recon := [?ev]\<rparr>) = []" using quiet_facts(5) by (simp add: ListPendingNewIntents_def)
  note one = demo_sweep [OF start(1)] and asked = demo_open_orders [OF start(1)]
  obtain h where h: "\<And>xs. run (hand_step rat_text_lib drifts) (quiet_world, reconcile 1 rat_text_lib)
      (HStep (demo_around ''a'') # HStep (demo_around ''b'') # HStep (demo_around ''c'') # HStep (demo_around ''d'') # xs)
    = run (hand_step rat_text_lib drifts) (?w, hbind (sweepOpenOrders (new_run (su_uuid (demo_around ''a'') 0))) h) xs"
    using reconcile_steps [OF due pend log] by blast
  obtain m where m: "\<And>xs. run (hand_step rat_text_lib drifts) (?w, hbind (sweepOpenOrders (new_run (su_uuid (demo_around ''a'') 0))) h)
       (HStep (demo_around ''e'') # HAnswer (ROrders [demo_venue_order 2 demo_orphan]) # xs)
     = run (hand_step rat_text_lib drifts) (?w, hbind (classifyVenueOpen ''ETH/USDT'' (new_run (su_uuid (demo_around ''a'') 0)) (demo_venue_order 2 demo_orphan)) m) xs"
    using sweep_steps [OF one asked] by blast
  have "row_get re_EventID [?ev] ''h'' = None" by (simp add: row_get_def event_def event_row_def demo_around_def)
  from demo_classified [OF start this] obtain v k where k: "run (hand_step rat_text_lib drifts) (quiet_world, reconcile 1 rat_text_lib)
       [HStep (demo_around ''a''), HStep (demo_around ''b''), HStep (demo_around ''c''), HStep (demo_around ''d''),
        HStep (demo_around ''e''), HAnswer (ROrders [demo_venue_order 2 demo_orphan]), HStep (demo_around ''f''), HStep (demo_around ''g''),
        HStep (demo_around ''h'')] = Some (v, Ask (CancelOrder ''ETHUSDT'' demo_orphan) k)"
    unfolding h m by blast
  from cancels_follow_their_event [OF disjI1 [OF refl] k] have "\<exists>e\<in>set (db_recon (wd_db v)). explains demo_orphan e" by simp
  with k show ?thesis by blast
qed

section \<open>One stop for two entries\<close>

text \<open>The drive of an entry looks for a resting protective order of the strategy and symbol, not of the
  entry: when one rests whose quantity reaches what this entry needs alone, it goes on to resolve the
  entry's obligations and asks the venue for nothing, whatever part of the position rests unprotected.
\<close>

theorem one_stop_counts_for_every_entry:
  assumes "findLiveProtective live (or_StrategyID entry) (or_Symbol entry) (protectiveType kind) = Some r" "or_Status r \<noteq> ''pending_new''"
    and "bookedQty L (wd_db w) (or_OrderID entry) = Ok filled"
    and "symbolFiltersFor (su_now e) (wd_oms w) (venue_of (wd_oms w) (or_Symbol entry)) = Ok sf"
    and "(floorToStep L (min filled \<bar>pos\<bar>) (sf_step sf) :: (live_error, _) outcome) = Ok target" and "live_parse L (or_QtyBase r) = Ok q" "target \<le> q"
  shows "run (hand_step L R) (w, driveKind L entry kind obls live pos) [HStep d, HStep e] = Some (w, satisfyObligations obls)"
  using assms
  by (simp add: driveKind_def look_calc_def stepping run_HStep calc_Ok Let_def del: run.simps(2) cong: later)


text \<open>Two filled entries of one unit each, a position of two, and one stop of one unit.\<close>

definition demo_entry :: "string \<Rightarrow> order_row" where
  "demo_entry i = demo_order_row\<lparr>or_OrderID := i, or_QtyBase := ''1'', or_Status := ''filled'', or_StopPrice := Some ''80'', or_ClientOrderID := Some i\<rparr>"

definition demo_stop :: order_row where
  "demo_stop = demo_order_row\<lparr>or_OrderID := ''s1'', or_Class := ''PROTECTIVE'', or_Side := ''sell'', or_Type := ''stop'', or_ReduceOnly := True,
     or_QtyBase := ''1'', or_LimitPrice := None, or_StopPrice := Some ''80'', or_Status := ''open'', or_ClientOrderID := Some ''s1''\<rparr>"

definition demo_two :: store_db where
  "demo_two = kill_demo\<lparr>db_orders := [demo_entry ''e1'', demo_entry ''e2'', demo_stop],
     db_fills := [(demo_fill_row ''f1'' 1)\<lparr>fr_OrderID := ''e1''\<rparr>, (demo_fill_row ''f2'' 2)\<lparr>fr_OrderID := ''e2''\<rparr>],
     db_positions := [\<lparr>pr_StrategyID = ''a'', pr_Symbol = ''ETH/USDT'', pr_QtyBase = ''2'', pr_EntryPrice = ''90'', pr_FeesQuote = ''0'',
       pr_RealizedPnLQuote = ''0'', pr_UpdatedAt = ''t0''\<rparr>]\<rparr>"

lemma demo_two_facts:
  "ListNonTerminalLiveOrders demo_two = [demo_stop]" "map or_OrderID (ListFilledProtectiveEntries demo_two) = [''e1'', ''e2'']"
  "positionQty rat_text_lib demo_two ''a'' ''ETH/USDT'' = Ok 2"
  "bookedQty rat_text_lib demo_two ''e2'' = Ok 1" "live_parse rat_text_lib ''1'' = Ok 1"
  "(floorToStep rat_text_lib (min 1 \<bar>2\<bar>) 1 :: (live_error, rat) outcome) = Ok 1"
  "findLiveProtective [demo_stop] ''a'' ''ETH/USDT'' ''stop'' = Some demo_stop" "or_Status demo_stop \<noteq> ''pending_new''"
  "or_QtyBase demo_stop = ''1''" "or_StrategyID (demo_entry i) = ''a''" "or_Symbol (demo_entry i) = ''ETH/USDT''"
  "or_OrderID (demo_entry i) = i" "protectiveType ''sl'' = ''stop''"
  by code_simp+

lemma demo_two_floor: "(floorToStep rat_text_lib (min 1 2) 1 :: (live_error, rat) outcome) = Ok 1" "(floorToStep rat_text_lib 1 1 :: (live_error, rat) outcome) = Ok 1"
  by code_simp+

lemma demo_filters:
  "symbolFiltersFor 0 demo_gate ''ETHUSDT'' = Ok \<lparr>sf_tick = 1, sf_step = 1, sf_minQty = 1, sf_maxQty = 0, sf_minNotional = 10\<rparr>"
  by code_simp

theorem one_stop_counts_for_every_entry_witness:
  "ListNonTerminalLiveOrders demo_two = [demo_stop] \<and> positionQty rat_text_lib demo_two ''a'' ''ETH/USDT'' = Ok 2 \<and>
   or_QtyBase demo_stop = ''1'' \<and>
   run (hand_step rat_text_lib drifts) (\<lparr>wd_oms = demo_gate, wd_db = demo_two\<rparr>,
      driveKind rat_text_lib (demo_entry ''e2'') ''sl'' [] (ListNonTerminalLiveOrders demo_two) 2)
     [HStep (demo_around ''a''), HStep (demo_around ''b'')]
   = Some (\<lparr>wd_oms = demo_gate, wd_db = demo_two\<rparr>, satisfyObligations [])"
proof -
  let ?w = "\<lparr>wd_oms = demo_gate, wd_db = demo_two\<rparr>" and ?e = "demo_around ''b''"
  have f: "symbolFiltersFor (su_now ?e) (wd_oms ?w) (venue_of (wd_oms ?w) (or_Symbol (demo_entry ''e2'')))
      = Ok \<lparr>sf_tick = 1, sf_step = 1, sf_minQty = 1, sf_maxQty = 0, sf_minNotional = 10\<rparr>"
    using demo_filters by (simp add: demo_two_facts demo_vo demo_around_def)
  have "run (hand_step rat_text_lib drifts) (?w, driveKind rat_text_lib (demo_entry ''e2'') ''sl'' [] [demo_stop] 2)
      [HStep (demo_around ''a''), HStep ?e] = Some (?w, satisfyObligations [])"
    by (rule one_stop_counts_for_every_entry [where r = demo_stop and filled = 1 and target = 1 and q = 1, OF _ _ _ f])
      (simp_all add: demo_two_facts demo_two_floor)
  then show ?thesis by (simp only: demo_two_facts simp_thms)
qed

end
