(* ===== verification/LiveServed.thy ===== *)
theory LiveServed
  imports LiveReconcile
begin

text \<open>
  When the effects of a kill or breaker row are marked as served (\<open>internal/oms/live/safetydrive.go\<close>,
  the end of a run in \<open>reconcile.go\<close>): only for a row that the end of a reconcile lies strictly after,
  and this end is the clock at the step that sets it, after the run's own completion is journaled.
\<close>

section \<open>Steps that serve nothing\<close>

text \<open>The markers stay, events are only appended, and the end of the last reconcile stays.\<close>

definition unserving :: "store_db \<Rightarrow> store_db \<Rightarrow> bool" where
  "unserving db d \<longleftrightarrow> db_effects d = db_effects db \<and> logged db d"

definition quiet :: "'d world \<Rightarrow> 'd world \<Rightarrow> bool" where
  "quiet w v \<longleftrightarrow> unserving (wd_db w) (wd_db v) \<and> lo_lastReconcileEnd (wd_oms v) = lo_lastReconcileEnd (wd_oms w)"

lemma unserving_refl [simp]: "unserving db db"
  by (simp add: unserving_def)

lemma unserving_trans: "unserving a b \<Longrightarrow> unserving b c \<Longrightarrow> unserving a c"
  by (auto simp: unserving_def intro: logged_trans)

lemma unserving_same: "db_effects d = db_effects db \<Longrightarrow> db_recon d = db_recon db \<Longrightarrow> unserving db d"
  by (simp add: unserving_def logged_same)

lemma update_order_unserving: "update_order i f db = Ok d \<Longrightarrow> unserving db d"
  by (auto simp: update_order_def intro!: unserving_same split: if_splits option.splits)

lemma status_unserving: "RecordOrderStatus i st db = Ok (d, x) \<Longrightarrow> unserving db d"
  by (auto simp: RecordOrderStatus_def bind_outcome_eq_Ok update_order_unserving split: if_splits option.splits)

lemma recon_unserving: "AppendOMSReconEvent ev db = Ok d \<Longrightarrow> unserving db d"
  by (auto simp: AppendOMSReconEvent_def unserving_def logged_def split: if_splits)

lemma alert_unserving: "AppendSafetyAlert a db = Ok d \<Longrightarrow> unserving db d"
  by (auto simp: AppendSafetyAlert_def intro!: unserving_same split: if_splits)

lemma obligation_unserving: "InsertProtectiveObligation b db = Ok d \<Longrightarrow> unserving db d"
  by (auto simp: InsertProtectiveObligation_def intro!: unserving_same split: if_splits)

lemma obligations_unserving: "fold_ok (\<lambda>d r. InsertProtectiveObligation r d) bs db = Ok d \<Longrightarrow> unserving db d"
  by (rule fold_ok_inv [where P = "unserving db"]) (auto intro: unserving_trans obligation_unserving)

lemma persist_unserving: "persistBook L alloc s sy b delta now db = Ok d \<Longrightarrow> unserving db d"
  by (auto simp: persistBook_def bind_outcome_eq_Ok UpsertPosition_def UpsertStrategyState_def Let_def intro!: unserving_same
      split: if_splits option.splits)

lemma fee_unserving: "InsertPendingFillFee p db = Ok d \<Longrightarrow> unserving db d"
  by (auto simp: InsertPendingFillFee_def intro!: unserving_same split: if_splits)

lemma accounting_unserving: "fill_accounting L e m f conv qty price db = Ok d \<Longrightarrow> unserving db d"
  by (auto simp: fill_accounting_def bind_outcome_eq_Ok dest!: persist_unserving obligations_unserving fee_unserving
      intro: unserving_trans split: if_splits)

lemma fill_unserving:
  assumes "fill_tx L e m f conv qty price status db = Ok (d, r)" shows "unserving db d"
proof -
  let ?row = "venue_fill_row L e m f conv"
  obtain new where "RecordVenueFill L ?row status (fill_accounting L e m f conv qty price) db = Ok (d, new)"
    using assms by (auto simp: fill_tx_def bind_outcome_eq_Ok)
  then show ?thesis
  proof (cases new)
    case True
    with \<open>RecordVenueFill _ _ _ _ _ = _\<close> have "RecordVenueFill L ?row status (fill_accounting L e m f conv qty price) db = Ok (d, True)" by simp
    from RecordVenueFill_new [OF this] obtain v d2 d3 x
      where u: "update_order (fr_OrderID ?row) (\<lambda>r. r\<lparr>or_FillPrice := Some v, or_FilledAt := Some (fr_FillTS ?row)\<rparr>)
          (db\<lparr>db_fills := db_fills db @ [?row]\<rparr>) = Ok d2"
        and s: "RecordOrderStatus (fr_OrderID ?row) status d2 = Ok (d3, x)"
        and a: "fill_accounting L e m f conv qty price d3 = Ok d" by blast
    have "unserving db (db\<lparr>db_fills := db_fills db @ [?row]\<rparr>)" by (simp add: unserving_same)
    then show ?thesis
      using update_order_unserving [OF u] status_unserving [OF s] accounting_unserving [OF a] by (blast intro: unserving_trans)
  next
    case False
    then have "d = db" using RecordVenueFill_replay [of L ?row status _ db d] \<open>RecordVenueFill _ _ _ _ _ = _\<close> by simp
    then show ?thesis by simp
  qed
qed

lemma convert_unserving:
  assumes "convert_tx L alloc i s sy fee now db = Ok d" shows "unserving db d"
proof -
  obtain d1 b where "RecordFeeConverted i (format_seconds now) db = Ok d1" "persistBook L alloc s sy b (- fee) now d1 = Ok d"
    using assms by (auto simp: convert_tx_def bind_outcome_eq_Ok)
  moreover have "unserving db d1" using calculation(1)
    by (auto simp: RecordFeeConverted_def bind_outcome_eq_Ok intro!: unserving_same split: if_splits option.splits)
  ultimately show ?thesis by (blast intro: unserving_trans persist_unserving)
qed

lemma small_unserving:
  "RecordExchangeAck i x db = Ok d \<Longrightarrow> unserving db d"
  "RecordIntentClaimRevoked c ts db = Ok d \<Longrightarrow> unserving db d"
  "RecordProtectiveSatisfied b ts db = Ok d \<Longrightarrow> unserving db d"
  by (auto simp: RecordExchangeAck_def RecordIntentClaimRevoked_def RecordProtectiveSatisfied_def update_order_unserving bind_outcome_eq_Ok
      intro!: unserving_same split: if_splits option.splits)

lemma with_alert_unserving: "AppendOMSReconEventWithAlert ev a db = Ok d \<Longrightarrow> unserving db d"
  by (auto simp: AppendOMSReconEventWithAlert_def bind_outcome_eq_Ok intro: unserving_trans recon_unserving alert_unserving)

lemmas unserving_ops = status_unserving recon_unserving obligation_unserving fill_unserving convert_unserving small_unserving
  with_alert_unserving

lemma lift_store_Ok: "lift_store r = Ok x \<longleftrightarrow> r = Ok x"
  by (cases r) (simp_all add: lift_store_def)

interpretation quiets: step_policy "\<lambda>_. True" quiet
  by unfold_locales (simp add: quiet_def)

abbreviation tame :: "('d, 'r) prog \<Rightarrow> bool" where
  "tame \<equiv> made_of (\<lambda>_. True) quiet"

lemma quiet_db: "unserving (wd_db w) d \<Longrightarrow> quiet w (w\<lparr>wd_db := d\<rparr>)"
  by (simp add: quiet_def)

lemma quiet_mu: "lo_lastReconcileEnd m = lo_lastReconcileEnd (wd_oms w) \<Longrightarrow> quiet w (w\<lparr>wd_oms := m\<rparr>)"
  by (simp add: quiet_def)

lemma tame_parts [made_intros]:
  "tame (set_status i st)" "tame (revoke_claim c)" "tame (log_event ev)"
  unfolding set_status_def revoke_claim_def log_event_def
  by (intro made_intros TrueI quiet_db; auto simp: lift_store_Ok intro: unserving_ops split: outcome.splits if_splits)+

lemma tame_steps [made_intros]:
  "tame (advanceStatus ord st i)" "tame (adoptAck it eid st i)" "tame (resolveAbsent o' s sy c why i)"
  "tame (resolve_intent rr it)" "tame (resolveIntents rr)" "tame (flagVenueReset i ord')"
  "tame (absent_order rr ord c v)" "tame (absenceCheck rr)" "tame (appendDuplicateExposure t c i)"
  unfolding absenceCheck_def absent_order_def flagVenueReset_def resolveIntents_def resolve_intent_def resolveAbsent_def adoptAck_def
    advanceStatus_def appendDuplicateExposure_def Let_def
  by (intro made_intros TrueI quiet_db quiet_mu; auto simp: bind_outcome_eq_Ok intro: unserving_trans unserving_ops)+

lemma tame_fills [made_intros]:
  "tame (cancel_resting v r)" "tame (cancelRestingProtectives s sy x)" "tame (appendFillEvents f conv i)" "tame (bookVenueFill L f i)"
  unfolding bookVenueFill_def appendFillEvents_def cancelRestingProtectives_def cancel_resting_def
  by (intro made_intros TrueI quiet_db; auto simp: lift_store_Ok intro: unserving_ops)+

lemma tame_protect [made_intros]:
  "tame (satisfyObligations bs)" "tame (handleDeadline entry kind bs x)" "tame (placeProtective L entry kind qty sf)"
  "tame (resizeProtective L entry r target)"
  "tame (driveKind L entry kind bs live pos)" "tame (driveEntry L bs live entry)" "tame (driveProtectives L)"
  unfolding driveProtectives_def driveEntry_def driveKind_def placeProtective_def handleDeadline_def satisfyObligations_def
    resizeProtective_def Let_def
  by (intro made_intros TrueI quiet_db; auto simp: lift_store_Ok bind_outcome_eq_Ok split: pc.splits option.splits
      intro!: made_intros intro: unserving_ops quiet_db)+

lemma tame_pages [made_intros]:
  "tame (backfillTrade L canonical v rr t)" "tame (backfillPages n L canonical v lo start rr)" "tame (backfillSymbol n L rr canonical)"
proof -
  have t: "tame (backfillTrade L canonical v rr t)" for v rr t
    unfolding backfillTrade_def Let_def by (intro made_intros TrueI)
  have p: "tame (backfillPages n L canonical v lo start rr)" for v lo start rr
    by (induction n arbitrary: lo start rr) (auto intro!: made_intros t split: if_splits venue_reply.splits)
  show "tame (backfillTrade L canonical v rr t)" "tame (backfillPages n L canonical v lo start rr)" by (rule t p)+
  show "tame (backfillSymbol n L rr canonical)" unfolding backfillSymbol_def by (intro made_intros TrueI p)
qed

lemma tame_run [made_intros]:
  "tame (cancelVenueOrphan canonical vo reason s rr)"
  "tame (classifyVenueOpen canonical rr vo)" "tame (sweepOpenOrders rr)" "tame (convert_fee L rr pf)"
  "tame (retryFeeConversions L rr)" "tame (audit_order L rr cv)" "tame (cumQtyAudit L rr)" "tame (balanceSanity L rr)"
  "tame (refreshFilters L b)" "tame (runSteps n L rr b)" "tame (noteStartupFailure i)"
  unfolding runSteps_def noteStartupFailure_def refreshFilters_def balanceSanity_def cumQtyAudit_def audit_order_def
    retryFeeConversions_def convert_fee_def sweepOpenOrders_def classifyVenueOpen_def cancelVenueOrphan_def Let_def
  by (intro made_intros TrueI quiet_db quiet_mu; auto simp: lift_store_Ok bind_outcome_eq_Ok intro: unserving_ops)+

section \<open>What others keep\<close>

text \<open>While the driver works others may do anything within the pipeline and the journal; the kill ledger
  only grows, and the end of the last reconcile, once there is one, is not taken back.\<close>

definition forward :: "'d world \<Rightarrow> 'd world \<Rightarrow> bool" where
  "forward w v \<longleftrightarrow> drifts w v \<and> set (db_kills (wd_db w)) \<subseteq> set (db_kills (wd_db v)) \<and>
     (lo_lastReconcileEnd (wd_oms w) \<noteq> 0 \<longrightarrow> lo_lastReconcileEnd (wd_oms v) \<noteq> 0 \<and>
        format_seconds (lo_lastReconcileEnd (wd_oms w)) \<le> format_seconds (lo_lastReconcileEnd (wd_oms v)))"

lemma forward_refl [simp]: "forward w w"
  by (simp add: forward_def)

lemma forward_trans: "forward u v \<Longrightarrow> forward v w \<Longrightarrow> forward u w"
  unfolding forward_def by (auto intro: drifts_trans order_trans)

lemma thread_forward:
  assumes "proc_step L (wd_oms w) e (wd_db w) t = Some f" shows "forward w (thread_world f w)"
proof -
  have "drifts w (thread_world f w)" using tolerates_drifts [of L] assms by (auto simp: tolerates_def)
  moreover have "db_kills (ef_db f) = db_kills (wd_db w)"
    using by_ops_kills [OF proc_by_ops [OF assms]] by (simp add: same_kills_def)
  ultimately show ?thesis by (simp add: forward_def thread_world_def)
qed

lemma tolerates_forward: "tolerates L forward"
  unfolding tolerates_def using thread_forward forward_trans by (metis forward_refl)

section \<open>What a step may mark\<close>

text \<open>A row marked as served by a step is in the kill ledger, and the end of the last reconcile, as the
  order manager has it, lies strictly after it.\<close>

definition served_rightly :: "'d world \<Rightarrow> 'd world \<Rightarrow> bool" where
  "served_rightly w v \<longleftrightarrow> (\<forall>i. SafetyEffectServed (wd_db v) i \<longrightarrow> \<not> SafetyEffectServed (wd_db w) i \<longrightarrow>
     (\<exists>ev\<in>set (db_kills (wd_db w)). ke_EventID ev = i \<and> lo_lastReconcileEnd (wd_oms w) \<noteq> 0
        \<and> ke_RecordedAt ev < format_seconds (lo_lastReconcileEnd (wd_oms w))))"

text \<open>A step that moves the end of the last reconcile sets it to the clock, after a completion was
  journaled that was not there at the beginning.\<close>

definition ended_rightly :: "recon_row set \<Rightarrow> 'd surround \<Rightarrow> 'd world \<Rightarrow> 'd world \<Rightarrow> bool" where
  "ended_rightly old e w v \<longleftrightarrow> lo_lastReconcileEnd (wd_oms v) = lo_lastReconcileEnd (wd_oms w) \<or>
     lo_lastReconcileEnd (wd_oms v) = su_now e \<and> (\<exists>ev\<in>set (db_recon (wd_db w)). ev \<notin> old \<and> re_Kind ev = ''run_completed'')"

definition rightly :: "recon_row set \<Rightarrow> 'd surround \<Rightarrow> 'd world \<Rightarrow> 'd world \<Rightarrow> bool" where
  "rightly old e w v \<longleftrightarrow> served_rightly w v \<and> ended_rightly old e w v"

abbreviation safely :: "recon_row set \<Rightarrow> ('d, 'r) prog \<Rightarrow> 'd world \<Rightarrow> bool" where
  "safely old \<equiv> assures forward (rightly old) (\<lambda>_ _. True) (\<lambda>_ _. True)"

lemma rightly_refl [simp]: "rightly old e w w"
  by (simp add: rightly_def served_rightly_def ended_rightly_def)

lemma quiet_rightly: "quiet w v \<Longrightarrow> rightly old e w v"
  by (simp add: quiet_def unserving_def rightly_def served_rightly_def ended_rightly_def SafetyEffectServed_def)

text \<open>Steps of a known kind keep what they and the others keep.\<close>

lemma made_assures:
  assumes "made_of T N p" and "I w" and "\<And>e w v. I w \<Longrightarrow> N w v \<Longrightarrow> G e w v \<and> I v" and "\<And>w v. I w \<Longrightarrow> R w v \<Longrightarrow> I v"
    and "\<And>r v. I v \<Longrightarrow> P r v"
  shows "assures R G (\<lambda>_ _. True) P p w"
  using assms(1,2)
proof (induction p arbitrary: w rule: prog_induct)
  case (Act f p)
  have g: "G e w (f e w) \<and> I (f e w)" for e using assms(3) [OF Act.prems(2), of "f e w" e] Act.prems(1) by simp
  have "assures R G (\<lambda>_ _. True) P (p e w) v" if "R (f e w) v" for e v
    using Act.IH [of e w v] Act.prems(1) assms(4) [of "f e w" v] g that by simp
  with g show ?case by simp
qed (use assms(4,5) in auto)

text \<open>Before the driver: the old events stay.\<close>

definition since :: "recon_row set \<Rightarrow> 'd world \<Rightarrow> bool" where
  "since old w \<longleftrightarrow> old \<subseteq> set (db_recon (wd_db w))"

definition completed :: "recon_row set \<Rightarrow> 'd world \<Rightarrow> bool" where
  "completed old w \<longleftrightarrow> since old w \<and> (\<exists>ev\<in>set (db_recon (wd_db w)). ev \<notin> old \<and> re_Kind ev = ''run_completed'')"

lemma since_keeps: "since old w \<Longrightarrow> quiet w v \<Longrightarrow> since old v" "since old w \<Longrightarrow> forward w v \<Longrightarrow> since old v"
  by (auto simp: since_def quiet_def unserving_def forward_def drifts_def dest: logged_in)

lemma completed_keeps: "completed old w \<Longrightarrow> forward w v \<Longrightarrow> completed old v"
  unfolding completed_def using since_keeps(2) [of old w v]
  by (auto simp: forward_def drifts_def dest: logged_in)

lemma safely_tame: "tame p \<Longrightarrow> safely old p w"
  by (rule made_assures [where I = "\<lambda>_. True" and N = quiet]) (simp_all add: quiet_rightly)

lemma safely_bind_tame:
  assumes "tame p" and "since old w" and "\<And>r v. since old v \<Longrightarrow> safely old (k r) v" shows "safely old (hbind p k) w"
  unfolding assures_bind
  by (rule made_assures [OF assms(1), where I = "since old"]) (use assms(2,3) in \<open>auto intro: since_keeps quiet_rightly\<close>)

lemma safely_then_tame:
  assumes "tame p" and "since old w" and "\<And>a v. since old v \<Longrightarrow> safely old (k a) v" shows "safely old (andthen p k) w"
  unfolding andthen_def by (rule safely_bind_tame [OF assms(1,2)]) (use assms(3) in \<open>auto simp: fail_def split: sum.splits\<close>)

lemma safely_look:
  assumes "\<And>e v. forward w v \<Longrightarrow> safely old (k (f e w)) v" shows "safely old (andthen (look f) k) w"
  unfolding assures_andthen by (rule assures_look) (simp_all add: assms)

section \<open>The driver\<close>

text \<open>A step of the driver of one row marks this row or none, and then only when the time it was given
  lies strictly after the row.\<close>

definition marks :: "kill_row \<Rightarrow> string option \<Rightarrow> 'd world \<Rightarrow> 'd world \<Rightarrow> bool" where
  "marks ev at' w v \<longleftrightarrow> wd_oms v = wd_oms w \<and> db_kills (wd_db v) = db_kills (wd_db w) \<and> db_recon (wd_db v) = db_recon (wd_db w) \<and>
     (\<forall>i. SafetyEffectServed (wd_db v) i \<longrightarrow> SafetyEffectServed (wd_db w) i \<or>
       i = ke_EventID ev \<and> (\<exists>t. at' = Some t \<and> ke_RecordedAt ev < t))"

interpretation markers: step_policy "\<lambda>_. True" "marks ev at'" for ev :: kill_row and at' :: "string option"
  by unfold_locales (simp add: marks_def)

lemma marks_same:
  "db_effects d = db_effects (wd_db w) \<Longrightarrow> db_kills d = db_kills (wd_db w) \<Longrightarrow> db_recon d = db_recon (wd_db w) \<Longrightarrow>
     marks ev at' w (w\<lparr>wd_db := d\<rparr>)"
  by (simp add: marks_def SafetyEffectServed_def)

lemma marks_alert: "AppendSafetyAlert a (wd_db w) = Ok d \<Longrightarrow> marks ev at' w (w\<lparr>wd_db := d\<rparr>)"
  by (auto simp: AppendSafetyAlert_def intro: marks_same split: if_splits)

lemma marks_lock: "AppendKillLifecycleLock u s i who ts (wd_db w) = Ok (d, b) \<Longrightarrow> marks ev at' w (w\<lparr>wd_db := d\<rparr>)"
  by (rule marks_same)
    (auto simp: AppendKillLifecycleLock_def AppendLifecycleTransition_def set_lifecycle_def bind_outcome_eq_Ok Let_def split: if_splits option.splits outcome.splits)

lemma marks_done:
  "AppendSafetyEffectDone (ke_EventID ev) ts (wd_db w) = Ok d \<Longrightarrow> ke_RecordedAt ev < t \<Longrightarrow> marks ev (Some t) w (w\<lparr>wd_db := d\<rparr>)"
  by (auto simp: AppendSafetyEffectDone_def marks_def SafetyEffectServed_def split: if_splits)

abbreviation careful :: "kill_row \<Rightarrow> string option \<Rightarrow> ('d, 'r) prog \<Rightarrow> bool" where
  "careful ev at' \<equiv> made_of (\<lambda>_. True) (marks ev at')"

lemma careful_residue [made_intros]: "careful ev at' (appendResidueAbandoned ev' s sy cause qty)"
  unfolding appendResidueAbandoned_def Let_def by (intro made_intros marks_alert)

lemma careful_flatten [made_intros]:
  "careful ev at' (flattenForSafety ev' s sy qty origin live)" "careful ev at' (count_entries ev' s live)"
  "careful ev at' (flatten_positions L ev' s live ps n)"
  unfolding flatten_positions_def count_entries_def flattenForSafety_def Let_def
  by (intro made_intros TrueI; auto split: flatten_outcome.splits option.splits intro!: made_intros)+

lemma careful_strategy [made_intros]: "careful ev at' (driveSafetyStrategy L ev' s b)"
  unfolding driveSafetyStrategy_def or_residual_def by (intro made_intros TrueI; auto simp: lift_store_Ok intro: marks_lock)

lemma careful_mark:
  "careful ev at' (case at' of None \<Rightarrow> ok () | Some t \<Rightarrow>
     if t \<le> ke_RecordedAt ev then ok () else swallow (stmt (\<lambda>e db. AppendSafetyEffectDone (ke_EventID ev) (format_seconds (su_now e)) db)))"
  by (auto simp: not_le split: option.splits intro!: made_intros marks_done)

lemma careful_event: "careful ev at' (driveSafetyEvent L ev at')"
  unfolding driveSafetyEvent_def or_residual_def Let_def
  by (intro careful_mark made_intros TrueI)

text \<open>The times the driver works with: the rows are in the ledger, the time is not after the last end.\<close>

definition timed :: "kill_row list \<Rightarrow> string option \<Rightarrow> 'd world \<Rightarrow> bool" where
  "timed evs at' w \<longleftrightarrow> set evs \<subseteq> set (db_kills (wd_db w)) \<and>
     (\<forall>t. at' = Some t \<longrightarrow> lo_lastReconcileEnd (wd_oms w) \<noteq> 0 \<and> t \<le> format_seconds (lo_lastReconcileEnd (wd_oms w)))"

lemma timed_forward: "timed evs at' w \<Longrightarrow> forward w v \<Longrightarrow> timed evs at' v"
  unfolding timed_def forward_def by (blast intro: order_trans)

lemma timed_marks:
  assumes t: "timed evs at' w" and ev: "ev \<in> set evs" and m: "marks ev at' w v" shows "rightly old e w v \<and> timed evs at' v"
proof
  have "\<exists>x\<in>set (db_kills (wd_db w)). ke_EventID x = i \<and> lo_lastReconcileEnd (wd_oms w) \<noteq> 0
        \<and> ke_RecordedAt x < format_seconds (lo_lastReconcileEnd (wd_oms w))"
    if new: "SafetyEffectServed (wd_db v) i" "\<not> SafetyEffectServed (wd_db w) i" for i
  proof -
    obtain u where u: "at' = Some u" "i = ke_EventID ev" "ke_RecordedAt ev < u" using m new by (auto simp: marks_def)
    then have "lo_lastReconcileEnd (wd_oms w) \<noteq> 0" "u \<le> format_seconds (lo_lastReconcileEnd (wd_oms w))" "ev \<in> set (db_kills (wd_db w))"
      using t ev by (auto simp: timed_def)
    then show ?thesis using u less_le_trans [OF u(3)] by blast
  qed
  with m show "rightly old e w v" by (simp add: rightly_def served_rightly_def ended_rightly_def marks_def)
  show "timed evs at' v" using t m by (simp add: timed_def marks_def)
qed

lemma drive_event_safely:
  assumes "timed evs at' w" and "ev \<in> set evs"
  shows "assures forward (rightly old) (\<lambda>_ _. True) (\<lambda>_ v. timed evs at' v) (driveSafetyEvent L ev at') w"
  by (rule made_assures [OF careful_event, where I = "timed evs at'"])
    (use assms timed_marks timed_forward in blast)+

lemma drive_safely: "safely old (DriveSafetyEffects L) w"
proof -
  have each: "safely old (each evs (\<lambda>_ ev. driveSafetyEvent L ev at') ()) u" if "timed evs at' u" for evs at' u
  proof (rule assures_each [where I = "\<lambda>_. timed evs at'"])
    fix x s and w :: "'a world"
    assume "x \<in> set evs" "timed evs at' w"
    then show "assures forward (rightly old) (\<lambda>_ _. True) (\<lambda>r w. case r of Inl e \<Rightarrow> True | Inr s \<Rightarrow> timed evs at' w)
        (driveSafetyEvent L x at') w"
      by (intro assures_mono [OF drive_event_safely [of evs at' w x]]) (auto split: sum.splits)
  qed (use that in auto)
  have timed: "timed (ListUnservedSafetyEvents (wd_db a)) (if lo_lastReconcileEnd (wd_oms b) = 0 then None
      else Some (format_seconds (lo_lastReconcileEnd (wd_oms b)))) c" if "forward a b" "forward b c" for a b c :: "'a world"
  proof (rule timed_forward [OF _ that(2)])
    show "timed (ListUnservedSafetyEvents (wd_db a)) (if lo_lastReconcileEnd (wd_oms b) = 0 then None
      else Some (format_seconds (lo_lastReconcileEnd (wd_oms b)))) b"
      using that(1) by (auto simp: timed_def forward_def ListUnservedSafetyEvents_def)
  qed
  show ?thesis
    unfolding DriveSafetyEffects_def
  proof (rule safely_look)
    fix v :: "'a world"
    show "safely old (if \<not> Reconciled (wd_oms w) then ok ()
       else andthen (look (\<lambda>_ w. ListUnservedSafetyEvents (wd_db w))) (\<lambda>events.
            andthen (look (\<lambda>_ w. if lo_lastReconcileEnd (wd_oms w) = 0 then None else Some (format_seconds (lo_lastReconcileEnd (wd_oms w))))) (\<lambda>at'.
              each events (\<lambda>_ ev. driveSafetyEvent L ev at') ()))) v"
      by (cases "Reconciled (wd_oms w)") (auto intro!: safely_look each timed)
  qed
qed

section \<open>A run of the reconciler\<close>

lemma safely_completed:
  assumes "re_Kind (f undefined) = ''run_completed''" and "\<And>e. re_Kind (f e) = re_Kind (f undefined)" and "since old w"
    and "\<And>v. completed old v \<Longrightarrow> safely old (k ()) v"
  shows "safely old (andthen (log_event f) k) w"
  unfolding assures_andthen log_event_def
proof (rule assures_stmt)
  fix e d
  assume a: "AppendOMSReconEvent (f e) (wd_db w) = Ok d"
  then have new: "f e \<notin> set (db_recon (wd_db w))" "d = (wd_db w)\<lparr>db_recon := db_recon (wd_db w) @ [f e]\<rparr>"
    by (auto simp: AppendOMSReconEvent_def row_get_None_iff split: if_splits)
  have c: "completed old (w\<lparr>wd_db := d\<rparr>)" using new assms(1-3) by (auto simp: completed_def since_def)
  have "safely old (k ()) v" if "forward (w\<lparr>wd_db := d\<rparr>) v" for v
    by (rule assms(4) [OF completed_keeps [OF c that]])
  then show "rightly old e w (w\<lparr>wd_db := d\<rparr>) \<and> (\<forall>v. forward (w\<lparr>wd_db := d\<rparr>) v \<longrightarrow>
      (case Inr () of Inl x \<Rightarrow> (\<lambda>_. True) | Inr a \<Rightarrow> safely old (k a)) v)"
    using quiet_rightly [OF quiet_db [OF recon_unserving [OF a]]] by simp
qed simp_all

text \<open>The section that ends a run.\<close>

lemma safely_end:
  assumes "completed old w" and "\<And>v. completed old v \<Longrightarrow> safely old (k ()) v"
  shows "safely old (andthen (under_mu (\<lambda>e m. let m = m\<lparr>lo_reconFails := 0\<rparr>
      in if lo_resetPending m then m else m\<lparr>lo_reconciled := True, lo_lastReconcileEnd := su_now e\<rparr>)) k) w"
  unfolding assures_andthen
proof (rule assures_mu)
  let ?f = "\<lambda>e m. let m = m\<lparr>lo_reconFails := 0\<rparr> in if lo_resetPending m then m else m\<lparr>lo_reconciled := True, lo_lastReconcileEnd := su_now e\<rparr>"
  fix e :: "'a surround" and v :: "'a world"
  show "rightly old e w (w\<lparr>wd_oms := ?f e (wd_oms w)\<rparr>)"
    using assms(1) by (simp add: rightly_def served_rightly_def ended_rightly_def completed_def Let_def)
  have "completed old (w\<lparr>wd_oms := ?f e (wd_oms w)\<rparr>)" using assms(1) by (simp add: completed_def since_def)
  moreover assume "forward (w\<lparr>wd_oms := ?f e (wd_oms w)\<rparr>) v"
  ultimately have "safely old (k ()) v" by (rule assms(2) [OF completed_keeps])
  then show "(case Inr () of Inl x \<Rightarrow> (\<lambda>_. True) | Inr a \<Rightarrow> safely old (k a)) v" by simp
qed

lemma safely_swallow: "safely old p w \<Longrightarrow> (\<And>a v. safely old (k a) v) \<Longrightarrow> safely old (andthen (swallow p) k) w"
  unfolding andthen_def swallow_def hbind_assoc hbind_ok
  by (subst assures_bind) (auto elim: assures_mono)

lemma reconcile_safely:
  assumes start: "since old w" shows "safely old (reconcile n L) w"
proof -
  have tail: "safely old (andthen (look (\<lambda>_ w. Reconciled (wd_oms w))) (\<lambda>open'.
      if \<not> open' then ok () else andthen (swallow (DriveSafetyEffects L)) (\<lambda>_. swallow (driveProtectives L)))) v" for v :: "'a world"
  proof (rule safely_look)
    fix u :: "'a world"
    have "safely old (andthen (swallow (DriveSafetyEffects L)) (\<lambda>_. swallow (driveProtectives L))) u"
      by (rule safely_swallow [OF drive_safely safely_tame]) (intro made_intros)
    then show "safely old (if \<not> Reconciled (wd_oms v) then ok ()
        else andthen (swallow (DriveSafetyEffects L)) (\<lambda>_. swallow (driveProtectives L))) u" by simp
  qed
  have kinds: "re_Kind ((event (e :: 'a surround) ''run_completed'' ds)\<lparr>re_RunID := i\<rparr>) = ''run_completed''" for e ds i
    by (simp add: event_def event_row_def)
  show ?thesis
    unfolding reconcile_def
  proof (rule safely_then_tame [OF _ start], goal_cases)
    case (2 a v)
    then show ?case
    proof (cases a, simp only: prod.case, intro safely_then_tame safely_bind_tame, goal_cases)
      case (5 rr startup b u r x)
      then show ?case
        by (cases r) (simp_all only: sum.case, (intro safely_tame made_intros; fail),
          intro safely_completed [OF kinds kinds [THEN trans, OF kinds [symmetric]]] safely_end tail)
    qed (assumption | (intro made_intros; fail))+
  qed (intro made_intros)
qed

section \<open>Served only after a reconcile\<close>

text \<open>C13: The effects of a kill or breaker row are marked as served, so that they are never executed again,
  only once a reconcile ended after the row was recorded: whatever runs between the steps of the driver,
  called on its own or at the end of a run of the reconciler, a step of it that marks a row finds the row
  in the kill ledger and the end of the last reconcile, as the order manager has it at that step, strictly
  after the time of the row. And the reconciler moves that end only to the clock at the step that does so,
  never to the start of the run, and only when the completion of a run was journaled since its start. The
  others (\<open>forward\<close>) keep the rows of the kill ledger and do not take the end of the last reconcile back.\<close>

theorem served_only_after_reconcile:
  assumes p: "p = reconcile n L \<or> p = DriveSafetyEffects L"
    and r: "run (hand_step L forward) (w, p) xs = Some (v, Act f q)"
  shows "(\<forall>i. SafetyEffectServed (wd_db (f e v)) i \<longrightarrow> \<not> SafetyEffectServed (wd_db v) i \<longrightarrow>
       (\<exists>ev\<in>set (db_kills (wd_db v)). ke_EventID ev = i \<and> lo_lastReconcileEnd (wd_oms v) \<noteq> 0
          \<and> ke_RecordedAt ev < format_seconds (lo_lastReconcileEnd (wd_oms v))))
     \<and> (lo_lastReconcileEnd (wd_oms (f e v)) \<noteq> lo_lastReconcileEnd (wd_oms v) \<longrightarrow>
       lo_lastReconcileEnd (wd_oms (f e v)) = su_now e
         \<and> (\<exists>ev\<in>set (db_recon (wd_db v)). ev \<notin> set (db_recon (wd_db w)) \<and> re_Kind ev = ''run_completed''))"
proof -
  let ?old = "set (db_recon (wd_db w))"
  have "safely ?old p u" if "forward w u" for u
    using p reconcile_safely [OF since_keeps(2) [OF _ that]] drive_safely by (auto simp: since_def)
  then have "guaranteed forward (rightly ?old) (\<lambda>_ _. True) (\<lambda>_ _. True) (w, p)" by (simp add: guaranteed_def)
  from guaranteed_here [OF tolerates_forward hand_run_guaranteed [OF tolerates_forward this r]]
  have "rightly ?old e v (f e v)" by simp
  then show ?thesis by (auto simp: rightly_def served_rightly_def ended_rightly_def)
qed

text \<open>A row of a tenant that has no strategies: nothing is left to do, and the driver comes to the mark.\<close>

lemma drive_steps:
  assumes "Reconciled (wd_oms w)" "ListUnservedSafetyEvents (wd_db w) = [ev]" "lo_lastReconcileEnd (wd_oms w) \<noteq> 0"
    and "\<not> SafetyEffectServed (wd_db w) (ke_EventID ev)" "affectedStrategies (wd_db w) ev = []" "ke_TenantID ev = Some t"
    and "\<not> format_seconds (lo_lastReconcileEnd (wd_oms w)) \<le> ke_RecordedAt ev"
    and "row_get ke_EventID (db_kills (wd_db w)) (ke_EventID ev) \<noteq> None"
  shows "\<exists>f q. run (hand_step L R) (w, DriveSafetyEffects L) [HStep a, HStep b, HStep c, HStep g, HStep h] = Some (w, Act f q)
    \<and> (\<forall>e. wd_db (f e w) = (wd_db w)\<lparr>db_effects := db_effects (wd_db w) @ [(ke_EventID ev, format_seconds (su_now e))]\<rparr>)"
  using assms
  by (simp add: DriveSafetyEffects_def driveSafetyEvent_def swallow_def stepping run_HStep calc_Ok Let_def AppendSafetyEffectDone_def
      del: run.simps(2) cong: later)

definition tenant_row :: kill_row where
  "tenant_row = \<lparr>ke_EventID = ''k9'', ke_Kind = ''kill'', ke_Scope = ''tenant'', ke_StrategyID = None, ke_TenantID = Some ''u'',
     ke_KillEpoch = Some 1, ke_Flatten = Some False, ke_TriggerRef = None, ke_ActorID = ''admin'', ke_RecordedAt = ''1970-01-01T00:00:00Z''\<rparr>"

definition served_world :: "rat world" where
  "served_world = \<lparr>wd_oms = demo_gate\<lparr>lo_lastReconcileEnd := 86400 * second\<rparr>, wd_db = kill_demo\<lparr>db_kills := [tenant_row]\<rparr>\<rparr>"

lemma served_facts:
  "Reconciled (wd_oms served_world)" "ListUnservedSafetyEvents (wd_db served_world) = [tenant_row]"
  "lo_lastReconcileEnd (wd_oms served_world) \<noteq> 0" "\<not> SafetyEffectServed (wd_db served_world) (ke_EventID tenant_row)"
  "affectedStrategies (wd_db served_world) tenant_row = []" "ke_TenantID tenant_row = Some ''u''"
  "\<not> format_seconds (lo_lastReconcileEnd (wd_oms served_world)) \<le> ke_RecordedAt tenant_row"
  "row_get ke_EventID (db_kills (wd_db served_world)) (ke_EventID tenant_row) \<noteq> None"
  by code_simp+

theorem served_only_after_reconcile_witness:
  "\<exists>f q. run (hand_step rat_text_lib forward) (served_world, DriveSafetyEffects rat_text_lib)
       [HStep (demo_around ''a''), HStep (demo_around ''b''), HStep (demo_around ''c''), HStep (demo_around ''d''), HStep (demo_around ''e'')]
       = Some (served_world, Act f q)
     \<and> SafetyEffectServed (wd_db (f (demo_around ''f'') served_world)) ''k9'' \<and> \<not> SafetyEffectServed (wd_db served_world) ''k9''
     \<and> (\<exists>ev\<in>set (db_kills (wd_db served_world)). ke_EventID ev = ''k9''
          \<and> ke_RecordedAt ev < format_seconds (lo_lastReconcileEnd (wd_oms served_world)))"
proof -
  obtain f q where f: "run (hand_step rat_text_lib forward) (served_world, DriveSafetyEffects rat_text_lib)
       [HStep (demo_around ''a''), HStep (demo_around ''b''), HStep (demo_around ''c''), HStep (demo_around ''d''), HStep (demo_around ''e'')]
       = Some (served_world, Act f q)"
    "\<And>e. wd_db (f e served_world) = (wd_db served_world)\<lparr>db_effects := db_effects (wd_db served_world) @ [(ke_EventID tenant_row, format_seconds (su_now e))]\<rparr>"
    using drive_steps [OF served_facts] by blast
  have i: "ke_EventID tenant_row = ''k9''" by (simp add: tenant_row_def)
  have "SafetyEffectServed (wd_db (f (demo_around ''f'') served_world)) ''k9''" "\<not> SafetyEffectServed (wd_db served_world) ''k9''"
    using served_facts(4) by (simp_all add: f(2) i SafetyEffectServed_def map_add_def)
  then show ?thesis using served_only_after_reconcile [OF disjI2 [OF refl] f(1), of "demo_around ''f''"] f(1) by blast
qed

end
