(* ===== verification/Spec2Isabelle.thy ===== *)
theory Spec2Isabelle
  imports RiskGate Lifecycle PaperSafety PaperGate GateService LifecycleAPI Runstate Monitor BridgeMirror LiveServed
begin

text \<open>
  AlphaMintX control plane: a formal model of the trading core and its correctness.

  \<^bold>\<open>The program.\<close> The control plane (\<open>src/control-plane/internal\<close>) receives trade proposals from an
  agent plane it does not trust. A proposal is validated against the contract, a pure risk gate
  decides on it against limits, runtime state and clock, an approved proposal is submitted to an
  order manager, and a safety layer may kill a strategy at any time. A strategy reaches live
  trading only through a lifecycle state machine and a statistical gate over its paper fills.

  \<^bold>\<open>Theories.\<close>
  \<^item> \<open>Prelude\<close>: outcomes (value, error, panic, divergence), association lists with Go's map
    operations, folds that may fail, the decimal library interface (\<open>dlib\<close>, a parameter: the
    package shopspring/decimal is not part of the repository) and the hypotheses on it.
  \<^item> \<open>Machine\<close>: locales for step relations with invariants; \<open>Stores\<close>: locales for keyed tables.
  \<^item> \<open>Contract\<close>: \<open>internal/contract\<close>, the proposal and verdict types, \<open>ParseDecimal\<close>, \<open>Validate\<close>.
  \<^item> \<open>RiskGate\<close>: \<open>internal/riskgate\<close> gate.go, checks.go, evaluate.go.
  \<^item> \<open>GateService\<close>: \<open>internal/riskgate/service.go\<close>, concurrent evaluation calls as a step relation.
  \<^item> \<open>Lifecycle\<close>: \<open>internal/strategy\<close>, the state machine with pause provenance.
  \<^item> \<open>PaperOMS\<close>, \<open>Book\<close>, \<open>PaperSafety\<close>: \<open>internal/oms/paper\<close>, the paper order manager, its book
    arithmetic and its safety properties.
  \<^item> \<open>PaperGate\<close>: \<open>internal/papergate\<close>, the replay of fills, the gate report and the arena curve.
  \<^item> \<open>GoTime\<close>, \<open>StoreTables\<close>, \<open>KillStore\<close>, \<open>LifecycleStore\<close>: \<open>internal/store\<close>, its tables as
    lists of rows, the kill ledger, the lifecycle transitions with their compare-and-swap.
  \<^item> \<open>LiveStore\<close>: \<open>internal/store/liveoms.go\<close>, the journal of the live orders; \<open>DecimalText\<close>: decimals as
    the text of a column.
  \<^item> \<open>LiveOMS\<close>: \<open>internal/oms/live\<close> configuration, tuning, filters and entry sizing, statuses, and the symbols
    of \<open>internal/marketdata\<close>; \<open>LiveSubmit\<close>: its submission pipeline (submit.go, flatten.go, safety.go), every
    call on the store or the venue a step of a thread.
  \<^item> \<open>Handlers\<close>: handlers of the live order manager as programs of atomic steps, their runs, and the rule
    that proves what a program does whatever others do between its steps. \<open>LiveFills\<close>: fills.go, the books and
    the transaction that books a venue trade; \<open>LiveProtect\<close>: protective.go, the drive of protective orders;
    \<open>LiveDrive\<close>: safetydrive.go and \<open>FlattenAll\<close>; \<open>LiveReconcile\<close>: reconcile.go and the events of stream.go;
    \<open>LiveServed\<close>: when the effects of a kill are marked as served.
  \<^item> \<open>LifecycleAPI\<close>: \<open>internal/api/lifecycle.go\<close>, the handler that moves a strategy.
  \<^item> \<open>Runstate\<close>: \<open>internal/runstate\<close> and the mark cache of \<open>internal/marketdata\<close>, the state the gate
    reads.
  \<^item> \<open>Monitor\<close>: \<open>internal/safety\<close>, the daily-loss breaker and the heartbeat watchdog.
  \<^item> \<open>OMSBridge\<close>, \<open>BridgeMirror\<close>: \<open>internal/omsbridge\<close>, the transaction that writes what the order manager did and
    the restart that reads it back.

  \<^bold>\<open>State.\<close> Go structs are records with the source's field names, string enumerations are datatypes,
  maps are association lists, database tables are lists of rows, every statement's constraints are
  tests of the operation. A transaction is a function on the tables that returns an error or the
  new tables. A mutex-protected method is one step. Goroutines interleave as a step relation
  (\<open>svc_step\<close>, \<open>safe_machine\<close>, \<open>send_step\<close>; the last lets any other writer of the journal run between two
  calls of a thread). The handlers of fills, protection, safety effects and reconciliation are values of the
  datatype \<open>prog\<close>: a step on the store or under the mutex, a call on the venue with a continuation for
  every answer, or a thread of \<open>LiveSubmit\<close> to wait for; \<open>hand_step\<close> lets anything allowed by a relation
  happen between two steps. Where a handler of the API reads and later commits, the tables of the read
  and those of the commit are separate arguments; the reads of one request see one state of the tables.
  Kill epochs are integers without the bound of their column.

  \<^bold>\<open>Decimals and time.\<close> The decimal package is the record \<open>dlib\<close> over an ordered field: addition,
  subtraction, multiplication and comparison are exact there as in the package; division, rounding
  and text conversion are fields of the record, with their documented behaviour as named hypotheses
  (\<open>div_documented\<close>, \<open>round_documented\<close>, \<open>fromstring_documented\<close>), each satisfied by a concrete
  library on rationals in the witnesses. Instants are integers of nanoseconds with Go's text forms.

  \<^bold>\<open>Bounds and termination.\<close> Loops over slices are folds, the two loops that are not are functions with a
  measure (rune counting) or with an explicit divergence value (\<open>qtyForNotional\<close>), whose absence under
  the documented division is proved. One loop has fuel: \<open>backfillPages\<close> takes the number of pages of
  trades it may ask for, because a venue could answer full pages for ever. What is proved about a
  reconcile holds for every such number, so for each finite run of the code at one that exceeds its
  pages; nothing is claimed about its end.

  \<^bold>\<open>Properties.\<close> What each group shows. \<open>RiskGate\<close>: an open never passes outside the limits, the
  gate is an ordered list of checks of which the first failing one decides, it always answers and
  never divides by zero. \<open>GateService\<close>: one verdict per proposal id in any interleaving.
  \<open>Lifecycle\<close>, \<open>LifecycleStore\<close>, \<open>LifecycleAPI\<close>: a strategy is live only after the paper gate passed
  with no later kill, whatever happens between the handler's reads and its commit, and no fill
  from before a kill counts; a strategy that was killed and locked is not live again before a clear of the
  scope, but for the one writer that checks nothing, \<open>AppendLifecycleTransition\<close>.
  \<open>KillStore\<close>, \<open>Runstate\<close>, \<open>PaperSafety\<close>: a kill fences every strategy it
  binds until a clear of its scope, in the tables, in the gate and in the paper manager.
  In the paper manager the entries it cancelled are never filled.
  \<open>PaperSafety\<close>: no naked entry, reduce-only exits, ticks that never panic. \<open>PaperGate\<close>: the replay
  of the fills ends in the manager's own books and conserves equity. \<open>Monitor\<close>: silent strategies
  are killed and only those; the breaker fires exactly at the limit, at most once a day.
  \<open>OMSBridge\<close>: the tables mirror the manager after every committed call and across a restart.
  \<open>LiveStore\<close>: in any run of the journal's operations a send claim is taken once, a venue trade is
  booked once, an order's status only climbs, and the live tables keep their keys and references.
  \<open>LiveSubmit\<close>: whatever interleaves, of the requests with one client order id at most one can have been
  executed, a request is journaled and claimed before it leaves, a kill leaves a thread at most the request it
  is about to send, and a thread ends. This one request leaves whatever happens between the last look and the
  send, the kill and its cancel sweep included, and its row then stays cancelled.
  \<open>LiveOMS\<close>: an entry quantity stays under the cap and within the filters.
  \<open>LiveFills\<close>: a venue trade is folded with the arithmetic of the paper manager; in any order of reports, replays
  and fee conversions the position rows are the ledger that books every trade once, and equity is capital
  plus realized profit. \<open>LiveReconcile\<close>: neither the reconciler nor a stream event opens exposure, each cancel
  follows the event that explains it, but for the sweep of a kill, which cancels entries only, orders of others
  are left alone, and the backfill never looks below the highest booked trade, missed or not.
  The theory also shows that one resting stop counts for every entry of its strategy and symbol.
  \<open>LiveServed\<close>: effects of a kill are marked as served only when a reconcile ended strictly after its row.

  \<^bold>\<open>Not modelled.\<close> Of the live order manager the session that opens and reopens the user-data stream,
  the status document, log lines, back-off and the locks that only order whole drives; the exchange client
  and the feeds (network protocols), HTTP routing and JSON, billing, users, secrets, notification
  delivery, backup files, command line programs and the test harnesses.
\<close>

end
